(* ===== verification/Prelude.thy ===== *)
theory Prelude
  imports Main "HOL-Library.Word"
begin

text \<open>
  What every component of the development shares: the model of Go's run-time failures, the
  sequencing of computations that may fail, the names of the machine types, and the generic
  lemmas on lists and maps that the component proofs use.

  A Go call that panics or calls \<open>log.Fatal\<close> never returns. A computation that may do so has
  the type \<open>'a res\<close>: \<open>Inl f\<close> is the failure, \<open>Inr x\<close> the result. An ordinary Go
  \<open>error\<close> result is also a sum, with the error's text on the left.
\<close>

type_synonym u64 = "64 word"
type_synonym byte = "8 word"

datatype fault = Panic string | Fatal string

type_synonym 'a res = "fault + 'a"

definition nil_deref :: fault where
  "nil_deref = Panic ''nil pointer dereference''"

definition index_out_of_range :: fault where
  "index_out_of_range = Panic ''index out of range''"

definition bindR :: "'e + 'a \<Rightarrow> ('a \<Rightarrow> 'e + 'b) \<Rightarrow> 'e + 'b" where
  "bindR r f = (case r of Inl e \<Rightarrow> Inl e | Inr x \<Rightarrow> f x)"

lemma bindR_simps [simp]:
  "bindR (Inl e) f = Inl e"
  "bindR (Inr x) f = f x"
  by (simp_all add: bindR_def)

lemma bindR_eq_Inr: "bindR r f = Inr y \<longleftrightarrow> (\<exists>x. r = Inr x \<and> f x = Inr y)"
  by (cases r) auto

lemma bindR_InrE:
  assumes "bindR r f = Inr y"
  obtains x where "r = Inr x" "f x = Inr y"
  using assms by (auto simp: bindR_eq_Inr)

text \<open>A pointer read of a Go map or of a nil-able pointer: reading through nil panics.\<close>

definition deref :: "'a option \<Rightarrow> 'a res" where
  "deref r = (case r of None \<Rightarrow> Inl nil_deref | Some x \<Rightarrow> Inr x)"

lemma deref_simps [simp]:
  "deref None = Inl nil_deref"
  "deref (Some x) = Inr x"
  by (simp_all add: deref_def)

lemma deref_eq_Inr [simp]: "deref r = Inr x \<longleftrightarrow> r = Some x"
  by (cases r) auto

text \<open>Consecutive sequence numbers: \<open>n+1, n+2, ...\<close>\<close>

definition consec :: "int \<Rightarrow> int list \<Rightarrow> bool" where
  "consec n xs \<longleftrightarrow> xs = map (\<lambda>i. n + 1 + int i) [0..<length xs]"

lemma consec_Nil [simp]: "consec n []"
  by (simp add: consec_def)

lemma consec_Cons [simp]: "consec n (x # xs) \<longleftrightarrow> x = n + 1 \<and> consec (n + 1) xs"
proof -
  have "map (\<lambda>i. n + 1 + int i) [0..<length (x # xs)] =
      (n + 1) # map (\<lambda>i. n + 1 + 1 + int i) [0..<length xs]"
    by (simp add: upt_conv_Cons map_Suc_upt [symmetric] del: upt_Suc)
  then show ?thesis by (auto simp: consec_def)
qed

lemma consec_append [simp]:
  "consec n (xs @ ys) \<longleftrightarrow> consec n xs \<and> consec (n + int (length xs)) ys"
  by (induction xs arbitrary: n) (auto simp: algebra_simps)

lemma consec_nth:
  assumes "consec n xs" and "i < length xs"
  shows "xs ! i = n + 1 + int i"
proof -
  have "xs ! i = map (\<lambda>i. n + 1 + int i) [0..<length xs] ! i"
    using assms(1) unfolding consec_def by (rule arg_cong)
  with assms(2) show ?thesis by simp
qed

lemma consec_mem:
  "consec n xs \<Longrightarrow> x \<in> set xs \<Longrightarrow> n < x \<and> x \<le> n + int (length xs)"
proof (induction xs arbitrary: n)
  case Nil
  then show ?case by simp
next
  case (Cons y ys)
  show ?case
  proof (cases "x = y")
    case True
    with Cons.prems show ?thesis by simp
  next
    case False
    with Cons.prems Cons.IH [of "n + 1"] show ?thesis by simp
  qed
qed

text \<open>64-bit arithmetic that does not wrap, read as natural numbers.\<close>

lemma u64_bound: "unat (x :: u64) < 2 ^ 64"
  using unsigned_less [of x, where ?'a = nat] by simp

lemma u64_add: "unat (a :: u64) + unat b < 2 ^ 64 \<Longrightarrow> unat (a + b) = unat a + unat b"
  by (simp add: unat_word_ariths)

lemma u64_sub: "b \<le> (a :: u64) \<Longrightarrow> unat (a - b) = unat a - unat b"
  by (simp add: unat_sub)

lemma u64_Suc:
  assumes "i < (hi :: u64)"
  shows "unat (i + 1) = unat i + 1"
proof -
  have "unat i < unat hi" using assms by (simp add: word_less_nat_alt)
  then have "unat i + unat (1 :: u64) < 2 ^ 64" using u64_bound [of hi] by simp
  then show ?thesis by (simp add: u64_add)
qed

text \<open>Decimal digits of a number, as \<open>strconv\<close> and the \<open>%v\<close> verb print it.\<close>

fun nat_string :: "nat \<Rightarrow> string" where
  "nat_string n = (if n < 10 then [char_of (48 + n)] else nat_string (n div 10) @ [char_of (48 + n mod 10)])"

declare nat_string.simps [simp del]

definition u64_string :: "u64 \<Rightarrow> string" where
  "u64_string n = nat_string (unat n)"

definition int_string :: "int \<Rightarrow> string" where
  "int_string n = (if n < 0 then CHR ''-'' # nat_string (nat (- n)) else nat_string (nat n))"

end
