(* ===== verification/Packages.thy ===== *)
theory Packages
  imports Prelude Complex_Main
begin

text \<open>
  The third-party packages the code calls, as parameters of the model. Nothing here is a
  definition of their code, which is not in the repository: a package is a record of the
  operations the sources use, and a predicate states the documented behaviour that the
  theorems rely on. A definition of the development that calls a package takes the record as
  an argument; a theorem that needs the behaviour has the predicate as a hypothesis, and its
  witness uses the reference instances at the end of this theory.

  \<^item> \<open>shopspring/decimal\<close>: a decimal is a value of any linearly ordered commutative ring \<open>'d\<close>,
    because the package documents addition, subtraction and multiplication without loss of
    precision and a total order \<open>Cmp\<close>. What is more than ring arithmetic is a field of
    \<open>decimal_pkg\<close>.
  \<^item> \<open>emirpasic/gods/maps/treemap\<close>: an ordered map with a comparator given at creation;
    \<open>treemap\<close> and \<open>treemap_laws\<close>.
\<close>

subsection \<open>Decimals\<close>

record 'd decimal_pkg =
  dec_div :: "'d \<Rightarrow> 'd \<Rightarrow> 'd option"       \<comment> \<open>\<open>a.Div(b)\<close>; \<open>None\<close> is its panic\<close>
  dec_truncate :: "'d \<Rightarrow> int \<Rightarrow> 'd"        \<comment> \<open>\<open>a.Truncate(p)\<close>\<close>
  dec_round :: "'d \<Rightarrow> int \<Rightarrow> 'd"           \<comment> \<open>\<open>a.Round(p)\<close>\<close>
  dec_mod :: "'d \<Rightarrow> 'd \<Rightarrow> 'd option"       \<comment> \<open>\<open>a.Mod(b)\<close>; \<open>None\<close> is its panic\<close>
  dec_max_float32 :: 'd                    \<comment> \<open>\<open>NewFromFloat(math.MaxFloat32)\<close>\<close>
  dec_string :: "'d \<Rightarrow> string"             \<comment> \<open>\<open>a.String()\<close>\<close>
  dec_of_string :: "string \<Rightarrow> 'd option"   \<comment> \<open>\<open>NewFromString\<close>; \<open>None\<close> is its error\<close>

text \<open>\<open>Cmp\<close>: -1, 0 or 1.\<close>

definition dec_cmp :: "'d::linordered_idom \<Rightarrow> 'd \<Rightarrow> int" where
  "dec_cmp a b = (if a < b then -1 else if a = b then 0 else 1)"

lemma dec_cmp_simps [simp]:
  "dec_cmp a b < 0 \<longleftrightarrow> a < b"
  "dec_cmp a b = 0 \<longleftrightarrow> a = b"
  "0 < dec_cmp a b \<longleftrightarrow> b < a"
  "dec_cmp a b = - 1 \<longleftrightarrow> a < b"
  "dec_cmp a b = 1 \<longleftrightarrow> b < a"
  by (auto simp: dec_cmp_def)

text \<open>
  The documented behaviour of division and truncation. \<open>Div\<close> panics on a zero divisor and
  otherwise rounds to the nearest multiple of \<open>10^-16\<close> (\<open>DivisionPrecision\<close>), so its result is off
  by at most half of that; it keeps the sign. \<open>Truncate\<close> cuts the digits after the first \<open>p\<close> decimals
  off, towards zero.
\<close>

definition decimal_laws :: "'d::linordered_idom decimal_pkg \<Rightarrow> bool" where
  "decimal_laws D \<longleftrightarrow>
     (\<forall>a. dec_div D a 0 = None) \<and>
     (\<forall>a b. b \<noteq> 0 \<longrightarrow> (\<exists>q. dec_div D a b = Some q \<and>
        2 * 10 ^ 16 * \<bar>q * b - a\<bar> \<le> \<bar>b\<bar> \<and> (0 \<le> a \<longrightarrow> 0 < b \<longrightarrow> 0 \<le> q))) \<and>
     (\<forall>x p. 0 \<le> x \<longrightarrow> 0 \<le> dec_truncate D x p \<and> dec_truncate D x p \<le> x) \<and>
     (\<forall>x p. 0 \<le> p \<longrightarrow> \<bar>x\<bar> * 10 ^ nat p < 1 \<longrightarrow> dec_truncate D x p = 0) \<and>
     0 < dec_max_float32 D"

lemma decimal_laws_div:
  assumes "decimal_laws D" and "b \<noteq> 0"
  obtains q where "dec_div D a b = Some q" and "2 * 10 ^ 16 * \<bar>q * b - a\<bar> \<le> \<bar>b\<bar>"
    and "0 \<le> a \<Longrightarrow> 0 < b \<Longrightarrow> 0 \<le> q"
  using assms unfolding decimal_laws_def by metis

lemma decimal_laws_truncate:
  "decimal_laws D \<Longrightarrow> 0 \<le> x \<Longrightarrow> 0 \<le> dec_truncate D x p"
  "decimal_laws D \<Longrightarrow> 0 \<le> x \<Longrightarrow> dec_truncate D x p \<le> x"
  "decimal_laws D \<Longrightarrow> 0 \<le> p \<Longrightarrow> \<bar>x\<bar> * 10 ^ nat p < 1 \<Longrightarrow> dec_truncate D x p = 0"
  by (simp_all add: decimal_laws_def)

lemma decimal_laws_max: "decimal_laws D \<Longrightarrow> 0 < dec_max_float32 D"
  by (simp add: decimal_laws_def)

subsection \<open>Ordered maps\<close>

text \<open>
  \<open>tm_iter q\<close> is the sequence of entries that \<open>q.Iterator()\<close> visits. The matching loop removes the
  entry the iterator stands on while it iterates; the model visits the entries the map had when
  the iterator was made, which is what the code relies on.
\<close>

record ('q, 'k, 'v) treemap =
  tm_new :: "('k \<Rightarrow> 'k \<Rightarrow> int) \<Rightarrow> 'q"        \<comment> \<open>\<open>treemap.NewWith\<close>\<close>
  tm_put :: "'q \<Rightarrow> 'k \<Rightarrow> 'v \<Rightarrow> 'q"
  tm_remove :: "'q \<Rightarrow> 'k \<Rightarrow> 'q"
  tm_get :: "'q \<Rightarrow> 'k \<Rightarrow> 'v option"
  tm_min :: "'q \<Rightarrow> ('k \<times> 'v) option"        \<comment> \<open>\<open>None\<close> for the two nils of an empty map\<close>
  tm_max :: "'q \<Rightarrow> ('k \<times> 'v) option"
  tm_iter :: "'q \<Rightarrow> ('k \<times> 'v) list"

text \<open>A comparator that orders the keys strictly and totally.\<close>

definition cmp_ok :: "('k \<Rightarrow> 'k \<Rightarrow> int) \<Rightarrow> bool" where
  "cmp_ok c \<longleftrightarrow> (\<forall>a b. c a b = 0 \<longleftrightarrow> a = b) \<and> (\<forall>a b. c a b < 0 \<longleftrightarrow> 0 < c b a) \<and>
     (\<forall>a b d. c a b < 0 \<longrightarrow> c b d < 0 \<longrightarrow> c a d < 0)"

lemma cmp_okD:
  assumes "cmp_ok c"
  shows cmp_ok_eq: "c a b = 0 \<longleftrightarrow> a = b"
    and cmp_ok_gt: "0 < c b a \<longleftrightarrow> c a b < 0"
    and cmp_ok_trans: "c a b < 0 \<Longrightarrow> c b d < 0 \<Longrightarrow> c a d < 0"
  using assms unfolding cmp_ok_def by blast+

lemma cmp_ok_irrefl: "cmp_ok c \<Longrightarrow> \<not> c a a < 0"
  using cmp_ok_eq [of c a a] by simp

lemma cmp_ok_linear:
  assumes "cmp_ok c" and "\<not> c a b < 0" and "a \<noteq> b"
  shows "c b a < 0"
proof -
  have "c a b \<noteq> 0" using assms(3) cmp_ok_eq [OF assms(1)] by simp
  with assms(2) have "0 < c a b" by simp
  then show ?thesis using cmp_ok_gt [OF assms(1)] by simp
qed

lemma cmp_ok_asym: "cmp_ok c \<Longrightarrow> c a b < 0 \<Longrightarrow> \<not> c b a < 0"
  using cmp_ok_trans cmp_ok_irrefl by metis

text \<open>Sorted association lists: the specification of an ordered map.\<close>

fun sl_ins :: "('k \<Rightarrow> 'k \<Rightarrow> int) \<Rightarrow> 'k \<Rightarrow> 'v \<Rightarrow> ('k \<times> 'v) list \<Rightarrow> ('k \<times> 'v) list" where
  "sl_ins c k v [] = [(k, v)]"
| "sl_ins c k v ((k', v') # xs) =
     (if c k k' < 0 then (k, v) # (k', v') # xs
      else if c k k' = 0 then (k, v) # xs
      else (k', v') # sl_ins c k v xs)"

definition sl_del :: "('k \<Rightarrow> 'k \<Rightarrow> int) \<Rightarrow> 'k \<Rightarrow> ('k \<times> 'v) list \<Rightarrow> ('k \<times> 'v) list" where
  "sl_del c k xs = filter (\<lambda>e. c k (fst e) \<noteq> 0) xs"

definition sl_sorted :: "('k \<Rightarrow> 'k \<Rightarrow> int) \<Rightarrow> ('k \<times> 'v) list \<Rightarrow> bool" where
  "sl_sorted c xs \<longleftrightarrow> sorted_wrt (\<lambda>a b. c (fst a) (fst b) < 0) xs"

text \<open>The maps that a program can hold that were made with comparator \<open>c\<close>.\<close>

inductive tm_made :: "('q, 'k, 'v) treemap \<Rightarrow> ('k \<Rightarrow> 'k \<Rightarrow> int) \<Rightarrow> 'q \<Rightarrow> bool" for T c where
  tm_made_new: "tm_made T c (tm_new T c)"
| tm_made_put: "tm_made T c q \<Longrightarrow> tm_made T c (tm_put T q k v)"
| tm_made_remove: "tm_made T c q \<Longrightarrow> tm_made T c (tm_remove T q k)"

text \<open>The documented behaviour of an ordered map: it is a sorted association list.\<close>

definition treemap_laws :: "('q, 'k, 'v) treemap \<Rightarrow> bool" where
  "treemap_laws T \<longleftrightarrow> (\<forall>c. cmp_ok c \<longrightarrow>
     tm_iter T (tm_new T c) = [] \<and>
     (\<forall>q. tm_made T c q \<longrightarrow>
        (\<forall>k v. tm_iter T (tm_put T q k v) = sl_ins c k v (tm_iter T q)) \<and>
        (\<forall>k. tm_iter T (tm_remove T q k) = sl_del c k (tm_iter T q)) \<and>
        (\<forall>k. tm_get T q k = map_of (tm_iter T q) k) \<and>
        tm_min T q = (case tm_iter T q of [] \<Rightarrow> None | e # es \<Rightarrow> Some e) \<and>
        tm_max T q = (if tm_iter T q = [] then None else Some (last (tm_iter T q)))))"

lemma treemap_lawsD:
  assumes "treemap_laws T" and "cmp_ok c"
  shows tm_iter_new: "tm_iter T (tm_new T c) = []"
    and tm_iter_put: "tm_made T c q \<Longrightarrow> tm_iter T (tm_put T q k v) = sl_ins c k v (tm_iter T q)"
    and tm_iter_remove: "tm_made T c q \<Longrightarrow> tm_iter T (tm_remove T q k) = sl_del c k (tm_iter T q)"
    and tm_get_eq: "tm_made T c q \<Longrightarrow> tm_get T q k = map_of (tm_iter T q) k"
    and tm_min_eq: "tm_made T c q \<Longrightarrow>
      tm_min T q = (case tm_iter T q of [] \<Rightarrow> None | e # es \<Rightarrow> Some e)"
    and tm_max_eq: "tm_made T c q \<Longrightarrow>
      tm_max T q = (if tm_iter T q = [] then None else Some (last (tm_iter T q)))"
  using assms unfolding treemap_laws_def by blast+

lemma sl_ins_set_subset: "set (sl_ins c k v xs) \<subseteq> insert (k, v) (set xs)"
  by (induction c k v xs rule: sl_ins.induct) auto

lemma sl_sorted_Nil [simp]: "sl_sorted c []"
  by (simp add: sl_sorted_def)

lemma sl_sorted_Cons:
  "sl_sorted c (e # xs) \<longleftrightarrow> (\<forall>e'\<in>set xs. c (fst e) (fst e') < 0) \<and> sl_sorted c xs"
  by (simp add: sl_sorted_def)

lemma sl_sorted_ins:
  assumes c: "cmp_ok c" and "sl_sorted c xs"
  shows "sl_sorted c (sl_ins c k v xs)"
  using assms(2)
proof (induction xs)
  case Nil
  then show ?case by (simp add: sl_sorted_Cons)
next
  case (Cons e xs)
  obtain k' v' where e: "e = (k', v')" by (cases e)
  have lt: "\<And>x. x \<in> set xs \<Longrightarrow> c k' (fst x) < 0" and s: "sl_sorted c xs"
    using Cons.prems by (simp_all add: e sl_sorted_Cons)
  consider "c k k' < 0" | "k = k'" | "c k' k < 0" "\<not> c k k' < 0" "k \<noteq> k'"
    using cmp_ok_linear [OF c] by blast
  then show ?case
  proof cases
    case 1
    then have "\<And>x. x \<in> set xs \<Longrightarrow> c k (fst x) < 0" using lt cmp_ok_trans [OF c] by blast
    with 1 lt s show ?thesis by (simp add: e sl_sorted_Cons)
  next
    case 2
    then show ?thesis using lt s cmp_ok_irrefl [OF c] cmp_ok_eq [OF c] by (simp add: e sl_sorted_Cons)
  next
    case 3
    then have "sl_ins c k v (e # xs) = e # sl_ins c k v xs"
      using cmp_ok_eq [OF c] by (simp add: e)
    moreover have "\<And>x. x \<in> set (sl_ins c k v xs) \<Longrightarrow> c k' (fst x) < 0"
      using 3 lt sl_ins_set_subset [of c k v xs] by fastforce
    ultimately show ?thesis using Cons.IH [OF s] by (simp add: e sl_sorted_Cons)
  qed
qed

lemma sl_sorted_filter: "sl_sorted c xs \<Longrightarrow> sl_sorted c (filter P xs)"
  by (simp add: sl_sorted_def sorted_wrt_filter)

lemma sl_sorted_del: "sl_sorted c xs \<Longrightarrow> sl_sorted c (sl_del c k xs)"
  by (simp add: sl_del_def sl_sorted_filter)

lemma set_sl_del: "cmp_ok c \<Longrightarrow> set (sl_del c k xs) = {e \<in> set xs. fst e \<noteq> k}"
  using cmp_ok_eq [of c k] by (auto simp: sl_del_def)

lemma set_sl_ins:
  assumes c: "cmp_ok c" and "sl_sorted c xs"
  shows "set (sl_ins c k v xs) = insert (k, v) {e \<in> set xs. fst e \<noteq> k}"
  using assms(2)
proof (induction xs)
  case Nil
  then show ?case by simp
next
  case (Cons e xs)
  obtain k' v' where e: "e = (k', v')" by (cases e)
  have lt: "\<And>x. x \<in> set xs \<Longrightarrow> c k' (fst x) < 0" and s: "sl_sorted c xs"
    using Cons.prems by (simp_all add: e sl_sorted_Cons)
  consider "c k k' < 0" | "k = k'" | "c k' k < 0" "\<not> c k k' < 0" "k \<noteq> k'"
    using cmp_ok_linear [OF c] by blast
  then show ?case
  proof cases
    case 1
    have "fst x \<noteq> k" if "x \<in> set (e # xs)" for x
    proof -
      have "c k (fst x) < 0"
        using that 1 lt [of x] cmp_ok_trans [OF c, of k k' "fst x"] by (auto simp: e)
      then show ?thesis using cmp_ok_irrefl [OF c] by metis
    qed
    then have "{x \<in> set (e # xs). fst x \<noteq> k} = set (e # xs)" by blast
    with 1 show ?thesis by (simp add: e)
  next
    case 2
    then have "\<And>x. x \<in> set xs \<Longrightarrow> fst x \<noteq> k" using lt cmp_ok_irrefl [OF c] by metis
    then have "{x \<in> set (e # xs). fst x \<noteq> k} = set xs" using 2 by (auto simp: e)
    with 2 show ?thesis using cmp_ok_irrefl [OF c] cmp_ok_eq [OF c] by (simp add: e)
  next
    case 3
    then have "sl_ins c k v (e # xs) = e # sl_ins c k v xs"
      using cmp_ok_eq [OF c] by (simp add: e)
    with Cons.IH [OF s] 3 show ?thesis by (auto simp: e)
  qed
qed

text \<open>A sorted association list is determined by its set of entries.\<close>

lemma sl_sorted_unique:
  assumes "cmp_ok c" and "sl_sorted c xs" and "sl_sorted c ys" and "set xs = set ys"
  shows "xs = ys"
  using assms(2-4)
proof (induction xs arbitrary: ys)
  case Nil
  then show ?case by simp
next
  case (Cons x xs)
  then obtain y ys' where ys: "ys = y # ys'" by (cases ys) auto
  note lt = Cons.prems(1,2) [unfolded ys sl_sorted_Cons]
  note acyclic = cmp_ok_trans [OF assms(1)] cmp_ok_irrefl [OF assms(1)]
  have "x = y"
  proof (rule ccontr)
    assume "x \<noteq> y"
    with Cons.prems(3) ys have "x \<in> set ys'" and "y \<in> set xs" by auto
    with lt have "c (fst y) (fst x) < 0" and "c (fst x) (fst y) < 0" by auto
    then show False using acyclic by blast
  qed
  moreover have "x \<notin> set xs" and "y \<notin> set ys'" using lt acyclic(2) by auto
  ultimately have "set xs = set ys'" using Cons.prems(3) ys by auto
  with Cons.IH [of ys'] lt ys \<open>x = y\<close> show ?case by simp
qed

lemma tm_made_sorted:
  assumes "treemap_laws T" and "cmp_ok c" and "tm_made T c q"
  shows "sl_sorted c (tm_iter T q)"
  using assms(3)
  by (induction rule: tm_made.induct)
    (simp_all add: tm_iter_new [OF assms(1,2)] tm_iter_put [OF assms(1,2)]
      tm_iter_remove [OF assms(1,2)] sl_sorted_ins [OF assms(2)] sl_sorted_del)

subsection \<open>Reference instances\<close>

text \<open>
  Instances that satisfy the laws: decimals as rationals with division rounded to 16 places, and
  ordered maps as a comparator with a sorted association list. The witnesses use them.
\<close>

definition round_to :: "rat \<Rightarrow> rat \<Rightarrow> rat" where
  "round_to s x = of_int (round (x * s)) / s"

definition floor_to :: "rat \<Rightarrow> rat \<Rightarrow> rat" where
  "floor_to s x = of_int \<lfloor>x * s\<rfloor> / s"

definition rat_decimal :: "rat decimal_pkg" where
  "rat_decimal = \<lparr>
     dec_div = (\<lambda>a b. if b = 0 then None else Some (round_to (10 ^ 16) (a / b))),
     dec_truncate = (\<lambda>x p. if x < 0 then - floor_to (10 ^ nat p) (- x) else floor_to (10 ^ nat p) x),
     dec_round = (\<lambda>x p. round_to (10 ^ nat p) x),
     dec_mod = (\<lambda>a b. if b = 0 then None else Some (a - b * of_int (sgn \<lfloor>a / b\<rfloor> * \<lfloor>\<bar>a / b\<bar>\<rfloor>))),
     dec_max_float32 = 340282346638528860000000000000000000000,
     dec_string = (\<lambda>_. []),
     dec_of_string = (\<lambda>_. None)\<rparr>"

lemma round_to_error:
  assumes "0 < s"
  shows "2 * s * \<bar>round_to s x - x\<bar> \<le> 1"
proof -
  have "\<bar>of_int (round (x * s)) - x * s\<bar> \<le> 1 / 2" by (rule of_int_round_abs_le)
  moreover have "s * (round_to s x - x) = of_int (round (x * s)) - x * s"
    using assms by (simp add: round_to_def field_simps)
  then have "s * \<bar>round_to s x - x\<bar> = \<bar>of_int (round (x * s)) - x * s\<bar>"
    using assms by (metis abs_mult abs_of_pos)
  ultimately show ?thesis by linarith
qed

lemma round_to_div_error:
  assumes "0 < s" and "b \<noteq> 0"
  shows "2 * s * \<bar>round_to s (a / b) * b - a\<bar> \<le> \<bar>b\<bar>"
proof -
  have "round_to s (a / b) * b - a = (round_to s (a / b) - a / b) * b"
    using assms(2) by (simp add: field_simps)
  then have "2 * s * \<bar>round_to s (a / b) * b - a\<bar> = (2 * s * \<bar>round_to s (a / b) - a / b\<bar>) * \<bar>b\<bar>"
    by (simp add: abs_mult)
  also have "\<dots> \<le> 1 * \<bar>b\<bar>"
    using round_to_error [OF assms(1)] by (rule mult_right_mono) simp
  finally show ?thesis by simp
qed

lemma round_to_nonneg: "0 < s \<Longrightarrow> 0 \<le> x \<Longrightarrow> 0 \<le> round_to s x"
  by (simp add: round_to_def round_def)

lemma floor_to_bounds:
  assumes "0 < s" and "0 \<le> x"
  shows "0 \<le> floor_to s x" and "floor_to s x \<le> x"
proof -
  show "0 \<le> floor_to s x" using assms by (simp add: floor_to_def)
  have "of_int \<lfloor>x * s\<rfloor> \<le> x * s" by (rule of_int_floor_le)
  then show "floor_to s x \<le> x" using assms by (simp add: floor_to_def field_simps)
qed

lemma rat_decimal_laws: "decimal_laws rat_decimal"
proof -
  have "\<exists>q. dec_div rat_decimal a b = Some q \<and> 2 * 10 ^ 16 * \<bar>q * b - a\<bar> \<le> \<bar>b\<bar> \<and>
      (0 \<le> a \<longrightarrow> 0 < b \<longrightarrow> 0 \<le> q)" if "b \<noteq> 0" for a b :: rat
    using that round_to_div_error [of "10 ^ 16" b a] round_to_nonneg [of "10 ^ 16" "a / b"]
    by (simp add: rat_decimal_def del: power_numeral)
  moreover have "0 \<le> dec_truncate rat_decimal x p \<and> dec_truncate rat_decimal x p \<le> x"
    if "0 \<le> x" for x p
    using that floor_to_bounds [of "10 ^ nat p" x] by (simp add: rat_decimal_def)
  moreover have "dec_truncate rat_decimal x p = 0" if "\<bar>x\<bar> * 10 ^ nat p < 1" for x p
  proof -
    have "\<lfloor>\<bar>x\<bar> * 10 ^ nat p\<rfloor> = 0" using that by (simp add: floor_eq_iff)
    then show ?thesis by (cases "x < 0") (simp_all add: rat_decimal_def floor_to_def)
  qed
  ultimately show ?thesis
    unfolding decimal_laws_def by (simp add: rat_decimal_def del: power_numeral)
qed

type_synonym ('k, 'v) sl_map = "('k \<Rightarrow> 'k \<Rightarrow> int) \<times> ('k \<times> 'v) list"

definition sl_treemap :: "(('k, 'v) sl_map, 'k, 'v) treemap" where
  "sl_treemap = \<lparr>
     tm_new = (\<lambda>c. (c, [])),
     tm_put = (\<lambda>q k v. (fst q, sl_ins (fst q) k v (snd q))),
     tm_remove = (\<lambda>q k. (fst q, sl_del (fst q) k (snd q))),
     tm_get = (\<lambda>q k. map_of (snd q) k),
     tm_min = (\<lambda>q. case snd q of [] \<Rightarrow> None | e # es \<Rightarrow> Some e),
     tm_max = (\<lambda>q. if snd q = [] then None else Some (last (snd q))),
     tm_iter = snd\<rparr>"

lemma sl_treemap_made: "tm_made sl_treemap c q \<Longrightarrow> fst q = c"
  by (induction rule: tm_made.induct) (simp_all add: sl_treemap_def)

lemma sl_treemap_laws: "treemap_laws sl_treemap"
  using sl_treemap_made by (force simp: treemap_laws_def sl_treemap_def)

end
