(* ===== verification/Models.thy ===== *)
theory Models
  imports Packages
begin

text \<open>
  The data of \<open>models/models.go\<close> and \<open>models/const.go\<close>, and the table sharding of
  \<open>models/mysql/order_store.go\<close>. The Go types \<open>Side\<close>, \<open>OrderType\<close>, \<open>OrderStatus\<close>,
  \<open>TimeInForceType\<close>, \<open>BillType\<close> and \<open>DoneReason\<close> are strings with a few named constants, and no
  type system keeps other strings out; they are strings here too. Times are integers (Unix
  nanoseconds for \<open>time.Time\<close>), \<open>uint64\<close> ids are 64-bit words, \<open>int64\<close> counters are integers (no
  counter of the code comes near its bound), decimals are the ring \<open>'d\<close> of theory Packages.
\<close>

type_synonym side = string
type_synonym order_type = string
type_synonym order_status = string
type_synonym time_in_force = string
type_synonym bill_type = string
type_synonym done_reason = string

definition OrderTypeLimit :: order_type where "OrderTypeLimit = ''limit''"
definition OrderTypeMarket :: order_type where "OrderTypeMarket = ''market''"

definition GoodTillCanceled :: time_in_force where "GoodTillCanceled = ''GTC''"
definition ImmediateOrCancel :: time_in_force where "ImmediateOrCancel = ''IOC''"
definition GoodTillCrossing :: time_in_force where "GoodTillCrossing = ''GTX''"
definition FillOrKill :: time_in_force where "FillOrKill = ''FOK''"

definition SideBuy :: side where "SideBuy = ''buy''"
definition SideSell :: side where "SideSell = ''sell''"

definition OrderStatusNew :: order_status where "OrderStatusNew = ''new''"
definition OrderStatusOpen :: order_status where "OrderStatusOpen = ''open''"
definition OrderStatusCancelling :: order_status where "OrderStatusCancelling = ''cancelling''"
definition OrderStatusCancelled :: order_status where "OrderStatusCancelled = ''cancelled''"
definition OrderStatusPartial :: order_status where "OrderStatusPartial = ''partial''"
definition OrderStatusFilled :: order_status where "OrderStatusFilled = ''filled''"

definition BillTypeTrade :: bill_type where "BillTypeTrade = ''trade''"

definition DoneReasonFilled :: done_reason where "DoneReasonFilled = ''filled''"
definition DoneReasonCancelled :: done_reason where "DoneReasonCancelled = ''cancelled''"

lemmas status_defs = OrderStatusNew_def OrderStatusOpen_def OrderStatusCancelling_def
  OrderStatusCancelled_def OrderStatusPartial_def OrderStatusFilled_def

lemma constants_distinct [simp]:
  "OrderTypeLimit \<noteq> OrderTypeMarket" "OrderTypeMarket \<noteq> OrderTypeLimit"
  "SideBuy \<noteq> SideSell" "SideSell \<noteq> SideBuy"
  "DoneReasonFilled \<noteq> DoneReasonCancelled" "DoneReasonCancelled \<noteq> DoneReasonFilled"
  by (simp_all add: OrderTypeLimit_def OrderTypeMarket_def SideBuy_def SideSell_def
      DoneReasonFilled_def DoneReasonCancelled_def)

lemma tif_distinct [simp]:
  "GoodTillCanceled \<noteq> ImmediateOrCancel" "ImmediateOrCancel \<noteq> GoodTillCanceled"
  "GoodTillCanceled \<noteq> GoodTillCrossing" "GoodTillCrossing \<noteq> GoodTillCanceled"
  "GoodTillCanceled \<noteq> FillOrKill" "FillOrKill \<noteq> GoodTillCanceled"
  "ImmediateOrCancel \<noteq> GoodTillCrossing" "GoodTillCrossing \<noteq> ImmediateOrCancel"
  "ImmediateOrCancel \<noteq> FillOrKill" "FillOrKill \<noteq> ImmediateOrCancel"
  "GoodTillCrossing \<noteq> FillOrKill" "FillOrKill \<noteq> GoodTillCrossing"
  by (simp_all add: GoodTillCanceled_def ImmediateOrCancel_def GoodTillCrossing_def FillOrKill_def)

text \<open>The constructors from strings; an error is its message.\<close>

definition NewSideFromString :: "string \<Rightarrow> string + side" where
  "NewSideFromString s =
     (if s = SideBuy then Inr s
      else if s = SideSell then Inr s
      else Inl (''invalid side: '' @ s))"

definition NewOrderStatusFromString :: "string \<Rightarrow> string + order_status" where
  "NewOrderStatusFromString s =
     (if s = OrderStatusNew then Inr s
      else if s = OrderStatusOpen then Inr s
      else if s = OrderStatusCancelling then Inr s
      else if s = OrderStatusCancelled then Inr s
      else if s = OrderStatusPartial then Inr s
      else if s = OrderStatusFilled then Inr s
      else Inl (''invalid status: '' @ s))"

definition NewTimeInForceTypeFromString :: "string \<Rightarrow> string + time_in_force" where
  "NewTimeInForceTypeFromString s =
     (if s = GoodTillCanceled then Inr s
      else if s = ImmediateOrCancel then Inr s
      else if s = GoodTillCrossing then Inr s
      else if s = FillOrKill then Inr s
      else Inl (''invalid timeInForce: '' @ s))"

definition Opposite :: "side \<Rightarrow> side" where
  "Opposite s = (if s = SideBuy then SideSell else SideBuy)"

lemma Opposite_simps [simp]:
  "Opposite SideBuy = SideSell"
  "Opposite SideSell = SideBuy"
  by (simp_all add: Opposite_def)

lemma Opposite_neq [simp]: "s \<noteq> SideBuy \<Longrightarrow> Opposite s = SideBuy"
  by (simp add: Opposite_def)

definition valid_side :: "side \<Rightarrow> bool" where
  "valid_side s \<longleftrightarrow> s = SideBuy \<or> s = SideSell"

lemma valid_side_consts [simp]: "valid_side SideBuy" "valid_side SideSell"
  by (simp_all add: valid_side_def)

lemma valid_side_cases [consumes 1]:
  "valid_side s \<Longrightarrow> (s = SideBuy \<Longrightarrow> P) \<Longrightarrow> (s = SideSell \<Longrightarrow> P) \<Longrightarrow> P"
  by (auto simp: valid_side_def)

lemma NewSideFromString_valid: "NewSideFromString s = Inr t \<longleftrightarrow> valid_side s \<and> t = s"
  by (auto simp: NewSideFromString_def valid_side_def)

subsection \<open>Rows\<close>

record user =
  usr_Id :: u64
  usr_UserId :: string
  usr_Email :: string
  usr_PasswordHash :: string
  usr_UserLevel :: string

record 'd account =
  acc_Id :: u64
  acc_UserId :: u64
  acc_Currency :: string
  acc_Hold :: 'd
  acc_Available :: 'd

record 'd bill =
  bil_Id :: u64
  bil_UserId :: u64
  bil_Currency :: string
  bil_Available :: 'd
  bil_Hold :: 'd
  bil_Type :: bill_type
  bil_Settled :: bool
  bil_Notes :: string

record 'd product =
  prd_Id :: string
  prd_BaseCurrency :: string
  prd_QuoteCurrency :: string
  prd_BaseMinSize :: 'd
  prd_BaseMaxSize :: 'd
  prd_QuoteMinSize :: 'd
  prd_QuoteMaxSize :: 'd
  prd_BaseScale :: int
  prd_QuoteScale :: int
  prd_QuoteIncrement :: 'd

record 'd order =
  ord_Id :: u64
  ord_ProductId :: string
  ord_UserId :: u64
  ord_ClientOid :: string
  ord_Size :: 'd
  ord_Funds :: 'd
  ord_FilledSize :: 'd
  ord_ExecutedValue :: 'd
  ord_Price :: 'd
  ord_FillFees :: 'd
  ord_Type :: order_type
  ord_Side :: side
  ord_TimeInForce :: time_in_force
  ord_TakerFeeRatio :: 'd
  ord_MakerFeeRatio :: 'd
  ord_Status :: order_status
  ord_Settled :: bool

record 'd fill =
  fil_Id :: u64
  fil_TradeSeq :: int
  fil_OrderId :: u64
  fil_MessageSeq :: int
  fil_ProductId :: string
  fil_Size :: 'd
  fil_Price :: 'd
  fil_Funds :: 'd
  fil_Fee :: 'd
  fil_Liquidity :: string
  fil_Settled :: bool
  fil_Side :: side
  fil_Done :: bool
  fil_DoneReason :: done_reason
  fil_LogOffset :: int
  fil_LogSeq :: int

record 'd trade =
  trd_Id :: u64
  trd_ProductId :: string
  trd_TradeSeq :: int
  trd_TakerOrderId :: u64
  trd_TakerUserId :: u64
  trd_MakerOrderId :: u64
  trd_MakerUserId :: u64
  trd_Price :: 'd
  trd_Size :: 'd
  trd_Side :: side
  trd_Time :: int
  trd_LogOffset :: int
  trd_LogSeq :: int

record 'd tick =
  tck_ProductId :: string
  tck_Granularity :: int
  tck_Time :: int
  tck_Open :: 'd
  tck_High :: 'd
  tck_Low :: 'd
  tck_Close :: 'd
  tck_Volume :: 'd
  tck_QuoteVolume :: 'd
  tck_LogOffset :: int
  tck_LogSeq :: int

record config =
  cfg_Id :: int
  cfg_Key :: string
  cfg_Value :: string

record 'd fee_rate =
  fee_UserLevel :: string
  fee_TakerFeeRatio :: 'd
  fee_MakerFeeRatio :: 'd

subsection \<open>Order table sharding\<close>

definition TableOrderSplitCount :: nat where
  "TableOrderSplitCount = 128"

definition GetTableIndexByUserId :: "u64 \<Rightarrow> nat" where
  "GetTableIndexByUserId userId = unat (userId mod of_nat TableOrderSplitCount)"

definition GetTableIndexByOrderId :: "u64 \<Rightarrow> nat" where
  "GetTableIndexByOrderId orderId = unat (drop_bit 12 orderId mod of_nat TableOrderSplitCount)"

lemma GetTableIndexByOrderId_less: "GetTableIndexByOrderId oid < TableOrderSplitCount"
proof -
  have "unat (drop_bit 12 oid mod (128 :: u64)) = unat (drop_bit 12 oid) mod 128"
    by (simp add: unat_mod_distrib)
  then show ?thesis by (simp add: GetTableIndexByOrderId_def TableOrderSplitCount_def)
qed

lemma GetTableIndexByUserId_less: "GetTableIndexByUserId uid < TableOrderSplitCount"
proof -
  have "unat (uid mod (128 :: u64)) = unat uid mod 128"
    by (simp add: unat_mod_distrib)
  then show ?thesis by (simp add: GetTableIndexByUserId_def TableOrderSplitCount_def)
qed

end
