(* ===== verification/Window.thy ===== *)
theory Window
  imports Models
begin

unbundle bit_operations_syntax

text \<open>
  The sliding de-duplication window of \<open>matching/window.go\<close>: a bitmap over bytes, and a window
  \<open>[Min, Max)\<close> of \<open>Cap\<close> ids whose bit \<open>id mod Cap\<close> says whether the id was seen. A slice read or
  write out of range panics. The lemmas refine the window to the set of ids it has seen, and a
  locale states what the order book relies on: an accepted id is never accepted again.
\<close>

definition tA :: "byte list" where
  "tA = [1, 2, 4, 8, 16, 32, 64, 128]"

definition tB :: "byte list" where
  "tB = [254, 253, 251, 247, 239, 223, 191, 127]"

definition NewSlice :: "u64 \<Rightarrow> byte list" where
  "NewSlice l = replicate (unat (l div 8 + (if l mod 8 \<noteq> 0 then 1 else 0))) 0"

text \<open>\<open>m[i/8] & tA[i%8] != 0\<close>\<close>

definition Get :: "byte list \<Rightarrow> u64 \<Rightarrow> bool res" where
  "Get m i = (let index = unat (i div 8); b = unat (i mod 8)
     in if index < length m then Inr (m ! index AND tA ! b \<noteq> 0) else Inl index_out_of_range)"

definition SetBit :: "byte \<Rightarrow> u64 \<Rightarrow> bool \<Rightarrow> byte" where
  "SetBit b i v = (if v then b OR tA ! unat i else b AND tB ! unat i)"

definition Set :: "byte list \<Rightarrow> u64 \<Rightarrow> bool \<Rightarrow> byte list res" where
  "Set m i v = (let index = unat (i div 8); bit = i mod 8
     in if index < length m then
          (if v then Inr (m[index := m ! index OR tA ! unat bit])
           else Inr (m[index := m ! index AND tB ! unat bit]))
        else Inl index_out_of_range)"

record window =
  win_Min :: u64
  win_Max :: u64
  win_Cap :: u64
  win_Bitmap :: "byte list"

definition newWindow :: "u64 \<Rightarrow> u64 \<Rightarrow> window" where
  "newWindow mn mx =
     \<lparr>win_Min = mn, win_Max = mx, win_Cap = mx - mn, win_Bitmap = NewSlice (mx - mn)\<rparr>"

text \<open>\<open>for i := lo; i < hi; i++ { w.Bitmap.Set(i % w.Cap, false) }\<close>. A zero \<open>Cap\<close> panics.\<close>

function clear_range :: "u64 \<Rightarrow> u64 \<Rightarrow> u64 \<Rightarrow> byte list \<Rightarrow> byte list res" where
  "clear_range cp i hi m =
     (if i < hi then bindR (Set m (i mod cp) False) (\<lambda>m'. clear_range cp (i + 1) hi m') else Inr m)"
  by pat_completeness auto
termination
proof (relation "measure (\<lambda>(cp, i, hi, m). unat hi - unat i)")
  fix cp i hi :: u64 and m m' :: "byte list"
  assume lt: "i < hi"
  then have "unat (i + 1) = unat i + 1"
    by (rule u64_Suc)
  moreover have "unat i < unat hi" using lt by (simp add: word_less_nat_alt)
  ultimately show "((cp, i + 1, hi, m'), cp, i, hi, m) \<in> measure (\<lambda>(cp, i, hi, m). unat hi - unat i)"
    by simp
qed simp

declare clear_range.simps [simp del]

text \<open>
  \<open>put\<close> returns its error with the window untouched (\<open>Inl\<close>), or the new window. The outer sum is
  Go's panic: \<open>val % w.Cap\<close> with a zero \<open>Cap\<close>, or a bitmap index out of range.
\<close>

definition put :: "window \<Rightarrow> u64 \<Rightarrow> (string + window) res" where
  "put w val =
     (if val < win_Min w then Inr (Inl ''expired val'')
      else if win_Cap w = 0 then Inl (Panic ''integer divide by zero'')
      else if win_Max w \<le> val then
        (let delta = val - win_Max w + 1;
             rangeDelta = (if win_Cap w < delta then win_Cap w else delta)
         in bindR (clear_range (win_Cap w) (win_Min w) (win_Min w + rangeDelta) (win_Bitmap w)) (\<lambda>m.
            bindR (Set m (val mod win_Cap w) True) (\<lambda>m'.
              Inr (Inr (w\<lparr>win_Min := win_Min w + delta, win_Max := win_Max w + delta,
                          win_Bitmap := m'\<rparr>)))))
      else bindR (Get (win_Bitmap w) (val mod win_Cap w)) (\<lambda>seen.
        if seen then Inr (Inl ''existed val'')
        else bindR (Set (win_Bitmap w) (val mod win_Cap w) True) (\<lambda>m'.
          Inr (Inr (w\<lparr>win_Bitmap := m'\<rparr>)))))"

definition contains :: "window \<Rightarrow> u64 \<Rightarrow> bool res" where
  "contains w val =
     (if val < win_Min w \<or> win_Max w \<le> val then Inr False
      else if win_Cap w = 0 then Inl (Panic ''integer divide by zero'')
      else Get (win_Bitmap w) (val mod win_Cap w))"

subsection \<open>The bitmap\<close>

lemma less_8_cases:
  "k < (8::nat) \<Longrightarrow> k = 0 \<or> k = 1 \<or> k = 2 \<or> k = 3 \<or> k = 4 \<or> k = 5 \<or> k = 6 \<or> k = 7"
  by arith

lemma tA_nth: "k < 8 \<Longrightarrow> tA ! k = push_bit k 1"
  by (drule less_8_cases) (auto simp: tA_def)

lemma tB_nth: "k < 8 \<Longrightarrow> tB ! k = NOT (push_bit k 1)"
  by (drule less_8_cases) (auto simp: tB_def)

lemma bit_or_tA: "k < 8 \<Longrightarrow> bit (x OR tA ! k) j \<longleftrightarrow> bit x j \<or> j = k"
  by (auto simp: tA_nth bit_or_iff bit_exp_iff)

lemma bit_and_tB: "k < 8 \<Longrightarrow> j < 8 \<Longrightarrow> bit (x AND tB ! k) j \<longleftrightarrow> bit x j \<and> j \<noteq> k"
  by (auto simp: tB_nth bit_and_iff bit_not_iff bit_exp_iff)

lemma and_tA_iff: "k < 8 \<Longrightarrow> x AND tA ! k \<noteq> 0 \<longleftrightarrow> bit x k"
  by (simp add: tA_nth bit_iff_and_push_bit_not_eq_0)

definition bm_bit :: "byte list \<Rightarrow> nat \<Rightarrow> bool" where
  "bm_bit m i \<longleftrightarrow> bit (m ! (i div 8)) (i mod 8)"

lemma Get_eq:
  assumes "unat i < 8 * length m"
  shows "Get m i = Inr (bm_bit m (unat i))"
proof -
  have "unat i div 8 < length m" using assms by auto
  then show ?thesis
    by (simp add: Get_def bm_bit_def unat_div_distrib unat_mod_distrib and_tA_iff)
qed

lemma Set_eq:
  assumes "unat i < 8 * length m"
  obtains m' where "Set m i v = Inr m'" and "length m' = length m"
    and "\<And>j. j < 8 * length m \<Longrightarrow> bm_bit m' j \<longleftrightarrow> (if j = unat i then v else bm_bit m j)"
proof -
  define n where "n = unat i"
  have n: "n div 8 < length m" using assms by (auto simp: n_def)
  define b where "b = (if v then m ! (n div 8) OR tA ! (n mod 8) else m ! (n div 8) AND tB ! (n mod 8))"
  have "Set m i v = Inr (m[n div 8 := b])"
    using n by (simp add: Set_def b_def n_def unat_div_distrib unat_mod_distrib Let_def)
  moreover have "bm_bit (m[n div 8 := b]) j \<longleftrightarrow> (if j = n then v else bm_bit m j)"
    if "j < 8 * length m" for j
  proof (cases "j div 8 = n div 8")
    case True
    then have "j = n \<longleftrightarrow> j mod 8 = n mod 8" by (metis div_mult_mod_eq)
    with True n show ?thesis by (auto simp: bm_bit_def b_def bit_or_tA bit_and_tB)
  next
    case False
    then show ?thesis by (auto simp: bm_bit_def)
  qed
  ultimately show thesis using that by (simp add: n_def)
qed

lemma NewSlice_length: "unat l \<le> 8 * length (NewSlice l)"
proof -
  define r where "r = (if l mod 8 \<noteq> 0 then 1 else 0 :: u64)"
  have r: "unat r = (if unat l mod 8 \<noteq> 0 then 1 else 0)"
    by (simp add: r_def unat_mod_distrib flip: unat_eq_zero)
  have "unat l div 8 < 2 ^ 61" using u64_bound [of l] by (simp add: less_mult_imp_div_less)
  then have "unat l div 8 + unat r < 2 ^ 64" by (simp add: r)
  then have "unat (l div 8 + r) = unat l div 8 + unat r" 
    by (subst u64_add) (simp_all add: unat_div_distrib)
  then have "length (NewSlice l) = unat l div 8 + unat r"
    by (simp add: NewSlice_def r_def)
  then show ?thesis by (simp add: r) presburger
qed

lemma bm_bit_NewSlice: "j < 8 * length (NewSlice l) \<Longrightarrow> \<not> bm_bit (NewSlice l) j"
  by (auto simp: bm_bit_def NewSlice_def)

subsection \<open>The window as a set of seen ids\<close>

definition window_inv :: "window \<Rightarrow> bool" where
  "window_inv w \<longleftrightarrow> 0 < unat (win_Cap w) \<and> unat (win_Max w) = unat (win_Min w) + unat (win_Cap w) \<and>
     unat (win_Cap w) \<le> 8 * length (win_Bitmap w)"

definition window_seen :: "window \<Rightarrow> nat set" where
  "window_seen w = {v. unat (win_Min w) \<le> v \<and> v < unat (win_Max w) \<and>
     bm_bit (win_Bitmap w) (v mod unat (win_Cap w))}"

text \<open>
  The specification: a window of capacity \<open>cp\<close> is its lower bound and the set of ids seen above it.
  An id below the bound or already seen is refused; an accepted id slides the bound so that it is
  the last of \<open>cp\<close> ids.
\<close>

definition spec_put :: "nat \<Rightarrow> nat \<times> nat set \<Rightarrow> nat \<Rightarrow> (nat \<times> nat set) option" where
  "spec_put cp s v =
     (if v < fst s \<or> v \<in> snd s then None
      else let mn = max (fst s) (v + 1 - cp) in Some (mn, insert v {u \<in> snd s. mn \<le> u}))"

lemma mod_inj_window:
  assumes "a mod cp = b mod cp" and "m \<le> a" "a < m + cp" "m \<le> b" "b < m + (cp :: nat)"
  shows "a = b"
  using assms
proof (induction a b rule: linorder_wlog)
  case (le a b)
  then have "cp dvd b - a" using mod_eq_dvd_iff_nat [of a b cp] by simp
  moreover have "b - a < cp" using le by arith
  ultimately have "b - a = 0" by (meson dvd_imp_le gr0I linorder_not_le)
  with le show ?case by simp
next
  case (sym a b)
  then show ?case by simp
qed

lemma clear_range_eq:
  assumes "0 < unat cp" and "unat cp \<le> 8 * length m"
  shows "\<exists>m'. clear_range cp i hi m = Inr m' \<and> length m' = length m \<and>
    (\<forall>j < unat cp. bm_bit m' j \<longleftrightarrow> bm_bit m j \<and> (\<forall>k \<in> {unat i ..< unat hi}. k mod unat cp \<noteq> j))"
  using assms
proof (induction cp i hi m rule: clear_range.induct)
  case (1 cp i hi m)
  show ?case
  proof (cases "i < hi")
    case False
    then show ?thesis
      by (simp add: clear_range.simps [of cp i hi m] word_less_nat_alt)
  next
    case True
    have c: "unat (i mod cp) = unat i mod unat cp" by (simp add: unat_mod_distrib)
    have "unat (i mod cp) < unat cp" using "1.prems"(1) by (simp add: c)
    then have "unat (i mod cp) < 8 * length m" using "1.prems"(2) by simp
    then obtain m1 where m1: "Set m (i mod cp) False = Inr m1" "length m1 = length m"
        "\<And>j. j < 8 * length m \<Longrightarrow> bm_bit m1 j \<longleftrightarrow> (if j = unat (i mod cp) then False else bm_bit m j)"
      by (rule Set_eq [where v = False]) blast
    have len: "unat cp \<le> 8 * length m1" using "1.prems"(2) m1(2) by simp
    obtain m' where m': "clear_range cp (i + 1) hi m1 = Inr m'" "length m' = length m1"
        "\<forall>j < unat cp. bm_bit m' j \<longleftrightarrow> bm_bit m1 j \<and>
          (\<forall>k \<in> {unat (i + 1) ..< unat hi}. k mod unat cp \<noteq> j)"
      using "1.IH" [OF True "1.prems"(1) len] by blast
    have "{unat i ..< unat hi} = insert (unat i) {unat (i + 1) ..< unat hi}"
      using True u64_Suc [OF True] by (auto simp: word_less_nat_alt)
    then have "bm_bit m' j \<longleftrightarrow> bm_bit m j \<and> (\<forall>k \<in> {unat i ..< unat hi}. k mod unat cp \<noteq> j)"
      if "j < unat cp" for j
      using that m1(3) [of j] m'(3) "1.prems"(2) by (auto simp: c)
    with True m1 m' show ?thesis
      by (simp add: clear_range.simps [of cp i hi m])
  qed
qed

lemma window_inv_Cap: "window_inv w \<Longrightarrow> win_Cap w \<noteq> 0"
  by (auto simp: window_inv_def)

lemma mod_less_bound: "0 < c \<Longrightarrow> c \<le> n \<Longrightarrow> u mod c < (n :: nat)"
  by (rule less_le_trans [OF mod_less_divisor])

lemma window_inv_index:
  assumes "window_inv w"
  shows "unat (val mod win_Cap w) = unat val mod unat (win_Cap w)"
    and "unat val mod unat (win_Cap w) < unat (win_Cap w)"
    and "unat (val mod win_Cap w) < 8 * length (win_Bitmap w)"
  using assms by (simp_all add: window_inv_def unat_mod_distrib mod_less_bound)

text \<open>The three branches of \<open>put\<close>.\<close>

lemma put_expired: "val < win_Min w \<Longrightarrow> put w val = Inr (Inl ''expired val'')"
  by (simp add: put_def)

lemma put_inside:
  assumes inv: "window_inv w" and lo: "win_Min w \<le> val" and hi: "val < win_Max w"
  shows "if unat val \<in> window_seen w then put w val = Inr (Inl ''existed val'')
    else \<exists>w'. put w val = Inr (Inr w') \<and> window_inv w' \<and> win_Cap w' = win_Cap w \<and>
      win_Min w' = win_Min w \<and> window_seen w' = insert (unat val) (window_seen w)"
proof -
  note idx = window_inv_index [OF inv, of val]
  define c where "c = unat (win_Cap w)"
  have get: "Get (win_Bitmap w) (val mod win_Cap w) = Inr (bm_bit (win_Bitmap w) (unat val mod c))"
    using Get_eq [OF idx(3)] by (simp add: idx(1) c_def)
  have seen: "unat val \<in> window_seen w \<longleftrightarrow> bm_bit (win_Bitmap w) (unat val mod c)"
    using lo hi by (simp add: window_seen_def c_def word_le_nat_alt word_less_nat_alt)
  have nb: "\<not> val < win_Min w" "\<not> win_Max w \<le> val" using lo hi by simp_all
  obtain m' where m': "Set (win_Bitmap w) (val mod win_Cap w) True = Inr m'"
      "length m' = length (win_Bitmap w)"
      "\<And>j. j < 8 * length (win_Bitmap w) \<Longrightarrow>
        bm_bit m' j \<longleftrightarrow> (if j = unat (val mod win_Cap w) then True else bm_bit (win_Bitmap w) j)"
    by (rule Set_eq [OF idx(3), where v = True]) blast
  define w' where "w' = w\<lparr>win_Bitmap := m'\<rparr>"
  have inv': "window_inv w'" using inv m'(2) by (simp add: w'_def window_inv_def)
  have "v \<in> window_seen w' \<longleftrightarrow> v \<in> insert (unat val) (window_seen w)" for v
  proof (cases "unat (win_Min w) \<le> v \<and> v < unat (win_Max w)")
    case True
    have "v mod c < 8 * length (win_Bitmap w)"
      using inv by (simp add: window_inv_def c_def mod_less_bound)
    moreover have "v mod c = unat val mod c \<longleftrightarrow> v = unat val"
      using mod_inj_window [of v c "unat val" "unat (win_Min w)"] True lo hi inv
      by (auto simp: window_inv_def c_def word_le_nat_alt word_less_nat_alt)
    ultimately show ?thesis
      using True m'(3) [of "v mod c"] by (auto simp: window_seen_def w'_def c_def idx(1))
  next
    case False
    then show ?thesis
      using lo hi by (auto simp: window_seen_def w'_def word_le_nat_alt word_less_nat_alt)
  qed
  then have "window_seen w' = insert (unat val) (window_seen w)" by blast
  moreover have "put w val = (if unat val \<in> window_seen w then Inr (Inl ''existed val'') else Inr (Inr w'))"
    using nb m'(1) by (simp add: put_def window_inv_Cap [OF inv] get seen w'_def)
  ultimately show ?thesis using inv' by (simp add: w'_def)
qed

text \<open>
  Sliding clears the bits of the ids that leave the window, and no bit of one that stays: of the
  ids in the new window other than \<open>v\<close>, those whose bit is set are the old ones that were set.
\<close>

lemma slide_bits:
  assumes c: "0 < c" "mx = mn + c" and v: "mx \<le> (v :: nat)"
    and M: "\<And>j. j < c \<Longrightarrow> M j \<longleftrightarrow> B j \<and> (\<forall>k \<in> {mn ..< mn + min c (v - mx + 1)}. k mod c \<noteq> j)"
    and u: "v + 1 - c \<le> u" "u < v + 1" "u \<noteq> v"
  shows "M (u mod c) \<longleftrightarrow> B (u mod c) \<and> u < mx"
proof (cases "u < mx")
  case True
  have "k mod c \<noteq> u mod c" if k: "k \<in> {mn ..< mn + min c (v - mx + 1)}" for k
  proof
    assume "k mod c = u mod c"
    then have "k = u" using mod_inj_window [of k c u mn] k True c u v by auto
    with k c u v True show False by auto
  qed
  with M [of "u mod c"] c True show ?thesis by simp
next
  case False
  define k where "k = mn + (u - mn) mod c"
  have "mn \<le> u" using False c by simp
  then have "k mod c = u mod c" by (simp add: k_def mod_add_right_eq)
  moreover have "k < mn + min c (v - mx + 1)"
  proof (cases "c \<le> v - mx + 1")
    case True
    then show ?thesis using c by (simp add: k_def)
  next
    case less: False
    have "u - mn - c < c" and "c \<le> u - mn" using False c v less u by auto
    then have "(u - mn) mod c = u - mn - c" by (metis le_mod_geq mod_less)
    then show ?thesis using False c v less u by (auto simp: k_def)
  qed
  moreover have "mn \<le> k" by (simp add: k_def)
  ultimately have "\<not> M (u mod c)" using M [of "u mod c"] c by auto
  with False show ?thesis by simp
qed

lemma put_slide:
  assumes inv: "window_inv w" and hi: "win_Max w \<le> val" and nowrap: "unat val + 1 < 2 ^ 64"
  shows "\<exists>w'. put w val = Inr (Inr w') \<and> window_inv w' \<and> win_Cap w' = win_Cap w \<and>
    unat (win_Min w') = unat val + 1 - unat (win_Cap w) \<and>
    window_seen w' = insert (unat val) {u \<in> window_seen w. unat val + 1 - unat (win_Cap w) \<le> u}"
proof -
  note idx = window_inv_index [OF inv, of val]
  define c where "c = unat (win_Cap w)"
  define mn where "mn = unat (win_Min w)"
  define mx where "mx = unat (win_Max w)"
  define v where "v = unat val"
  define b where "b = win_Bitmap w"
  note defs = c_def mn_def mx_def v_def b_def
  have c: "0 < c" "mx = mn + c" "c \<le> 8 * length b" using inv by (simp_all add: defs window_inv_def)
  have vm: "mx \<le> v" "v + 1 < 2 ^ 64" using hi nowrap by (simp_all add: defs word_le_nat_alt)
  define delta where "delta = val - win_Max w + 1"
  have delta: "unat delta = v - mx + 1"
  proof -
    have "unat (val - win_Max w) = v - mx" using hi by (simp add: u64_sub defs)
    then show ?thesis unfolding delta_def using vm by (subst u64_add) simp_all
  qed
  define rd where "rd = (if win_Cap w < delta then win_Cap w else delta)"
  have rd: "unat rd = min c (v - mx + 1)"
    using delta by (auto simp: rd_def word_less_nat_alt c_def)
  have hi': "unat (win_Min w + rd) = mn + min c (v - mx + 1)"
    by (subst u64_add) (use c vm rd in \<open>simp_all add: defs\<close>)
  obtain m where m: "clear_range (win_Cap w) (win_Min w) (win_Min w + rd) b = Inr m" "length m = length b"
      "\<And>j. j < c \<Longrightarrow> bm_bit m j \<longleftrightarrow> bm_bit b j \<and> (\<forall>k \<in> {mn ..< mn + min c (v - mx + 1)}. k mod c \<noteq> j)"
    using clear_range_eq [of "win_Cap w" b "win_Min w" "win_Min w + rd"] c hi' by (auto simp: defs)
  obtain m' where m': "Set m (val mod win_Cap w) True = Inr m'" "length m' = length m"
      "\<And>j. j < 8 * length m \<Longrightarrow> bm_bit m' j \<longleftrightarrow> (if j = unat (val mod win_Cap w) then True else bm_bit m j)"
    by (rule Set_eq [of "val mod win_Cap w" m, where v = True]) (use idx(3) m(2) in \<open>auto simp: b_def\<close>)
  define w' where "w' = w\<lparr>win_Min := win_Min w + delta, win_Max := win_Max w + delta, win_Bitmap := m'\<rparr>"
  have Min': "unat (win_Min w') = v + 1 - c"
    unfolding w'_def by (simp, subst u64_add) (use c vm delta in \<open>simp_all add: defs\<close>)
  have Max': "unat (win_Max w') = v + 1"
    unfolding w'_def by (simp, subst u64_add) (use c vm delta in \<open>simp_all add: defs\<close>)
  have inv': "window_inv w'"
    unfolding window_inv_def Min' Max' using c vm m(2) m'(2) by (simp add: w'_def defs)
  have "u \<in> window_seen w' \<longleftrightarrow> u \<in> insert v {u \<in> window_seen w. v + 1 - c \<le> u}" for u
  proof (cases "v + 1 - c \<le> u \<and> u < v + 1")
    case False
    then show ?thesis using c vm by (auto simp: window_seen_def Min' Max' defs)
  next
    case True
    have "u mod c < 8 * length m" using c m(2) by (simp add: mod_less_bound)
    then have bm': "bm_bit m' (u mod c) \<longleftrightarrow> u mod c = v mod c \<or> bm_bit m (u mod c)"
      using m'(3) by (simp add: idx(1) defs)
    have uv: "u mod c = v mod c \<longleftrightarrow> u = v"
      using mod_inj_window [of u c v "v + 1 - c"] True c vm by auto
    have old: "u \<noteq> v \<Longrightarrow> bm_bit m (u mod c) \<longleftrightarrow> bm_bit b (u mod c) \<and> u < mx"
      using slide_bits [OF c(1,2) vm(1), of "bm_bit m" "bm_bit b" u] m(3) True by blast
    have "u \<in> window_seen w' \<longleftrightarrow> bm_bit m' (u mod c)"
      using True by (simp add: window_seen_def Min' Max') (simp add: w'_def c_def)
    moreover have "u \<in> window_seen w \<longleftrightarrow> u < mx \<and> bm_bit b (u mod c)" if "u \<noteq> v"
      using True c vm by (auto simp: window_seen_def defs)
    ultimately show ?thesis using bm' uv old True by auto
  qed
  then have seen': "window_seen w' = insert v {u \<in> window_seen w. v + 1 - c \<le> u}" by blast
  have "\<not> val < win_Min w" using c vm by (simp add: defs word_less_nat_alt)
  then have "put w val = bindR (clear_range (win_Cap w) (win_Min w) (win_Min w + rd) b) (\<lambda>m.
      bindR (Set m (val mod win_Cap w) True) (\<lambda>m'.
        Inr (Inr (w\<lparr>win_Min := win_Min w + delta, win_Max := win_Max w + delta, win_Bitmap := m'\<rparr>))))"
    using hi window_inv_Cap [OF inv] by (simp add: put_def Let_def rd_def delta_def b_def)
  also have "\<dots> = Inr (Inr w')" by (simp only: m(1) m'(1) bindR_simps w'_def)
  finally have "put w val = Inr (Inr w')" .
  with inv' Min' seen' show ?thesis by (auto simp: w'_def defs)
qed

subsection \<open>Refinement, and what the order book relies on\<close>

definition window_abs :: "window \<Rightarrow> nat \<times> nat set" where
  "window_abs w = (unat (win_Min w), window_seen w)"

lemma window_seen_above: "u \<in> window_seen w \<Longrightarrow> unat (win_Min w) \<le> u \<and> u < unat (win_Max w)"
  by (simp add: window_seen_def)

lemma put_spec:
  assumes "window_inv w" and "unat val + 1 < 2 ^ 64"
  shows "case spec_put (unat (win_Cap w)) (window_abs w) (unat val) of
      None \<Rightarrow> \<exists>e. put w val = Inr (Inl e)
    | Some s \<Rightarrow> \<exists>w'. put w val = Inr (Inr w') \<and> window_abs w' = s \<and> window_inv w' \<and>
        win_Cap w' = win_Cap w"
proof -
  define c where "c = unat (win_Cap w)"
  have mx: "unat (win_Max w) = unat (win_Min w) + c" using assms(1) by (simp add: window_inv_def c_def)
  consider "val < win_Min w" | "win_Min w \<le> val" "val < win_Max w" | "win_Min w \<le> val" "win_Max w \<le> val"
    by fastforce
  then show ?thesis
  proof cases
    case 1
    then show ?thesis by (simp add: put_expired spec_put_def window_abs_def word_less_nat_alt)
  next
    case 2
    have "max (unat (win_Min w)) (unat val + 1 - c) = unat (win_Min w)"
      using 2 mx by (simp add: word_le_nat_alt word_less_nat_alt)
    moreover have "{u \<in> window_seen w. unat (win_Min w) \<le> u} = window_seen w"
      by (auto dest: window_seen_above)
    ultimately show ?thesis
      using put_inside [OF assms(1) 2] 2
      by (auto simp: spec_put_def window_abs_def word_le_nat_alt Let_def c_def split: if_splits)
  next
    case 3
    have "unat val \<notin> window_seen w" using 3 by (auto dest: window_seen_above simp: word_le_nat_alt)
    moreover have "max (unat (win_Min w)) (unat val + 1 - c) = unat val + 1 - c"
      using 3 mx by (simp add: word_le_nat_alt)
    ultimately show ?thesis
      using put_slide [OF assms(1) 3(2) assms(2)] 3
      by (auto simp: spec_put_def window_abs_def word_le_nat_alt Let_def c_def)
  qed
qed

text \<open>
  The interface of a de-duplicator, as the order book uses it: \<open>accept\<close> refuses an id (\<open>None\<close>) or
  returns the new state, \<open>refused\<close> says which ids it would refuse, \<open>ok\<close> which ids may be offered.
\<close>

fun feed :: "('w \<Rightarrow> 'a \<Rightarrow> 'w option) \<Rightarrow> 'w \<Rightarrow> 'a list \<Rightarrow> 'w \<times> 'a list" where
  "feed accept w [] = (w, [])"
| "feed accept w (v # vs) =
     (case accept w v of
        None \<Rightarrow> feed accept w vs
      | Some w' \<Rightarrow> (let r = feed accept w' vs in (fst r, v # snd r)))"

locale dedup =
  fixes accept :: "'w \<Rightarrow> 'a \<Rightarrow> 'w option"
    and inv :: "'w \<Rightarrow> bool"
    and ok :: "'a \<Rightarrow> bool"
    and refused :: "'w \<Rightarrow> 'a \<Rightarrow> bool"
  assumes accept_None: "inv w \<Longrightarrow> ok v \<Longrightarrow> accept w v = None \<longleftrightarrow> refused w v"
    and accept_inv: "inv w \<Longrightarrow> ok v \<Longrightarrow> accept w v = Some w' \<Longrightarrow> inv w'"
    and accept_refuses: "inv w \<Longrightarrow> ok v \<Longrightarrow> accept w v = Some w' \<Longrightarrow> refused w' v"
    and refused_mono: "inv w \<Longrightarrow> ok v \<Longrightarrow> accept w v = Some w' \<Longrightarrow> refused w u \<Longrightarrow> refused w' u"
begin

lemma feed_inv: "inv w \<Longrightarrow> list_all ok vs \<Longrightarrow> inv (fst (feed accept w vs))"
  by (induction vs arbitrary: w) (auto simp: Let_def split: option.splits dest: accept_inv)

lemma feed_not_refused:
  "inv w \<Longrightarrow> list_all ok vs \<Longrightarrow> v \<in> set (snd (feed accept w vs)) \<Longrightarrow> \<not> refused w v"
proof (induction vs arbitrary: w)
  case Nil
  then show ?case by simp
next
  case (Cons u us)
  show ?case
  proof (cases "accept w u")
    case None
    with Cons show ?thesis by simp
  next
    case (Some w')
    from Cons.prems have ok: "ok u" "list_all ok us" by simp_all
    note IH = Cons.IH [OF accept_inv [OF Cons.prems(1) ok(1) Some] ok(2)]
    have "v = u \<or> v \<in> set (snd (feed accept w' us))"
      using Cons.prems(3) Some by (auto simp: Let_def)
    then show ?thesis
    proof
      assume "v = u"
      with Some show ?thesis using accept_None [OF Cons.prems(1) ok(1)] by simp
    next
      assume "v \<in> set (snd (feed accept w' us))"
      with IH show ?thesis using refused_mono [OF Cons.prems(1) ok(1) Some] by blast
    qed
  qed
qed

text \<open>No id is accepted twice.\<close>

lemma feed_distinct: "inv w \<Longrightarrow> list_all ok vs \<Longrightarrow> distinct (snd (feed accept w vs))"
proof (induction vs arbitrary: w)
  case Nil
  then show ?case by simp
next
  case (Cons u us)
  show ?case
  proof (cases "accept w u")
    case None
    with Cons show ?thesis by simp
  next
    case (Some w')
    from Cons.prems have ok: "ok u" "list_all ok us" by simp_all
    note inv' = accept_inv [OF Cons.prems(1) ok(1) Some]
    have "u \<notin> set (snd (feed accept w' us))"
      using feed_not_refused [OF inv' ok(2)] accept_refuses [OF Cons.prems(1) ok(1) Some] by blast
    with Cons.IH [OF inv' ok(2)] Some show ?thesis by (simp add: Let_def)
  qed
qed

end

definition put_opt :: "window \<Rightarrow> u64 \<Rightarrow> window option" where
  "put_opt w v = (case put w v of Inr (Inr w') \<Rightarrow> Some w' | _ \<Rightarrow> None)"

definition window_refuses :: "window \<Rightarrow> u64 \<Rightarrow> bool" where
  "window_refuses w v \<longleftrightarrow> v < win_Min w \<or> unat v \<in> window_seen w"

definition id_ok :: "u64 \<Rightarrow> bool" where
  "id_ok v \<longleftrightarrow> unat v + 1 < 2 ^ 64"

lemma put_refused:
  assumes "window_inv w" and "id_ok v" and "window_refuses w v"
  shows "\<exists>e. put w v = Inr (Inl e)"
proof -
  have "spec_put (unat (win_Cap w)) (window_abs w) (unat v) = None"
    using assms(3) by (simp add: window_refuses_def spec_put_def window_abs_def word_less_nat_alt)
  then show ?thesis using put_spec [OF assms(1) assms(2) [unfolded id_ok_def]] by simp
qed

lemma put_accepted:
  assumes "window_inv w" and "id_ok v" and "\<not> window_refuses w v"
  obtains w' where "put w v = Inr (Inr w')" and "window_inv w'" and "window_refuses w' v"
    and "\<And>u. window_refuses w u \<Longrightarrow> window_refuses w' u"
proof -
  define mn where "mn = max (unat (win_Min w)) (unat v + 1 - unat (win_Cap w))"
  have "spec_put (unat (win_Cap w)) (window_abs w) (unat v) =
      Some (mn, insert (unat v) {u \<in> window_seen w. mn \<le> u})"
    using assms(3)
    by (simp add: window_refuses_def spec_put_def window_abs_def word_less_nat_alt Let_def mn_def)
  then obtain w' where w': "put w v = Inr (Inr w')" "window_inv w'"
      "window_abs w' = (mn, insert (unat v) {u \<in> window_seen w. mn \<le> u})"
    using put_spec [OF assms(1) assms(2) [unfolded id_ok_def]] by auto
  then have m: "unat (win_Min w') = mn" "window_seen w' = insert (unat v) {u \<in> window_seen w. mn \<le> u}"
    by (simp_all add: window_abs_def)
  have "window_refuses w' v" by (simp add: m window_refuses_def)
  moreover have "window_refuses w' u" if "window_refuses w u" for u
  proof (cases "unat u < mn")
    case False
    then have "unat u \<in> window_seen w" using that
      by (auto simp: window_refuses_def mn_def word_less_nat_alt max_def split: if_splits)
    with False show ?thesis by (simp add: m window_refuses_def)
  qed (simp add: m window_refuses_def word_less_nat_alt)
  ultimately show thesis using that w' by blast
qed

interpretation win: dedup put_opt window_inv id_ok window_refuses
proof unfold_locales
  fix w v assume "window_inv w" "id_ok v"
  then show "put_opt w v = None \<longleftrightarrow> window_refuses w v"
    by (cases "window_refuses w v") (auto simp: put_opt_def dest: put_refused elim: put_accepted)
next
  fix w v w' assume A: "window_inv w" "id_ok v" "put_opt w v = Some w'"
  then have P: "put w v = Inr (Inr w')" by (auto simp: put_opt_def split: sum.splits)
  with A have "\<not> window_refuses w v" using put_refused by force
  then obtain w2 where w2: "put w v = Inr (Inr w2)" "window_inv w2" "window_refuses w2 v"
      "\<And>u. window_refuses w u \<Longrightarrow> window_refuses w2 u"
    using put_accepted A by blast
  then have "w2 = w'" using P by simp
  with w2 show "window_inv w'" and "window_refuses w' v"
    and "\<And>u. window_refuses w u \<Longrightarrow> window_refuses w' u" by simp_all
qed

lemma newWindow_inv:
  assumes "mn < mx"
  shows "window_inv (newWindow mn mx)"
  using assms NewSlice_length [of "mx - mn"]
  by (simp add: window_inv_def newWindow_def u64_sub word_less_nat_alt word_le_nat_alt)

lemma newWindow_seen: "mn < mx \<Longrightarrow> window_seen (newWindow mn mx) = {}"
  using bm_bit_NewSlice [of _ "mx - mn"] NewSlice_length [of "mx - mn"] mod_less_bound [of "unat mx - unat mn"]
  by (auto simp: window_seen_def newWindow_def u64_sub word_less_nat_alt word_le_nat_alt)

subsection \<open>Properties\<close>

text \<open>C21. \<open>put\<close> implements the specification: it never panics, it refuses exactly the ids below
  the window and those seen, and otherwise slides the window by the least amount that makes room
  for the id, forgets what falls out, and remembers the id. (The id \<open>2^64 - 1\<close> is excluded: there
  the upper bound wraps to 0.)\<close>

theorem put_refines:
  assumes "window_inv w" and "unat val + 1 < 2 ^ 64"
  shows "case spec_put (unat (win_Cap w)) (window_abs w) (unat val) of
      None \<Rightarrow> \<exists>e. put w val = Inr (Inl e)
    | Some s \<Rightarrow> \<exists>w'. put w val = Inr (Inr w') \<and> window_abs w' = s \<and> window_inv w' \<and>
        win_Cap w' = win_Cap w"
  by (rule put_spec [OF assms])

theorem put_refines_witness:
  "\<exists>w'. put (newWindow 4 12) 20 = Inr (Inr w') \<and> window_abs w' = (13, {20})"
proof -
  have "window_inv (newWindow 4 12)" by (rule newWindow_inv) simp
  moreover have "window_abs (newWindow 4 12) = (4, {})" "win_Cap (newWindow 4 12) = 8"
    using newWindow_seen [of 4 12] by (simp_all add: window_abs_def) (simp_all add: newWindow_def)
  ultimately show ?thesis
    using put_refines [of "newWindow 4 12" 20] by (simp add: spec_put_def) metis
qed

text \<open>In any sequence of ids offered to a window, no id is accepted twice, and no id the window
  refused at the start is ever accepted.\<close>

theorem window_accepts_once:
  assumes "window_inv w" and "list_all id_ok vs"
  shows "distinct (snd (feed put_opt w vs)) \<and>
    (\<forall>v \<in> set (snd (feed put_opt w vs)). \<not> window_refuses w v)"
  using win.feed_distinct [OF assms] win.feed_not_refused [OF assms] by blast

theorem window_accepts_once_witness:
  "distinct (snd (feed put_opt (newWindow 0 8) [3, 5, 3, 20, 5])) \<and>
    snd (feed put_opt (newWindow 0 8) [3, 5, 3, 20, 5]) = [3, 5, 20]"
proof -
  have "window_inv (newWindow 0 8)" by (rule newWindow_inv) simp
  moreover have "list_all id_ok [3, 5, 3, 20, 5]" by (simp add: id_ok_def)
  ultimately have "distinct (snd (feed put_opt (newWindow 0 8) [3, 5, 3, 20, 5]))"
    using window_accepts_once by blast
  moreover have "snd (feed put_opt (newWindow 0 8) [3, 5, 3, 20, 5]) = [3, 5, 20]" by code_simp
  ultimately show ?thesis by blast
qed

end
