(* ===== verification/Depth.thy ===== *)
theory Depth
  imports Window
begin

text \<open>
  One side of the matching order book (\<open>matching/order_book.go\<close>): the resting order, the
  comparators of the two price-time queues, and the type \<open>depth\<close> with \<open>add\<close> and \<open>decrSize\<close>. A depth holds its orders twice, in a map by order id and in
  an ordered queue of (price, id) keys; \<open>depth_inv\<close> says how the two agree, and \<open>resting\<close> reads
  the depth as the list of its orders, best first.
\<close>

record 'd price_key =
  key_price :: 'd
  key_id :: u64

text \<open>The parameters of the matching engine: the decimal package, the ordered maps of its queues
  and the clock; \<open>clock n\<close> is what \<open>time.Now()\<close> returns when the log with sequence \<open>n\<close> is made.\<close>

record ('d, 'q) env =
  dec :: "'d decimal_pkg"
  tmap :: "('q, 'd price_key, u64) treemap"
  clock :: "int \<Rightarrow> int"

record 'd book_order =
  bo_OrderId :: u64
  bo_UserId :: u64
  bo_Size :: 'd
  bo_Funds :: 'd
  bo_Price :: 'd
  bo_Side :: side
  bo_Type :: order_type
  bo_TimeInForce :: time_in_force

definition newBookOrder :: "'d order \<Rightarrow> 'd book_order" where
  "newBookOrder order =
     \<lparr>bo_OrderId = ord_Id order, bo_UserId = ord_UserId order, bo_Size = ord_Size order,
      bo_Funds = ord_Funds order, bo_Price = ord_Price order, bo_Side = ord_Side order,
      bo_Type = ord_Type order, bo_TimeInForce = ord_TimeInForce order\<rparr>"

lemma newBookOrder_simps [simp]:
  "bo_OrderId (newBookOrder order) = ord_Id order"
  "bo_UserId (newBookOrder order) = ord_UserId order"
  "bo_Size (newBookOrder order) = ord_Size order"
  "bo_Funds (newBookOrder order) = ord_Funds order"
  "bo_Price (newBookOrder order) = ord_Price order"
  "bo_Side (newBookOrder order) = ord_Side order"
  "bo_Type (newBookOrder order) = ord_Type order"
  "bo_TimeInForce (newBookOrder order) = ord_TimeInForce order"
  by (simp_all add: newBookOrder_def)

subsection \<open>Comparators\<close>

definition priceOrderIdKeyAscComparator :: "'d::linordered_idom price_key \<Rightarrow> 'd price_key \<Rightarrow> int" where
  "priceOrderIdKeyAscComparator a b =
     (let x = dec_cmp (key_price a) (key_price b)
      in if x \<noteq> 0 then x
         else if key_id a < key_id b then -1
         else if key_id b < key_id a then 1
         else 0)"

definition priceOrderIdKeyDescComparator :: "'d::linordered_idom price_key \<Rightarrow> 'd price_key \<Rightarrow> int" where
  "priceOrderIdKeyDescComparator a b =
     (let x = dec_cmp (key_price a) (key_price b)
      in if x \<noteq> 0 then - x
         else if key_id a < key_id b then -1
         else if key_id b < key_id a then 1
         else 0)"

text \<open>The comparator of the queue on each side.\<close>

definition side_cmp :: "side \<Rightarrow> 'd::linordered_idom price_key \<Rightarrow> 'd price_key \<Rightarrow> int" where
  "side_cmp s = (if s = SideBuy then priceOrderIdKeyDescComparator else priceOrderIdKeyAscComparator)"

text \<open>\<open>a\<close> is a strictly better price than \<open>b\<close> for a resting order on side \<open>s\<close>.\<close>

definition better :: "side \<Rightarrow> 'd::linordered_idom \<Rightarrow> 'd \<Rightarrow> bool" where
  "better s a b \<longleftrightarrow> (if s = SideBuy then b < a else a < b)"

lemma asc_neg: "priceOrderIdKeyAscComparator a b < 0 \<longleftrightarrow>
    key_price a < key_price b \<or> key_price a = key_price b \<and> key_id a < key_id b"
  by (auto simp: priceOrderIdKeyAscComparator_def Let_def)

lemma desc_neg: "priceOrderIdKeyDescComparator a b < 0 \<longleftrightarrow>
    key_price b < key_price a \<or> key_price a = key_price b \<and> key_id a < key_id b"
  by (auto simp: priceOrderIdKeyDescComparator_def Let_def)

lemma asc_pos: "0 < priceOrderIdKeyAscComparator a b \<longleftrightarrow>
    key_price b < key_price a \<or> key_price a = key_price b \<and> key_id b < key_id a"
  by (auto simp: priceOrderIdKeyAscComparator_def Let_def)

lemma desc_pos: "0 < priceOrderIdKeyDescComparator a b \<longleftrightarrow>
    key_price a < key_price b \<or> key_price a = key_price b \<and> key_id b < key_id a"
  by (auto simp: priceOrderIdKeyDescComparator_def Let_def)

lemma key_eq_iff: "a = b \<longleftrightarrow> key_price a = key_price b \<and> key_id (a :: 'd price_key) = key_id b"
  by (cases a; cases b) auto

lemma asc_zero: "priceOrderIdKeyAscComparator a b = 0 \<longleftrightarrow> a = b"
  by (auto simp: priceOrderIdKeyAscComparator_def Let_def key_eq_iff)

lemma desc_zero: "priceOrderIdKeyDescComparator a b = 0 \<longleftrightarrow> a = b"
  by (auto simp: priceOrderIdKeyDescComparator_def Let_def key_eq_iff)

lemma asc_ok: "cmp_ok priceOrderIdKeyAscComparator"
  by (auto simp: cmp_ok_def asc_zero asc_neg asc_pos)

lemma desc_ok: "cmp_ok priceOrderIdKeyDescComparator"
  by (auto simp: cmp_ok_def desc_zero desc_neg desc_pos)

lemma side_cmp_ok [simp]: "cmp_ok (side_cmp s)"
  by (simp add: side_cmp_def asc_ok desc_ok)

lemma side_cmp_neg: "side_cmp s a b < 0 \<longleftrightarrow>
    better s (key_price a) (key_price b) \<or> key_price a = key_price b \<and> key_id a < key_id b"
  by (simp add: side_cmp_def better_def asc_neg desc_neg)

subsection \<open>Depths\<close>

record ('d, 'q) depth =
  dp_orders :: "u64 \<rightharpoonup> 'd book_order"
  dp_queue :: 'q

definition add :: "('d, 'q) env \<Rightarrow> ('d, 'q) depth \<Rightarrow> 'd book_order \<Rightarrow> ('d, 'q) depth" where
  "add E d order =
     d\<lparr>dp_orders := (dp_orders d)(bo_OrderId order \<mapsto> order),
       dp_queue := tm_put (tmap E) (dp_queue d)
         \<lparr>key_price = bo_Price order, key_id = bo_OrderId order\<rparr> (bo_OrderId order)\<rparr>"

text \<open>
  \<open>decrSize\<close> mutates the order through its pointer, which its caller may still hold after the order
  has left the map; the model returns the mutated order beside the new depth.
\<close>

definition decrSize :: "('d::linordered_idom, 'q) env \<Rightarrow> ('d, 'q) depth \<Rightarrow> u64 \<Rightarrow> 'd \<Rightarrow>
    string + (('d, 'q) depth \<times> 'd book_order)" where
  "decrSize E d orderId sz =
     (case dp_orders d orderId of
        None \<Rightarrow> Inl ''order not found on book''
      | Some order \<Rightarrow>
          if bo_Size order < sz then Inl ''order Size less than''
          else let order' = order\<lparr>bo_Size := bo_Size order - sz\<rparr> in
            if bo_Size order' = 0 then
              Inr (d\<lparr>dp_orders := (dp_orders d)(orderId := None),
                     dp_queue := tm_remove (tmap E) (dp_queue d)
                       \<lparr>key_price = bo_Price order', key_id = bo_OrderId order'\<rparr>\<rparr>, order')
            else Inr (d\<lparr>dp_orders := (dp_orders d)(orderId \<mapsto> order')\<rparr>, order'))"

lemma add_simps [simp]:
  "dp_orders (add E d order) = (dp_orders d)(bo_OrderId order \<mapsto> order)"
  "dp_queue (add E d order) = tm_put (tmap E) (dp_queue d)
     \<lparr>key_price = bo_Price order, key_id = bo_OrderId order\<rparr> (bo_OrderId order)"
  by (simp_all add: add_def)

subsection \<open>A depth as the list of its orders\<close>

definition key_of :: "'d book_order \<Rightarrow> 'd price_key" where
  "key_of o1 = \<lparr>key_price = bo_Price o1, key_id = bo_OrderId o1\<rparr>"

lemma key_of_simps [simp]:
  "key_price (key_of o1) = bo_Price o1" "key_id (key_of o1) = bo_OrderId o1"
  by (simp_all add: key_of_def)

definition resting :: "('d, 'q) env \<Rightarrow> ('d, 'q) depth \<Rightarrow> 'd book_order list" where
  "resting E d = map (\<lambda>e. the (dp_orders d (snd e))) (tm_iter (tmap E) (dp_queue d))"

text \<open>Price-time priority of \<open>a\<close> over \<open>b\<close> on side \<open>s\<close>: a better price, or the same price and the
  older order (order ids grow with time).\<close>

definition priority :: "side \<Rightarrow> 'd::linordered_idom book_order \<Rightarrow> 'd book_order \<Rightarrow> bool" where
  "priority s a b \<longleftrightarrow> better s (bo_Price a) (bo_Price b) \<or>
     bo_Price a = bo_Price b \<and> bo_OrderId a < bo_OrderId b"

definition prio_sorted :: "side \<Rightarrow> 'd::linordered_idom book_order list \<Rightarrow> bool" where
  "prio_sorted s os \<longleftrightarrow> sorted_wrt (priority s) os"

text \<open>An order that may rest on side \<open>s\<close>.\<close>

definition order_wf :: "side \<Rightarrow> 'd::linordered_idom book_order \<Rightarrow> bool" where
  "order_wf s o1 \<longleftrightarrow> 0 < bo_Size o1 \<and> 0 < bo_Price o1 \<and> bo_Side o1 = s \<and> bo_Type o1 = OrderTypeLimit"

definition depth_inv :: "('d::linordered_idom, 'q) env \<Rightarrow> side \<Rightarrow> ('d, 'q) depth \<Rightarrow> bool" where
  "depth_inv E s d \<longleftrightarrow>
     tm_made (tmap E) (side_cmp s) (dp_queue d) \<and>
     set (tm_iter (tmap E) (dp_queue d)) = {(key_of o1, oid) | oid o1. dp_orders d oid = Some o1} \<and>
     (\<forall>oid o1. dp_orders d oid = Some o1 \<longrightarrow> bo_OrderId o1 = oid \<and> order_wf s o1)"

lemma priority_key: "side_cmp s (key_of a) (key_of b) < 0 \<longleftrightarrow> priority s a b"
  by (simp add: side_cmp_neg priority_def)

lemma prio_sorted_key:
  "prio_sorted s os \<longleftrightarrow> sl_sorted (side_cmp s) (map (\<lambda>o1. (key_of o1, o1)) os)"
  by (simp add: prio_sorted_def sl_sorted_def sorted_wrt_map priority_key)

lemma priority_irrefl: "\<not> priority s a a"
  by (simp add: priority_def better_def)

lemma priority_trans: "priority s a b \<Longrightarrow> priority s b c \<Longrightarrow> priority s a c"
  using cmp_ok_trans [OF side_cmp_ok, of s "key_of a" "key_of b" "key_of c"] by (simp add: priority_key)

lemma priority_linear: "bo_OrderId a \<noteq> bo_OrderId b \<Longrightarrow> priority s a b \<or> priority s b a"
  by (auto simp: priority_def better_def)

lemma prio_sorted_Nil [simp]: "prio_sorted s []"
  by (simp add: prio_sorted_def)

lemma prio_sorted_Cons [simp]:
  "prio_sorted s (a # os) \<longleftrightarrow> (\<forall>b\<in>set os. priority s a b) \<and> prio_sorted s os"
  by (simp add: prio_sorted_def)

lemma prio_sorted_append [simp]:
  "prio_sorted s (xs @ ys) \<longleftrightarrow> prio_sorted s xs \<and> prio_sorted s ys \<and>
     (\<forall>a\<in>set xs. \<forall>b\<in>set ys. priority s a b)"
  by (simp add: prio_sorted_def sorted_wrt_append)

lemma prio_sorted_unique:
  assumes "prio_sorted s xs" and "prio_sorted s ys" and "set xs = set ys"
  shows "xs = ys"
proof -
  have "map (\<lambda>o1. (key_of o1, o1)) xs = map (\<lambda>o1. (key_of o1, o1)) ys"
    using assms by (intro sl_sorted_unique [OF side_cmp_ok]) (simp_all add: prio_sorted_key)
  then have "map snd (map (\<lambda>o1. (key_of o1, o1)) xs) = map snd (map (\<lambda>o1. (key_of o1, o1)) ys)"
    by (rule arg_cong)
  then show ?thesis by (simp add: comp_def)
qed

lemma depth_inv_iter:
  assumes "depth_inv E s d" and "e \<in> set (tm_iter (tmap E) (dp_queue d))"
  shows "dp_orders d (snd e) = Some (the (dp_orders d (snd e)))"
    and "fst e = key_of (the (dp_orders d (snd e)))"
  using assms by (auto simp: depth_inv_def)

lemma set_resting:
  assumes "depth_inv E s d"
  shows "set (resting E d) = ran (dp_orders d)"
proof -
  have "set (resting E d) = (\<lambda>e. the (dp_orders d (snd e))) `
      {(key_of o1, oid) | oid o1. dp_orders d oid = Some o1}"
    using assms by (simp add: resting_def depth_inv_def)
  also have "\<dots> = ran (dp_orders d)" by (force simp: ran_def)
  finally show ?thesis .
qed

lemma resting_lookup:
  assumes "depth_inv E s d" and "o1 \<in> set (resting E d)"
  shows "dp_orders d (bo_OrderId o1) = Some o1" and "order_wf s o1"
  using assms set_resting [OF assms(1)] by (auto simp: ran_def depth_inv_def)

lemma resting_lookup_iff:
  assumes "depth_inv E s d"
  shows "dp_orders d oid = Some o1 \<longleftrightarrow> o1 \<in> set (resting E d) \<and> bo_OrderId o1 = oid"
  using assms set_resting [OF assms(1)] by (auto simp: ran_def depth_inv_def)

lemma resting_sorted:
  assumes "treemap_laws (tmap E)" and "depth_inv E s d"
  shows "prio_sorted s (resting E d)"
proof -
  have "sl_sorted (side_cmp s) (tm_iter (tmap E) (dp_queue d))"
    using assms by (intro tm_made_sorted) (simp_all add: depth_inv_def)
  then have "sorted_wrt (\<lambda>a b. priority s (the (dp_orders d (snd a))) (the (dp_orders d (snd b))))
      (tm_iter (tmap E) (dp_queue d))"
    unfolding sl_sorted_def
    by (rule sorted_wrt_mono_rel [rotated]) (simp add: depth_inv_iter(2) [OF assms(2)] priority_key)
  then show ?thesis by (simp add: prio_sorted_def resting_def sorted_wrt_map)
qed

lemma resting_eqI:
  assumes "treemap_laws (tmap E)" and "depth_inv E s d" and "prio_sorted s os"
    and "set os = ran (dp_orders d)"
  shows "resting E d = os"
  using prio_sorted_unique [OF resting_sorted [OF assms(1,2)] assms(3)] assms(4)
  by (simp add: set_resting [OF assms(2)])

lemma iter_resting:
  assumes "depth_inv E s d"
  shows "tm_iter (tmap E) (dp_queue d) = map (\<lambda>o1. (key_of o1, bo_OrderId o1)) (resting E d)"
proof -
  have "e = (key_of (the (dp_orders d (snd e))), bo_OrderId (the (dp_orders d (snd e))))"
    if "e \<in> set (tm_iter (tmap E) (dp_queue d))" for e
    using that depth_inv_iter [OF assms that] assms by (auto simp: depth_inv_def prod_eq_iff)
  then show ?thesis by (simp add: resting_def map_idI)
qed

text \<open>The operations on lists of orders that \<open>add\<close> and \<open>decrSize\<close> implement.\<close>

fun rest_ins :: "side \<Rightarrow> 'd::linordered_idom book_order \<Rightarrow> 'd book_order list \<Rightarrow> 'd book_order list" where
  "rest_ins s o1 [] = [o1]"
| "rest_ins s o1 (o2 # os) = (if priority s o1 o2 then o1 # o2 # os else o2 # rest_ins s o1 os)"

definition rest_del :: "u64 \<Rightarrow> 'd book_order list \<Rightarrow> 'd book_order list" where
  "rest_del oid os = filter (\<lambda>o1. bo_OrderId o1 \<noteq> oid) os"

definition rest_upd :: "'d book_order \<Rightarrow> 'd book_order list \<Rightarrow> 'd book_order list" where
  "rest_upd o1 os = map (\<lambda>o2. if bo_OrderId o2 = bo_OrderId o1 then o1 else o2) os"

lemma set_rest_ins [simp]: "set (rest_ins s o1 os) = insert o1 (set os)"
  by (induction os) auto

lemma prio_sorted_rest_ins:
  "prio_sorted s os \<Longrightarrow> \<forall>o2\<in>set os. bo_OrderId o2 \<noteq> bo_OrderId o1 \<Longrightarrow> prio_sorted s (rest_ins s o1 os)"
proof (induction os)
  case Nil
  then show ?case by simp
next
  case (Cons o2 os)
  then show ?case
    using priority_linear [of o1 o2 s] by (auto intro: priority_trans)
qed

lemma prio_sorted_filter: "prio_sorted s os \<Longrightarrow> prio_sorted s (filter P os)"
  by (simp add: prio_sorted_def sorted_wrt_filter)

lemma prio_sorted_map_key:
  "prio_sorted s os \<Longrightarrow> (\<And>o1. o1 \<in> set os \<Longrightarrow> key_of (f o1) = key_of o1) \<Longrightarrow> prio_sorted s (map f os)"
  unfolding prio_sorted_def sorted_wrt_map
  by (erule sorted_wrt_mono_rel [rotated]) (simp flip: priority_key)

lemma prio_sorted_distinct: "prio_sorted s os \<Longrightarrow> distinct os"
  by (induction os) (auto simp: priority_irrefl)

lemma resting_distinct:
  assumes "treemap_laws (tmap E)" and "depth_inv E s d"
  shows "distinct (map bo_OrderId (resting E d))"
proof -
  have "inj_on bo_OrderId (set (resting E d))"
  proof (rule inj_onI)
    fix a b assume "a \<in> set (resting E d)" "b \<in> set (resting E d)" "bo_OrderId a = bo_OrderId b"
    then have "Some a = Some b" using resting_lookup(1) [OF assms(2)] by metis
    then show "a = b" by simp
  qed
  then show ?thesis
    using prio_sorted_distinct [OF resting_sorted [OF assms]] by (simp add: distinct_map)
qed

lemma depth_inv_mem:
  assumes "depth_inv E s d"
  shows "e \<in> set (tm_iter (tmap E) (dp_queue d)) \<longleftrightarrow>
    (\<exists>o1. dp_orders d (snd e) = Some o1 \<and> fst e = key_of o1)"
  using assms by (cases e) (auto simp: depth_inv_def)

lemma depth_inv_id: "depth_inv E s d \<Longrightarrow> dp_orders d oid = Some o1 \<Longrightarrow> bo_OrderId o1 = oid"
  by (simp add: depth_inv_def)

lemma depth_inv_wf: "depth_inv E s d \<Longrightarrow> dp_orders d oid = Some o1 \<Longrightarrow> order_wf s o1"
  by (simp add: depth_inv_def)

lemma depth_invI:
  assumes "tm_made (tmap E) (side_cmp s) (dp_queue d)"
    and "\<And>k i. (k, i) \<in> set (tm_iter (tmap E) (dp_queue d)) \<longleftrightarrow>
      (\<exists>o1. dp_orders d i = Some o1 \<and> k = key_of o1)"
    and "\<And>oid o1. dp_orders d oid = Some o1 \<Longrightarrow> bo_OrderId o1 = oid \<and> order_wf s o1"
  shows "depth_inv E s d"
  using assms unfolding depth_inv_def by auto

lemma depth_inv_made: "depth_inv E s d \<Longrightarrow> tm_made (tmap E) (side_cmp s) (dp_queue d)"
  by (simp add: depth_inv_def)

lemma depth_new:
  assumes "treemap_laws (tmap E)"
  shows "depth_inv E s \<lparr>dp_orders = Map.empty, dp_queue = tm_new (tmap E) (side_cmp s)\<rparr>"
    and "resting E \<lparr>dp_orders = Map.empty, dp_queue = tm_new (tmap E) (side_cmp s)\<rparr> = []"
  using tm_iter_new [OF assms side_cmp_ok, of s] tm_made_new [of "tmap E" "side_cmp s"]
  by (simp_all add: depth_inv_def resting_def)

lemma depth_add:
  assumes laws: "treemap_laws (tmap E)" and inv: "depth_inv E s d" and wf: "order_wf s o1"
    and new: "dp_orders d (bo_OrderId o1) = None"
  shows "depth_inv E s (add E d o1)" and "resting E (add E d o1) = rest_ins s o1 (resting E d)"
proof -
  note made = depth_inv_made [OF inv]
  have it: "set (tm_iter (tmap E) (dp_queue (add E d o1))) = insert (key_of o1, bo_OrderId o1)
      {e \<in> set (tm_iter (tmap E) (dp_queue d)). fst e \<noteq> key_of o1}"
    using set_sl_ins [OF side_cmp_ok tm_made_sorted [OF laws side_cmp_ok made]]
    by (simp add: tm_iter_put [OF laws side_cmp_ok made] key_of_def)
  have ne: "i \<noteq> bo_OrderId o1 \<and> key_of o2 \<noteq> key_of o1" if "dp_orders d i = Some o2" for i o2
    using that new depth_inv_id [OF inv that] by (auto simp: key_eq_iff)
  show inv': "depth_inv E s (add E d o1)"
  proof (rule depth_invI)
    show "tm_made (tmap E) (side_cmp s) (dp_queue (add E d o1))" using tm_made_put [OF made] by simp
  next
    fix k i
    show "(k, i) \<in> set (tm_iter (tmap E) (dp_queue (add E d o1))) \<longleftrightarrow>
        (\<exists>o2. dp_orders (add E d o1) i = Some o2 \<and> k = key_of o2)"
      unfolding it using ne [of i] by (auto simp: depth_inv_mem [OF inv])
  next
    fix i o2 assume "dp_orders (add E d o1) i = Some o2"
    then show "bo_OrderId o2 = i \<and> order_wf s o2"
      using wf depth_inv_id [OF inv] depth_inv_wf [OF inv] by (auto split: if_splits)
  qed
  show "resting E (add E d o1) = rest_ins s o1 (resting E d)"
  proof (rule resting_eqI [OF laws inv'])
    show "prio_sorted s (rest_ins s o1 (resting E d))"
      using resting_lookup [OF inv] new by (intro prio_sorted_rest_ins resting_sorted [OF laws inv]) force
    show "set (rest_ins s o1 (resting E d)) = ran (dp_orders (add E d o1))"
      using new by (simp add: set_resting [OF inv])
  qed
qed

lemma depth_remove:
  assumes laws: "treemap_laws (tmap E)" and inv: "depth_inv E s d" and o1: "dp_orders d oid = Some o1"
  defines "d' \<equiv> d\<lparr>dp_orders := (dp_orders d)(oid := None),
     dp_queue := tm_remove (tmap E) (dp_queue d) (key_of o1)\<rparr>"
  shows "depth_inv E s d'" and "resting E d' = rest_del oid (resting E d)"
proof -
  note made = depth_inv_made [OF inv]
  have id: "bo_OrderId o1 = oid" using depth_inv_id [OF inv o1] .
  have it: "set (tm_iter (tmap E) (dp_queue d')) =
      {e \<in> set (tm_iter (tmap E) (dp_queue d)). fst e \<noteq> key_of o1}"
    by (simp add: d'_def tm_iter_remove [OF laws side_cmp_ok made] set_sl_del [OF side_cmp_ok])
  have eq: "key_of o2 = key_of o1 \<longleftrightarrow> i = oid" if "dp_orders d i = Some o2" for i o2
  proof (cases "i = oid")
    case True
    with that o1 show ?thesis by simp
  next
    case False
    then have "bo_OrderId o2 \<noteq> bo_OrderId o1" using depth_inv_id [OF inv that] id by simp
    with False show ?thesis by (metis key_of_simps(2))
  qed
  show inv': "depth_inv E s d'"
  proof (rule depth_invI)
    show "tm_made (tmap E) (side_cmp s) (dp_queue d')" using tm_made_remove [OF made] by (simp add: d'_def)
  next
    fix k i
    show "(k, i) \<in> set (tm_iter (tmap E) (dp_queue d')) \<longleftrightarrow> (\<exists>o2. dp_orders d' i = Some o2 \<and> k = key_of o2)"
      unfolding it using eq [of i] by (auto simp: depth_inv_mem [OF inv] d'_def)
  next
    fix i o2 assume "dp_orders d' i = Some o2"
    then show "bo_OrderId o2 = i \<and> order_wf s o2"
      using depth_inv_id [OF inv] depth_inv_wf [OF inv] by (auto simp: d'_def split: if_splits)
  qed
  show "resting E d' = rest_del oid (resting E d)"
  proof (rule resting_eqI [OF laws inv'])
    show "prio_sorted s (rest_del oid (resting E d))"
      by (simp add: rest_del_def prio_sorted_filter resting_sorted [OF laws inv])
    have "o2 \<in> ran (dp_orders d') \<longleftrightarrow> o2 \<in> ran (dp_orders d) \<and> bo_OrderId o2 \<noteq> oid" for o2
      using depth_inv_id [OF inv] by (auto simp: d'_def ran_def split: if_splits)
    then show "set (rest_del oid (resting E d)) = ran (dp_orders d')"
      by (auto simp: rest_del_def set_resting [OF inv])
  qed
qed

lemma depth_reduce:
  assumes laws: "treemap_laws (tmap E)" and inv: "depth_inv E s d" and o1: "dp_orders d oid = Some o1"
    and sz: "sz < bo_Size o1"
  defines "o2 \<equiv> o1\<lparr>bo_Size := bo_Size o1 - sz\<rparr>"
  defines "d' \<equiv> d\<lparr>dp_orders := (dp_orders d)(oid \<mapsto> o2)\<rparr>"
  shows "depth_inv E s d'" and "resting E d' = rest_upd o2 (resting E d)"
proof -
  have id: "bo_OrderId o1 = oid" and wf: "order_wf s o1"
    using depth_inv_id [OF inv o1] depth_inv_wf [OF inv o1] by simp_all
  have key: "key_of o2 = key_of o1" and id2: "bo_OrderId o2 = oid"
    by (simp_all add: o2_def key_of_def id)
  show inv': "depth_inv E s d'"
  proof (rule depth_invI)
    show "tm_made (tmap E) (side_cmp s) (dp_queue d')" using depth_inv_made [OF inv] by (simp add: d'_def)
  next
    fix k i
    show "(k, i) \<in> set (tm_iter (tmap E) (dp_queue d')) \<longleftrightarrow> (\<exists>o3. dp_orders d' i = Some o3 \<and> k = key_of o3)"
      using o1 key depth_inv_mem [OF inv, of "(k, i)"] by (simp add: d'_def)
  next
    fix i o3 assume "dp_orders d' i = Some o3"
    then show "bo_OrderId o3 = i \<and> order_wf s o3"
      using wf sz id2 depth_inv_id [OF inv] depth_inv_wf [OF inv]
      by (auto simp: d'_def o2_def order_wf_def split: if_splits)
  qed
  have upd: "(if bo_OrderId o3 = bo_OrderId o2 then o2 else o3) = (if o3 = o1 then o2 else o3)"
    if "o3 \<in> set (resting E d)" for o3
    using resting_lookup(1) [OF inv that] o1 id2 id by auto
  show "resting E d' = rest_upd o2 (resting E d)"
  proof (rule resting_eqI [OF laws inv'])
    show "prio_sorted s (rest_upd o2 (resting E d))"
      unfolding rest_upd_def by (intro prio_sorted_map_key resting_sorted [OF laws inv]) (simp add: upd key)
    have "o3 \<in> ran (dp_orders d') \<longleftrightarrow> o3 = o2 \<or> o3 \<in> ran (dp_orders d) \<and> bo_OrderId o3 \<noteq> oid" for o3
      using depth_inv_id [OF inv] by (auto simp: d'_def ran_def)
    then have "ran (dp_orders d') = insert o2 {o3 \<in> ran (dp_orders d). bo_OrderId o3 \<noteq> oid}" by blast
    also have "\<dots> = (\<lambda>o3. if bo_OrderId o3 = oid then o2 else o3) ` ran (dp_orders d)"
    proof -
      have "o1 \<in> ran (dp_orders d)" using o1 by (auto simp: ran_def)
      with id show ?thesis by force
    qed
    finally show "set (rest_upd o2 (resting E d)) = ran (dp_orders d')"
      by (simp add: rest_upd_def set_resting [OF inv] id2)
  qed
qed

lemma decrSize_cases:
  assumes laws: "treemap_laws (tmap E)" and inv: "depth_inv E s d" and o1: "dp_orders d oid = Some o1"
  shows "bo_Size o1 < sz \<Longrightarrow> \<exists>e. decrSize E d oid sz = Inl e"
    and "sz = bo_Size o1 \<Longrightarrow> \<exists>d'. decrSize E d oid sz = Inr (d', o1\<lparr>bo_Size := 0\<rparr>) \<and>
      depth_inv E s d' \<and> resting E d' = rest_del oid (resting E d)"
    and "sz < bo_Size o1 \<Longrightarrow> \<exists>d'. decrSize E d oid sz = Inr (d', o1\<lparr>bo_Size := bo_Size o1 - sz\<rparr>) \<and>
      depth_inv E s d' \<and> resting E d' = rest_upd (o1\<lparr>bo_Size := bo_Size o1 - sz\<rparr>) (resting E d)"
proof -
  show "bo_Size o1 < sz \<Longrightarrow> \<exists>e. decrSize E d oid sz = Inl e"
    using o1 by (simp add: decrSize_def)
  show "sz = bo_Size o1 \<Longrightarrow> \<exists>d'. decrSize E d oid sz = Inr (d', o1\<lparr>bo_Size := 0\<rparr>) \<and>
      depth_inv E s d' \<and> resting E d' = rest_del oid (resting E d)"
    using o1 depth_remove [OF laws inv o1] by (simp add: decrSize_def Let_def key_of_def)
  show "sz < bo_Size o1 \<Longrightarrow> \<exists>d'. decrSize E d oid sz = Inr (d', o1\<lparr>bo_Size := bo_Size o1 - sz\<rparr>) \<and>
      depth_inv E s d' \<and> resting E d' = rest_upd (o1\<lparr>bo_Size := bo_Size o1 - sz\<rparr>) (resting E d)"
    using o1 depth_reduce [OF laws inv o1] by (simp add: decrSize_def Let_def)
qed

subsection \<open>The interface of a side of the book\<close>

text \<open>
  What the order book relies on: a side is a list of orders in price-time priority (\<open>view\<close>);
  \<open>ins\<close> puts an order in its place, \<open>decr\<close> takes an amount off an order and drops the order when
  nothing is left.
\<close>

locale book_side =
  fixes s :: side
    and inv :: "'s \<Rightarrow> bool"
    and view :: "'s \<Rightarrow> 'd::linordered_idom book_order list"
    and lookup :: "'s \<Rightarrow> u64 \<Rightarrow> 'd book_order option"
    and ins :: "'s \<Rightarrow> 'd book_order \<Rightarrow> 's"
    and decr :: "'s \<Rightarrow> u64 \<Rightarrow> 'd \<Rightarrow> string + ('s \<times> 'd book_order)"
  assumes lookup_view: "inv d \<Longrightarrow> lookup d oid = Some o1 \<longleftrightarrow> o1 \<in> set (view d) \<and> bo_OrderId o1 = oid"
    and view_sorted: "inv d \<Longrightarrow> prio_sorted s (view d)"
    and view_distinct: "inv d \<Longrightarrow> distinct (map bo_OrderId (view d))"
    and view_wf: "inv d \<Longrightarrow> o1 \<in> set (view d) \<Longrightarrow> order_wf s o1"
    and ins_view: "inv d \<Longrightarrow> order_wf s o1 \<Longrightarrow> lookup d (bo_OrderId o1) = None \<Longrightarrow>
      inv (ins d o1) \<and> view (ins d o1) = rest_ins s o1 (view d)"
    and decr_all: "inv d \<Longrightarrow> o1 \<in> set (view d) \<Longrightarrow>
      \<exists>d'. decr d (bo_OrderId o1) (bo_Size o1) = Inr (d', o1\<lparr>bo_Size := 0\<rparr>) \<and> inv d' \<and>
        view d' = rest_del (bo_OrderId o1) (view d)"
    and decr_part: "inv d \<Longrightarrow> o1 \<in> set (view d) \<Longrightarrow> sz < bo_Size o1 \<Longrightarrow>
      \<exists>d'. decr d (bo_OrderId o1) sz = Inr (d', o1\<lparr>bo_Size := bo_Size o1 - sz\<rparr>) \<and> inv d' \<and>
        view d' = rest_upd (o1\<lparr>bo_Size := bo_Size o1 - sz\<rparr>) (view d)"
begin

lemma lookup_None: "inv d \<Longrightarrow> lookup d oid = None \<longleftrightarrow> oid \<notin> bo_OrderId ` set (view d)"
  by (metis (no_types, lifting) image_iff lookup_view not_Some_eq)

text \<open>Decreasing the order at a known place of the list.\<close>

lemma decr_at:
  assumes inv: "inv d" and v: "view d = xs @ o1 # ys" and sz: "sz \<le> bo_Size o1"
  defines "o2 \<equiv> o1\<lparr>bo_Size := bo_Size o1 - sz\<rparr>"
  shows "\<exists>d'. decr d (bo_OrderId o1) sz = Inr (d', o2) \<and> inv d' \<and>
    view d' = xs @ (if bo_Size o2 = 0 then [] else [o2]) @ ys"
proof -
  have mem: "o1 \<in> set (view d)" by (simp add: v)
  have ids: "\<And>x. x \<in> set xs \<union> set ys \<Longrightarrow> bo_OrderId x \<noteq> bo_OrderId o1"
    using view_distinct [OF inv] by (auto simp: v image_iff)
  have "rest_del (bo_OrderId o1) (view d) = xs @ ys"
    using ids by (simp add: rest_del_def v)
  moreover have "rest_upd o2 (view d) = xs @ o2 # ys"
    using ids by (simp add: rest_upd_def v o2_def map_idI)
  ultimately show ?thesis
    using decr_all [OF inv mem] decr_part [OF inv mem, of sz] sz
    by (cases "sz = bo_Size o1") (auto simp: o2_def)
qed

end

interpretation side: book_side s "\<lambda>d. treemap_laws (tmap E) \<and> depth_inv E s d" "resting E" dp_orders "add E" "decrSize E"
  for E s
proof unfold_locales
  fix d o1
  assume d: "treemap_laws (tmap E) \<and> depth_inv E s d"
  show "dp_orders d oid = Some o1 \<longleftrightarrow> o1 \<in> set (resting E d) \<and> bo_OrderId o1 = oid" for oid
    using d resting_lookup_iff by blast
  show "prio_sorted s (resting E d)" using d resting_sorted by blast
  show "distinct (map bo_OrderId (resting E d))" using d resting_distinct by blast
  show "order_wf s o1 \<Longrightarrow> dp_orders d (bo_OrderId o1) = None \<Longrightarrow>
      (treemap_laws (tmap E) \<and> depth_inv E s (add E d o1)) \<and> resting E (add E d o1) = rest_ins s o1 (resting E d)"
    using d depth_add by blast
  assume o1: "o1 \<in> set (resting E d)"
  show "order_wf s o1" using d o1 resting_lookup by blast
  from d o1 have l: "dp_orders d (bo_OrderId o1) = Some o1" using resting_lookup by blast
  show "\<exists>d'. decrSize E d (bo_OrderId o1) (bo_Size o1) = Inr (d', o1\<lparr>bo_Size := 0\<rparr>) \<and>
      (treemap_laws (tmap E) \<and> depth_inv E s d') \<and> resting E d' = rest_del (bo_OrderId o1) (resting E d)"
    using decrSize_cases(2) [OF _ _ l] d by blast
  show "sz < bo_Size o1 \<Longrightarrow> \<exists>d'. decrSize E d (bo_OrderId o1) sz = Inr (d', o1\<lparr>bo_Size := bo_Size o1 - sz\<rparr>) \<and>
      (treemap_laws (tmap E) \<and> depth_inv E s d') \<and>
      resting E d' = rest_upd (o1\<lparr>bo_Size := bo_Size o1 - sz\<rparr>) (resting E d)" for sz
    using decrSize_cases(3) [OF _ _ l] d by blast
qed

end
