(* ===== verification/OrderBook.thy ===== *)
theory OrderBook
  imports Depth
begin

text \<open>
  The matching logs of \<open>matching/log.go\<close> and the order book of \<open>matching/order_book.go\<close>: matching a
  taker against the resting orders of the other side, cancelling, nullifying, the IOC/GTX/FOK
  look-aheads, snapshot and restore. Every operation that can panic or call \<open>log.Fatal\<close> returns a
  \<open>res\<close>.
\<close>

subsection \<open>Logs\<close>

record base =
  bs_Type :: string
  bs_Sequence :: int
  bs_ProductId :: string
  bs_Time :: int

record 'd open_log = base +
  ol_OrderId :: u64
  ol_UserId :: u64
  ol_RemainingSize :: 'd
  ol_Price :: 'd
  ol_Side :: side
  ol_TimeInForce :: time_in_force

record 'd done_log = base +
  dl_OrderId :: u64
  dl_UserId :: u64
  dl_Price :: 'd
  dl_RemainingSize :: 'd
  dl_Reason :: done_reason
  dl_Side :: side
  dl_TimeInForce :: time_in_force

record 'd match_log = base +
  ml_TradeSeq :: int
  ml_TakerOrderId :: u64
  ml_MakerOrderId :: u64
  ml_TakerUserId :: u64
  ml_MakerUserId :: u64
  ml_Side :: side
  ml_Price :: 'd
  ml_Size :: 'd
  ml_TakerTimeInForce :: time_in_force
  ml_MakerTimeInForce :: time_in_force

definition LogTypeMatch :: string where "LogTypeMatch = ''match''"
definition LogTypeOpen :: string where "LogTypeOpen = ''open''"
definition LogTypeDone :: string where "LogTypeDone = ''done''"

text \<open>The interface \<open>Log\<close> with the types that implement it and are written to the log.\<close>

datatype 'd log = OpenLog "'d open_log" | MatchLog "'d match_log" | DoneLog "'d done_log"

fun GetSeq :: "'d log \<Rightarrow> int" where
  "GetSeq (OpenLog l) = bs_Sequence l"
| "GetSeq (MatchLog l) = bs_Sequence l"
| "GetSeq (DoneLog l) = bs_Sequence l"

definition newOpenLog :: "('d, 'q) env \<Rightarrow> int \<Rightarrow> string \<Rightarrow> 'd book_order \<Rightarrow> 'd log" where
  "newOpenLog E logSeq productId takerOrder = OpenLog
     \<lparr>bs_Type = LogTypeOpen, bs_Sequence = logSeq, bs_ProductId = productId, bs_Time = clock E logSeq,
      ol_OrderId = bo_OrderId takerOrder, ol_UserId = bo_UserId takerOrder,
      ol_RemainingSize = bo_Size takerOrder, ol_Price = bo_Price takerOrder,
      ol_Side = bo_Side takerOrder, ol_TimeInForce = bo_TimeInForce takerOrder\<rparr>"

definition newDoneLog :: "('d, 'q) env \<Rightarrow> int \<Rightarrow> string \<Rightarrow> 'd book_order \<Rightarrow> 'd \<Rightarrow> done_reason \<Rightarrow> 'd log" where
  "newDoneLog E logSeq productId order remainingSize reason = DoneLog
     \<lparr>bs_Type = LogTypeDone, bs_Sequence = logSeq, bs_ProductId = productId, bs_Time = clock E logSeq,
      dl_OrderId = bo_OrderId order, dl_UserId = bo_UserId order, dl_Price = bo_Price order,
      dl_RemainingSize = remainingSize, dl_Reason = reason, dl_Side = bo_Side order,
      dl_TimeInForce = bo_TimeInForce order\<rparr>"

definition newMatchLog :: "('d, 'q) env \<Rightarrow> int \<Rightarrow> string \<Rightarrow> int \<Rightarrow> 'd book_order \<Rightarrow> 'd book_order \<Rightarrow>
    'd \<Rightarrow> 'd \<Rightarrow> 'd log" where
  "newMatchLog E logSeq productId tradeSeq takerOrder makerOrder price sz = MatchLog
     \<lparr>bs_Type = LogTypeMatch, bs_Sequence = logSeq, bs_ProductId = productId, bs_Time = clock E logSeq,
      ml_TradeSeq = tradeSeq, ml_TakerOrderId = bo_OrderId takerOrder,
      ml_MakerOrderId = bo_OrderId makerOrder, ml_TakerUserId = bo_UserId takerOrder,
      ml_MakerUserId = bo_UserId makerOrder, ml_Side = bo_Side makerOrder, ml_Price = price,
      ml_Size = sz, ml_TakerTimeInForce = bo_TimeInForce takerOrder,
      ml_MakerTimeInForce = bo_TimeInForce makerOrder\<rparr>"

lemma GetSeq_new [simp]:
  "GetSeq (newOpenLog E n pid o1) = n"
  "GetSeq (newDoneLog E n pid o1 r reason) = n"
  "GetSeq (newMatchLog E n pid t o1 o2 p sz) = n"
  by (simp_all add: newOpenLog_def newDoneLog_def newMatchLog_def)

subsection \<open>State\<close>

definition orderIdWindowCap :: u64 where
  "orderIdWindowCap = 10000"

record ('d, 'q) order_book =
  ob_product :: "'d product"
  ob_depths :: "side \<rightharpoonup> ('d, 'q) depth"
  ob_tradeSeq :: int
  ob_logSeq :: int
  ob_orderIdWindows :: "window list"

definition NewOrderBook :: "('d::linordered_idom, 'q) env \<Rightarrow> 'd product \<Rightarrow> ('d, 'q) order_book" where
  "NewOrderBook E product =
     (let asks = \<lparr>dp_orders = Map.empty, dp_queue = tm_new (tmap E) priceOrderIdKeyAscComparator\<rparr>;
          bids = \<lparr>dp_orders = Map.empty, dp_queue = tm_new (tmap E) priceOrderIdKeyDescComparator\<rparr>
      in \<lparr>ob_product = product,
          ob_depths = [SideBuy \<mapsto> bids, SideSell \<mapsto> asks],
          ob_tradeSeq = 0, ob_logSeq = 0,
          ob_orderIdWindows = replicate TableOrderSplitCount (newWindow 0 orderIdWindowCap)\<rparr>)"

definition nextLogSeq :: "('d, 'q) order_book \<Rightarrow> ('d, 'q) order_book \<times> int" where
  "nextLogSeq b = (let n = ob_logSeq b + 1 in (b\<lparr>ob_logSeq := n\<rparr>, n))"

definition nextTradeSeq :: "('d, 'q) order_book \<Rightarrow> ('d, 'q) order_book \<times> int" where
  "nextTradeSeq b = (let n = ob_tradeSeq b + 1 in (b\<lparr>ob_tradeSeq := n\<rparr>, n))"

subsection \<open>Matching one pair\<close>

definition prepareTakerOrder :: "('d::linordered_idom, 'q) env \<Rightarrow> 'd book_order \<Rightarrow> 'd book_order" where
  "prepareTakerOrder E taker =
     (if bo_Type taker = OrderTypeMarket then
        (if bo_Side taker = SideBuy then taker\<lparr>bo_Price := dec_max_float32 (dec E)\<rparr>
         else taker\<lparr>bo_Price := 0\<rparr>)
      else taker)"

definition pricesCross :: "side \<Rightarrow> 'd::linordered_idom \<Rightarrow> 'd \<Rightarrow> bool" where
  "pricesCross takerSide takerPrice makerPrice =
     (if takerSide = SideBuy then makerPrice \<le> takerPrice else takerPrice \<le> makerPrice)"

definition sized_taker :: "'d book_order \<Rightarrow> bool" where
  "sized_taker taker \<longleftrightarrow> bo_Type taker = OrderTypeLimit \<or>
     bo_Type taker = OrderTypeMarket \<and> bo_Side taker = SideSell"

definition funded_taker :: "'d book_order \<Rightarrow> bool" where
  "funded_taker taker \<longleftrightarrow> bo_Type taker = OrderTypeMarket \<and> bo_Side taker = SideBuy"

text \<open>Returns the mutated taker and (size, fundsConsumed, takerExhausted).\<close>

definition calcTradeSize :: "('d::linordered_idom, 'q) env \<Rightarrow> 'd product \<Rightarrow> 'd book_order \<Rightarrow> 'd book_order \<Rightarrow>
    ('d book_order \<times> 'd \<times> 'd \<times> bool) res" where
  "calcTradeSize E product taker maker =
     (if sized_taker taker then
        (if bo_Size taker = 0 then Inr (taker, 0, 0, True)
         else let sz = min (bo_Size taker) (bo_Size maker);
                  taker' = taker\<lparr>bo_Size := bo_Size taker - sz\<rparr>
              in Inr (taker', sz, 0, bo_Size taker' = 0))
      else if funded_taker taker then
        (if bo_Funds taker = 0 then Inr (taker, 0, 0, True)
         else case dec_div (dec E) (bo_Funds taker) (bo_Price maker) of
             None \<Rightarrow> Inl (Panic ''decimal division by 0'')
           | Some q \<Rightarrow>
               let takerSize = dec_truncate (dec E) q (prd_BaseScale product) in
               if takerSize = 0 then Inr (taker, 0, 0, True)
               else let sz = min takerSize (bo_Size maker);
                        fundsConsumed = sz * bo_Price maker;
                        taker' = taker\<lparr>bo_Funds := bo_Funds taker - fundsConsumed\<rparr>
                    in Inr (taker', sz, fundsConsumed, bo_Funds taker' = 0))
      else Inl (Fatal ''unknown orderType and side combination''))"

text \<open>The check at the end of a loop iteration: is the taker's remaining size or funds zero?\<close>

definition taker_exhausted :: "'d::zero book_order \<Rightarrow> bool" where
  "taker_exhausted taker \<longleftrightarrow>
     (if sized_taker taker then bo_Size taker = 0
      else if funded_taker taker then bo_Funds taker = 0 else False)"

subsection \<open>Operations\<close>

text \<open>\<open>o.orderIdWindows[idx].put(order.Id)\<close>: the window's error, or the book with the new window.\<close>

definition put_window :: "('d, 'q) order_book \<Rightarrow> u64 \<Rightarrow> (string + ('d, 'q) order_book) res" where
  "put_window b orderId =
     (let idx = GetTableIndexByOrderId orderId in
      if idx < length (ob_orderIdWindows b) then
        bindR (put (ob_orderIdWindows b ! idx) orderId) (\<lambda>r.
          case r of
            Inl err \<Rightarrow> Inr (Inl err)
          | Inr w \<Rightarrow> Inr (Inr (b\<lparr>ob_orderIdWindows := (ob_orderIdWindows b)[idx := w]\<rparr>)))
      else Inl index_out_of_range)"

text \<open>The loop of \<open>ApplyOrder\<close> over the entries of the maker queue.\<close>

fun apply_loop :: "('d::linordered_idom, 'q) env \<Rightarrow> ('d, 'q) order_book \<Rightarrow> 'd book_order \<Rightarrow> 'd log list \<Rightarrow>
    ('d price_key \<times> u64) list \<Rightarrow> (('d, 'q) order_book \<times> 'd book_order \<times> 'd log list) res" where
  "apply_loop E b taker logs [] = Inr (b, taker, logs)"
| "apply_loop E b taker logs (entry # itr) =
     bindR (deref (ob_depths b (Opposite (bo_Side taker)))) (\<lambda>makerDepth.
     bindR (deref (dp_orders makerDepth (snd entry))) (\<lambda>maker.
     if \<not> pricesCross (bo_Side taker) (bo_Price taker) (bo_Price maker) then Inr (b, taker, logs)
     else bindR (calcTradeSize E (ob_product b) taker maker) (\<lambda>(taker', sz, _, _).
       if sz = 0 then Inr (b, taker', logs)
       else case decrSize E makerDepth (bo_OrderId maker) sz of
           Inl err \<Rightarrow> Inl (Fatal err)
         | Inr (makerDepth', maker') \<Rightarrow>
             let b1 = b\<lparr>ob_depths := (ob_depths b)(Opposite (bo_Side taker) \<mapsto> makerDepth')\<rparr>;
                 (b2, ls) = nextLogSeq b1;
                 (b3, ts) = nextTradeSeq b2;
                 matchLog = newMatchLog E ls (prd_Id (ob_product b)) ts taker' maker' (bo_Price maker') sz;
                 (b4, logs') =
                   (if bo_Size maker' = 0 then
                      (let (b4, ls') = nextLogSeq b3
                       in (b4, logs @ [matchLog, newDoneLog E ls' (prd_Id (ob_product b)) maker'
                             (bo_Size maker') DoneReasonFilled]))
                    else (b3, logs @ [matchLog]))
             in if taker_exhausted taker' then Inr (b4, taker', logs')
                else apply_loop E b4 taker' logs' itr)))"

text \<open>The end of \<open>ApplyOrder\<close>: rest what is left of a limit order, or close the order.\<close>

definition apply_rest :: "('d::linordered_idom, 'q) env \<Rightarrow> ('d, 'q) order_book \<Rightarrow> 'd book_order \<Rightarrow> 'd log list \<Rightarrow>
    (('d, 'q) order_book \<times> 'd log list) res" where
  "apply_rest E b taker logs =
     (if bo_Type taker = OrderTypeLimit \<and> 0 < bo_Size taker then
        bindR (deref (ob_depths b (bo_Side taker))) (\<lambda>d.
          let (b', ls) = nextLogSeq (b\<lparr>ob_depths := (ob_depths b)(bo_Side taker \<mapsto> add E d taker)\<rparr>)
          in Inr (b', logs @ [newOpenLog E ls (prd_Id (ob_product b)) taker]))
      else
        let market = bo_Type taker = OrderTypeMarket;
            taker' = (if market then taker\<lparr>bo_Price := 0\<rparr> else taker);
            remainingSize = (if market then 0 else bo_Size taker);
            reason = (if market \<and> (bo_Side taker = SideSell \<and> 0 < bo_Size taker \<or>
                                  bo_Side taker = SideBuy \<and> 0 < bo_Funds taker)
                      then DoneReasonCancelled else DoneReasonFilled);
            (b', ls) = nextLogSeq b
        in Inr (b', logs @ [newDoneLog E ls (prd_Id (ob_product b)) taker' remainingSize reason]))"

definition ApplyOrder :: "('d::linordered_idom, 'q) env \<Rightarrow> ('d, 'q) order_book \<Rightarrow> 'd order \<Rightarrow>
    (('d, 'q) order_book \<times> 'd log list) res" where
  "ApplyOrder E b order =
     bindR (put_window b (ord_Id order)) (\<lambda>r.
       case r of
         Inl err \<Rightarrow> Inr (b, [])
       | Inr b0 \<Rightarrow>
           let taker = prepareTakerOrder E (newBookOrder order) in
           bindR (deref (ob_depths b0 (Opposite (bo_Side taker)))) (\<lambda>makerDepth.
           bindR (apply_loop E b0 taker [] (tm_iter (tmap E) (dp_queue makerDepth))) (\<lambda>(b1, taker', logs).
             apply_rest E b1 taker' logs)))"

definition IsOrderWillNotMatch :: "('d::linordered_idom, 'q) env \<Rightarrow> ('d, 'q) order_book \<Rightarrow> 'd order \<Rightarrow> bool res" where
  "IsOrderWillNotMatch E b order =
     (let taker = prepareTakerOrder E (newBookOrder order) in
      bindR (deref (ob_depths b (Opposite (bo_Side taker)))) (\<lambda>makerDepth.
        case (if bo_Side taker = SideBuy then tm_min (tmap E) (dp_queue makerDepth)
              else tm_max (tmap E) (dp_queue makerDepth)) of
          None \<Rightarrow> Inr True
        | Some (k, v) \<Rightarrow>
            bindR (deref (dp_orders makerDepth v)) (\<lambda>maker.
              Inr (\<not> pricesCross (bo_Side taker) (bo_Price taker) (bo_Price maker)))))"

fun full_match_loop :: "('d::linordered_idom, 'q) env \<Rightarrow> 'd product \<Rightarrow> ('d, 'q) depth \<Rightarrow> 'd book_order \<Rightarrow>
    ('d price_key \<times> u64) list \<Rightarrow> 'd book_order res" where
  "full_match_loop E product makerDepth taker [] = Inr taker"
| "full_match_loop E product makerDepth taker (entry # itr) =
     bindR (deref (dp_orders makerDepth (snd entry))) (\<lambda>maker.
     if \<not> pricesCross (bo_Side taker) (bo_Price taker) (bo_Price maker) then Inr taker
     else bindR (calcTradeSize E product taker maker) (\<lambda>(taker', sz, _, _).
       if sz = 0 then Inr taker'
       else if taker_exhausted taker' then Inr taker'
       else full_match_loop E product makerDepth taker' itr))"

definition IsOrderWillFullMatch :: "('d::linordered_idom, 'q) env \<Rightarrow> ('d, 'q) order_book \<Rightarrow> 'd order \<Rightarrow> bool res" where
  "IsOrderWillFullMatch E b order =
     (let taker = prepareTakerOrder E (newBookOrder order) in
      bindR (deref (ob_depths b (Opposite (bo_Side taker)))) (\<lambda>makerDepth.
      bindR (full_match_loop E (ob_product b) makerDepth taker (tm_iter (tmap E) (dp_queue makerDepth))) (\<lambda>taker'.
        if bo_Type taker' = OrderTypeLimit \<and> 0 < bo_Size taker' then Inr False else Inr True)))"

definition CancelOrder :: "('d::linordered_idom, 'q) env \<Rightarrow> ('d, 'q) order_book \<Rightarrow> 'd order \<Rightarrow>
    (('d, 'q) order_book \<times> 'd log list) res" where
  "CancelOrder E b order =
     bindR (put_window b (ord_Id order)) (\<lambda>r.
       let b0 = (case r of Inl _ \<Rightarrow> b | Inr b' \<Rightarrow> b') in
       bindR (deref (ob_depths b0 (ord_Side order))) (\<lambda>d.
         case dp_orders d (ord_Id order) of
           None \<Rightarrow> Inr (b0, [])
         | Some bookOrder \<Rightarrow>
             let remainingSize = bo_Size bookOrder in
             (case decrSize E d (ord_Id order) (bo_Size bookOrder) of
                Inl err \<Rightarrow> Inl (Panic err)
              | Inr (d', bookOrder') \<Rightarrow>
                  let (b1, ls) = nextLogSeq (b0\<lparr>ob_depths := (ob_depths b0)(ord_Side order \<mapsto> d')\<rparr>)
                  in Inr (b1, [newDoneLog E ls (prd_Id (ob_product b)) bookOrder' remainingSize
                                DoneReasonCancelled]))))"

definition NullifyOrder :: "('d::linordered_idom, 'q) env \<Rightarrow> ('d, 'q) order_book \<Rightarrow> 'd order \<Rightarrow>
    (('d, 'q) order_book \<times> 'd log list) res" where
  "NullifyOrder E b order =
     bindR (put_window b (ord_Id order)) (\<lambda>r.
       let b0 = (case r of Inl _ \<Rightarrow> b | Inr b' \<Rightarrow> b');
           (b1, ls) = nextLogSeq b0
       in Inr (b1, [newDoneLog E ls (prd_Id (ob_product b)) (newBookOrder order) (ord_Size order)
                     DoneReasonCancelled]))"

subsection \<open>Snapshots\<close>

record 'd order_book_snapshot =
  obs_ProductId :: string
  obs_Orders :: "'d book_order list"
  obs_TradeSeq :: int
  obs_LogSeq :: int
  obs_OrderIdWindows :: "window list"

text \<open>
  Go visits a map in an unspecified order; \<open>sells\<close> and \<open>buys\<close> are the orders of the ids in which the
  two \<open>range\<close> loops visit the maps (\<open>range_of\<close> says that they may).
\<close>

definition range_of :: "('k \<rightharpoonup> 'v) \<Rightarrow> 'k list \<Rightarrow> bool" where
  "range_of m ks \<longleftrightarrow> distinct ks \<and> set ks = dom m"

definition Snapshot :: "('d, 'q) order_book \<Rightarrow> u64 list \<Rightarrow> u64 list \<Rightarrow> 'd order_book_snapshot res" where
  "Snapshot b sells buys =
     bindR (deref (ob_depths b SideSell)) (\<lambda>asks.
     bindR (deref (ob_depths b SideBuy)) (\<lambda>bids.
       Inr \<lparr>obs_ProductId = [],
            obs_Orders = map (\<lambda>i. the (dp_orders asks i)) sells @ map (\<lambda>i. the (dp_orders bids i)) buys,
            obs_TradeSeq = ob_tradeSeq b, obs_LogSeq = ob_logSeq b,
            obs_OrderIdWindows = ob_orderIdWindows b\<rparr>))"

fun restore_orders :: "('d, 'q) env \<Rightarrow> (side \<rightharpoonup> ('d, 'q) depth) \<Rightarrow> 'd book_order list \<Rightarrow> (side \<rightharpoonup> ('d, 'q) depth) res" where
  "restore_orders E depths [] = Inr depths"
| "restore_orders E depths (order # os) =
     bindR (deref (depths (bo_Side order))) (\<lambda>d.
       restore_orders E (depths(bo_Side order \<mapsto> add E d order)) os)"

definition Restore :: "('d, 'q) env \<Rightarrow> ('d, 'q) order_book \<Rightarrow> 'd order_book_snapshot \<Rightarrow> ('d, 'q) order_book res" where
  "Restore E b snapshot =
     (let windows = (if length (obs_OrderIdWindows snapshot) \<noteq> TableOrderSplitCount
                     then replicate TableOrderSplitCount (newWindow 0 orderIdWindowCap)
                     else obs_OrderIdWindows snapshot)
      in bindR (restore_orders E (ob_depths b) (obs_Orders snapshot)) (\<lambda>depths.
           Inr (b\<lparr>ob_logSeq := obs_LogSeq snapshot, ob_tradeSeq := obs_TradeSeq snapshot,
                  ob_orderIdWindows := windows, ob_depths := depths\<rparr>)))"

end
