(* ===== verification/Matching_Spec.thy ===== *)
theory Matching_Spec
  imports OrderBook
begin

text \<open>
  The abstract specification of matching, and the proof that the code implements it. The
  specification knows no maps, queues or iterators: a side of the book is the list of its orders in
  price-time priority, \<open>match_list\<close> matches a taker against such a list, and \<open>trade_logs\<close> writes the
  trades down with consecutive sequence numbers. \<open>apply_loop_refines\<close> shows that the loop of
  \<open>ApplyOrder\<close> over the queue's iterator, with its mutations of the depth, computes this.
\<close>

fun match_list :: "('d::linordered_idom, 'q) env \<Rightarrow> 'd product \<Rightarrow> 'd book_order \<Rightarrow> 'd book_order list \<Rightarrow>
    ('d book_order \<times> 'd book_order list \<times> ('d book_order \<times> 'd) list) res" where
  "match_list E product taker [] = Inr (taker, [], [])"
| "match_list E product taker (maker # makers) =
     (if \<not> pricesCross (bo_Side taker) (bo_Price taker) (bo_Price maker)
      then Inr (taker, maker # makers, [])
      else bindR (calcTradeSize E product taker maker) (\<lambda>(taker', sz, _, _).
        if sz = 0 then Inr (taker', maker # makers, [])
        else let maker' = maker\<lparr>bo_Size := bo_Size maker - sz\<rparr>;
                 left = (if bo_Size maker' = 0 then [] else [maker'])
             in if taker_exhausted taker' then Inr (taker', left @ makers, [(maker', sz)])
                else bindR (match_list E product taker' makers) (\<lambda>(taker'', makers', trades).
                  Inr (taker'', left @ makers', (maker', sz) # trades))))"

text \<open>The logs of a list of trades (the maker after the trade, and the size traded).\<close>

fun trade_logs :: "('d::linordered_idom, 'q) env \<Rightarrow> string \<Rightarrow> 'd book_order \<Rightarrow> int \<Rightarrow> int \<Rightarrow>
    ('d book_order \<times> 'd) list \<Rightarrow> 'd log list" where
  "trade_logs E pid taker ls ts [] = []"
| "trade_logs E pid taker ls ts ((maker, sz) # trades) =
     newMatchLog E (ls + 1) pid (ts + 1) taker maker (bo_Price maker) sz #
     (if bo_Size maker = 0
      then newDoneLog E (ls + 1 + 1) pid maker 0 DoneReasonFilled # trade_logs E pid taker (ls + 1 + 1) (ts + 1) trades
      else trade_logs E pid taker (ls + 1) (ts + 1) trades)"

text \<open>The fields of a taker that matching does not change.\<close>

definition same_ident :: "'d book_order \<Rightarrow> 'd book_order \<Rightarrow> bool" where
  "same_ident a b \<longleftrightarrow> bo_OrderId a = bo_OrderId b \<and> bo_UserId a = bo_UserId b \<and>
     bo_Side a = bo_Side b \<and> bo_Type a = bo_Type b \<and> bo_TimeInForce a = bo_TimeInForce b \<and>
     bo_Price a = bo_Price b"

lemma same_identD:
  assumes "same_ident a b"
  shows "bo_OrderId a = bo_OrderId b" "bo_UserId a = bo_UserId b" "bo_Side a = bo_Side b"
    "bo_Type a = bo_Type b" "bo_TimeInForce a = bo_TimeInForce b" "bo_Price a = bo_Price b"
  using assms by (simp_all add: same_ident_def)

lemma same_ident_refl [simp]: "same_ident a a"
  by (simp add: same_ident_def)

lemma same_ident_trans: "same_ident a b \<Longrightarrow> same_ident b c \<Longrightarrow> same_ident a c"
  by (simp add: same_ident_def)

lemma same_ident_sized: "same_ident a b \<Longrightarrow> sized_taker a = sized_taker b"
  by (simp add: same_ident_def sized_taker_def)

lemma same_ident_funded: "same_ident a b \<Longrightarrow> funded_taker a = funded_taker b"
  by (simp add: same_ident_def funded_taker_def)

lemma newMatchLog_ident: "same_ident a b \<Longrightarrow> newMatchLog E ls pid ts a = newMatchLog E ls pid ts b"
  by (intro ext) (simp add: newMatchLog_def same_ident_def)

lemma trade_logs_ident: "same_ident a b \<Longrightarrow> trade_logs E pid a ls ts trades = trade_logs E pid b ls ts trades"
  by (induction E pid a ls ts trades rule: trade_logs.induct) (auto simp: newMatchLog_ident)

text \<open>The branches of \<open>calcTradeSize\<close>.\<close>

lemma calcTradeSize_sized:
  "sized_taker taker \<Longrightarrow> calcTradeSize E product taker maker =
     (if bo_Size taker = 0 then Inr (taker, 0, 0, True)
      else let sz = min (bo_Size taker) (bo_Size maker); taker' = taker\<lparr>bo_Size := bo_Size taker - sz\<rparr>
        in Inr (taker', sz, 0, bo_Size taker' = 0))"
  by (simp add: calcTradeSize_def)

lemma not_sized_funded: "funded_taker taker \<Longrightarrow> \<not> sized_taker taker"
  by (auto simp: funded_taker_def sized_taker_def)

lemma calcTradeSize_ident:
  "calcTradeSize E product taker maker = Inr (taker', sz, fc, ex) \<Longrightarrow> same_ident taker' taker"
  by (auto simp: calcTradeSize_def same_ident_def Let_def split: if_splits option.splits)

lemma calcTradeSize_le:
  "calcTradeSize E product taker maker = Inr (taker', sz, fc, ex) \<Longrightarrow> sz \<noteq> 0 \<Longrightarrow> sz \<le> bo_Size maker"
  by (auto simp: calcTradeSize_def Let_def split: if_splits option.splits)

lemma match_list_ident:
  "match_list E product taker makers = Inr (taker', makers', trades) \<Longrightarrow> same_ident taker' taker"
proof (induction makers arbitrary: taker taker' makers' trades)
  case Nil
  then show ?case by simp
next
  case (Cons maker makers)
  have "same_ident taker' taker" if "match_list E product t1 makers = Inr (taker', ms, tr)"
    and "same_ident t1 taker" for t1 ms tr
    using Cons.IH [OF that(1)] that(2) by (rule same_ident_trans)
  with Cons.prems show ?case
    by (fastforce simp: bindR_eq_Inr Let_def split: if_splits dest!: calcTradeSize_ident)
qed

subsection \<open>The loop\<close>

text \<open>The book after the trades, as the code leaves it.\<close>

definition after_trades :: "('d::linordered_idom, 'q) env \<Rightarrow> ('d, 'q) order_book \<Rightarrow> 'd book_order \<Rightarrow>
    ('d, 'q) depth \<Rightarrow> ('d book_order \<times> 'd) list \<Rightarrow> ('d, 'q) order_book" where
  "after_trades E b taker d trades =
     b\<lparr>ob_depths := (ob_depths b)(Opposite (bo_Side taker) \<mapsto> d),
       ob_tradeSeq := ob_tradeSeq b + int (length trades),
       ob_logSeq := ob_logSeq b + int (length (trade_logs E (prd_Id (ob_product b)) taker (ob_logSeq b) (ob_tradeSeq b) trades))\<rparr>"

lemma after_trades_Nil:
  "ob_depths b (Opposite (bo_Side taker)) = Some d \<Longrightarrow> after_trades E b taker d [] = b"
  by (simp add: after_trades_def fun_upd_idem)

definition trades_of :: "('d::linordered_idom, 'q) env \<Rightarrow> ('d, 'q) order_book \<Rightarrow> 'd book_order \<Rightarrow>
    ('d book_order \<times> 'd) list \<Rightarrow> 'd log list" where
  "trades_of E b taker trades =
     trade_logs E (prd_Id (ob_product b)) taker (ob_logSeq b) (ob_tradeSeq b) trades"

lemma seq_update_commute:
  "ob_tradeSeq_update g (ob_logSeq_update f b) = ob_logSeq_update f (ob_tradeSeq_update g b)"
  by (cases b) simp

text \<open>One trade of the loop, and composing it with the rest.\<close>

lemma after_trades_Cons:
  assumes "same_ident taker' taker"
  shows "after_trades E (after_trades E b taker d1 [(maker, sz)]) taker' d2 trades =
      after_trades E b taker d2 ((maker, sz) # trades)"
    and "trades_of E b taker [(maker, sz)] @ trades_of E (after_trades E b taker d1 [(maker, sz)]) taker' trades =
      trades_of E b taker ((maker, sz) # trades)"
  by (simp_all add: after_trades_def trades_of_def same_identD(3) [OF assms] trade_logs_ident [OF assms]
      algebra_simps)

lemma loop_step:
  assumes "ob_depths b (Opposite (bo_Side taker)) = Some d"
    and "dp_orders d oid = Some maker"
    and "pricesCross (bo_Side taker) (bo_Price taker) (bo_Price maker)"
    and calc: "calcTradeSize E (ob_product b) taker maker = Inr (taker', sz, fc, ex)" and "sz \<noteq> 0"
    and "decrSize E d (bo_OrderId maker) sz = Inr (d', maker')"
  shows "apply_loop E b taker logs ((k, oid) # itr) =
    (let b' = after_trades E b taker d' [(maker', sz)]; logs' = logs @ trades_of E b taker [(maker', sz)]
     in if taker_exhausted taker' then Inr (b', taker', logs') else apply_loop E b' taker' logs' itr)"
proof -
  note id = newMatchLog_ident [OF calcTradeSize_ident [OF calc]]
  show ?thesis
    using assms
    by (simp add: after_trades_def trades_of_def nextLogSeq_def nextTradeSeq_def Let_def id seq_update_commute
        add.commute [of 2 "ob_logSeq b"])
qed

text \<open>
  The loop refines the specification. At any point of the loop the depth holds the orders \<open>passed\<close>
  that the loop has gone by (a market buy may leave a partly filled maker and go on) and the orders
  \<open>makers\<close> that the iterator has still to visit.
\<close>

definition entries :: "'d book_order list \<Rightarrow> ('d price_key \<times> u64) list" where
  "entries os = map (\<lambda>o1. (key_of o1, bo_OrderId o1)) os"

lemma entries_simps [simp]:
  "entries [] = []" "entries (o1 # os) = (key_of o1, bo_OrderId o1) # entries os"
  by (simp_all add: entries_def)

definition loop_ok :: "('d::linordered_idom, 'q) env \<Rightarrow> ('d, 'q) order_book \<Rightarrow> 'd book_order \<Rightarrow> 'd log list \<Rightarrow>
    'd book_order list \<Rightarrow> 'd book_order list \<Rightarrow> bool" where
  "loop_ok E b taker logs passed makers \<longleftrightarrow>
     (case match_list E (ob_product b) taker makers of
        Inl f \<Rightarrow> apply_loop E b taker logs (entries makers) = Inl f
      | Inr (taker', makers', trades) \<Rightarrow> \<exists>d'. depth_inv E (Opposite (bo_Side taker)) d' \<and>
          resting E d' = passed @ makers' \<and>
          apply_loop E b taker logs (entries makers) =
            Inr (after_trades E b taker d' trades, taker', logs @ trades_of E b taker trades))"

lemma loop_ok_stop:
  assumes "ob_depths b (Opposite (bo_Side taker)) = Some d" and "depth_inv E (Opposite (bo_Side taker)) d"
    and "resting E d = passed @ makers"
    and "match_list E (ob_product b) taker makers = Inr (taker', makers, [])"
    and "apply_loop E b taker logs (entries makers) = Inr (b, taker', logs)"
  shows "loop_ok E b taker logs passed makers"
  using assms after_trades_Nil [OF assms(1), of E] by (auto simp: loop_ok_def trades_of_def)

lemma loop_ok_trade:
  assumes laws: "treemap_laws (tmap E)"
    and d: "ob_depths b (Opposite (bo_Side taker)) = Some d"
    and inv: "depth_inv E (Opposite (bo_Side taker)) d" and view: "resting E d = passed @ maker # makers"
    and cross: "pricesCross (bo_Side taker) (bo_Price taker) (bo_Price maker)"
    and calc: "calcTradeSize E (ob_product b) taker maker = Inr (taker1, sz, fc, ex)" and sz: "sz \<noteq> 0"
    and IH: "\<And>b1 d1 passed1 logs1. ob_product b1 = ob_product b \<Longrightarrow>
      ob_depths b1 (Opposite (bo_Side taker1)) = Some d1 \<Longrightarrow>
      depth_inv E (Opposite (bo_Side taker1)) d1 \<Longrightarrow> resting E d1 = passed1 @ makers \<Longrightarrow>
      loop_ok E b1 taker1 logs1 passed1 makers"
  shows "loop_ok E b taker logs passed (maker # makers)"
proof -
  define maker1 where "maker1 = maker\<lparr>bo_Size := bo_Size maker - sz\<rparr>"
  define left where "left = (if bo_Size maker1 = 0 then [] else [maker1])"
  have lk: "dp_orders d (bo_OrderId maker) = Some maker"
    using resting_lookup(1) [OF inv] by (simp add: view)
  obtain d1 where d1: "decrSize E d (bo_OrderId maker) sz = Inr (d1, maker1)"
      "depth_inv E (Opposite (bo_Side taker)) d1" "resting E d1 = passed @ left @ makers"
    using side.decr_at [OF conjI [OF laws inv] view calcTradeSize_le [OF calc sz]]
    by (auto simp: maker1_def left_def)
  define b1 where "b1 = after_trades E b taker d1 [(maker1, sz)]"
  note id = same_identD [OF calcTradeSize_ident [OF calc]]
  have b1: "ob_depths b1 (Opposite (bo_Side taker1)) = Some d1" "ob_product b1 = ob_product b"
    by (simp_all add: b1_def after_trades_def id)
  note step = loop_step [OF d lk cross calc sz d1(1), folded b1_def]
  have ml: "match_list E (ob_product b) taker (maker # makers) =
      (if taker_exhausted taker1 then Inr (taker1, left @ makers, [(maker1, sz)])
       else bindR (match_list E (ob_product b) taker1 makers) (\<lambda>(t2, m2, tr). Inr (t2, left @ m2, (maker1, sz) # tr)))"
    using cross calc sz by (simp add: maker1_def left_def Let_def)
  show ?thesis
  proof (cases "taker_exhausted taker1")
    case True
    then show ?thesis
      using d1 by (auto simp: loop_ok_def ml step b1_def simp del: apply_loop.simps match_list.simps)
  next
    case False
    have ok: "loop_ok E b1 taker1 (logs @ trades_of E b taker [(maker1, sz)]) (passed @ left) makers"
      using IH [OF b1(2,1)] d1 id by simp
    note comp = after_trades_Cons [OF calcTradeSize_ident [OF calc], where E = E and b = b and ?d1.0 = d1
        and maker = maker1 and sz = sz, folded b1_def]
    show ?thesis
    proof (cases "match_list E (ob_product b) taker1 makers")
      case (Inl f)
      with ok False show ?thesis
        by (simp add: loop_ok_def ml step b1 Let_def del: apply_loop.simps match_list.simps)
    next
      case (Inr r)
      obtain taker2 makers2 trades2 where "r = (taker2, makers2, trades2)" by (cases r)
      with Inr ok False comp show ?thesis
        by (auto simp: loop_ok_def ml step b1 id Let_def simp del: apply_loop.simps match_list.simps)
    qed
  qed
qed

lemma apply_loop_refines:
  assumes laws: "treemap_laws (tmap E)"
    and "ob_depths b (Opposite (bo_Side taker)) = Some d"
    and "depth_inv E (Opposite (bo_Side taker)) d" and "resting E d = passed @ makers"
  shows "loop_ok E b taker logs passed makers"
  using assms(2-4)
proof (induction makers arbitrary: b taker d logs passed)
  case Nil
  then show ?case by (intro loop_ok_stop) simp_all
next
  case (Cons maker makers)
  have lk: "dp_orders d (bo_OrderId maker) = Some maker"
    using resting_lookup(1) [OF Cons.prems(2)] by (simp add: Cons.prems(3))
  consider (no_cross) "\<not> pricesCross (bo_Side taker) (bo_Price taker) (bo_Price maker)"
    | (fault) f where "pricesCross (bo_Side taker) (bo_Price taker) (bo_Price maker)"
        "calcTradeSize E (ob_product b) taker maker = Inl f"
    | (calc) taker1 sz fc ex where "pricesCross (bo_Side taker) (bo_Price taker) (bo_Price maker)"
        "calcTradeSize E (ob_product b) taker maker = Inr (taker1, sz, fc, ex)"
    by (metis old.sum.exhaust prod_cases4)
  then show ?case
  proof cases
    case no_cross
    then show ?thesis using lk Cons.prems(1) by (intro loop_ok_stop [OF Cons.prems]) simp_all
  next
    case fault
    then show ?thesis using lk Cons.prems(1) by (simp add: loop_ok_def)
  next
    case calc
    show ?thesis
    proof (cases "sz = 0")
      case True
      then show ?thesis using calc lk Cons.prems(1) by (intro loop_ok_stop [OF Cons.prems]) simp_all
    next
      case False
      show ?thesis by (rule loop_ok_trade [OF laws Cons.prems calc False Cons.IH])
    qed
  qed
qed

end
