(* ===== verification/Book_Invariant.thy ===== *)
theory Book_Invariant
  imports Matching_Spec
begin

text \<open>
  The invariant of the order book, the abstract book, and the main theorems on \<open>ApplyOrder\<close>,
  \<open>CancelOrder\<close> and \<open>NullifyOrder\<close>: they never panic on a well-formed book, they keep the invariant
  (in particular the book is never crossed and no order rests twice), and \<open>ApplyOrder\<close> implements
  the list specification.
\<close>

definition book_view :: "('d, 'q) env \<Rightarrow> ('d, 'q) order_book \<Rightarrow> side \<Rightarrow> 'd book_order list" where
  "book_view E b s = (case ob_depths b s of None \<Rightarrow> [] | Some d \<Rightarrow> resting E d)"

definition uncrossed :: "'d::linordered_idom book_order list \<Rightarrow> 'd book_order list \<Rightarrow> bool" where
  "uncrossed bids asks \<longleftrightarrow> (\<forall>x\<in>set bids. \<forall>y\<in>set asks. bo_Price x < bo_Price y)"

definition window_of :: "('d, 'q) order_book \<Rightarrow> u64 \<Rightarrow> window" where
  "window_of b oid = ob_orderIdWindows b ! GetTableIndexByOrderId oid"

definition book_inv :: "('d::linordered_idom, 'q) env \<Rightarrow> ('d, 'q) order_book \<Rightarrow> bool" where
  "book_inv E b \<longleftrightarrow>
     dom (ob_depths b) = {SideBuy, SideSell} \<and>
     (\<forall>s d. ob_depths b s = Some d \<longrightarrow> depth_inv E s d) \<and>
     length (ob_orderIdWindows b) = TableOrderSplitCount \<and>
     (\<forall>w\<in>set (ob_orderIdWindows b). window_inv w) \<and>
     (\<forall>s. \<forall>o1\<in>set (book_view E b s). window_refuses (window_of b (bo_OrderId o1)) (bo_OrderId o1)) \<and>
     uncrossed (book_view E b SideBuy) (book_view E b SideSell)"

text \<open>The orders that the service hands to the engine; nothing forces other sides out.\<close>

definition order_ok :: "'d::linordered_idom order \<Rightarrow> bool" where
  "order_ok order \<longleftrightarrow> id_ok (ord_Id order) \<and> valid_side (ord_Side order) \<and>
     0 \<le> ord_Size order \<and> 0 \<le> ord_Funds order \<and>
     (ord_Type order = OrderTypeLimit \<and> 0 < ord_Price order \<or> ord_Type order = OrderTypeMarket)"

text \<open>The laws of the packages, together.\<close>

definition env_laws :: "('d::linordered_idom, 'q) env \<Rightarrow> bool" where
  "env_laws E \<longleftrightarrow> treemap_laws (tmap E) \<and> decimal_laws (dec E)"

lemma env_lawsD: "env_laws E \<Longrightarrow> treemap_laws (tmap E)" "env_laws E \<Longrightarrow> decimal_laws (dec E)"
  by (simp_all add: env_laws_def)

lemma book_inv_depth:
  assumes "book_inv E b" and "valid_side s"
  obtains d where "ob_depths b s = Some d" and "depth_inv E s d" and "book_view E b s = resting E d"
proof -
  have "s \<in> dom (ob_depths b)" using assms by (auto simp: book_inv_def valid_side_def)
  then obtain d where "ob_depths b s = Some d" by auto
  then show thesis using that assms(1) by (simp add: book_inv_def book_view_def)
qed

lemma valid_Opposite [simp]: "valid_side (Opposite s)"
  by (simp add: Opposite_def)

lemma Opposite_neq_self: "valid_side s \<Longrightarrow> Opposite s \<noteq> s"
  by (auto simp: valid_side_def)

lemma Opposite_Opposite: "valid_side s \<Longrightarrow> Opposite (Opposite s) = s"
  by (auto simp: valid_side_def)

lemma book_view_invalid: "book_inv E b \<Longrightarrow> \<not> valid_side s \<Longrightarrow> book_view E b s = []"
  by (auto simp: book_inv_def valid_side_def book_view_def split: option.splits)

lemma book_inv_wf: "book_inv E b \<Longrightarrow> o1 \<in> set (book_view E b s) \<Longrightarrow> order_wf s o1"
  by (cases "valid_side s") (auto elim!: book_inv_depth [of E b s] simp: book_view_invalid intro: resting_lookup(2))

lemma book_inv_refuses:
  "book_inv E b \<Longrightarrow> o1 \<in> set (book_view E b s) \<Longrightarrow> window_refuses (window_of b (bo_OrderId o1)) (bo_OrderId o1)"
  by (simp add: book_inv_def)

subsection \<open>What matching does to the maker list\<close>

lemma calcTradeSize_total:
  assumes "decimal_laws (dec E)" and "sized_taker taker \<or> funded_taker taker" and "0 < bo_Price maker"
  shows "\<exists>r. calcTradeSize E product taker maker = Inr r"
proof -
  have "bo_Price maker \<noteq> 0" using assms(3) by simp
  then obtain q where "dec_div (dec E) (bo_Funds taker) (bo_Price maker) = Some q"
    by (rule decimal_laws_div [OF assms(1)])
  with assms(2) show ?thesis by (auto simp: calcTradeSize_def Let_def)
qed

lemma match_list_total:
  assumes "decimal_laws (dec E)" and "sized_taker taker \<or> funded_taker taker"
    and "\<And>o1. o1 \<in> set makers \<Longrightarrow> 0 < bo_Price o1"
  shows "\<exists>r. match_list E product taker makers = Inr r"
  using assms(2,3)
proof (induction makers arbitrary: taker)
  case Nil
  then show ?case by simp
next
  case (Cons maker makers)
  obtain taker1 sz fc ex where calc: "calcTradeSize E product taker maker = Inr (taker1, sz, fc, ex)"
    using calcTradeSize_total [OF assms(1) Cons.prems(1), of maker product] Cons.prems(2)
    by (metis list.set_intros(1) prod_cases4)
  note id = calcTradeSize_ident [OF calc]
  obtain r where "match_list E product taker1 makers = Inr r"
    using Cons.IH [of taker1] Cons.prems same_ident_sized [OF id] same_ident_funded [OF id] by auto
  then show ?case by (cases r) (simp add: calc Let_def)
qed

text \<open>The makers that are left are makers from the list: same id, same price.\<close>

lemma match_list_ids:
  "match_list E product taker makers = Inr (taker', makers', trades) \<Longrightarrow> o2 \<in> set makers' \<Longrightarrow>
    \<exists>o1\<in>set makers. key_of o2 = key_of o1"
proof (induction makers arbitrary: taker taker' makers' trades)
  case Nil
  then show ?case by simp
next
  case (Cons maker makers)
  have key: "key_of (maker\<lparr>bo_Size := sz\<rparr>) = key_of maker" for sz by (simp add: key_of_def)
  from Cons.prems(1) show ?case
    using Cons.prems(2) Cons.IH
    by (fastforce simp: bindR_eq_Inr Let_def key split: if_splits)
qed

text \<open>One step of matching for a taker that is limited by size.\<close>

lemma match_list_sized:
  assumes "sized_taker taker" and "0 < bo_Size maker"
  shows "match_list E product taker (maker # makers) =
     (if \<not> pricesCross (bo_Side taker) (bo_Price taker) (bo_Price maker) \<or> bo_Size taker = 0
      then Inr (taker, maker # makers, [])
      else if bo_Size taker \<le> bo_Size maker
      then let maker' = maker\<lparr>bo_Size := bo_Size maker - bo_Size taker\<rparr>
           in Inr (taker\<lparr>bo_Size := 0\<rparr>, (if bo_Size maker' = 0 then [] else [maker']) @ makers,
                   [(maker', bo_Size taker)])
      else bindR (match_list E product (taker\<lparr>bo_Size := bo_Size taker - bo_Size maker\<rparr>) makers)
             (\<lambda>(taker'', makers', trades). Inr (taker'', makers', (maker\<lparr>bo_Size := 0\<rparr>, bo_Size maker) # trades)))"
proof -
  have sized: "sized_taker (taker\<lparr>bo_Size := x\<rparr>)" for x using assms(1) by (simp add: sized_taker_def)
  show ?thesis
    using assms by (simp add: calcTradeSize_sized Let_def min_def taker_exhausted_def sized)
qed

lemma sized_taker_upd [simp]: "sized_taker (taker\<lparr>bo_Size := x\<rparr>) = sized_taker taker"
  by (simp add: sized_taker_def)

text \<open>If a limit taker has something left, no maker that is left crosses its price.\<close>

lemma match_list_no_cross:
  assumes "match_list E product taker makers = Inr (taker', makers', trades)"
    and "prio_sorted (Opposite (bo_Side taker)) makers" and "valid_side (bo_Side taker)"
    and "\<And>o1. o1 \<in> set makers \<Longrightarrow> 0 < bo_Size o1"
    and "sized_taker taker" and "0 < bo_Size taker'" and "o2 \<in> set makers'"
  shows "\<not> pricesCross (bo_Side taker) (bo_Price taker) (bo_Price o2)"
  using assms
proof (induction makers arbitrary: taker makers' trades)
  case Nil
  then show ?case by simp
next
  case (Cons maker makers)
  have pos: "0 < bo_Size maker" using Cons.prems(4) by simp
  note step = match_list_sized [OF Cons.prems(5) pos, of E product makers]
  show ?case
  proof (cases "pricesCross (bo_Side taker) (bo_Price taker) (bo_Price maker)")
    case False
    then have "makers' = maker # makers" using Cons.prems(1) by simp
    then have "o2 = maker \<or> priority (Opposite (bo_Side taker)) maker o2"
      using Cons.prems(2,7) by auto
    with False Cons.prems(3) show ?thesis
      by (elim valid_side_cases) (auto simp: pricesCross_def priority_def better_def)
  next
    case True
    have "bo_Size maker < bo_Size taker"
      using Cons.prems(1,6) True unfolding step by (auto simp: Let_def split: if_splits)
    then obtain trades2 where
      "match_list E product (taker\<lparr>bo_Size := bo_Size taker - bo_Size maker\<rparr>) makers = Inr (taker', makers', trades2)"
      using Cons.prems(1) True pos unfolding step by (auto simp: bindR_eq_Inr)
    from Cons.IH [OF this] Cons.prems show ?thesis by simp
  qed
qed

subsection \<open>The invariant under the pieces of the operations\<close>

text \<open>Only the depths and the windows matter for the invariant.\<close>

lemma book_view_upd:
  "ob_depths b' = (ob_depths b)(s \<mapsto> d) \<Longrightarrow> book_view E b' = (book_view E b)(s := resting E d)"
  by (auto simp: book_view_def fun_eq_iff)

lemma book_view_cong: "ob_depths b' = ob_depths b \<Longrightarrow> book_view E b' = book_view E b"
  by (simp add: book_view_def fun_eq_iff)

lemma book_inv_cong:
  "ob_depths b' = ob_depths b \<Longrightarrow> ob_orderIdWindows b' = ob_orderIdWindows b \<Longrightarrow>
    book_inv E b' = book_inv E b"
  by (simp add: book_inv_def window_of_def book_view_cong [of b' b])

lemma uncrossed_keys:
  assumes "uncrossed bids asks"
    and "\<And>o2. o2 \<in> set bids' \<Longrightarrow> \<exists>o1\<in>set bids. key_of o2 = key_of o1"
    and "\<And>o2. o2 \<in> set asks' \<Longrightarrow> \<exists>o1\<in>set asks. key_of o2 = key_of o1"
  shows "uncrossed bids' asks'"
  unfolding uncrossed_def
proof (intro ballI)
  fix x y assume "x \<in> set bids'" "y \<in> set asks'"
  then obtain x' y' where "x' \<in> set bids" "key_of x = key_of x'" "y' \<in> set asks" "key_of y = key_of y'"
    using assms(2,3) by blast
  then show "bo_Price x < bo_Price y"
    using assms(1) by (metis key_of_simps(1) uncrossed_def)
qed

text \<open>A side loses orders, or orders of it shrink.\<close>

lemma book_inv_shrink:
  assumes inv: "book_inv E b" and s: "valid_side s" and d: "depth_inv E s d"
    and ids: "\<And>o2. o2 \<in> set (resting E d) \<Longrightarrow> \<exists>o1\<in>set (book_view E b s). key_of o2 = key_of o1"
    and upd: "ob_depths b' = (ob_depths b)(s \<mapsto> d)" "ob_orderIdWindows b' = ob_orderIdWindows b"
  shows "book_inv E b'"
proof -
  note view = book_view_upd [OF upd(1), of E]
  have keys: "\<exists>o1\<in>set (book_view E b t). key_of o2 = key_of o1" if "o2 \<in> set (book_view E b' t)" for t o2
    using that ids by (cases "t = s") (auto simp: view)
  have "window_refuses (window_of b' (bo_OrderId o2)) (bo_OrderId o2)" if "o2 \<in> set (book_view E b' t)" for t o2
  proof -
    from keys [OF that] obtain o1 where "o1 \<in> set (book_view E b t)" "key_of o2 = key_of o1" by blast
    moreover from this have "bo_OrderId o2 = bo_OrderId o1" by (simp add: key_eq_iff)
    ultimately show ?thesis using book_inv_refuses [OF inv] by (simp add: window_of_def upd(2))
  qed
  moreover have "dom (ob_depths b') = {SideBuy, SideSell}"
    using inv s by (auto simp: book_inv_def upd(1) valid_side_def)
  moreover have "uncrossed (book_view E b' SideBuy) (book_view E b' SideSell)"
    by (rule uncrossed_keys [of "book_view E b SideBuy" "book_view E b SideSell"])
      (use inv in \<open>simp add: book_inv_def\<close>, erule keys, erule keys)
  ultimately show ?thesis
    using inv d by (simp add: book_inv_def upd)
qed

lemma put_window_refused:
  assumes inv: "book_inv E b" and "id_ok oid" and "window_refuses (window_of b oid) oid"
  shows "\<exists>e. put_window b oid = Inr (Inl e)"
proof -
  have i: "GetTableIndexByOrderId oid < length (ob_orderIdWindows b)"
    using inv GetTableIndexByOrderId_less by (simp add: book_inv_def)
  then have "window_inv (window_of b oid)" using inv by (simp add: book_inv_def window_of_def)
  then obtain e where "put (window_of b oid) oid = Inr (Inl e)" using put_refused assms(2,3) by blast
  with i show ?thesis by (simp add: put_window_def window_of_def)
qed

lemma put_window_accepted:
  assumes inv: "book_inv E b" and ok: "id_ok oid" and "\<not> window_refuses (window_of b oid) oid"
  obtains ws where "put_window b oid = Inr (Inr (b\<lparr>ob_orderIdWindows := ws\<rparr>))"
    and "book_inv E (b\<lparr>ob_orderIdWindows := ws\<rparr>)"
    and "window_refuses (window_of (b\<lparr>ob_orderIdWindows := ws\<rparr>) oid) oid"
    and "\<And>u. window_refuses (window_of b u) u \<Longrightarrow> window_refuses (window_of (b\<lparr>ob_orderIdWindows := ws\<rparr>) u) u"
proof -
  define i where "i = GetTableIndexByOrderId oid"
  have i: "i < length (ob_orderIdWindows b)"
    using inv GetTableIndexByOrderId_less by (simp add: book_inv_def i_def)
  then have "window_inv (window_of b oid)" using inv by (simp add: book_inv_def window_of_def i_def)
  then obtain w where w: "put (window_of b oid) oid = Inr (Inr w)" "window_inv w" "window_refuses w oid"
      "\<And>u. window_refuses (window_of b oid) u \<Longrightarrow> window_refuses w u"
    using put_accepted ok assms(3) by blast
  define b1 where "b1 = b\<lparr>ob_orderIdWindows := (ob_orderIdWindows b)[i := w]\<rparr>"
  have "put_window b oid = Inr (Inr b1)"
    using w(1) i by (simp add: put_window_def window_of_def i_def b1_def)
  moreover have mono: "window_refuses (window_of b1 u) u" if "window_refuses (window_of b u) u" for u
    using that w(4) i by (cases "GetTableIndexByOrderId u = i") (auto simp: window_of_def b1_def i_def)
  moreover have "book_inv E b1"
    using inv w(2) mono book_view_cong [of b1 b E] set_update_subset_insert [of "ob_orderIdWindows b" i w]
    by (auto simp: book_inv_def b1_def)
  moreover have "window_refuses (window_of b1 oid) oid" using i w(3) by (simp add: window_of_def b1_def i_def)
  ultimately show thesis using that by (simp add: b1_def)
qed

lemma not_refused_not_resting:
  assumes "book_inv E b" and "\<not> window_refuses (window_of b oid) oid" and "ob_depths b s = Some d"
  shows "dp_orders d oid = None"
proof (rule ccontr)
  assume "dp_orders d oid \<noteq> None"
  then obtain o1 where "dp_orders d oid = Some o1" by blast
  moreover have "depth_inv E s d" using assms(1,3) by (simp add: book_inv_def)
  ultimately have "o1 \<in> set (book_view E b s)" "bo_OrderId o1 = oid"
    using assms(3) by (simp_all add: resting_lookup_iff book_view_def)
  then show False using book_inv_refuses [OF assms(1)] assms(2) by blast
qed

text \<open>A limit order goes on the book: nothing on the other side crosses its price.\<close>

lemma book_inv_rest:
  assumes laws: "treemap_laws (tmap E)" and inv: "book_inv E b" and wf: "order_wf s o1" and s: "valid_side s"
    and d: "ob_depths b s = Some d" and new: "dp_orders d (bo_OrderId o1) = None"
    and refuses: "window_refuses (window_of b (bo_OrderId o1)) (bo_OrderId o1)"
    and nc: "\<And>o2. o2 \<in> set (book_view E b (Opposite s)) \<Longrightarrow> \<not> pricesCross s (bo_Price o1) (bo_Price o2)"
    and upd: "ob_depths b' = (ob_depths b)(s \<mapsto> add E d o1)" "ob_orderIdWindows b' = ob_orderIdWindows b"
  shows "book_inv E b'" and "book_view E b' = (book_view E b)(s := rest_ins s o1 (book_view E b s))"
proof -
  have di: "depth_inv E s d" using inv d by (simp add: book_inv_def)
  note add = depth_add [OF laws di wf new]
  have vs: "book_view E b s = resting E d" by (simp add: book_view_def d)
  show view: "book_view E b' = (book_view E b)(s := rest_ins s o1 (book_view E b s))"
    by (simp add: book_view_upd [OF upd(1)] add vs)
  have "window_refuses (window_of b' (bo_OrderId o2)) (bo_OrderId o2)" if "o2 \<in> set (book_view E b' t)" for t o2
    using that book_inv_refuses [OF inv] refuses upd(2)
    by (auto simp: view window_of_def split: if_splits)
  moreover have "dom (ob_depths b') = {SideBuy, SideSell}"
    using inv s by (auto simp: book_inv_def upd(1) valid_side_def)
  moreover have "uncrossed (book_view E b' SideBuy) (book_view E b' SideSell)"
    using inv nc s by (elim valid_side_cases) (auto simp: book_inv_def view uncrossed_def pricesCross_def not_le)
  ultimately show "book_inv E b'"
    using inv add(1) by (simp add: book_inv_def upd)
qed

end
