(* ===== verification/Book_Correct.thy ===== *)
theory Book_Correct
  imports Book_Invariant
begin

text \<open>
  The abstract book, what each operation of the order book does to it, and the proof that the code
  does exactly that and keeps the invariant. The abstract book has, for each side, the list of its
  orders in price-time priority, and the two sequence counters.
\<close>

record 'd abs_book =
  ab_side :: "side \<Rightarrow> 'd book_order list"
  ab_logSeq :: int
  ab_tradeSeq :: int

definition abs_book :: "('d, 'q) env \<Rightarrow> ('d, 'q) order_book \<Rightarrow> 'd abs_book" where
  "abs_book E b = \<lparr>ab_side = book_view E b, ab_logSeq = ob_logSeq b, ab_tradeSeq = ob_tradeSeq b\<rparr>"

definition taker_of :: "('d::linordered_idom, 'q) env \<Rightarrow> 'd order \<Rightarrow> 'd book_order" where
  "taker_of E order = prepareTakerOrder E (newBookOrder order)"

lemma taker_of_simps [simp]:
  "bo_OrderId (taker_of E order) = ord_Id order"
  "bo_UserId (taker_of E order) = ord_UserId order"
  "bo_Side (taker_of E order) = ord_Side order"
  "bo_Type (taker_of E order) = ord_Type order"
  "bo_Size (taker_of E order) = ord_Size order"
  "bo_Funds (taker_of E order) = ord_Funds order"
  "bo_TimeInForce (taker_of E order) = ord_TimeInForce order"
  by (simp_all add: taker_of_def prepareTakerOrder_def)

lemma taker_of_limit: "ord_Type order = OrderTypeLimit \<Longrightarrow> taker_of E order = newBookOrder order"
  by (simp add: taker_of_def prepareTakerOrder_def)

text \<open>The log that closes a taker: a market order is closed at price 0 with nothing remaining, as
  cancelled if some of its size or funds is left.\<close>

definition closing_log :: "('d::linordered_idom, 'q) env \<Rightarrow> int \<Rightarrow> string \<Rightarrow> 'd book_order \<Rightarrow> 'd log" where
  "closing_log E n pid taker =
     (if bo_Type taker = OrderTypeMarket
      then newDoneLog E n pid (taker\<lparr>bo_Price := 0\<rparr>) 0
             (if bo_Side taker = SideSell \<and> 0 < bo_Size taker \<or> bo_Side taker = SideBuy \<and> 0 < bo_Funds taker
              then DoneReasonCancelled else DoneReasonFilled)
      else newDoneLog E n pid taker (bo_Size taker) DoneReasonFilled)"

definition rests :: "'d::linordered_idom book_order \<Rightarrow> bool" where
  "rests taker \<longleftrightarrow> bo_Type taker = OrderTypeLimit \<and> 0 < bo_Size taker"

definition spec_apply :: "('d::linordered_idom, 'q) env \<Rightarrow> 'd product \<Rightarrow> 'd book_order \<Rightarrow> 'd abs_book \<Rightarrow>
    ('d abs_book \<times> 'd log list) res" where
  "spec_apply E product taker ab =
     bindR (match_list E product taker (ab_side ab (Opposite (bo_Side taker)))) (\<lambda>(taker', makers', trades).
       let pid = prd_Id product;
           tlogs = trade_logs E pid taker (ab_logSeq ab) (ab_tradeSeq ab) trades;
           n = ab_logSeq ab + int (length tlogs) + 1;
           sides = (ab_side ab)(Opposite (bo_Side taker) := makers')
       in Inr (\<lparr>ab_side = (if rests taker' then sides(bo_Side taker := rest_ins (bo_Side taker) taker' (sides (bo_Side taker)))
                         else sides),
                ab_logSeq = n, ab_tradeSeq = ab_tradeSeq ab + int (length trades)\<rparr>,
               tlogs @ [if rests taker' then newOpenLog E n pid taker' else closing_log E n pid taker']))"

lemma apply_rest_closed:
  "\<not> rests taker \<Longrightarrow> apply_rest E b taker logs =
    Inr (b\<lparr>ob_logSeq := ob_logSeq b + 1\<rparr>, logs @ [closing_log E (ob_logSeq b + 1) (prd_Id (ob_product b)) taker])"
  by (auto simp: apply_rest_def rests_def closing_log_def nextLogSeq_def Let_def)

lemma apply_rest_open:
  "rests taker \<Longrightarrow> ob_depths b (bo_Side taker) = Some d \<Longrightarrow> apply_rest E b taker logs =
    Inr (b\<lparr>ob_depths := (ob_depths b)(bo_Side taker \<mapsto> add E d taker), ob_logSeq := ob_logSeq b + 1\<rparr>,
      logs @ [newOpenLog E (ob_logSeq b + 1) (prd_Id (ob_product b)) taker])"
  by (simp add: apply_rest_def rests_def nextLogSeq_def Let_def)

subsection \<open>Applying an order\<close>

lemma order_ok_kind: "order_ok order \<Longrightarrow> sized_taker (taker_of E order) \<or> funded_taker (taker_of E order)"
  by (auto simp: order_ok_def sized_taker_def funded_taker_def valid_side_def)

lemma match_list_nonneg:
  "match_list E product taker makers = Inr (taker', makers', trades) \<Longrightarrow> 0 \<le> bo_Size taker \<Longrightarrow> 0 \<le> bo_Size taker'"
proof (induction makers arbitrary: taker taker' makers' trades)
  case Nil
  then show ?case by simp
next
  case (Cons maker makers)
  have "0 \<le> bo_Size t1" if "calcTradeSize E product taker maker = Inr (t1, sz, fc, ex)" for t1 sz fc ex
    using that Cons.prems(2) by (auto simp: calcTradeSize_def Let_def split: if_splits option.splits)
  then show ?case
    using Cons.prems Cons.IH by (fastforce simp: bindR_eq_Inr Let_def split: if_splits)
qed

text \<open>The matching part: from a book that has the id in its window.\<close>

lemma apply_match:
  assumes laws: "env_laws E" and inv: "book_inv E b" and ok: "order_ok order"
    and d: "ob_depths b (Opposite (ord_Side order)) = Some d"
  obtains taker' makers' trades d' where
    "match_list E (ob_product b) (taker_of E order) (book_view E b (Opposite (ord_Side order))) = Inr (taker', makers', trades)"
    and "apply_loop E b (taker_of E order) [] (tm_iter (tmap E) (dp_queue d)) =
      Inr (after_trades E b (taker_of E order) d' trades, taker', trades_of E b (taker_of E order) trades)"
    and "resting E d' = makers'" and "depth_inv E (Opposite (ord_Side order)) d'"
    and "book_inv E (after_trades E b (taker_of E order) d' trades)" and "same_ident taker' (taker_of E order)"
proof -
  define taker where "taker = taker_of E order"
  have T: "bo_Side taker = ord_Side order" by (simp add: taker_def)
  have di: "depth_inv E (Opposite (ord_Side order)) d" using inv d by (simp add: book_inv_def)
  have v: "book_view E b (Opposite (ord_Side order)) = resting E d" by (simp add: book_view_def d)
  have pos: "0 < bo_Price o1" if "o1 \<in> set (resting E d)" for o1
    using resting_lookup(2) [OF di that] by (simp add: order_wf_def)
  obtain r where "match_list E (ob_product b) taker (resting E d) = Inr r"
    using match_list_total [OF env_lawsD(2) [OF laws] order_ok_kind [OF ok] pos] unfolding taker_def by blast
  then obtain taker' makers' trades where
    ml: "match_list E (ob_product b) taker (resting E d) = Inr (taker', makers', trades)" by (cases r) auto
  have "loop_ok E b taker [] [] (resting E d)"
    using d di by (intro apply_loop_refines [OF env_lawsD(1) [OF laws]]) (simp_all add: T)
  then obtain d' where d': "depth_inv E (Opposite (ord_Side order)) d'" "resting E d' = makers'"
      "apply_loop E b taker [] (entries (resting E d)) = Inr (after_trades E b taker d' trades, taker', trades_of E b taker trades)"
    by (auto simp: loop_ok_def ml T)
  have it: "tm_iter (tmap E) (dp_queue d) = entries (resting E d)"
    by (simp add: iter_resting [OF di] entries_def)
  have "book_inv E (after_trades E b taker d' trades)"
    using inv d' match_list_ids [OF ml]
    by (intro book_inv_shrink [OF inv _ d'(1)]) (auto simp: after_trades_def T v)
  then show thesis
    using that ml d' it match_list_ident [OF ml] by (simp add: taker_def v)
qed

lemma apply_after_put:
  assumes laws: "env_laws E" and inv: "book_inv E b" and ok: "order_ok order"
    and new: "\<And>d. ob_depths b (ord_Side order) = Some d \<Longrightarrow> dp_orders d (ord_Id order) = None"
    and refuses: "window_refuses (window_of b (ord_Id order)) (ord_Id order)"
  shows "\<exists>b' logs. bindR (deref (ob_depths b (Opposite (ord_Side order)))) (\<lambda>makerDepth.
      bindR (apply_loop E b (taker_of E order) [] (tm_iter (tmap E) (dp_queue makerDepth))) (\<lambda>(b1, taker', logs).
        apply_rest E b1 taker' logs)) = Inr (b', logs) \<and>
    spec_apply E (ob_product b) (taker_of E order) (abs_book E b) = Inr (abs_book E b', logs) \<and>
    book_inv E b' \<and> ob_product b' = ob_product b \<and> ob_orderIdWindows b' = ob_orderIdWindows b"
proof -
  define taker where "taker = taker_of E order"
  have T: "bo_Side taker = ord_Side order" "bo_OrderId taker = ord_Id order" "bo_Size taker = ord_Size order"
    by (simp_all add: taker_def)
  have side: "valid_side (ord_Side order)" using ok by (simp add: order_ok_def)
  obtain d where d: "ob_depths b (Opposite (ord_Side order)) = Some d"
    using book_inv_depth [OF inv valid_Opposite] by blast
  obtain taker' makers' trades d' where m:
      "match_list E (ob_product b) taker (book_view E b (Opposite (ord_Side order))) = Inr (taker', makers', trades)"
      "apply_loop E b taker [] (tm_iter (tmap E) (dp_queue d)) = Inr (after_trades E b taker d' trades, taker', trades_of E b taker trades)"
      "resting E d' = makers'" "depth_inv E (Opposite (ord_Side order)) d'"
      "book_inv E (after_trades E b taker d' trades)" "same_ident taker' taker"
    using apply_match [OF laws inv ok d] unfolding taker_def by metis
  define b1 where "b1 = after_trades E b taker d' trades"
  have dep1: "ob_depths b1 = (ob_depths b)(Opposite (ord_Side order) \<mapsto> d')"
    and b1: "ob_product b1 = ob_product b" "ob_orderIdWindows b1 = ob_orderIdWindows b"
      "ob_logSeq b1 = ob_logSeq b + int (length (trades_of E b taker trades))"
      "ob_tradeSeq b1 = ob_tradeSeq b + int (length trades)"
    by (simp_all add: b1_def after_trades_def trades_of_def T)
  have view1: "book_view E b1 = (book_view E b)(Opposite (ord_Side order) := makers')"
    by (simp add: book_view_upd [OF dep1] m)
  note id = same_identD [OF m(6)]
  have inv1: "book_inv E b1" using m(5) by (simp add: b1_def)
  show ?thesis
  proof (cases "rests taker'")
    case False
    define b2 where "b2 = b1\<lparr>ob_logSeq := ob_logSeq b1 + 1\<rparr>"
    have "book_inv E b2" "book_view E b2 = book_view E b1"
      using inv1 book_inv_cong [of b2 b1 E] book_view_cong [of b2 b1 E] by (simp_all add: b2_def)
    then show ?thesis
      using m(1,2) d False
      by (intro exI [of _ b2])
        (simp add: apply_rest_closed flip: taker_def b1_def, simp add: spec_apply_def abs_book_def b2_def b1 view1 T trades_of_def Let_def)
  next
    case True
    obtain ds where ds: "ob_depths b (ord_Side order) = Some ds"
      using book_inv_depth [OF inv side] by blast
    then have ds1: "ob_depths b1 (ord_Side order) = Some ds"
      using Opposite_neq_self [OF side] by (simp add: dep1)
    define b2 where "b2 = b1\<lparr>ob_depths := (ob_depths b1)(ord_Side order \<mapsto> add E ds taker'), ob_logSeq := ob_logSeq b1 + 1\<rparr>"
    have lim: "bo_Type taker = OrderTypeLimit" using True id by (simp add: rests_def)
    have wf: "order_wf (ord_Side order) taker'"
      using True lim ok id T
      by (auto simp: order_wf_def rests_def order_ok_def taker_def taker_of_limit)
    have "\<not> pricesCross (ord_Side order) (bo_Price taker') (bo_Price o2)"
      if "o2 \<in> set (book_view E b1 (Opposite (ord_Side order)))" for o2
    proof -
      have di: "depth_inv E (Opposite (ord_Side order)) d" using inv d by (simp add: book_inv_def)
      have v: "book_view E b (Opposite (ord_Side order)) = resting E d" by (simp add: book_view_def d)
      have "\<not> pricesCross (bo_Side taker) (bo_Price taker) (bo_Price o2)"
      proof (rule match_list_no_cross [OF m(1)])
        show "prio_sorted (Opposite (bo_Side taker)) (book_view E b (Opposite (ord_Side order)))"
          using resting_sorted [OF env_lawsD(1) [OF laws] di] by (simp add: v T)
        show "0 < bo_Size o1" if "o1 \<in> set (book_view E b (Opposite (ord_Side order)))" for o1
          using book_inv_wf [OF inv that] by (simp add: order_wf_def)
      qed (use that side True lim in \<open>simp_all add: T sized_taker_def rests_def view1\<close>)
      then show ?thesis by (simp add: id T)
    qed
    then have rest: "book_inv E b2" "book_view E b2 = (book_view E b1)(ord_Side order := rest_ins (ord_Side order) taker' (book_view E b1 (ord_Side order)))"
      using book_inv_rest [OF env_lawsD(1) [OF laws] inv1 wf side ds1, of b2] new [OF ds] refuses
      by (simp_all add: b2_def window_of_def b1 id T)
    have "apply_rest E b1 taker' (trades_of E b taker trades) =
        Inr (b2, trades_of E b taker trades @ [newOpenLog E (ob_logSeq b1 + 1) (prd_Id (ob_product b)) taker'])"
      using apply_rest_open [OF True, of b1 ds] ds1 by (simp add: id T b2_def b1(1))
    then show ?thesis
      using m(1,2) d True rest(1)
      by (intro exI [of _ b2])
        (simp flip: taker_def b1_def, simp add: spec_apply_def abs_book_def rest(2), simp add: b2_def b1 view1 T trades_of_def Let_def)
  qed
qed

lemma ApplyOrder_accepted:
  assumes laws: "env_laws E" and inv: "book_inv E b" and ok: "order_ok order"
    and fresh: "\<not> window_refuses (window_of b (ord_Id order)) (ord_Id order)"
  obtains b' logs where "ApplyOrder E b order = Inr (b', logs)"
    and "spec_apply E (ob_product b) (taker_of E order) (abs_book E b) = Inr (abs_book E b', logs)"
    and "book_inv E b'" and "ob_product b' = ob_product b"
    and "window_refuses (window_of b' (ord_Id order)) (ord_Id order)"
    and "\<And>u. window_refuses (window_of b u) u \<Longrightarrow> window_refuses (window_of b' u) u"
proof -
  have "id_ok (ord_Id order)" using ok by (simp add: order_ok_def)
  then obtain ws where ws: "put_window b (ord_Id order) = Inr (Inr (b\<lparr>ob_orderIdWindows := ws\<rparr>))"
      "book_inv E (b\<lparr>ob_orderIdWindows := ws\<rparr>)"
      "window_refuses (window_of (b\<lparr>ob_orderIdWindows := ws\<rparr>) (ord_Id order)) (ord_Id order)"
      "\<And>u. window_refuses (window_of b u) u \<Longrightarrow> window_refuses (window_of (b\<lparr>ob_orderIdWindows := ws\<rparr>) u) u"
    using put_window_accepted [OF inv _ fresh] by metis
  define b0 where "b0 = b\<lparr>ob_orderIdWindows := ws\<rparr>"
  have new: "dp_orders d (ord_Id order) = None" if "ob_depths b0 (ord_Side order) = Some d" for d
    using not_refused_not_resting [OF inv fresh] that by (simp add: b0_def)
  obtain b' logs where b': "bindR (deref (ob_depths b0 (Opposite (ord_Side order)))) (\<lambda>makerDepth.
      bindR (apply_loop E b0 (taker_of E order) [] (tm_iter (tmap E) (dp_queue makerDepth))) (\<lambda>(b1, taker', logs).
        apply_rest E b1 taker' logs)) = Inr (b', logs)"
      "spec_apply E (ob_product b0) (taker_of E order) (abs_book E b0) = Inr (abs_book E b', logs)"
      "book_inv E b'" "ob_product b' = ob_product b0" "ob_orderIdWindows b' = ob_orderIdWindows b0"
    using apply_after_put [OF laws ws(2) [folded b0_def] ok new ws(3) [folded b0_def]] by blast
  have "abs_book E b0 = abs_book E b" "ob_product b0 = ob_product b"
    using book_view_cong [of b0 b E] by (simp_all add: abs_book_def b0_def)
  moreover have "ApplyOrder E b order = Inr (b', logs)"
    using b'(1) by (simp add: ApplyOrder_def ws(1) Let_def flip: taker_of_def b0_def)
  moreover have "window_of b' = window_of b0" by (simp add: window_of_def fun_eq_iff b'(5))
  ultimately show thesis
    using that b' ws(3,4) by (simp flip: b0_def)
qed

lemma ApplyOrder_refused:
  assumes inv: "book_inv E b" and ok: "order_ok order"
    and "window_refuses (window_of b (ord_Id order)) (ord_Id order)"
  shows "ApplyOrder E b order = Inr (b, [])"
proof -
  have "id_ok (ord_Id order)" using ok by (simp add: order_ok_def)
  then obtain e where "put_window b (ord_Id order) = Inr (Inl e)"
    using put_window_refused [OF inv] assms(3) by blast
  then show ?thesis by (simp add: ApplyOrder_def)
qed

subsection \<open>Cancelling and nullifying\<close>

definition spec_cancel :: "('d::linordered_idom, 'q) env \<Rightarrow> 'd product \<Rightarrow> 'd order \<Rightarrow> 'd abs_book \<Rightarrow> 'd abs_book \<times> 'd log list" where
  "spec_cancel E product order ab =
     (case find (\<lambda>o1. bo_OrderId o1 = ord_Id order) (ab_side ab (ord_Side order)) of
        None \<Rightarrow> (ab, [])
      | Some o1 \<Rightarrow>
          (ab\<lparr>ab_side := (ab_side ab)(ord_Side order := rest_del (ord_Id order) (ab_side ab (ord_Side order))),
              ab_logSeq := ab_logSeq ab + 1\<rparr>,
           [newDoneLog E (ab_logSeq ab + 1) (prd_Id product) (o1\<lparr>bo_Size := 0\<rparr>) (bo_Size o1) DoneReasonCancelled]))"

text \<open>Recording the id in its window, whether or not the window accepts it.\<close>

definition seen_book :: "string + ('d, 'q) order_book \<Rightarrow> ('d, 'q) order_book \<Rightarrow> ('d, 'q) order_book" where
  "seen_book r b = (case r of Inl _ \<Rightarrow> b | Inr b' \<Rightarrow> b')"

definition keeps_windows :: "('d, 'q) order_book \<Rightarrow> ('d, 'q) order_book \<Rightarrow> u64 \<Rightarrow> bool" where
  "keeps_windows b b' oid \<longleftrightarrow> window_refuses (window_of b' oid) oid \<and>
     (\<forall>u. window_refuses (window_of b u) u \<longrightarrow> window_refuses (window_of b' u) u)"

lemma put_window_seen:
  assumes "book_inv E b" and "id_ok oid"
  obtains r where "put_window b oid = Inr r" and "book_inv E (seen_book r b)"
    and "ob_depths (seen_book r b) = ob_depths b" and "ob_product (seen_book r b) = ob_product b"
    and "abs_book E (seen_book r b) = abs_book E b" and "keeps_windows b (seen_book r b) oid"
proof (cases "window_refuses (window_of b oid) oid")
  case True
  then obtain e where "put_window b oid = Inr (Inl e)" using put_window_refused assms by blast
  with True assms(1) that [of "Inl e"] show thesis by (simp add: seen_book_def keeps_windows_def)
next
  case False
  then obtain ws where ws: "put_window b oid = Inr (Inr (b\<lparr>ob_orderIdWindows := ws\<rparr>))"
      "book_inv E (b\<lparr>ob_orderIdWindows := ws\<rparr>)" "keeps_windows b (b\<lparr>ob_orderIdWindows := ws\<rparr>) oid"
    using put_window_accepted [OF assms] unfolding keeps_windows_def by metis
  show thesis
    by (rule that [OF ws(1)]) (use ws(2,3) in \<open>simp_all add: seen_book_def abs_book_def book_view_def fun_eq_iff\<close>)
qed

lemma find_resting:
  assumes "depth_inv E s d"
  shows "find (\<lambda>o1. bo_OrderId o1 = oid) (resting E d) = dp_orders d oid"
proof (cases "dp_orders d oid")
  case None
  then show ?thesis using resting_lookup_iff [OF assms, of oid] by (auto simp: find_None_iff)
next
  case (Some o1)
  then have o1: "o1 \<in> set (resting E d)" "bo_OrderId o1 = oid" using resting_lookup_iff [OF assms] by blast+
  then obtain o2 where "find (\<lambda>o1. bo_OrderId o1 = oid) (resting E d) = Some o2"
    by (metis (mono_tags, lifting) find_None_iff not_None_eq)
  moreover then have "o2 \<in> set (resting E d)" "bo_OrderId o2 = oid" by (auto simp: find_Some_iff)
  ultimately show ?thesis using resting_lookup_iff [OF assms, of oid o2] by simp
qed

lemma CancelOrder_correct:
  assumes laws: "env_laws E" and inv: "book_inv E b" and ok: "id_ok (ord_Id order)" "valid_side (ord_Side order)"
  obtains b' logs where "CancelOrder E b order = Inr (b', logs)"
    and "spec_cancel E (ob_product b) order (abs_book E b) = (abs_book E b', logs)"
    and "book_inv E b'" and "ob_product b' = ob_product b" and "keeps_windows b b' (ord_Id order)"
proof -
  obtain r where r: "put_window b (ord_Id order) = Inr r" "book_inv E (seen_book r b)"
      "ob_depths (seen_book r b) = ob_depths b" "ob_product (seen_book r b) = ob_product b"
      "abs_book E (seen_book r b) = abs_book E b" "keeps_windows b (seen_book r b) (ord_Id order)"
    using put_window_seen [OF inv ok(1)] by blast
  define b0 where "b0 = seen_book r b"
  obtain d where d: "ob_depths b0 (ord_Side order) = Some d" "depth_inv E (ord_Side order) d"
      "book_view E b0 (ord_Side order) = resting E d"
    using book_inv_depth [OF r(2) ok(2)] unfolding b0_def by blast
  have fnd: "find (\<lambda>o1. bo_OrderId o1 = ord_Id order) (ab_side (abs_book E b0) (ord_Side order)) = dp_orders d (ord_Id order)"
    using find_resting [OF d(2)] d(3) by (simp add: abs_book_def)
  show thesis
  proof (cases "dp_orders d (ord_Id order)")
    case None
    then show thesis
      using r d fnd that [of b0 "[]"]
      by (simp add: CancelOrder_def spec_cancel_def flip: seen_book_def b0_def)
  next
    case (Some o1)
    obtain d' where d': "decrSize E d (ord_Id order) (bo_Size o1) = Inr (d', o1\<lparr>bo_Size := 0\<rparr>)"
        "depth_inv E (ord_Side order) d'" "resting E d' = rest_del (ord_Id order) (resting E d)"
      using decrSize_cases(2) [OF env_lawsD(1) [OF laws] d(2) Some refl] by blast
    define b1 where "b1 = b0\<lparr>ob_depths := (ob_depths b0)(ord_Side order \<mapsto> d'), ob_logSeq := ob_logSeq b0 + 1\<rparr>"
    have dep: "ob_depths b1 = (ob_depths b0)(ord_Side order \<mapsto> d')" by (simp add: b1_def)
    have "book_inv E b1"
      by (rule book_inv_shrink [OF r(2) [folded b0_def] ok(2) d'(2) _ dep])
        (auto simp: d' d rest_del_def b1_def)
    moreover have "CancelOrder E b order = Inr (b1, [newDoneLog E (ob_logSeq b0 + 1) (prd_Id (ob_product b))
        (o1\<lparr>bo_Size := 0\<rparr>) (bo_Size o1) DoneReasonCancelled])"
      using r(1) d(1) Some d'(1)
      by (simp add: CancelOrder_def nextLogSeq_def b1_def Let_def flip: seen_book_def b0_def)
    moreover have "abs_book E b1 = (abs_book E b0)\<lparr>ab_side := (ab_side (abs_book E b0))(ord_Side order :=
        rest_del (ord_Id order) (ab_side (abs_book E b0) (ord_Side order))), ab_logSeq := ab_logSeq (abs_book E b0) + 1\<rparr>"
      using book_view_upd [OF dep, of E] by (simp add: abs_book_def b1_def d'(3) d(3))
    moreover have "keeps_windows b b1 (ord_Id order)"
      using r(6) by (simp add: keeps_windows_def window_of_def b1_def b0_def)
    ultimately show thesis
      using that [of b1] r(4,5) fnd Some by (simp add: spec_cancel_def b1_def flip: b0_def) (simp add: abs_book_def)
  qed
qed

lemma NullifyOrder_correct:
  assumes inv: "book_inv E b" and ok: "id_ok (ord_Id order)"
  obtains b' where "NullifyOrder E b order = Inr (b', [newDoneLog E (ob_logSeq b + 1) (prd_Id (ob_product b))
      (newBookOrder order) (ord_Size order) DoneReasonCancelled])"
    and "abs_book E b' = (abs_book E b)\<lparr>ab_logSeq := ob_logSeq b + 1\<rparr>"
    and "book_inv E b'" and "ob_product b' = ob_product b" and "keeps_windows b b' (ord_Id order)"
proof -
  obtain r where r: "put_window b (ord_Id order) = Inr r" "book_inv E (seen_book r b)"
      "ob_product (seen_book r b) = ob_product b"
      "abs_book E (seen_book r b) = abs_book E b" "keeps_windows b (seen_book r b) (ord_Id order)"
    using put_window_seen [OF assms] by metis
  define b0 where "b0 = seen_book r b"
  define b1 where "b1 = b0\<lparr>ob_logSeq := ob_logSeq b0 + 1\<rparr>"
  have seq: "ob_logSeq b0 = ob_logSeq b" using r(4) by (simp add: abs_book_def b0_def)
  have "book_inv E b1" using r(2) book_inv_cong [of b1 b0 E] by (simp add: b1_def b0_def)
  moreover have "NullifyOrder E b order = Inr (b1, [newDoneLog E (ob_logSeq b + 1) (prd_Id (ob_product b))
      (newBookOrder order) (ord_Size order) DoneReasonCancelled])"
    using r(1) seq by (simp add: NullifyOrder_def nextLogSeq_def b1_def Let_def flip: seen_book_def b0_def)
  moreover have "keeps_windows b b1 (ord_Id order)"
    using r(5) by (simp add: keeps_windows_def window_of_def b1_def b0_def)
  moreover have "abs_book E b1 = (abs_book E b)\<lparr>ab_logSeq := ob_logSeq b + 1\<rparr>"
    using r(4) book_view_cong [of b1 b0 E] seq by (simp add: abs_book_def b1_def b0_def)
  ultimately show thesis using that r(3) by (simp add: b1_def b0_def)
qed

subsection \<open>New books, snapshots and restored books\<close>

definition empty_book :: "'d abs_book" where
  "empty_book = \<lparr>ab_side = \<lambda>_. [], ab_logSeq = 0, ab_tradeSeq = 0\<rparr>"

lemma new_window_inv: "window_inv (newWindow 0 orderIdWindowCap)"
  by (rule newWindow_inv) (simp add: orderIdWindowCap_def)

lemma NewOrderBook_depths:
  "ob_depths (NewOrderBook E product) =
    [SideBuy \<mapsto> \<lparr>dp_orders = Map.empty, dp_queue = tm_new (tmap E) (side_cmp SideBuy)\<rparr>,
     SideSell \<mapsto> \<lparr>dp_orders = Map.empty, dp_queue = tm_new (tmap E) (side_cmp SideSell)\<rparr>]"
  by (simp add: NewOrderBook_def Let_def side_cmp_def)

lemma NewOrderBook_view:
  assumes "treemap_laws (tmap E)"
  shows "book_view E (NewOrderBook E product) = (\<lambda>_. [])"
  using depth_new(2) [OF assms] by (simp add: book_view_def NewOrderBook_depths fun_eq_iff)

lemma NewOrderBook_inv:
  assumes "treemap_laws (tmap E)"
  shows "book_inv E (NewOrderBook E product)" and "abs_book E (NewOrderBook E product) = empty_book"
proof -
  have "depth_inv E s d" if "ob_depths (NewOrderBook E product) s = Some d" for s d
    using that depth_new(1) [OF assms] by (auto simp: NewOrderBook_depths split: if_splits)
  moreover have "ob_orderIdWindows (NewOrderBook E product) = replicate TableOrderSplitCount (newWindow 0 orderIdWindowCap)"
    by (simp add: NewOrderBook_def Let_def)
  ultimately show "book_inv E (NewOrderBook E product)"
    using NewOrderBook_view [OF assms, of product] new_window_inv
    by (auto simp: book_inv_def uncrossed_def NewOrderBook_depths)
  show "abs_book E (NewOrderBook E product) = empty_book"
    using NewOrderBook_view [OF assms, of product]
    by (simp add: abs_book_def empty_book_def) (simp add: NewOrderBook_def Let_def)
qed

lemma range_orders:
  assumes "depth_inv E s d" and "range_of (dp_orders d) ids"
  shows "set (map (\<lambda>i. the (dp_orders d i)) ids) = set (resting E d)"
    and "map bo_OrderId (map (\<lambda>i. the (dp_orders d i)) ids) = ids"
proof -
  have some: "\<exists>o1. dp_orders d i = Some o1 \<and> bo_OrderId o1 = i" if "i \<in> set ids" for i
    using that assms depth_inv_id [OF assms(1)] by (fastforce simp: range_of_def)
  show "map bo_OrderId (map (\<lambda>i. the (dp_orders d i)) ids) = ids"
    using some by (simp add: comp_def) (rule map_idI, metis option.sel)
  have "o1 \<in> set (map (\<lambda>i. the (dp_orders d i)) ids) \<longleftrightarrow> o1 \<in> ran (dp_orders d)" for o1
    using assms(2) by (force simp: range_of_def ran_def)
  then show "set (map (\<lambda>i. the (dp_orders d i)) ids) = set (resting E d)"
    by (auto simp: set_resting [OF assms(1)])
qed

text \<open>Restoring adds the orders one by one to the depths of an empty book.\<close>

definition sides_inv :: "('d::linordered_idom, 'q) env \<Rightarrow> (side \<rightharpoonup> ('d, 'q) depth) \<Rightarrow> bool" where
  "sides_inv E depths \<longleftrightarrow> dom depths = {SideBuy, SideSell} \<and> (\<forall>s d. depths s = Some d \<longrightarrow> depth_inv E s d)"

definition side_list :: "('d, 'q) env \<Rightarrow> (side \<rightharpoonup> ('d, 'q) depth) \<Rightarrow> side \<Rightarrow> 'd book_order list" where
  "side_list E depths s = (case depths s of None \<Rightarrow> [] | Some d \<Rightarrow> resting E d)"

lemma side_list_view: "book_view E b = side_list E (ob_depths b)"
  by (simp add: book_view_def side_list_def fun_eq_iff)

lemma side_list_upd: "side_list E (depths(s \<mapsto> d)) = (side_list E depths)(s := resting E d)"
  by (simp add: side_list_def fun_eq_iff)

lemma sides_inv_upd:
  "sides_inv E depths \<Longrightarrow> valid_side s \<Longrightarrow> depth_inv E s d \<Longrightarrow> sides_inv E (depths(s \<mapsto> d))"
  by (auto simp: sides_inv_def valid_side_def)

lemma sides_invE:
  assumes "sides_inv E depths" and "valid_side s"
  obtains d where "depths s = Some d" and "depth_inv E s d" and "side_list E depths s = resting E d"
proof -
  have "s \<in> dom depths" using assms by (auto simp: sides_inv_def valid_side_def)
  then obtain d where "depths s = Some d" by auto
  then show thesis using that assms(1) by (simp add: sides_inv_def side_list_def)
qed

lemma side_list_invalid: "sides_inv E depths \<Longrightarrow> \<not> valid_side s \<Longrightarrow> side_list E depths s = []"
  by (auto simp: sides_inv_def side_list_def valid_side_def split: option.splits)

lemma side_list_sorted:
  "treemap_laws (tmap E) \<Longrightarrow> sides_inv E depths \<Longrightarrow> prio_sorted s (side_list E depths s)"
  by (cases "valid_side s") (auto elim!: sides_invE [of E depths s] intro: resting_sorted simp: side_list_invalid)

definition side_id :: "'d book_order \<Rightarrow> side \<times> u64" where
  "side_id o1 = (bo_Side o1, bo_OrderId o1)"

lemma restore_orders_adds:
  assumes laws: "treemap_laws (tmap E)"
    and "sides_inv E depths"
    and "\<And>o1. o1 \<in> set os \<Longrightarrow> valid_side (bo_Side o1) \<and> order_wf (bo_Side o1) o1"
    and "distinct (map side_id os)"
    and "\<And>o1 o2. o1 \<in> set os \<Longrightarrow> o2 \<in> set (side_list E depths (bo_Side o1)) \<Longrightarrow> bo_OrderId o2 \<noteq> bo_OrderId o1"
  shows "\<exists>depths'. restore_orders E depths os = Inr depths' \<and> sides_inv E depths' \<and>
    (\<forall>s. set (side_list E depths' s) = set (side_list E depths s) \<union> {o1 \<in> set os. bo_Side o1 = s})"
  using assms(2-)
proof (induction os arbitrary: depths)
  case Nil
  then show ?case by simp
next
  case (Cons o1 os)
  have o1: "valid_side (bo_Side o1)" "order_wf (bo_Side o1) o1" using Cons.prems(2) by simp_all
  obtain d where d: "depths (bo_Side o1) = Some d" "depth_inv E (bo_Side o1) d"
      "side_list E depths (bo_Side o1) = resting E d"
    using sides_invE [OF Cons.prems(1) o1(1)] .
  have new: "dp_orders d (bo_OrderId o1) = None"
  proof (rule ccontr)
    assume "dp_orders d (bo_OrderId o1) \<noteq> None"
    then obtain o2 where "o2 \<in> set (resting E d)" "bo_OrderId o2 = bo_OrderId o1"
      using resting_lookup_iff [OF d(2)] by blast
    then show False using Cons.prems(4) [of o1 o2] d(3) by simp
  qed
  note add = depth_add [OF laws d(2) o1(2) new]
  define depths1 where "depths1 = depths(bo_Side o1 \<mapsto> add E d o1)"
  have L: "set (side_list E depths1 s) = set (side_list E depths s) \<union> (if s = bo_Side o1 then {o1} else {})" for s
    by (auto simp: depths1_def side_list_upd add(2) d(3))
  have "\<exists>depths'. restore_orders E depths1 os = Inr depths' \<and> sides_inv E depths' \<and>
    (\<forall>s. set (side_list E depths' s) = set (side_list E depths1 s) \<union> {o1 \<in> set os. bo_Side o1 = s})"
  proof (rule Cons.IH)
    show "sides_inv E depths1"
      unfolding depths1_def by (rule sides_inv_upd [OF Cons.prems(1) o1(1) add(1)])
    fix o2 assume o2: "o2 \<in> set os"
    then show "valid_side (bo_Side o2) \<and> order_wf (bo_Side o2) o2" using Cons.prems(2) by simp
    fix o3 assume "o3 \<in> set (side_list E depths1 (bo_Side o2))"
    moreover have "side_id o2 \<noteq> side_id o1" using Cons.prems(3) o2 by (auto simp: image_iff)
    ultimately show "bo_OrderId o3 \<noteq> bo_OrderId o2"
      using Cons.prems(4) [of o2 o3] o2 by (auto simp: L side_id_def split: if_splits)
  qed (use Cons.prems(3) in simp)
  then show ?case using d(1) by (auto simp: L simp flip: depths1_def)
qed

lemma snapshot_restore:
  assumes laws: "treemap_laws (tmap E)" and inv: "book_inv E b"
    and sells: "\<And>d. ob_depths b SideSell = Some d \<Longrightarrow> range_of (dp_orders d) sells"
    and buys: "\<And>d. ob_depths b SideBuy = Some d \<Longrightarrow> range_of (dp_orders d) buys"
  obtains snap b' where "Snapshot b sells buys = Inr snap"
    and "Restore E (NewOrderBook E product) snap = Inr b'"
    and "abs_book E b' = abs_book E b" and "ob_orderIdWindows b' = ob_orderIdWindows b"
    and "book_inv E b'" and "ob_product b' = product"
proof -
  have si: "sides_inv E (ob_depths b)" using inv by (simp add: book_inv_def sides_inv_def)
  obtain da where da: "ob_depths b SideSell = Some da" "depth_inv E SideSell da" "book_view E b SideSell = resting E da"
    using book_inv_depth [OF inv, of SideSell] by auto
  obtain db where db: "ob_depths b SideBuy = Some db" "depth_inv E SideBuy db" "book_view E b SideBuy = resting E db"
    using book_inv_depth [OF inv, of SideBuy] by auto
  define os1 where "os1 = map (\<lambda>i. the (dp_orders da i)) sells"
  define os2 where "os2 = map (\<lambda>i. the (dp_orders db i)) buys"
  note r1 = range_orders [OF da(2) sells [OF da(1)], folded os1_def]
  note r2 = range_orders [OF db(2) buys [OF db(1)], folded os2_def]
  define snap where "snap = \<lparr>obs_ProductId = [], obs_Orders = os1 @ os2, obs_TradeSeq = ob_tradeSeq b,
    obs_LogSeq = ob_logSeq b, obs_OrderIdWindows = ob_orderIdWindows b\<rparr>"
  have snap: "Snapshot b sells buys = Inr snap"
    by (simp add: Snapshot_def da(1) db(1) snap_def os1_def os2_def)
  have s1: "order_wf SideSell o1 \<and> bo_Side o1 = SideSell" if "o1 \<in> set os1" for o1
    using that resting_lookup(2) [OF da(2)] r1(1) by (simp add: order_wf_def)
  have s2: "order_wf SideBuy o1 \<and> bo_Side o1 = SideBuy" if "o1 \<in> set os2" for o1
    using that resting_lookup(2) [OF db(2)] r2(1) by (simp add: order_wf_def)
  have "distinct (map bo_OrderId os1)" "distinct (map bo_OrderId os2)"
    using sells [OF da(1)] buys [OF db(1)] unfolding r1(2) r2(2) by (simp_all add: range_of_def)
  moreover have "map side_id os1 = map (Pair SideSell) (map bo_OrderId os1)"
    "map side_id os2 = map (Pair SideBuy) (map bo_OrderId os2)"
    using s1 s2 by (simp_all add: side_id_def)
  ultimately have dist: "distinct (map side_id (os1 @ os2))"
    by (simp only: map_append distinct_append distinct_map) (auto simp: inj_on_def)
  define nb where "nb = NewOrderBook E product"
  have nv: "side_list E (ob_depths nb) s = []" for s
    using NewOrderBook_view [OF laws, of product] by (simp add: nb_def fun_eq_iff side_list_view)
  have ni: "sides_inv E (ob_depths nb)"
    using NewOrderBook_inv(1) [OF laws, of product] by (simp add: nb_def book_inv_def sides_inv_def)
  have "\<exists>depths'. restore_orders E (ob_depths nb) (os1 @ os2) = Inr depths' \<and> sides_inv E depths' \<and>
    (\<forall>s. set (side_list E depths' s) = set (side_list E (ob_depths nb) s) \<union> {o1 \<in> set (os1 @ os2). bo_Side o1 = s})"
  proof (rule restore_orders_adds [OF laws ni _ dist])
    show "valid_side (bo_Side o1) \<and> order_wf (bo_Side o1) o1" if "o1 \<in> set (os1 @ os2)" for o1
      using that s1 s2 by auto
  qed (simp add: nv)
  then obtain depths' where R: "restore_orders E (ob_depths nb) (os1 @ os2) = Inr depths'" "sides_inv E depths'"
      "\<And>s. set (side_list E depths' s) = {o1 \<in> set (os1 @ os2). bo_Side o1 = s}"
    by (simp only: nv) auto
  define b' where "b' = nb\<lparr>ob_logSeq := ob_logSeq b, ob_tradeSeq := ob_tradeSeq b,
    ob_orderIdWindows := ob_orderIdWindows b, ob_depths := depths'\<rparr>"
  have res: "Restore E nb snap = Inr b'"
    using inv R(1) by (simp add: Restore_def snap_def b'_def book_inv_def)
  have "set (side_list E depths' s) = set (side_list E (ob_depths b) s)" for s
  proof (cases "valid_side s")
    case True
    have "{o1 \<in> set (os1 @ os2). bo_Side o1 = SideSell} = set os1"
      using s1 s2 constants_distinct(3) by (force simp del: constants_distinct)
    moreover have "{o1 \<in> set (os1 @ os2). bo_Side o1 = SideBuy} = set os2"
      using s1 s2 constants_distinct(3) by (force simp del: constants_distinct)
    ultimately show ?thesis
      using True r1(1) r2(1) da(3) db(3) by (elim valid_side_cases) (simp_all only: R(3) side_list_view)
  qed (simp add: side_list_invalid [OF si] side_list_invalid [OF R(2)])
  then have "side_list E depths' s = side_list E (ob_depths b) s" for s
    using prio_sorted_unique side_list_sorted [OF laws si] side_list_sorted [OF laws R(2)] by blast
  then have view: "book_view E b' = book_view E b" by (simp add: side_list_view b'_def fun_eq_iff)
  have "book_inv E b'"
    using inv R(2) by (simp add: book_inv_def view window_of_def sides_inv_def) (simp add: b'_def)
  moreover have "ob_product nb = product" by (simp add: nb_def NewOrderBook_def Let_def)
  ultimately show thesis
    using that [OF snap res [unfolded nb_def]] view by (simp add: abs_book_def b'_def)
qed

end
