(* ===== verification/Match_Facts.thy ===== *)
theory Match_Facts
  imports Book_Correct
begin

text \<open>
  What matching a taker against a side of the book gives: which makers trade, in which order, at
  which prices, how sizes and funds add up, and which logs are written. The lemmas are about
  \<open>match_list\<close> and \<open>spec_apply\<close>, which the code implements (theory Book_Correct).
\<close>

text \<open>The makers as they were before the trades.\<close>

definition before :: "('d::linordered_idom book_order \<times> 'd) list \<Rightarrow> 'd book_order list" where
  "before trades = map (\<lambda>(m, sz). m\<lparr>bo_Size := bo_Size m + sz\<rparr>) trades"

lemma before_simps [simp]:
  "before [] = []"
  "before ((m, sz) # trades) = m\<lparr>bo_Size := bo_Size m + sz\<rparr> # before trades"
  by (simp_all add: before_def)

lemma length_before [simp]: "length (before trades) = length trades"
  by (simp add: before_def)

definition left_of :: "('d::linordered_idom book_order \<times> 'd) list \<Rightarrow> 'd book_order list" where
  "left_of trades = filter (\<lambda>m. bo_Size m \<noteq> 0) (map fst trades)"

lemma left_of_simps [simp]:
  "left_of [] = []"
  "left_of (t # trades) = (if bo_Size (fst t) = 0 then [] else [fst t]) @ left_of trades"
  by (simp_all add: left_of_def)

text \<open>Case analysis of one step of \<open>match_list\<close>.\<close>

lemma match_list_cases [consumes 1, case_names stop zero last more]:
  assumes "match_list E product taker (maker # makers) = Inr (taker', makers', trades)"
  obtains
    "\<not> pricesCross (bo_Side taker) (bo_Price taker) (bo_Price maker)"
    "taker' = taker" "makers' = maker # makers" "trades = []"
  | fc ex where "pricesCross (bo_Side taker) (bo_Price taker) (bo_Price maker)"
    "calcTradeSize E product taker maker = Inr (taker', 0, fc, ex)" "makers' = maker # makers" "trades = []"
  | sz fc ex maker' where "pricesCross (bo_Side taker) (bo_Price taker) (bo_Price maker)"
    "calcTradeSize E product taker maker = Inr (taker', sz, fc, ex)" "sz \<noteq> 0" "taker_exhausted taker'"
    "maker' = maker\<lparr>bo_Size := bo_Size maker - sz\<rparr>" "trades = [(maker', sz)]"
    "makers' = (if bo_Size maker' = 0 then [] else [maker']) @ makers"
  | taker1 sz fc ex maker' makers2 trades2 where "pricesCross (bo_Side taker) (bo_Price taker) (bo_Price maker)"
    "calcTradeSize E product taker maker = Inr (taker1, sz, fc, ex)" "sz \<noteq> 0" "\<not> taker_exhausted taker1"
    "maker' = maker\<lparr>bo_Size := bo_Size maker - sz\<rparr>"
    "match_list E product taker1 makers = Inr (taker', makers2, trades2)" "trades = (maker', sz) # trades2"
    "makers' = (if bo_Size maker' = 0 then [] else [maker']) @ makers2"
proof (cases "pricesCross (bo_Side taker) (bo_Price taker) (bo_Price maker)")
  case False
  then have "taker' = taker" "makers' = maker # makers" "trades = []" using assms by simp_all
  with that(1) [OF False] show thesis by simp
next
  case True
  obtain taker1 sz fc ex where calc: "calcTradeSize E product taker maker = Inr (taker1, sz, fc, ex)"
  proof (cases "calcTradeSize E product taker maker")
    case (Inl f)
    then show thesis using assms True by simp
  next
    case (Inr r)
    then show thesis using that by (cases r) simp
  qed
  show thesis
  proof (cases "sz = 0")
    case z: True
    then have "taker' = taker1" "makers' = maker # makers" "trades = []" using assms True calc by simp_all
    with that(2) [OF True] calc z show thesis by simp
  next
    case nz: False
    define maker' where "maker' = maker\<lparr>bo_Size := bo_Size maker - sz\<rparr>"
    have eq: "match_list E product taker (maker # makers) =
      (if taker_exhausted taker1 then Inr (taker1, (if bo_Size maker' = 0 then [] else [maker']) @ makers, [(maker', sz)])
       else bindR (match_list E product taker1 makers) (\<lambda>(taker'', makers', trades).
         Inr (taker'', (if bo_Size maker' = 0 then [] else [maker']) @ makers', (maker', sz) # trades)))"
      using True calc nz by (simp add: maker'_def Let_def)
    show thesis
    proof (cases "taker_exhausted taker1")
      case ex: True
      then have "taker' = taker1" "makers' = (if bo_Size maker' = 0 then [] else [maker']) @ makers"
          "trades = [(maker', sz)]"
        using assms by (simp_all only: eq if_True sum.inject prod.inject)
      with that(3) [OF True _ nz _ maker'_def] calc ex show thesis by simp
    next
      case ex: False
      then obtain makers2 trades2 where "match_list E product taker1 makers = Inr (taker', makers2, trades2)"
          "makers' = (if bo_Size maker' = 0 then [] else [maker']) @ makers2" "trades = (maker', sz) # trades2"
        using assms unfolding eq by (cases "match_list E product taker1 makers") auto
      then show thesis using that(4) [OF True calc nz ex maker'_def] by blast
    qed
  qed
qed

lemma match_list_induct [consumes 1, case_names Nil stop zero last more]:
  assumes "match_list E product taker makers = Inr (taker', makers', trades)"
    and "\<And>taker. P taker [] taker [] []"
    and "\<And>taker maker makers. \<not> pricesCross (bo_Side taker) (bo_Price taker) (bo_Price maker) \<Longrightarrow>
      P taker (maker # makers) taker (maker # makers) []"
    and "\<And>taker taker' maker makers fc ex. pricesCross (bo_Side taker) (bo_Price taker) (bo_Price maker) \<Longrightarrow>
      calcTradeSize E product taker maker = Inr (taker', 0, fc, ex) \<Longrightarrow>
      P taker (maker # makers) taker' (maker # makers) []"
    and "\<And>taker taker' maker makers sz fc ex maker'. pricesCross (bo_Side taker) (bo_Price taker) (bo_Price maker) \<Longrightarrow>
      calcTradeSize E product taker maker = Inr (taker', sz, fc, ex) \<Longrightarrow> sz \<noteq> 0 \<Longrightarrow> taker_exhausted taker' \<Longrightarrow>
      maker' = maker\<lparr>bo_Size := bo_Size maker - sz\<rparr> \<Longrightarrow>
      P taker (maker # makers) taker' ((if bo_Size maker' = 0 then [] else [maker']) @ makers) [(maker', sz)]"
    and "\<And>taker taker1 taker' maker makers sz fc ex maker' makers' trades.
      pricesCross (bo_Side taker) (bo_Price taker) (bo_Price maker) \<Longrightarrow>
      calcTradeSize E product taker maker = Inr (taker1, sz, fc, ex) \<Longrightarrow> sz \<noteq> 0 \<Longrightarrow> \<not> taker_exhausted taker1 \<Longrightarrow>
      maker' = maker\<lparr>bo_Size := bo_Size maker - sz\<rparr> \<Longrightarrow>
      match_list E product taker1 makers = Inr (taker', makers', trades) \<Longrightarrow>
      P taker1 makers taker' makers' trades \<Longrightarrow>
      P taker (maker # makers) taker' ((if bo_Size maker' = 0 then [] else [maker']) @ makers') ((maker', sz) # trades)"
  shows "P taker makers taker' makers' trades"
  using assms(1)
proof (induction makers arbitrary: taker taker' makers' trades)
  case Nil
  then show ?case using assms(2) by simp
next
  case (Cons maker makers)
  from Cons.prems show ?case
    by (cases rule: match_list_cases) (use Cons.IH assms(3-6) in \<open>force+\<close>)
qed

text \<open>The trades are with a prefix of the makers, in their order; the makers that are left are the
  ones of the prefix with something left, and the rest untouched.\<close>

lemma match_list_prefix:
  assumes "match_list E product taker makers = Inr (taker', makers', trades)"
  shows "makers = before trades @ drop (length trades) makers \<and>
    makers' = left_of trades @ drop (length trades) makers"
  using assms by (induction rule: match_list_induct) (auto simp: Let_def)

lemma match_list_crosses:
  assumes "match_list E product taker makers = Inr (taker', makers', trades)"
  shows "\<forall>(m, sz)\<in>set trades. sz \<noteq> 0 \<and> pricesCross (bo_Side taker) (bo_Price taker) (bo_Price m)"
  using assms
proof (induction rule: match_list_induct)
  case (more taker taker1 taker' maker makers sz fc ex maker' makers' trades)
  then show ?case using same_identD [OF calcTradeSize_ident [OF more(2)]] by auto
qed auto

lemma match_list_sized_sums:
  assumes "match_list E product taker makers = Inr (taker', makers', trades)"
    and "sized_taker taker" and "0 \<le> bo_Size taker" and "\<And>m. m \<in> set makers \<Longrightarrow> 0 < bo_Size m"
  shows "bo_Size taker = bo_Size taker' + sum_list (map snd trades)"
    and "\<forall>(m, sz)\<in>set trades. 0 < sz \<and> 0 \<le> bo_Size m"
    and "\<forall>(m, sz)\<in>set (butlast trades). bo_Size m = 0"
    and "0 < bo_Size taker' \<longrightarrow> (\<forall>(m, sz)\<in>set trades. bo_Size m = 0)"
    and "0 \<le> bo_Size taker'"
proof -
  have "bo_Size taker = bo_Size taker' + sum_list (map snd trades) \<and>
    (\<forall>(m, sz)\<in>set trades. 0 < sz \<and> 0 \<le> bo_Size m) \<and>
    (\<forall>(m, sz)\<in>set (butlast trades). bo_Size m = 0) \<and>
    (0 < bo_Size taker' \<longrightarrow> (\<forall>(m, sz)\<in>set trades. bo_Size m = 0)) \<and> 0 \<le> bo_Size taker'"
    using assms
  proof (induction rule: match_list_induct)
    case (zero taker taker' maker makers fc ex)
    then show ?case by (force simp: calcTradeSize_sized Let_def min_def split: if_splits)
  next
    case (last taker taker' maker makers sz fc ex maker')
    then show ?case
      by (auto simp: calcTradeSize_sized Let_def min_def taker_exhausted_def less_imp_le split: if_splits)
  next
    case (more taker taker1 taker' maker makers sz fc ex maker' makers' trades)
    have c: "taker1 = taker\<lparr>bo_Size := bo_Size taker - sz\<rparr>" "sz = bo_Size maker" "sz < bo_Size taker"
      using more(2-4,8) by (auto simp: calcTradeSize_sized Let_def min_def taker_exhausted_def split: if_splits)
    then show ?case using more.IH more.prems more(3,5) by (auto simp: less_imp_le)
  qed auto
  then show "bo_Size taker = bo_Size taker' + sum_list (map snd trades)"
    and "\<forall>(m, sz)\<in>set trades. 0 < sz \<and> 0 \<le> bo_Size m"
    and "\<forall>(m, sz)\<in>set (butlast trades). bo_Size m = 0"
    and "0 < bo_Size taker' \<longrightarrow> (\<forall>(m, sz)\<in>set trades. bo_Size m = 0)"
    and "0 \<le> bo_Size taker'" by blast+
qed

subsection \<open>Market buys\<close>

text \<open>
  A market buy is limited by funds. Division rounds to 16 places, so a trade can cost more than the
  funds by at most half a unit of the 16th place of size at the maker's price; after that the
  truncated size is zero and matching stops. \<open>slack\<close> is that amount, scaled to stay in the ring.
\<close>

definition slack :: "'d::linordered_idom \<Rightarrow> 'd \<Rightarrow> bool" where
  "slack funds price \<longleftrightarrow> 2 * 10 ^ 16 * (- funds) \<le> price"

lemma slack_nonneg: "0 \<le> funds \<Longrightarrow> 0 \<le> price \<Longrightarrow> slack funds price"
  unfolding slack_def by (rule order_trans [of _ 0]) simp_all

lemma slack_mono: "slack funds price \<Longrightarrow> price \<le> price' \<Longrightarrow> slack funds price'"
  unfolding slack_def by linarith

lemma tiny_quotient:
  fixes q :: "'d::linordered_idom"
  assumes "0 < p" and "2 * 10 ^ 16 * \<bar>q * p - f\<bar> \<le> p" and "f < 0" and "slack f p" and "k \<le> 15"
  shows "\<bar>q\<bar> * 10 ^ k < 1"
proof -
  have "2 * 10 ^ 16 * \<bar>f\<bar> \<le> p" using assms(3,4) by (simp add: slack_def del: power_numeral)
  moreover have "\<bar>q * p\<bar> \<le> \<bar>q * p - f\<bar> + \<bar>f\<bar>" by linarith
  then have "2 * 10 ^ 16 * \<bar>q * p\<bar> \<le> 2 * 10 ^ 16 * (\<bar>q * p - f\<bar> + \<bar>f\<bar>)"
    by (rule mult_left_mono) simp
  ultimately have "2 * 10 ^ 16 * \<bar>q * p\<bar> \<le> 2 * p"
    using assms(2) by (simp only: distrib_left)
  then have "10 ^ 16 * \<bar>q * p\<bar> \<le> p" by simp
  then have "(10 ^ 16 * \<bar>q\<bar>) * p \<le> 1 * p" using assms(1) by (simp add: abs_mult mult.assoc)
  then have "10 ^ 16 * \<bar>q\<bar> \<le> 1" using assms(1) by (rule mult_right_le_imp_le)
  then have a: "10 * (10 ^ 15 * \<bar>q\<bar>) \<le> 1" by simp
  have b: "10 ^ 15 * \<bar>q\<bar> < 1"
  proof (rule ccontr)
    assume "\<not> ?thesis"
    then have "(10 :: 'd) \<le> 10 * (10 ^ 15 * \<bar>q\<bar>)" by simp
    with a show False using order_trans [of "10 :: 'd" _ 1] by fastforce
  qed
  have "(10 :: 'd) ^ k \<le> 10 ^ 15" using assms(5) by (rule power_increasing) simp
  then have "\<bar>q\<bar> * 10 ^ k \<le> \<bar>q\<bar> * 10 ^ 15" by (rule mult_left_mono) simp
  with b show ?thesis by (simp add: mult.commute)
qed

definition base_scale_ok :: "'d product \<Rightarrow> bool" where
  "base_scale_ok product \<longleftrightarrow> 0 \<le> prd_BaseScale product \<and> prd_BaseScale product \<le> 15"

lemma calcTradeSize_funded:
  assumes laws: "decimal_laws (dec E)" and scale: "base_scale_ok product"
    and funded: "funded_taker taker" and price: "0 < bo_Price maker" and size: "0 < bo_Size maker"
    and funds: "0 \<le> bo_Funds taker \<or> slack (bo_Funds taker) (bo_Price maker)"
    and calc: "calcTradeSize E product taker maker = Inr (taker', sz, fc, ex)"
  shows "taker' = taker\<lparr>bo_Funds := bo_Funds taker - sz * bo_Price maker\<rparr>" and "0 \<le> sz"
    and "sz \<noteq> 0 \<Longrightarrow> slack (bo_Funds taker') (bo_Price maker)"
proof -
  have "bo_Price maker \<noteq> 0" using price by simp
  then obtain q where q: "dec_div (dec E) (bo_Funds taker) (bo_Price maker) = Some q"
      "2 * 10 ^ 16 * \<bar>q * bo_Price maker - bo_Funds taker\<bar> \<le> \<bar>bo_Price maker\<bar>"
      "0 \<le> bo_Funds taker \<Longrightarrow> 0 < bo_Price maker \<Longrightarrow> 0 \<le> q"
    using decimal_laws_div [OF laws, of "bo_Price maker" "bo_Funds taker"] by blast
  have qp: "2 * 10 ^ 16 * \<bar>q * bo_Price maker - bo_Funds taker\<bar> \<le> bo_Price maker"
    using q(2) by (simp only: abs_of_pos [OF price])
  define t where "t = dec_truncate (dec E) q (prd_BaseScale product)"
  note nsz = not_sized_funded [OF funded]
  have eq: "calcTradeSize E product taker maker =
    (if bo_Funds taker = 0 \<or> t = 0 then Inr (taker, 0, 0, True)
     else Inr (taker\<lparr>bo_Funds := bo_Funds taker - min t (bo_Size maker) * bo_Price maker\<rparr>,
       min t (bo_Size maker), min t (bo_Size maker) * bo_Price maker,
       bo_Funds taker - min t (bo_Size maker) * bo_Price maker = 0))"
    using funded nsz by (simp add: calcTradeSize_def q(1) t_def Let_def)
  show "taker' = taker\<lparr>bo_Funds := bo_Funds taker - sz * bo_Price maker\<rparr>"
    using calc unfolding eq by (cases "bo_Funds taker = 0 \<or> t = 0") auto
  have pos: "0 \<le> bo_Funds taker" if "t \<noteq> 0"
  proof (rule ccontr)
    assume neg: "\<not> 0 \<le> bo_Funds taker"
    then have "slack (bo_Funds taker) (bo_Price maker)" using funds by blast
    then have "\<bar>q\<bar> * 10 ^ nat (prd_BaseScale product) < 1"
      using neg scale by (intro tiny_quotient [OF price qp]) (auto simp: base_scale_ok_def)
    then have "t = 0" using scale decimal_laws_truncate(3) [OF laws] by (simp add: t_def base_scale_ok_def)
    with that show False by contradiction
  qed
  have t: "0 \<le> t" "t \<le> q" if "t \<noteq> 0"
    using decimal_laws_truncate(1,2) [OF laws q(3) [OF pos [OF that] price]] by (simp_all add: t_def)
  have "0 \<le> min t (bo_Size maker)" if "t \<noteq> 0" using t(1) [OF that] size by simp
  then show "0 \<le> sz" using calc unfolding eq by (cases "bo_Funds taker = 0 \<or> t = 0") auto
  assume "sz \<noteq> 0"
  then have sz: "sz = min t (bo_Size maker)" "t \<noteq> 0" "bo_Funds taker' = bo_Funds taker - sz * bo_Price maker"
    using calc unfolding eq by (cases "bo_Funds taker = 0 \<or> t = 0"; auto)+
  have "sz \<le> q" using t(2) [OF sz(2)] by (simp add: sz(1) min.coboundedI1)
  then have "sz * bo_Price maker \<le> q * bo_Price maker"
    using price by (intro mult_right_mono) simp_all
  then have "- bo_Funds taker' \<le> \<bar>q * bo_Price maker - bo_Funds taker\<bar>" using sz(3) by linarith
  then have "2 * 10 ^ 16 * (- bo_Funds taker') \<le> 2 * 10 ^ 16 * \<bar>q * bo_Price maker - bo_Funds taker\<bar>"
    by (rule mult_left_mono) simp
  then show "slack (bo_Funds taker') (bo_Price maker)"
    unfolding slack_def using qp by (rule order_trans)
qed

lemma match_list_funded:
  assumes "match_list E product taker makers = Inr (taker', makers', trades)"
    and "decimal_laws (dec E)" and "base_scale_ok product" and "funded_taker taker"
    and "prio_sorted SideSell makers" and "\<And>m. m \<in> set makers \<Longrightarrow> 0 < bo_Price m \<and> 0 < bo_Size m \<and> bo_Price m \<le> pmax"
    and "0 \<le> bo_Funds taker \<or> (\<forall>m\<in>set makers. slack (bo_Funds taker) (bo_Price m))"
    and "slack (bo_Funds taker) pmax"
  shows "bo_Funds taker = bo_Funds taker' + (\<Sum>(m, sz)\<leftarrow>trades. sz * bo_Price m) \<and>
    (\<forall>(m, sz)\<in>set trades. 0 < sz) \<and> slack (bo_Funds taker') pmax"
  using assms
proof (induction rule: match_list_induct)
  case (zero taker taker' maker makers fc ex)
  have "0 < bo_Price maker" "0 < bo_Size maker" "0 \<le> bo_Funds taker \<or> slack (bo_Funds taker) (bo_Price maker)"
    using zero.prems(5,6) by auto
  from calcTradeSize_funded [OF zero.prems(1-3) this zero(2)] show ?case using zero.prems by simp
next
  case (last taker taker' maker makers sz fc ex maker')
  have m: "0 < bo_Price maker" "0 < bo_Size maker" "0 \<le> bo_Funds taker \<or> slack (bo_Funds taker) (bo_Price maker)"
    "bo_Price maker \<le> pmax" using last.prems(5,6) by auto
  note c = calcTradeSize_funded [OF last.prems(1-3) m(1-3) last(2)]
  then show ?case using last.hyps slack_mono [OF c(3) m(4)] by simp
next
  case (more taker taker1 taker' maker makers sz fc ex maker' makers' trades)
  have m: "0 < bo_Price maker" "0 < bo_Size maker" "0 \<le> bo_Funds taker \<or> slack (bo_Funds taker) (bo_Price maker)"
    "bo_Price maker \<le> pmax" using more.prems(5,6) by auto
  note c = calcTradeSize_funded [OF more.prems(1-3) m(1-3) more(2)]
  have "slack (bo_Funds taker1) (bo_Price o1)" if "o1 \<in> set makers" for o1
  proof -
    have "bo_Price maker \<le> bo_Price o1" using more.prems(4) that by (auto simp: priority_def better_def)
    then show ?thesis using slack_mono c(3) more(3) by blast
  qed
  moreover have "slack (bo_Funds taker1) pmax" using slack_mono [OF c(3) m(4)] more(3) .
  moreover have "funded_taker taker1"
    using more.prems(3) same_ident_funded [OF calcTradeSize_ident [OF more(2)]] by simp
  ultimately have "bo_Funds taker1 = bo_Funds taker' + (\<Sum>(m, sz)\<leftarrow>trades. sz * bo_Price m) \<and>
    (\<forall>(m, sz)\<in>set trades. 0 < sz) \<and> slack (bo_Funds taker') pmax"
    using more.IH more.prems by auto
  then show ?case using c(1,2) more(3,5) by (auto simp: algebra_simps)
qed auto

subsection \<open>The logs of an operation\<close>

fun match_logs :: "'d log list \<Rightarrow> 'd match_log list" where
  "match_logs [] = []"
| "match_logs (MatchLog m # ls) = m # match_logs ls"
| "match_logs (OpenLog l # ls) = match_logs ls"
| "match_logs (DoneLog l # ls) = match_logs ls"

fun open_logs :: "'d log list \<Rightarrow> 'd open_log list" where
  "open_logs [] = []"
| "open_logs (OpenLog l # ls) = l # open_logs ls"
| "open_logs (MatchLog l # ls) = open_logs ls"
| "open_logs (DoneLog l # ls) = open_logs ls"

fun done_logs :: "'d log list \<Rightarrow> 'd done_log list" where
  "done_logs [] = []"
| "done_logs (DoneLog l # ls) = l # done_logs ls"
| "done_logs (MatchLog l # ls) = done_logs ls"
| "done_logs (OpenLog l # ls) = done_logs ls"

lemma logs_append [simp]:
  "match_logs (xs @ ys) = match_logs xs @ match_logs ys"
  "open_logs (xs @ ys) = open_logs xs @ open_logs ys"
  "done_logs (xs @ ys) = done_logs xs @ done_logs ys"
  by (induction xs rule: match_logs.induct) auto

lemma logs_new [simp]:
  "match_logs (newOpenLog E n pid o1 # ls) = match_logs ls"
  "match_logs (newDoneLog E n pid o1 r reason # ls) = match_logs ls"
  "open_logs (newMatchLog E n pid t o1 o2 p sz # ls) = open_logs ls"
  "open_logs (newDoneLog E n pid o1 r reason # ls) = open_logs ls"
  "done_logs (newMatchLog E n pid t o1 o2 p sz # ls) = done_logs ls"
  "done_logs (newOpenLog E n pid o1 # ls) = done_logs ls"
  by (simp_all add: newOpenLog_def newDoneLog_def newMatchLog_def)

definition the_match :: "('d::linordered_idom, 'q) env \<Rightarrow> int \<Rightarrow> string \<Rightarrow> int \<Rightarrow> 'd book_order \<Rightarrow> 'd book_order \<Rightarrow> 'd \<Rightarrow> 'd match_log" where
  "the_match E n pid t taker maker sz =
     \<lparr>bs_Type = LogTypeMatch, bs_Sequence = n, bs_ProductId = pid, bs_Time = clock E n,
      ml_TradeSeq = t, ml_TakerOrderId = bo_OrderId taker,
      ml_MakerOrderId = bo_OrderId maker, ml_TakerUserId = bo_UserId taker,
      ml_MakerUserId = bo_UserId maker, ml_Side = bo_Side maker, ml_Price = bo_Price maker,
      ml_Size = sz, ml_TakerTimeInForce = bo_TimeInForce taker,
      ml_MakerTimeInForce = bo_TimeInForce maker\<rparr>"

lemma match_logs_new [simp]:
  "match_logs (newMatchLog E n pid t taker maker (bo_Price maker) sz # ls) = the_match E n pid t taker maker sz # match_logs ls"
  by (simp add: newMatchLog_def the_match_def)

text \<open>A match log without its sequence numbers and time: the trade it reports.\<close>

definition reports :: "'d match_log \<Rightarrow> 'd book_order \<Rightarrow> 'd book_order \<Rightarrow> 'd \<Rightarrow> bool" where
  "reports m taker maker sz \<longleftrightarrow>
     ml_TakerOrderId m = bo_OrderId taker \<and> ml_TakerUserId m = bo_UserId taker \<and>
     ml_MakerOrderId m = bo_OrderId maker \<and> ml_MakerUserId m = bo_UserId maker \<and>
     ml_Side m = bo_Side maker \<and> ml_Price m = bo_Price maker \<and> ml_Size m = sz"

lemma trade_logs_matches:
  "list_all2 (\<lambda>m (maker, sz). reports m taker maker sz) (match_logs (trade_logs E pid taker ls ts trades)) trades"
  by (induction E pid taker ls ts trades rule: trade_logs.induct) (auto simp: reports_def the_match_def)

lemma trade_logs_mem:
  assumes "m \<in> set (match_logs (trade_logs E pid taker ls ts trades))"
  obtains maker sz where "(maker, sz) \<in> set trades" and "reports m taker maker sz"
  using assms trade_logs_matches [of taker E pid ls ts trades]
  by (auto simp: list_all2_conv_all_nth in_set_conv_nth case_prod_beta) (metis prod.collapse)

lemma trade_logs_value:
  "(\<Sum>m\<leftarrow>match_logs (trade_logs E pid taker ls ts trades). ml_Size m * ml_Price m) =
    (\<Sum>(maker, sz)\<leftarrow>trades. sz * bo_Price maker)"
  by (induction E pid taker ls ts trades rule: trade_logs.induct) (auto simp: the_match_def)

lemma trade_logs_columns:
  "map ml_Size (match_logs (trade_logs E pid taker ls ts trades)) = map snd trades"
  "map ml_Price (match_logs (trade_logs E pid taker ls ts trades)) = map (bo_Price \<circ> fst) trades"
  "map ml_MakerOrderId (match_logs (trade_logs E pid taker ls ts trades)) = map (bo_OrderId \<circ> fst) trades"
  "length (match_logs (trade_logs E pid taker ls ts trades)) = length trades"
  by (induction E pid taker ls ts trades rule: trade_logs.induct) (auto simp: the_match_def)

lemma trade_logs_seqs:
  "consec ls (map GetSeq (trade_logs E pid taker ls ts trades))"
  "consec ts (map ml_TradeSeq (match_logs (trade_logs E pid taker ls ts trades)))"
  by (induction E pid taker ls ts trades rule: trade_logs.induct) (auto simp: the_match_def)

lemma trade_logs_open: "open_logs (trade_logs E pid taker ls ts trades) = []"
  by (induction E pid taker ls ts trades rule: trade_logs.induct) auto

text \<open>A taker's last log.\<close>

lemma closing_log_logs [simp]:
  "GetSeq (closing_log E n pid taker) = n"
  "match_logs (closing_log E n pid taker # ls) = match_logs ls"
  "open_logs (closing_log E n pid taker # ls) = open_logs ls"
  by (simp_all add: closing_log_def)

text \<open>Unfolding \<open>spec_apply\<close> once and for all.\<close>

lemma spec_apply_elim:
  assumes "spec_apply E product taker ab = Inr (ab', logs)"
  obtains taker' makers' trades n where
    "match_list E product taker (ab_side ab (Opposite (bo_Side taker))) = Inr (taker', makers', trades)"
    and "logs = trade_logs E (prd_Id product) taker (ab_logSeq ab) (ab_tradeSeq ab) trades @
      [if rests taker' then newOpenLog E n (prd_Id product) taker' else closing_log E n (prd_Id product) taker']"
    and "n = ab_logSeq ab + int (length logs)" and "ab_logSeq ab' = n"
    and "ab_tradeSeq ab' = ab_tradeSeq ab + int (length trades)"
    and "ab_side ab' = (let sides = (ab_side ab)(Opposite (bo_Side taker) := makers')
      in if rests taker' then sides(bo_Side taker := rest_ins (bo_Side taker) taker' (sides (bo_Side taker))) else sides)"
    and "same_ident taker' taker"
proof (cases "match_list E product taker (ab_side ab (Opposite (bo_Side taker)))")
  case (Inl f)
  then show thesis using assms by (simp add: spec_apply_def)
next
  case (Inr r)
  obtain taker' makers' trades where r: "r = (taker', makers', trades)" by (cases r)
  note ml = Inr [unfolded r]
  show thesis
    by (rule that [OF ml _ _ _ _ _ match_list_ident [OF ml]])
      (use assms ml in \<open>auto simp: spec_apply_def Let_def split: if_splits\<close>)
qed

lemma spec_apply_seqs:
  assumes "spec_apply E product taker ab = Inr (ab', logs)"
  shows "consec (ab_logSeq ab) (map GetSeq logs) \<and> ab_logSeq ab' = ab_logSeq ab + int (length logs) \<and>
    consec (ab_tradeSeq ab) (map ml_TradeSeq (match_logs logs)) \<and>
    ab_tradeSeq ab' = ab_tradeSeq ab + int (length (match_logs logs))"
  using assms
proof (rule spec_apply_elim)
  fix taker' makers' trades n
  assume l: "logs = trade_logs E (prd_Id product) taker (ab_logSeq ab) (ab_tradeSeq ab) trades @
      [if rests taker' then newOpenLog E n (prd_Id product) taker' else closing_log E n (prd_Id product) taker']"
    and n: "n = ab_logSeq ab + int (length logs)" "ab_logSeq ab' = n"
    and t: "ab_tradeSeq ab' = ab_tradeSeq ab + int (length trades)"
  have "match_logs logs = match_logs (trade_logs E (prd_Id product) taker (ab_logSeq ab) (ab_tradeSeq ab) trades)"
    by (simp add: l)
  then show ?thesis
    using n t trade_logs_seqs trade_logs_columns(4) [of E "prd_Id product" taker "ab_logSeq ab" "ab_tradeSeq ab" trades]
    by (auto simp: l)
qed

subsection \<open>The look-aheads\<close>

text \<open>The loop of \<open>IsOrderWillFullMatch\<close> leaves the taker as matching would.\<close>

lemma full_match_loop_eq:
  assumes "\<And>o1. o1 \<in> set makers \<Longrightarrow> dp_orders d (bo_OrderId o1) = Some o1"
  shows "full_match_loop E product d taker (entries makers) =
    bindR (match_list E product taker makers) (\<lambda>r. Inr (fst r))"
  using assms
proof (induction makers arbitrary: taker)
  case Nil
  then show ?case by simp
next
  case (Cons maker makers)
  have lk: "dp_orders d (bo_OrderId maker) = Some maker" using Cons.prems by simp
  show ?case
  proof (cases "calcTradeSize E product taker maker")
    case (Inl f)
    then show ?thesis by (simp add: lk)
  next
    case (Inr r)
    obtain taker1 sz fc ex where r: "r = (taker1, sz, fc, ex)" by (cases r)
    have "full_match_loop E product d taker1 (entries makers) =
        bindR (match_list E product taker1 makers) (\<lambda>r. Inr (fst r))"
      using Cons.IH Cons.prems by simp
    then show ?thesis
      by (cases "match_list E product taker1 makers") (auto simp: lk Inr r Let_def)
  qed
qed

lemma IsOrderWillFullMatch_eq:
  assumes inv: "book_inv E b"
    and ml: "match_list E (ob_product b) (taker_of E order) (book_view E b (Opposite (ord_Side order))) = Inr (taker', makers', trades)"
  shows "IsOrderWillFullMatch E b order = Inr (\<not> rests taker')"
proof -
  obtain d where d: "ob_depths b (Opposite (ord_Side order)) = Some d"
      "depth_inv E (Opposite (ord_Side order)) d" "book_view E b (Opposite (ord_Side order)) = resting E d"
    using book_inv_depth [OF inv valid_Opposite] by blast
  have "full_match_loop E (ob_product b) d (taker_of E order) (entries (resting E d)) = Inr taker'"
    using full_match_loop_eq [OF resting_lookup(1) [OF d(2)]] ml d(3) by simp
  moreover have "tm_iter (tmap E) (dp_queue d) = entries (resting E d)"
    by (simp add: iter_resting [OF d(2)] entries_def)
  ultimately show ?thesis
    using d(1) by (simp add: IsOrderWillFullMatch_def Let_def rests_def flip: taker_of_def)
qed

text \<open>\<open>IsOrderWillNotMatch\<close> looks at the first entry of the queue for a buy and at the last for a
  sell.\<close>

lemma IsOrderWillNotMatch_eq:
  assumes laws: "treemap_laws (tmap E)" and inv: "book_inv E b"
  shows "IsOrderWillNotMatch E b order =
    Inr (case book_view E b (Opposite (ord_Side order)) of [] \<Rightarrow> True
      | m # ms \<Rightarrow> \<not> pricesCross (ord_Side order) (bo_Price (taker_of E order))
          (bo_Price (if ord_Side order = SideBuy then m else last (m # ms))))"
proof -
  obtain d where d: "ob_depths b (Opposite (ord_Side order)) = Some d"
      "depth_inv E (Opposite (ord_Side order)) d" "book_view E b (Opposite (ord_Side order)) = resting E d"
    using book_inv_depth [OF inv valid_Opposite] by blast
  note it = iter_resting [OF d(2)]
  note made = depth_inv_made [OF d(2)]
  show ?thesis
  proof (cases "resting E d")
    case Nil
    then show ?thesis
      using d(1,3) it
      by (simp add: IsOrderWillNotMatch_def Let_def tm_min_eq [OF laws side_cmp_ok made]
          tm_max_eq [OF laws side_cmp_ok made] flip: taker_of_def)
  next
    case (Cons m ms)
    have "dp_orders d (bo_OrderId m) = Some m" "dp_orders d (bo_OrderId (last (m # ms))) = Some (last (m # ms))"
      using resting_lookup(1) [OF d(2)] last_in_set [of "m # ms"] Cons by simp_all
    then show ?thesis
      using d(1,3) it Cons last_map [of "m # ms" "\<lambda>o1. (key_of o1, bo_OrderId o1)"]
      by (auto simp: IsOrderWillNotMatch_def Let_def tm_min_eq [OF laws side_cmp_ok made]
          tm_max_eq [OF laws side_cmp_ok made] simp flip: taker_of_def)
  qed
qed

subsection \<open>What \<open>ApplyOrder\<close> returned\<close>

lemma ApplyOrder_elim:
  assumes laws: "env_laws E" and inv: "book_inv E b" and ok: "order_ok order"
    and fresh: "\<not> window_refuses (window_of b (ord_Id order)) (ord_Id order)"
    and app: "ApplyOrder E b order = Inr (b', logs)"
  obtains taker' makers' trades n where
    "match_list E (ob_product b) (taker_of E order) (book_view E b (Opposite (ord_Side order))) = Inr (taker', makers', trades)"
    and "logs = trade_logs E (prd_Id (ob_product b)) (taker_of E order) (ob_logSeq b) (ob_tradeSeq b) trades @
      [if rests taker' then newOpenLog E n (prd_Id (ob_product b)) taker' else closing_log E n (prd_Id (ob_product b)) taker']"
    and "book_view E b' (Opposite (ord_Side order)) = makers'"
    and "book_view E b' (ord_Side order) = (if rests taker'
      then rest_ins (ord_Side order) taker' (book_view E b (ord_Side order)) else book_view E b (ord_Side order))"
    and "same_ident taker' (taker_of E order)" and "book_inv E b'"
proof -
  obtain b2 logs2 where a: "ApplyOrder E b order = Inr (b2, logs2)"
      "spec_apply E (ob_product b) (taker_of E order) (abs_book E b) = Inr (abs_book E b2, logs2)" "book_inv E b2"
    using ApplyOrder_accepted [OF laws inv ok fresh] by metis
  then have s: "spec_apply E (ob_product b) (taker_of E order) (abs_book E b) = Inr (abs_book E b', logs)" "book_inv E b'"
    using app by simp_all
  have ne: "ord_Side order \<noteq> Opposite (ord_Side order)"
    using Opposite_neq_self ok by (metis order_ok_def)
  from s(1) show thesis
  proof (rule spec_apply_elim)
    fix taker' makers' trades n
    assume "match_list E (ob_product b) (taker_of E order) (ab_side (abs_book E b) (Opposite (bo_Side (taker_of E order)))) = Inr (taker', makers', trades)"
      and "logs = trade_logs E (prd_Id (ob_product b)) (taker_of E order) (ab_logSeq (abs_book E b)) (ab_tradeSeq (abs_book E b)) trades @
        [if rests taker' then newOpenLog E n (prd_Id (ob_product b)) taker' else closing_log E n (prd_Id (ob_product b)) taker']"
      and "ab_side (abs_book E b') = (let sides = (ab_side (abs_book E b))(Opposite (bo_Side (taker_of E order)) := makers')
        in if rests taker' then sides(bo_Side (taker_of E order) := rest_ins (bo_Side (taker_of E order)) taker' (sides (bo_Side (taker_of E order)))) else sides)"
      and "same_ident taker' (taker_of E order)"
    then show thesis
      using that [of taker' makers' trades n] s(2) ne by (auto simp: abs_book_def Let_def split: if_splits)
  qed
qed

subsection \<open>Trades in terms of the makers before them\<close>

lemma take_prefix:
  assumes "match_list E product taker makers = Inr (taker', makers', trades)"
  shows "take (length trades) makers = before trades"
  using match_list_prefix [OF assms] by (metis append_eq_conv_conj length_before)

lemma before_columns:
  "map bo_OrderId (before trades) = map (bo_OrderId \<circ> fst) trades"
  "map bo_Price (before trades) = map (bo_Price \<circ> fst) trades"
  by (induction trades) auto

lemma before_filled:
  assumes "\<forall>(m, sz)\<in>set (butlast trades). bo_Size m = 0" and "i + 1 < length trades"
  shows "snd (trades ! i) = bo_Size (before trades ! i)"
proof -
  have "trades ! i \<in> set (butlast trades)"
    using assms(2) by (metis add.commute in_set_conv_nth length_butlast less_diff_conv nth_butlast plus_1_eq_Suc Suc_eq_plus1)
  then have "bo_Size (fst (trades ! i)) = 0" using assms(1) by (auto simp: case_prod_beta)
  then show ?thesis using assms(2) by (simp add: before_def case_prod_beta)
qed

end
