(* ===== verification/Sample_Book.thy ===== *)
theory Sample_Book
  imports Match_Facts
begin

text \<open>
  A small concrete book on the reference instances of the packages, with two resting asks and one
  resting bid, and orders to apply to it. The witnesses of the properties use them.
\<close>

definition rat_env :: "(rat, (rat price_key, u64) sl_map) env" where
  "rat_env = \<lparr>dec = rat_decimal, tmap = sl_treemap, clock = \<lambda>_. 0\<rparr>"

lemma rat_env_laws: "env_laws rat_env"
  by (simp add: env_laws_def rat_env_def sl_treemap_laws rat_decimal_laws)

definition sample_product :: "rat product" where
  "sample_product = \<lparr>prd_Id = ''BTC-USDT'', prd_BaseCurrency = ''BTC'', prd_QuoteCurrency = ''USDT'',
     prd_BaseMinSize = 0, prd_BaseMaxSize = 1000, prd_QuoteMinSize = 0, prd_QuoteMaxSize = 100000,
     prd_BaseScale = 4, prd_QuoteScale = 2, prd_QuoteIncrement = 1\<rparr>"

definition sample_resting :: "u64 \<Rightarrow> side \<Rightarrow> rat \<Rightarrow> rat \<Rightarrow> rat book_order" where
  "sample_resting oid s sz p = \<lparr>bo_OrderId = oid, bo_UserId = 7, bo_Size = sz, bo_Funds = sz * p,
     bo_Price = p, bo_Side = s, bo_Type = OrderTypeLimit, bo_TimeInForce = GoodTillCanceled\<rparr>"

definition sample_order :: "u64 \<Rightarrow> side \<Rightarrow> order_type \<Rightarrow> time_in_force \<Rightarrow> rat \<Rightarrow> rat \<Rightarrow> rat \<Rightarrow> rat order" where
  "sample_order oid s ty tif sz p funds = \<lparr>ord_Id = oid, ord_ProductId = ''BTC-USDT'', ord_UserId = 8,
     ord_ClientOid = [], ord_Size = sz, ord_Funds = funds, ord_FilledSize = 0, ord_ExecutedValue = 0,
     ord_Price = p, ord_FillFees = 0, ord_Type = ty, ord_Side = s, ord_TimeInForce = tif,
     ord_TakerFeeRatio = 0, ord_MakerFeeRatio = 0, ord_Status = OrderStatusNew, ord_Settled = False\<rparr>"

lemma sample_order_simps [simp]:
  "ord_Id (sample_order oid s ty tif sz p funds) = oid"
  "ord_UserId (sample_order oid s ty tif sz p funds) = 8"
  "ord_Side (sample_order oid s ty tif sz p funds) = s"
  "ord_Type (sample_order oid s ty tif sz p funds) = ty"
  "ord_TimeInForce (sample_order oid s ty tif sz p funds) = tif"
  "ord_Size (sample_order oid s ty tif sz p funds) = sz"
  "ord_Price (sample_order oid s ty tif sz p funds) = p"
  "ord_Funds (sample_order oid s ty tif sz p funds) = funds"
  "ord_Status (sample_order oid s ty tif sz p funds) = OrderStatusNew"
  by (simp_all add: sample_order_def)

definition sample_depth :: "side \<Rightarrow> rat book_order list \<Rightarrow> (rat, (rat price_key, u64) sl_map) depth" where
  "sample_depth s os = fold (\<lambda>o1 d. add rat_env d o1) os
     \<lparr>dp_orders = Map.empty, dp_queue = (side_cmp s, [])\<rparr>"

definition sample_asks :: "rat book_order list" where
  "sample_asks = [sample_resting 1 SideSell 2 100, sample_resting 2 SideSell 3 101]"

definition sample_bids :: "rat book_order list" where
  "sample_bids = [sample_resting 3 SideBuy 5 99]"

text \<open>The windows are past the ids of the resting orders.\<close>

definition sample_book :: "(rat, (rat price_key, u64) sl_map) order_book" where
  "sample_book = \<lparr>ob_product = sample_product,
     ob_depths = [SideBuy \<mapsto> sample_depth SideBuy sample_bids, SideSell \<mapsto> sample_depth SideSell sample_asks],
     ob_tradeSeq = 10, ob_logSeq = 20,
     ob_orderIdWindows = replicate TableOrderSplitCount (newWindow 4 12)\<rparr>"

lemma rat_env_simps [simp]: "dec rat_env = rat_decimal" "tmap rat_env = sl_treemap" "clock rat_env n = 0"
  by (simp_all add: rat_env_def)

lemma sl_new: "\<lparr>dp_orders = Map.empty, dp_queue = (side_cmp s, [])\<rparr> =
    \<lparr>dp_orders = Map.empty, dp_queue = tm_new (tmap rat_env) (side_cmp s)\<rparr>"
  by (simp add: sl_treemap_def)

lemma sample_depth_inv:
  assumes "list_all (order_wf s) os" and "distinct (map bo_OrderId os)"
  shows "depth_inv rat_env s (sample_depth s os) \<and>
    resting rat_env (sample_depth s os) = fold (rest_ins s) os []"
proof -
  define d0 :: "(rat, (rat price_key, u64) sl_map) depth"
    where "d0 = \<lparr>dp_orders = Map.empty, dp_queue = (side_cmp s, [])\<rparr>"
  note n = depth_new [OF env_lawsD(1) [OF rat_env_laws], of s, folded sl_new d0_def]
  have "depth_inv rat_env s d \<Longrightarrow> \<forall>o1\<in>set os. dp_orders d (bo_OrderId o1) = None \<Longrightarrow>
    depth_inv rat_env s (fold (\<lambda>o1 d. add rat_env d o1) os d) \<and>
    resting rat_env (fold (\<lambda>o1 d. add rat_env d o1) os d) = fold (rest_ins s) os (resting rat_env d)" for d
    using assms
  proof (induction os arbitrary: d)
    case (Cons o1 os)
    have a: "order_wf s o1" "dp_orders d (bo_OrderId o1) = None" using Cons.prems by auto
    note A = depth_add [OF env_lawsD(1) [OF rat_env_laws] Cons.prems(1) a]
    have "\<forall>o2\<in>set os. dp_orders (add rat_env d o1) (bo_OrderId o2) = None"
      using Cons.prems(2,4) by (auto simp: image_iff)
    from Cons.IH [OF A(1) this] Cons.prems show ?case by (simp add: A(2))
  qed simp
  from this [OF n(1)] show ?thesis by (simp add: sample_depth_def n(2) flip: d0_def) (simp add: d0_def)
qed

lemma sample_resting_simps [simp]:
  "bo_OrderId (sample_resting oid s sz p) = oid"
  "bo_Size (sample_resting oid s sz p) = sz"
  "bo_Price (sample_resting oid s sz p) = p"
  "bo_Side (sample_resting oid s sz p) = s"
  "bo_Type (sample_resting oid s sz p) = OrderTypeLimit"
  by (simp_all add: sample_resting_def)

lemma sample_views:
  "depth_inv rat_env SideSell (sample_depth SideSell sample_asks)"
  "resting rat_env (sample_depth SideSell sample_asks) = sample_asks"
  "depth_inv rat_env SideBuy (sample_depth SideBuy sample_bids)"
  "resting rat_env (sample_depth SideBuy sample_bids) = sample_bids"
  using sample_depth_inv [of SideSell sample_asks] sample_depth_inv [of SideBuy sample_bids]
  by (simp_all add: sample_asks_def sample_bids_def order_wf_def priority_def better_def)

lemma sample_view:
  "book_view rat_env sample_book SideSell = sample_asks"
  "book_view rat_env sample_book SideBuy = sample_bids"
  by (simp_all add: book_view_def sample_book_def sample_views)

lemma sample_window: "window_of sample_book oid = newWindow 4 12"
  using GetTableIndexByOrderId_less [of oid] by (simp add: window_of_def sample_book_def)

lemma sample_refuses: "window_refuses (window_of sample_book oid) oid \<longleftrightarrow> oid < 4"
  by (simp add: sample_window window_refuses_def newWindow_seen) (simp add: newWindow_def)

lemma sample_book_inv: "book_inv rat_env sample_book"
proof -
  have "book_view rat_env sample_book s = []" if "s \<noteq> SideBuy" "s \<noteq> SideSell" for s
    using that by (simp add: book_view_def sample_book_def)
  then have ref: "window_refuses (window_of sample_book (bo_OrderId o1)) (bo_OrderId o1)"
    if "o1 \<in> set (book_view rat_env sample_book s)" for s o1
    using that sample_view unfolding sample_refuses
    by (cases "s = SideBuy"; cases "s = SideSell") (auto simp: sample_asks_def sample_bids_def)
  have win: "window_inv (newWindow 4 12)" by (rule newWindow_inv) simp
  have dep: "depth_inv rat_env s d" if "ob_depths sample_book s = Some d" for s d
    using that sample_views by (auto simp: sample_book_def split: if_splits)
  have "uncrossed (book_view rat_env sample_book SideBuy) (book_view rat_env sample_book SideSell)"
    unfolding sample_view by (simp add: uncrossed_def sample_asks_def sample_bids_def)
  moreover have "dom (ob_depths sample_book) = {SideBuy, SideSell}"
    and "ob_orderIdWindows sample_book = replicate TableOrderSplitCount (newWindow 4 12)"
    by (auto simp: sample_book_def)
  ultimately show ?thesis using ref win dep unfolding book_inv_def by simp
qed

text \<open>A limit buy that takes the first ask and rests the remainder; a market buy; a limit sell.\<close>

definition limit_buy :: "rat order" where
  "limit_buy = sample_order 5 SideBuy OrderTypeLimit GoodTillCanceled 3 100 300"

definition market_buy :: "rat order" where
  "market_buy = sample_order 6 SideBuy OrderTypeMarket GoodTillCanceled 0 0 301"

definition limit_sell :: "rat order" where
  "limit_sell = sample_order 7 SideSell OrderTypeLimit GoodTillCanceled 4 98 0"

lemmas sample_orders = limit_buy_def market_buy_def limit_sell_def

lemma sample_order_ok:
  "order_ok limit_buy" "order_ok market_buy" "order_ok limit_sell"
  by (simp_all add: sample_orders order_ok_def id_ok_def)

lemma sample_fresh:
  "\<not> window_refuses (window_of sample_book (ord_Id limit_buy)) (ord_Id limit_buy)"
  "\<not> window_refuses (window_of sample_book (ord_Id market_buy)) (ord_Id market_buy)"
  "\<not> window_refuses (window_of sample_book (ord_Id limit_sell)) (ord_Id limit_sell)"
  unfolding sample_refuses by (simp_all add: sample_orders)

text \<open>A run in short: the two counters, the trades (maker, size, price), the open logs (order, size)
  and the done logs (order, remaining size, reason).\<close>

definition summary :: "(('d, 'q) order_book \<times> 'd log list) res \<Rightarrow>
    (int \<times> int \<times> (u64 \<times> 'd \<times> 'd) list \<times> (u64 \<times> 'd) list \<times> (u64 \<times> 'd \<times> done_reason) list) option" where
  "summary r = (case r of Inl f \<Rightarrow> None
     | Inr (b, logs) \<Rightarrow> Some (ob_logSeq b, ob_tradeSeq b,
         map (\<lambda>m. (ml_MakerOrderId m, ml_Size m, ml_Price m)) (match_logs logs),
         map (\<lambda>l. (ol_OrderId l, ol_RemainingSize l)) (open_logs logs),
         map (\<lambda>l. (dl_OrderId l, dl_RemainingSize l, dl_Reason l)) (done_logs logs)))"

end
