(* ===== verification/Book_Properties.thy ===== *)
theory Book_Properties
  imports Sample_Book
begin

text \<open>
  The properties of the matching order book, each with a witness on the sample book: refinement,
  duplicates, sequence numbers, conservation of size and funds, price-time priority, the best
  execution of limit orders, cancelling, snapshots and the two look-aheads.
\<close>

subsection \<open>ApplyOrder\<close>

text \<open>C1. On a well-formed book and for an acceptable order whose id the book has not seen,
  \<open>ApplyOrder\<close> neither panics nor calls \<open>log.Fatal\<close>; it returns the logs and leaves the book that the
  list specification computes, and the book is well-formed again: depth maps and queues agree, the
  sides do not cross, and every resting order is known to the duplicate window, as is the new id
  and every id known before.\<close>

theorem ApplyOrder_implements_spec:
  assumes "env_laws E" and "book_inv E b" and "order_ok order"
    and "\<not> window_refuses (window_of b (ord_Id order)) (ord_Id order)"
  shows "\<exists>b' logs. ApplyOrder E b order = Inr (b', logs) \<and>
    spec_apply E (ob_product b) (taker_of E order) (abs_book E b) = Inr (abs_book E b', logs) \<and>
    book_inv E b' \<and> ob_product b' = ob_product b \<and> keeps_windows b b' (ord_Id order)"
  using ApplyOrder_accepted [OF assms] unfolding keeps_windows_def by metis

theorem ApplyOrder_implements_spec_witness:
  "\<exists>b' logs. ApplyOrder rat_env sample_book limit_buy = Inr (b', logs) \<and>
    spec_apply rat_env (ob_product sample_book) (taker_of rat_env limit_buy) (abs_book rat_env sample_book) =
      Inr (abs_book rat_env b', logs) \<and>
    book_inv rat_env b' \<and> ob_product b' = ob_product sample_book \<and> keeps_windows sample_book b' (ord_Id limit_buy)"
  by (rule ApplyOrder_implements_spec [OF rat_env_laws sample_book_inv sample_order_ok(1) sample_fresh(1)])

text \<open>C11. An order is never applied twice: once an order has been applied, applying an order with
  the same id again, whatever its other fields and also after other operations that keep the
  windows, writes no log and leaves the book as it was.\<close>

theorem ApplyOrder_twice:
  assumes "env_laws E" and "book_inv E b" and "order_ok order" and "ApplyOrder E b order = Inr (b1, logs1)"
    and "book_inv E b2" and "\<And>u. window_refuses (window_of b1 u) u \<Longrightarrow> window_refuses (window_of b2 u) u"
    and "order_ok order2" and "ord_Id order2 = ord_Id order"
  shows "ApplyOrder E b2 order2 = Inr (b2, [])"
proof -
  have "window_refuses (window_of b1 (ord_Id order)) (ord_Id order)"
  proof (cases "window_refuses (window_of b (ord_Id order)) (ord_Id order)")
    case True
    then show ?thesis using ApplyOrder_refused [OF assms(2,3)] assms(4) by simp
  next
    case False
    then show ?thesis using ApplyOrder_accepted [OF assms(1-3)] assms(4) by (metis Inr_inject prod.inject)
  qed
  then show ?thesis using assms(6,8) by (intro ApplyOrder_refused [OF assms(5,7)]) simp
qed

theorem ApplyOrder_twice_witness:
  "\<exists>b1 logs1. ApplyOrder rat_env sample_book limit_buy = Inr (b1, logs1) \<and> logs1 \<noteq> [] \<and>
    ApplyOrder rat_env b1 limit_buy = Inr (b1, [])"
proof -
  note ok = rat_env_laws sample_book_inv sample_order_ok(1)
  obtain b1 logs1 where a: "ApplyOrder rat_env sample_book limit_buy = Inr (b1, logs1)" "book_inv rat_env b1"
      "spec_apply rat_env (ob_product sample_book) (taker_of rat_env limit_buy) (abs_book rat_env sample_book) = Inr (abs_book rat_env b1, logs1)"
    using ApplyOrder_accepted [OF ok sample_fresh(1)] by metis
  have "logs1 \<noteq> []" using a(3) by (rule spec_apply_elim) auto
  with a ApplyOrder_twice [OF ok a(1,2) _ sample_order_ok(1) refl] show ?thesis by simp
qed

text \<open>The logs of an applied order carry consecutive log sequence numbers, following the book's
  counter, and its match logs consecutive trade sequence numbers; the counters end at the last ones
  used.\<close>

theorem ApplyOrder_sequences:
  assumes "env_laws E" and "book_inv E b" and "order_ok order" and "ApplyOrder E b order = Inr (b', logs)"
  shows "consec (ob_logSeq b) (map GetSeq logs) \<and> ob_logSeq b' = ob_logSeq b + int (length logs) \<and>
    consec (ob_tradeSeq b) (map ml_TradeSeq (match_logs logs)) \<and>
    ob_tradeSeq b' = ob_tradeSeq b + int (length (match_logs logs))"
proof (cases "window_refuses (window_of b (ord_Id order)) (ord_Id order)")
  case True
  then show ?thesis using ApplyOrder_refused [OF assms(2,3)] assms(4) by simp
next
  case False
  then have "spec_apply E (ob_product b) (taker_of E order) (abs_book E b) = Inr (abs_book E b', logs)"
    using ApplyOrder_accepted [OF assms(1-3)] assms(4) by (metis Inr_inject prod.inject)
  from spec_apply_seqs [OF this] show ?thesis by (simp add: abs_book_def)
qed

theorem ApplyOrder_sequences_witness:
  "\<exists>b' logs. ApplyOrder rat_env sample_book limit_buy = Inr (b', logs) \<and>
    consec 20 (map GetSeq logs) \<and> consec 10 (map ml_TradeSeq (match_logs logs))"
proof -
  note ok = rat_env_laws sample_book_inv sample_order_ok(1)
  obtain b' logs where a: "ApplyOrder rat_env sample_book limit_buy = Inr (b', logs)"
    using ApplyOrder_accepted [OF ok sample_fresh(1)] by metis
  have "ob_logSeq sample_book = 20" "ob_tradeSeq sample_book = 10" by (simp_all add: sample_book_def)
  with a ApplyOrder_sequences [OF ok a] show ?thesis by auto
qed

text \<open>C7. Size is conserved. For a limit order, or a market sell: the sizes of its trades are
  positive, and together with what rests of it, or with what its done log leaves over, they make up
  its size; and the other side of the book loses exactly the traded size.\<close>

theorem ApplyOrder_conserves_size:
  assumes "env_laws E" and "book_inv E b" and "order_ok order" and "ApplyOrder E b order = Inr (b', logs)"
    and "\<not> window_refuses (window_of b (ord_Id order)) (ord_Id order)"
    and "ord_Type order = OrderTypeLimit"
  defines "traded \<equiv> sum_list (map ml_Size (match_logs logs))"
  shows "(\<forall>m\<in>set (match_logs logs). 0 < ml_Size m) \<and>
    (if ord_Size order = traded then open_logs logs = []
     else \<exists>l. open_logs logs = [l] \<and> ol_OrderId l = ord_Id order \<and> ol_RemainingSize l = ord_Size order - traded \<and>
       0 < ol_RemainingSize l) \<and>
    sum_list (map bo_Size (book_view E b (Opposite (ord_Side order)))) =
      sum_list (map bo_Size (book_view E b' (Opposite (ord_Side order)))) + traded"
  using assms(1-3,5,4)
proof (rule ApplyOrder_elim)
  fix taker' makers' trades n
  define taker where "taker = taker_of E order"
  assume ml: "match_list E (ob_product b) (taker_of E order) (book_view E b (Opposite (ord_Side order))) = Inr (taker', makers', trades)"
    and logs: "logs = trade_logs E (prd_Id (ob_product b)) (taker_of E order) (ob_logSeq b) (ob_tradeSeq b) trades @
      [if rests taker' then newOpenLog E n (prd_Id (ob_product b)) taker' else closing_log E n (prd_Id (ob_product b)) taker']"
    and view: "book_view E b' (Opposite (ord_Side order)) = makers'"
    and id: "same_ident taker' (taker_of E order)"
  have sized: "sized_taker (taker_of E order)" using assms(6) by (simp add: sized_taker_def)
  note S = match_list_sized_sums [OF ml sized]
  have S: "ord_Size order = bo_Size taker' + sum_list (map snd trades)" "\<forall>(m, sz)\<in>set trades. 0 < sz \<and> 0 \<le> bo_Size m"
      "0 \<le> bo_Size taker'"
    using S(1,2,5) assms(3) book_inv_wf [OF assms(2)] by (simp_all add: order_ok_def order_wf_def)
  have ms: "match_logs logs = match_logs (trade_logs E (prd_Id (ob_product b)) (taker_of E order) (ob_logSeq b) (ob_tradeSeq b) trades)"
    by (simp add: logs)
  have t: "traded = sum_list (map snd trades)" by (simp add: traded_def ms trade_logs_columns)
  have "ml_Size ` set (match_logs logs) = snd ` set trades"
    unfolding ms by (metis image_set trade_logs_columns(1))
  then have pos: "\<forall>m\<in>set (match_logs logs). 0 < ml_Size m" using S(2) by (force simp: image_iff)
  have lim: "bo_Type taker' = OrderTypeLimit" "bo_OrderId taker' = ord_Id order"
    using assms(6) same_identD [OF id] by simp_all
  have opens: "open_logs logs = (if 0 < bo_Size taker' then open_logs [newOpenLog E n (prd_Id (ob_product b)) taker'] else [])"
    by (simp add: logs trade_logs_open rests_def lim)
  have "if ord_Size order = traded then open_logs logs = []
     else \<exists>l. open_logs logs = [l] \<and> ol_OrderId l = ord_Id order \<and> ol_RemainingSize l = ord_Size order - traded \<and>
       0 < ol_RemainingSize l"
    using S(1,3) by (auto simp: opens t newOpenLog_def lim)
  moreover have "sum_list (map bo_Size (before trades)) = sum_list (map bo_Size (left_of trades)) + traded"
    unfolding t by (induction trades) auto
  then have "sum_list (map bo_Size (book_view E b (Opposite (ord_Side order)))) = sum_list (map bo_Size makers') + traded"
    using match_list_prefix [OF ml]
    by (metis (no_types, lifting) ab_semigroup_add_class.add_ac(1) add.commute map_append sum_list_append)
  ultimately show ?thesis using pos by (simp add: view)
qed

theorem ApplyOrder_conserves_size_witness:
  "\<exists>b' logs. ApplyOrder rat_env sample_book limit_buy = Inr (b', logs) \<and>
    (5 :: rat) = sum_list (map bo_Size (book_view rat_env b' SideSell)) + sum_list (map ml_Size (match_logs logs))"
proof -
  note ok = rat_env_laws sample_book_inv sample_order_ok(1)
  obtain b' logs where a: "ApplyOrder rat_env sample_book limit_buy = Inr (b', logs)"
    using ApplyOrder_accepted [OF ok sample_fresh(1)] by metis
  have "ord_Type limit_buy = OrderTypeLimit" by (simp add: limit_buy_def)
  from ApplyOrder_conserves_size [OF ok a sample_fresh(1) this] a show ?thesis
    by (auto simp: limit_buy_def sample_view) (simp add: sample_asks_def)
qed

text \<open>C8. Price-time priority. The makers of an order's trades are the first orders of the other
  side, in its order: best price first, oldest first at one price; each trade is at the maker's
  price, and that price is within the taker's limit. A limit order or a market sell takes the whole
  of each maker before it goes on to the next.\<close>

theorem ApplyOrder_priority:
  assumes "env_laws E" and "book_inv E b" and "order_ok order" and "ApplyOrder E b order = Inr (b', logs)"
    and "\<not> window_refuses (window_of b (ord_Id order)) (ord_Id order)"
  defines "makers \<equiv> book_view E b (Opposite (ord_Side order))" and "ms \<equiv> match_logs logs"
  shows "prio_sorted (Opposite (ord_Side order)) makers \<and>
    map ml_MakerOrderId ms = map bo_OrderId (take (length ms) makers) \<and>
    map ml_Price ms = map bo_Price (take (length ms) makers) \<and>
    (\<forall>m\<in>set ms. pricesCross (ord_Side order) (bo_Price (taker_of E order)) (ml_Price m)) \<and>
    (sized_taker (taker_of E order) \<longrightarrow> (\<forall>i. i + 1 < length ms \<longrightarrow> ml_Size (ms ! i) = bo_Size (makers ! i)))"
  using assms(1-3,5,4)
proof (rule ApplyOrder_elim)
  fix taker' makers' trades n
  assume ml: "match_list E (ob_product b) (taker_of E order) (book_view E b (Opposite (ord_Side order))) = Inr (taker', makers', trades)"
    and logs: "logs = trade_logs E (prd_Id (ob_product b)) (taker_of E order) (ob_logSeq b) (ob_tradeSeq b) trades @
      [if rests taker' then newOpenLog E n (prd_Id (ob_product b)) taker' else closing_log E n (prd_Id (ob_product b)) taker']"
  have ms: "ms = match_logs (trade_logs E (prd_Id (ob_product b)) (taker_of E order) (ob_logSeq b) (ob_tradeSeq b) trades)"
    by (simp add: ms_def logs)
  note cols = trade_logs_columns [of E "prd_Id (ob_product b)" "taker_of E order" "ob_logSeq b" "ob_tradeSeq b" trades, folded ms]
  note pre = take_prefix [OF ml, folded makers_def]
  have "ml_Price ` set ms = (bo_Price \<circ> fst) ` set trades" by (metis cols(2) image_set)
  then have cross: "\<forall>m\<in>set ms. pricesCross (ord_Side order) (bo_Price (taker_of E order)) (ml_Price m)"
    using match_list_crosses [OF ml] by (force simp: image_iff case_prod_beta)
  have sorted: "prio_sorted (Opposite (ord_Side order)) makers"
    using assms(1,2) by (cases rule: book_inv_depth [OF assms(2) valid_Opposite, of "ord_Side order"])
      (simp add: makers_def resting_sorted env_lawsD)
  have full: "ml_Size (ms ! i) = bo_Size (makers ! i)"
    if "sized_taker (taker_of E order)" and i: "i + 1 < length ms" for i
  proof -
    have "\<forall>(m, sz)\<in>set (butlast trades). bo_Size m = 0"
      using match_list_sized_sums(3) [OF ml that(1)] assms(3) book_inv_wf [OF assms(2)]
      by (simp add: order_ok_def order_wf_def)
    then have "snd (trades ! i) = bo_Size (before trades ! i)" using i cols(4) by (intro before_filled) simp_all
    moreover have "ml_Size (ms ! i) = snd (trades ! i)" using arg_cong [OF cols(1), of "\<lambda>xs. xs ! i"] i cols(4) by simp
    moreover have "before trades ! i = makers ! i" using i cols(4) by (simp flip: pre)
    ultimately show ?thesis by simp
  qed
  show ?thesis
    using sorted cross full by (simp add: cols(2-4) pre before_columns)
qed

theorem ApplyOrder_priority_witness:
  "\<exists>b' logs. ApplyOrder rat_env sample_book limit_sell = Inr (b', logs) \<and>
    map ml_MakerOrderId (match_logs logs) = map bo_OrderId (take (length (match_logs logs)) sample_bids)"
proof -
  note ok = rat_env_laws sample_book_inv sample_order_ok(3)
  obtain b' logs where a: "ApplyOrder rat_env sample_book limit_sell = Inr (b', logs)"
    using ApplyOrder_accepted [OF ok sample_fresh(3)] by metis
  from ApplyOrder_priority [OF ok a sample_fresh(3)] a show ?thesis
    by (auto simp: limit_sell_def sample_view)
qed

text \<open>C9. A market buy is limited by its funds, up to the rounding of division: if every ask costs
  at most \<open>pmax\<close>, what the trades cost together exceeds the funds by at most half of \<open>10^-16 * pmax\<close>
  (multiplied out to stay exact). Its trades have positive sizes, and it never rests.\<close>

theorem ApplyOrder_market_buy_funds:
  assumes "env_laws E" and "book_inv E b" and "order_ok order" and "ApplyOrder E b order = Inr (b', logs)"
    and "\<not> window_refuses (window_of b (ord_Id order)) (ord_Id order)"
    and "ord_Type order = OrderTypeMarket" and "ord_Side order = SideBuy" and "base_scale_ok (ob_product b)"
    and "\<forall>m\<in>set (book_view E b SideSell). bo_Price m \<le> pmax" and "0 \<le> pmax"
  shows "2 * 10 ^ 16 * ((\<Sum>m\<leftarrow>match_logs logs. ml_Size m * ml_Price m) - ord_Funds order) \<le> pmax \<and>
    (\<forall>m\<in>set (match_logs logs). 0 < ml_Size m) \<and> open_logs logs = [] \<and>
    book_view E b' SideBuy = book_view E b SideBuy"
  using assms(1-3,5,4)
proof (rule ApplyOrder_elim)
  fix taker' makers' trades n
  assume ml: "match_list E (ob_product b) (taker_of E order) (book_view E b (Opposite (ord_Side order))) = Inr (taker', makers', trades)"
    and logs: "logs = trade_logs E (prd_Id (ob_product b)) (taker_of E order) (ob_logSeq b) (ob_tradeSeq b) trades @
      [if rests taker' then newOpenLog E n (prd_Id (ob_product b)) taker' else closing_log E n (prd_Id (ob_product b)) taker']"
    and own: "book_view E b' (ord_Side order) = (if rests taker'
      then rest_ins (ord_Side order) taker' (book_view E b (ord_Side order)) else book_view E b (ord_Side order))"
    and id: "same_ident taker' (taker_of E order)"
  have nr: "\<not> rests taker'" using same_identD [OF id] assms(6) by (simp add: rests_def)
  define ls where "ls = trade_logs E (prd_Id (ob_product b)) (taker_of E order) (ob_logSeq b) (ob_tradeSeq b) trades"
  have ms: "match_logs logs = match_logs ls" by (simp add: logs ls_def)
  note ml' = ml [unfolded assms(7) Opposite_simps]
  have sorted: "prio_sorted SideSell (book_view E b SideSell)"
    by (cases rule: book_inv_depth [OF assms(2), of SideSell]) (simp_all add: resting_sorted env_lawsD assms(1))
  have wf: "0 < bo_Price m \<and> 0 < bo_Size m \<and> bo_Price m \<le> pmax" if "m \<in> set (book_view E b SideSell)" for m
    using that book_inv_wf [OF assms(2) that] assms(9) by (simp add: order_wf_def)
  have funded: "funded_taker (taker_of E order)" "0 \<le> bo_Funds (taker_of E order)"
    using assms(3,6,7) by (simp_all add: funded_taker_def order_ok_def)
  have F: "ord_Funds order = bo_Funds taker' + (\<Sum>(m, sz)\<leftarrow>trades. sz * bo_Price m) \<and>
      (\<forall>(m, sz)\<in>set trades. 0 < sz) \<and> slack (bo_Funds taker') pmax"
    using match_list_funded [OF ml' env_lawsD(2) [OF assms(1)] assms(8) funded(1) sorted wf disjI1 [OF funded(2)]
        slack_nonneg [OF funded(2) assms(10)]] by simp
  have "\<forall>m\<in>set (match_logs ls). 0 < ml_Size m"
  proof
    fix m assume "m \<in> set (match_logs ls)"
    then obtain maker sz where "(maker, sz) \<in> set trades" "reports m (taker_of E order) maker sz"
      unfolding ls_def by (rule trade_logs_mem)
    then show "0 < ml_Size m" using F by (auto simp: reports_def)
  qed
  moreover have "open_logs logs = []" using nr by (simp add: logs trade_logs_open)
  ultimately show ?thesis
    using F own nr assms(7) by (simp add: ms slack_def ls_def trade_logs_value del: power_numeral)
qed

theorem ApplyOrder_market_buy_funds_witness:
  "\<exists>b' logs. ApplyOrder rat_env sample_book market_buy = Inr (b', logs) \<and>
    2 * 10 ^ 16 * ((\<Sum>m\<leftarrow>match_logs logs. ml_Size m * ml_Price m) - 301) \<le> 101"
proof -
  note ok = rat_env_laws sample_book_inv sample_order_ok(2)
  obtain b' logs where a: "ApplyOrder rat_env sample_book market_buy = Inr (b', logs)"
    using ApplyOrder_accepted [OF ok sample_fresh(2)] by metis
  have "base_scale_ok (ob_product sample_book)"
    by (simp add: base_scale_ok_def sample_book_def sample_product_def)
  moreover have "\<forall>m\<in>set (book_view rat_env sample_book SideSell). bo_Price m \<le> 101"
    unfolding sample_view by (simp add: sample_asks_def)
  ultimately show ?thesis
    using ApplyOrder_market_buy_funds [OF ok a sample_fresh(2), of 101] a
    by (simp add: market_buy_def del: power_numeral)
qed

text \<open>C10. A limit order gets its best execution: if a part of it rests, it rests in its place by
  price and age among the orders of its own side, no order left on the other side crosses its price,
  and the two sides stay apart.\<close>

theorem ApplyOrder_limit_rest:
  assumes "env_laws E" and "book_inv E b" and "order_ok order" and "ApplyOrder E b order = Inr (b', logs)"
    and "\<not> window_refuses (window_of b (ord_Id order)) (ord_Id order)" and "open_logs logs \<noteq> []"
  shows "ord_Type order = OrderTypeLimit \<and>
    (\<exists>o1. book_view E b' (ord_Side order) = rest_ins (ord_Side order) o1 (book_view E b (ord_Side order)) \<and>
      bo_OrderId o1 = ord_Id order \<and> bo_Price o1 = ord_Price order \<and> 0 < bo_Size o1 \<and>
      map ol_RemainingSize (open_logs logs) = [bo_Size o1]) \<and>
    (\<forall>m\<in>set (book_view E b' (Opposite (ord_Side order))). \<not> pricesCross (ord_Side order) (ord_Price order) (bo_Price m)) \<and>
    prio_sorted (ord_Side order) (book_view E b' (ord_Side order))"
  using assms(1-3,5,4)
proof (rule ApplyOrder_elim)
  fix taker' makers' trades n
  assume ml: "match_list E (ob_product b) (taker_of E order) (book_view E b (Opposite (ord_Side order))) = Inr (taker', makers', trades)"
    and logs: "logs = trade_logs E (prd_Id (ob_product b)) (taker_of E order) (ob_logSeq b) (ob_tradeSeq b) trades @
      [if rests taker' then newOpenLog E n (prd_Id (ob_product b)) taker' else closing_log E n (prd_Id (ob_product b)) taker']"
    and view: "book_view E b' (Opposite (ord_Side order)) = makers'"
    and own: "book_view E b' (ord_Side order) = (if rests taker'
      then rest_ins (ord_Side order) taker' (book_view E b (ord_Side order)) else book_view E b (ord_Side order))"
    and id: "same_ident taker' (taker_of E order)" and inv': "book_inv E b'"
  have r: "rests taker'" using assms(6) by (auto simp: logs trade_logs_open split: if_splits)
  have side: "valid_side (ord_Side order)" using assms(3) by (simp add: order_ok_def)
  have lim: "ord_Type order = OrderTypeLimit" "bo_Price taker' = ord_Price order" "bo_OrderId taker' = ord_Id order"
    using r same_identD [OF id] by (auto simp: rests_def taker_of_limit)
  have opn: "open_logs logs = open_logs [newOpenLog E n (prd_Id (ob_product b)) taker']"
    using r by (simp add: logs trade_logs_open)
  have mem: "taker' \<in> set (book_view E b' (ord_Side order))" using own r by simp
  have "\<not> pricesCross (ord_Side order) (ord_Price order) (bo_Price m)"
    if "m \<in> set (book_view E b' (Opposite (ord_Side order)))" for m
  proof -
    have "uncrossed (book_view E b' SideBuy) (book_view E b' SideSell)" using inv' by (simp add: book_inv_def)
    then have "ord_Side order = SideBuy \<and> bo_Price taker' < bo_Price m \<or>
        ord_Side order = SideSell \<and> bo_Price m < bo_Price taker'"
      using mem that side by (auto simp: valid_side_def uncrossed_def)
    then show ?thesis by (auto simp: pricesCross_def lim(2))
  qed
  moreover have "prio_sorted (ord_Side order) (book_view E b' (ord_Side order))"
    by (cases rule: book_inv_depth [OF inv' side]) (simp_all add: resting_sorted env_lawsD assms(1))
  ultimately show ?thesis
    using own r lim opn by (auto simp: rests_def newOpenLog_def)
qed

theorem ApplyOrder_limit_rest_witness:
  "\<exists>b' logs. ApplyOrder rat_env sample_book limit_buy = Inr (b', logs) \<and> open_logs logs \<noteq> [] \<and>
    (\<forall>m\<in>set (book_view rat_env b' SideSell). \<not> pricesCross SideBuy 100 (bo_Price m))"
proof -
  note ok = rat_env_laws sample_book_inv sample_order_ok(1)
  obtain b' logs where a: "ApplyOrder rat_env sample_book limit_buy = Inr (b', logs)"
    using ApplyOrder_accepted [OF ok sample_fresh(1)] by metis
  have "(case ApplyOrder rat_env sample_book limit_buy of Inl f \<Rightarrow> 0 | Inr (b, ls) \<Rightarrow> length (open_logs ls)) = 1"
    by code_simp
  then have "open_logs logs \<noteq> []" using a by auto
  with ApplyOrder_limit_rest [OF ok a sample_fresh(1)] a show ?thesis by (auto simp: limit_buy_def)
qed

subsection \<open>Cancelling and nullifying\<close>

text \<open>C12. \<open>CancelOrder\<close> on a well-formed book does not panic. If the order rests on the side it names,
  it is taken off the book, everything else stays in place, and one done log reports the whole
  remaining size as cancelled; otherwise the book is unchanged and there is no log. Either way the
  id is in the duplicate window afterwards, so a cancel that overtakes its order stops the order.\<close>

theorem CancelOrder_implements_spec:
  assumes "env_laws E" and "book_inv E b" and "id_ok (ord_Id order)" and "valid_side (ord_Side order)"
  shows "\<exists>b' logs. CancelOrder E b order = Inr (b', logs) \<and>
    spec_cancel E (ob_product b) order (abs_book E b) = (abs_book E b', logs) \<and>
    book_inv E b' \<and> keeps_windows b b' (ord_Id order) \<and>
    (\<forall>o1\<in>set (book_view E b' (ord_Side order)). bo_OrderId o1 \<noteq> ord_Id order)"
proof -
  obtain b' logs where c: "CancelOrder E b order = Inr (b', logs)"
      "spec_cancel E (ob_product b) order (abs_book E b) = (abs_book E b', logs)"
      "book_inv E b'" "keeps_windows b b' (ord_Id order)"
    using CancelOrder_correct [OF assms] by metis
  have "book_view E b' = ab_side (fst (spec_cancel E (ob_product b) order (abs_book E b)))"
    using c(2) by (simp add: abs_book_def)
  then have "\<forall>o1\<in>set (book_view E b' (ord_Side order)). bo_OrderId o1 \<noteq> ord_Id order"
    by (auto simp: spec_cancel_def rest_del_def find_None_iff split: option.splits)
  with c show ?thesis by blast
qed

definition cancel_ask :: "rat order" where
  "cancel_ask = sample_order 2 SideSell OrderTypeLimit GoodTillCanceled 3 101 0"

theorem CancelOrder_implements_spec_witness:
  "\<exists>b' logs. CancelOrder rat_env sample_book cancel_ask = Inr (b', logs) \<and> length logs = 1 \<and>
    book_view rat_env b' SideSell = [sample_resting 1 SideSell 2 100]"
proof -
  have ok: "id_ok (ord_Id cancel_ask)" "valid_side (ord_Side cancel_ask)"
    by (simp_all add: cancel_ask_def id_ok_def)
  obtain b' logs where c: "CancelOrder rat_env sample_book cancel_ask = Inr (b', logs)"
      "spec_cancel rat_env (ob_product sample_book) cancel_ask (abs_book rat_env sample_book) = (abs_book rat_env b', logs)"
    using CancelOrder_implements_spec [OF rat_env_laws sample_book_inv ok] by blast
  have f: "find (\<lambda>o1. bo_OrderId o1 = ord_Id cancel_ask) (ab_side (abs_book rat_env sample_book) (ord_Side cancel_ask)) =
      Some (sample_resting 2 SideSell 3 101)"
    by (simp add: abs_book_def cancel_ask_def sample_view sample_asks_def)
  have "ab_side (abs_book rat_env b') SideSell = rest_del 2 sample_asks" "length logs = 1"
    using arg_cong [OF c(2), of "\<lambda>r. ab_side (fst r) SideSell"] arg_cong [OF c(2), of "\<lambda>r. length (snd r)"]
    unfolding spec_cancel_def f by (simp_all add: abs_book_def cancel_ask_def sample_view)
  moreover have "rest_del 2 sample_asks = [sample_resting 1 SideSell 2 100]"
    by (simp add: rest_del_def sample_asks_def)
  ultimately show ?thesis using c(1) by (simp add: abs_book_def)
qed

text \<open>C13. \<open>NullifyOrder\<close> leaves both sides of the book alone, writes exactly one done log that reports
  the order's whole size as cancelled with the next sequence number, and makes the duplicate window
  refuse the id, so the order can never be applied later.\<close>

theorem NullifyOrder_closes:
  assumes "book_inv E b" and "order_ok order"
  shows "\<exists>b' l. NullifyOrder E b order = Inr (b', [DoneLog l]) \<and> bs_Sequence l = ob_logSeq b + 1 \<and>
    dl_OrderId l = ord_Id order \<and> dl_RemainingSize l = ord_Size order \<and> dl_Reason l = DoneReasonCancelled \<and>
    abs_book E b' = (abs_book E b)\<lparr>ab_logSeq := ob_logSeq b + 1\<rparr> \<and> book_inv E b' \<and>
    ApplyOrder E b' order = Inr (b', [])"
proof -
  have "id_ok (ord_Id order)" using assms(2) by (simp add: order_ok_def)
  then obtain b' where n: "NullifyOrder E b order = Inr (b', [newDoneLog E (ob_logSeq b + 1) (prd_Id (ob_product b))
      (newBookOrder order) (ord_Size order) DoneReasonCancelled])"
      "abs_book E b' = (abs_book E b)\<lparr>ab_logSeq := ob_logSeq b + 1\<rparr>" "book_inv E b'"
      "keeps_windows b b' (ord_Id order)"
    using NullifyOrder_correct [OF assms(1)] by metis
  moreover have "ApplyOrder E b' order = Inr (b', [])"
    using n(4) by (intro ApplyOrder_refused [OF n(3) assms(2)]) (simp add: keeps_windows_def)
  ultimately show ?thesis by (intro exI [of _ b']) (auto simp: newDoneLog_def)
qed

theorem NullifyOrder_closes_witness:
  "\<exists>b' l. NullifyOrder rat_env sample_book limit_buy = Inr (b', [DoneLog l]) \<and> bs_Sequence l = 21 \<and>
    ApplyOrder rat_env b' limit_buy = Inr (b', [])"
  using NullifyOrder_closes [OF sample_book_inv sample_order_ok(1)] by (auto simp: sample_book_def)

subsection \<open>Snapshots\<close>

text \<open>C14. A restored book is the book: a snapshot taken of a well-formed book, in whatever order Go
  visits the two maps, and restored into a new book of any product gives a well-formed book with the
  same orders in the same order on both sides, the same counters and the same duplicate windows.\<close>

theorem Snapshot_Restore:
  assumes "env_laws E" and "book_inv E b"
    and "range_of (dp_orders (the (ob_depths b SideSell))) sells"
    and "range_of (dp_orders (the (ob_depths b SideBuy))) buys"
  shows "\<exists>snap b'. Snapshot b sells buys = Inr snap \<and> Restore E (NewOrderBook E product) snap = Inr b' \<and>
    abs_book E b' = abs_book E b \<and> ob_orderIdWindows b' = ob_orderIdWindows b \<and> book_inv E b'"
  using snapshot_restore [OF env_lawsD(1) [OF assms(1)] assms(2), of sells buys product thesis for thesis] assms(3,4)
  by (metis option.sel)

theorem Snapshot_Restore_witness:
  "\<exists>snap b'. Snapshot sample_book [2, 1] [3] = Inr snap \<and>
    Restore rat_env (NewOrderBook rat_env sample_product) snap = Inr b' \<and>
    abs_book rat_env b' = abs_book rat_env sample_book"
proof -
  have "range_of (dp_orders (the (ob_depths sample_book SideSell))) [2, 1]"
    "range_of (dp_orders (the (ob_depths sample_book SideBuy))) [3]"
    by (auto simp: range_of_def sample_book_def sample_depth_def sample_asks_def sample_bids_def split: if_splits)
  from Snapshot_Restore [OF rat_env_laws sample_book_inv this, of sample_product] show ?thesis by blast
qed

end
