(* ===== verification/Applier.thy ===== *)
theory Applier
  imports Book_Properties
begin

text \<open>
  What the engine does with one order (the first case of \<open>runApplier\<close> in \<open>matching/engine.go\<close>): the
  dispatch on status and time in force, its correctness for each time in force, and runs over
  sequences of orders. Cancelling an order, immediate-or-cancel (IOC), good-till-crossing (GTX,
  post-only), fill-or-kill (FOK) and good-till-cancelled (GTC) orders are told apart by strings; an
  order with any other time in force is dropped.
\<close>

definition apply_order :: "('d::linordered_idom, 'q) env \<Rightarrow> ('d, 'q) order_book \<Rightarrow> 'd order \<Rightarrow>
    (('d, 'q) order_book \<times> 'd log list) res" where
  "apply_order E b order =
     (if ord_Status order = OrderStatusCancelling then CancelOrder E b order
      else if ord_TimeInForce order = ImmediateOrCancel then
        bindR (ApplyOrder E b order) (\<lambda>(b1, logs).
        bindR (CancelOrder E b1 order) (\<lambda>(b2, iocLogs).
          Inr (b2, logs @ iocLogs)))
      else if ord_TimeInForce order = GoodTillCrossing then
        bindR (IsOrderWillNotMatch E b order) (\<lambda>notMatch.
          if notMatch then ApplyOrder E b order else NullifyOrder E b order)
      else if ord_TimeInForce order = FillOrKill then
        bindR (IsOrderWillFullMatch E b order) (\<lambda>fullMatch.
          if fullMatch then ApplyOrder E b order else NullifyOrder E b order)
      else if ord_TimeInForce order = GoodTillCanceled then ApplyOrder E b order
      else Inr (b, []))"

subsection \<open>What every operation keeps\<close>

text \<open>A step of the book: the invariant holds after it, ids once known stay known, and the logs
  continue the two sequences.\<close>

definition good_step :: "('d::linordered_idom, 'q) env \<Rightarrow> ('d, 'q) order_book \<Rightarrow> ('d, 'q) order_book \<Rightarrow> 'd log list \<Rightarrow> bool" where
  "good_step E b b' logs \<longleftrightarrow> book_inv E b' \<and> ob_product b' = ob_product b \<and>
     (\<forall>u. window_refuses (window_of b u) u \<longrightarrow> window_refuses (window_of b' u) u) \<and>
     consec (ob_logSeq b) (map GetSeq logs) \<and> ob_logSeq b' = ob_logSeq b + int (length logs) \<and>
     consec (ob_tradeSeq b) (map ml_TradeSeq (match_logs logs)) \<and>
     ob_tradeSeq b' = ob_tradeSeq b + int (length (match_logs logs))"

lemma good_step_refl: "book_inv E b \<Longrightarrow> good_step E b b []"
  by (simp add: good_step_def)

lemma good_step_trans:
  "good_step E b b1 logs1 \<Longrightarrow> good_step E b1 b2 logs2 \<Longrightarrow> good_step E b b2 (logs1 @ logs2)"
  by (auto simp: good_step_def)

lemma good_step_inv: "good_step E b b' logs \<Longrightarrow> book_inv E b'"
  by (simp add: good_step_def)

lemma ApplyOrder_step:
  assumes "env_laws E" and "book_inv E b" and "order_ok order"
  shows "\<exists>b' logs. ApplyOrder E b order = Inr (b', logs) \<and> good_step E b b' logs \<and>
    window_refuses (window_of b' (ord_Id order)) (ord_Id order)"
proof (cases "window_refuses (window_of b (ord_Id order)) (ord_Id order)")
  case True
  then show ?thesis using ApplyOrder_refused [OF assms(2,3)] good_step_refl [OF assms(2)] by blast
next
  case False
  obtain b' logs where a: "ApplyOrder E b order = Inr (b', logs)"
      "spec_apply E (ob_product b) (taker_of E order) (abs_book E b) = Inr (abs_book E b', logs)"
      "book_inv E b'" "ob_product b' = ob_product b" "window_refuses (window_of b' (ord_Id order)) (ord_Id order)"
      "\<And>u. window_refuses (window_of b u) u \<Longrightarrow> window_refuses (window_of b' u) u"
    using ApplyOrder_accepted [OF assms False] by metis
  with spec_apply_seqs [OF a(2)] have "good_step E b b' logs" by (simp add: good_step_def abs_book_def)
  with a show ?thesis by blast
qed

lemma CancelOrder_step:
  assumes "env_laws E" and "book_inv E b" and "id_ok (ord_Id order)" and "valid_side (ord_Side order)"
  shows "\<exists>b' logs. CancelOrder E b order = Inr (b', logs) \<and> good_step E b b' logs \<and> match_logs logs = [] \<and>
    (\<forall>o1\<in>set (book_view E b' (ord_Side order)). bo_OrderId o1 \<noteq> ord_Id order)"
proof -
  obtain b' logs where c: "CancelOrder E b order = Inr (b', logs)"
      "spec_cancel E (ob_product b) order (abs_book E b) = (abs_book E b', logs)"
      "book_inv E b'" "ob_product b' = ob_product b" "keeps_windows b b' (ord_Id order)"
    using CancelOrder_correct [OF assms] by metis
  have "ob_logSeq b' = ob_logSeq b + int (length logs) \<and> ob_tradeSeq b' = ob_tradeSeq b \<and>
      consec (ob_logSeq b) (map GetSeq logs) \<and> match_logs logs = []"
    using c(2) by (auto simp: spec_cancel_def abs_book_def split: option.splits)
  moreover have "\<forall>o1\<in>set (book_view E b' (ord_Side order)). bo_OrderId o1 \<noteq> ord_Id order"
  proof -
    have "book_view E b' = ab_side (fst (spec_cancel E (ob_product b) order (abs_book E b)))"
      using c(2) by (simp add: abs_book_def)
    then show ?thesis by (auto simp: spec_cancel_def rest_del_def find_None_iff split: option.splits)
  qed
  ultimately show ?thesis using c by (auto simp: good_step_def keeps_windows_def)
qed

lemma NullifyOrder_step:
  assumes "book_inv E b" and "id_ok (ord_Id order)"
  shows "\<exists>b' logs. NullifyOrder E b order = Inr (b', logs) \<and> good_step E b b' logs \<and>
    match_logs logs = [] \<and> open_logs logs = [] \<and> book_view E b' = book_view E b"
proof -
  obtain b' where n: "NullifyOrder E b order = Inr (b', [newDoneLog E (ob_logSeq b + 1) (prd_Id (ob_product b))
      (newBookOrder order) (ord_Size order) DoneReasonCancelled])"
      "abs_book E b' = (abs_book E b)\<lparr>ab_logSeq := ob_logSeq b + 1\<rparr>"
      "book_inv E b'" "ob_product b' = ob_product b" "keeps_windows b b' (ord_Id order)"
    using NullifyOrder_correct [OF assms] by metis
  then have "good_step E b b' [newDoneLog E (ob_logSeq b + 1) (prd_Id (ob_product b))
      (newBookOrder order) (ord_Size order) DoneReasonCancelled]" "book_view E b' = book_view E b"
    by (simp_all add: good_step_def keeps_windows_def abs_book_def)
  with n(1) show ?thesis by simp
qed

lemma IsOrderWillNotMatch_total:
  "env_laws E \<Longrightarrow> book_inv E b \<Longrightarrow> \<exists>r. IsOrderWillNotMatch E b order = Inr r"
  by (simp add: IsOrderWillNotMatch_eq env_lawsD)

lemma match_total:
  assumes "env_laws E" and "book_inv E b" and "order_ok order"
  obtains taker' makers' trades where
    "match_list E (ob_product b) (taker_of E order) (book_view E b (Opposite (ord_Side order))) = Inr (taker', makers', trades)"
proof -
  have "0 < bo_Price o1" if "o1 \<in> set (book_view E b (Opposite (ord_Side order)))" for o1
    using book_inv_wf [OF assms(2) that] by (simp add: order_wf_def)
  then obtain r where "match_list E (ob_product b) (taker_of E order) (book_view E b (Opposite (ord_Side order))) = Inr r"
    using match_list_total [OF env_lawsD(2) [OF assms(1)] order_ok_kind [OF assms(3)]] by blast
  then show thesis using that by (cases r) simp
qed

lemma apply_order_step:
  assumes "env_laws E" and "book_inv E b" and ok: "order_ok order"
  shows "\<exists>b' logs. apply_order E b order = Inr (b', logs) \<and> good_step E b b' logs"
proof -
  have o1: "id_ok (ord_Id order)" "valid_side (ord_Side order)" using ok by (simp_all add: order_ok_def)
  note A = ApplyOrder_step [OF assms] and C = CancelOrder_step [OF assms(1,2) o1]
    and N = NullifyOrder_step [OF assms(2) o1(1)]
  have ioc: "\<exists>b' logs. bindR (ApplyOrder E b order) (\<lambda>(b1, logs). bindR (CancelOrder E b1 order) (\<lambda>(b2, iocLogs).
      Inr (b2, logs @ iocLogs))) = Inr (b', logs) \<and> good_step E b b' logs"
  proof -
    obtain b1 logs1 where a: "ApplyOrder E b order = Inr (b1, logs1)" "good_step E b b1 logs1" using A by blast
    obtain b2 logs2 where "CancelOrder E b1 order = Inr (b2, logs2)" "good_step E b1 b2 logs2"
      using CancelOrder_step [OF assms(1) good_step_inv [OF a(2)] o1] by blast
    then show ?thesis using a good_step_trans by fastforce
  qed
  obtain r where gtx: "IsOrderWillNotMatch E b order = Inr r" using IsOrderWillNotMatch_total assms by blast
  obtain r' where fok: "IsOrderWillFullMatch E b order = Inr r'"
    using match_total [OF assms] IsOrderWillFullMatch_eq [OF assms(2)] by metis
  show ?thesis
    unfolding apply_order_def
    using A C N ioc good_step_refl [OF assms(2)] by (auto simp: gtx fok)
qed

text \<open>C2. The engine survives every acceptable order: whatever its status and time in force (also an
  unknown one), \<open>apply_order\<close> does not panic, the book is well-formed afterwards, an id that was
  known is still known, and the logs carry the next log and trade sequence numbers without a gap.\<close>

theorem apply_order_good:
  assumes "env_laws E" and "book_inv E b" and "order_ok order"
  shows "\<exists>b' logs. apply_order E b order = Inr (b', logs) \<and> good_step E b b' logs"
  by (rule apply_order_step [OF assms])

theorem apply_order_good_witness:
  "\<exists>b' logs. apply_order rat_env sample_book limit_buy = Inr (b', logs) \<and> good_step rat_env sample_book b' logs"
  by (rule apply_order_good [OF rat_env_laws sample_book_inv sample_order_ok(1)])

subsection \<open>Runs\<close>

fun run_orders :: "('d::linordered_idom, 'q) env \<Rightarrow> ('d, 'q) order_book \<Rightarrow> 'd order list \<Rightarrow>
    (('d, 'q) order_book \<times> 'd log list) res" where
  "run_orders E b [] = Inr (b, [])"
| "run_orders E b (order # orders) =
     bindR (apply_order E b order) (\<lambda>(b1, logs).
     bindR (run_orders E b1 orders) (\<lambda>(b2, logs2). Inr (b2, logs @ logs2)))"

lemma run_orders_step:
  assumes "env_laws E"
  shows "book_inv E b \<Longrightarrow> list_all order_ok orders \<Longrightarrow>
    \<exists>b' logs. run_orders E b orders = Inr (b', logs) \<and> good_step E b b' logs"
proof (induction orders arbitrary: b)
  case Nil
  then show ?case by (simp add: good_step_refl)
next
  case (Cons order orders)
  obtain b1 logs1 where a: "apply_order E b order = Inr (b1, logs1)" "good_step E b b1 logs1"
    using apply_order_step [OF assms Cons.prems(1), of order] Cons.prems(2) by auto
  obtain b2 logs2 where r: "run_orders E b1 orders = Inr (b2, logs2)" "good_step E b1 b2 logs2"
    using Cons.IH [OF good_step_inv [OF a(2)]] Cons.prems(2) by auto
  show ?case using a(1) r(1) good_step_trans [OF a(2) r(2)] by simp
qed

lemma run_orders_append:
  "run_orders E b (xs @ ys) = bindR (run_orders E b xs) (\<lambda>(b1, logs).
     bindR (run_orders E b1 ys) (\<lambda>(b2, logs2). Inr (b2, logs @ logs2)))"
proof (induction xs arbitrary: b)
  case Nil
  then show ?case by (cases "run_orders E b ys") auto
next
  case (Cons order xs)
  show ?case
  proof (cases "apply_order E b order")
    case (Inr r)
    then show ?thesis
      by (cases r; cases "run_orders E (fst r) xs") (auto simp: Cons bindR_def split: sum.splits)
  qed simp
qed

text \<open>C3. From a new book, any sequence of acceptable orders runs through: the log numbers of all
  its logs are exactly 1, 2, 3, ..., the trade numbers of its match logs likewise, and the final book
  is well-formed: never crossed, every order on its side once, in price-time order.\<close>

theorem run_from_new_book:
  assumes "env_laws E" and "list_all order_ok orders"
  shows "\<exists>b' logs. run_orders E (NewOrderBook E product) orders = Inr (b', logs) \<and> book_inv E b' \<and>
    consec 0 (map GetSeq logs) \<and> consec 0 (map ml_TradeSeq (match_logs logs)) \<and>
    ob_logSeq b' = int (length logs) \<and> ob_tradeSeq b' = int (length (match_logs logs)) \<and>
    uncrossed (book_view E b' SideBuy) (book_view E b' SideSell)"
proof -
  have "ob_logSeq (NewOrderBook E product) = 0" "ob_tradeSeq (NewOrderBook E product) = 0"
    by (simp_all add: NewOrderBook_def Let_def)
  moreover obtain b' logs where r: "run_orders E (NewOrderBook E product) orders = Inr (b', logs)"
      "good_step E (NewOrderBook E product) b' logs"
    using run_orders_step [OF assms(1) NewOrderBook_inv(1) [OF env_lawsD(1) [OF assms(1)]] assms(2)] by blast
  moreover from r(2) have "uncrossed (book_view E b' SideBuy) (book_view E b' SideSell)"
    by (simp add: good_step_def book_inv_def)
  ultimately show ?thesis by (simp add: good_step_def)
qed

theorem run_from_new_book_witness:
  "\<exists>b' logs. run_orders rat_env (NewOrderBook rat_env sample_product) [limit_buy, limit_sell, market_buy] = Inr (b', logs) \<and>
    consec 0 (map GetSeq logs)"
  using run_from_new_book [OF rat_env_laws, of "[limit_buy, limit_sell, market_buy]" sample_product] sample_order_ok
  by auto

subsection \<open>Each time in force\<close>

text \<open>C15. Immediate-or-cancel: whether or not the id was seen before, after the engine has handled an
  IOC order nothing with its id rests on its side of the book.\<close>

theorem IOC_never_rests:
  assumes "env_laws E" and "book_inv E b" and "order_ok order"
    and "ord_TimeInForce order = ImmediateOrCancel"
  shows "\<exists>b' logs. apply_order E b order = Inr (b', logs) \<and>
    (\<forall>o1\<in>set (book_view E b' (ord_Side order)). bo_OrderId o1 \<noteq> ord_Id order)"
proof -
  have o1: "id_ok (ord_Id order)" "valid_side (ord_Side order)" using assms(3) by (simp_all add: order_ok_def)
  obtain b1 logs1 where a: "ApplyOrder E b order = Inr (b1, logs1)" "good_step E b b1 logs1"
    using ApplyOrder_step [OF assms(1-3)] by blast
  show ?thesis
    using a CancelOrder_step [OF assms(1) good_step_inv [OF a(2)] o1] CancelOrder_step [OF assms(1,2) o1] assms(4)
    by (fastforce simp: apply_order_def)
qed

definition ioc_buy :: "rat order" where
  "ioc_buy = sample_order 5 SideBuy OrderTypeLimit ImmediateOrCancel 3 100 300"

theorem IOC_never_rests_witness:
  "\<exists>b' logs. apply_order rat_env sample_book ioc_buy = Inr (b', logs) \<and>
    (\<forall>o1\<in>set (book_view rat_env b' SideBuy). bo_OrderId o1 \<noteq> 5)"
  using IOC_never_rests [OF rat_env_laws sample_book_inv, of ioc_buy]
  by (simp add: ioc_buy_def order_ok_def id_ok_def)

text \<open>C16. Fill-or-kill, for limit orders with a new id: either the whole size trades, or the order is
  nullified: nothing trades, nothing rests, and both sides of the book are as before.\<close>

theorem FOK_limit_all_or_nothing:
  assumes "env_laws E" and "book_inv E b" and "order_ok order"
    and "ord_TimeInForce order = FillOrKill" and "ord_Status order \<noteq> OrderStatusCancelling"
    and "ord_Type order = OrderTypeLimit"
    and "\<not> window_refuses (window_of b (ord_Id order)) (ord_Id order)"
  shows "\<exists>b' logs. apply_order E b order = Inr (b', logs) \<and> open_logs logs = [] \<and>
    (sum_list (map ml_Size (match_logs logs)) = ord_Size order \<or>
     match_logs logs = [] \<and> book_view E b' = book_view E b)"
proof -
  have tif: "ord_TimeInForce order \<noteq> ImmediateOrCancel" "ord_TimeInForce order \<noteq> GoodTillCrossing"
    using assms(4) by simp_all
  obtain taker' makers' trades where
    ml: "match_list E (ob_product b) (taker_of E order) (book_view E b (Opposite (ord_Side order))) = Inr (taker', makers', trades)"
    using match_total [OF assms(1-3)] .
  note full = IsOrderWillFullMatch_eq [OF assms(2) ml]
  show ?thesis
  proof (cases "rests taker'")
    case True
    then have "apply_order E b order = NullifyOrder E b order"
      using tif assms(4,5) full by (simp add: apply_order_def)
    moreover have "id_ok (ord_Id order)" using assms(3) by (simp add: order_ok_def)
    ultimately show ?thesis using NullifyOrder_step [OF assms(2)] by fastforce
  next
    case False
    then have app: "apply_order E b order = ApplyOrder E b order"
      using tif assms(4,5) full by (simp add: apply_order_def)
    obtain b' logs where a: "ApplyOrder E b order = Inr (b', logs)" using ApplyOrder_step [OF assms(1-3)] by blast
    from assms(1-3,7) a show ?thesis
    proof (rule ApplyOrder_elim)
      fix taker2 makers2 trades2 n
      assume "match_list E (ob_product b) (taker_of E order) (book_view E b (Opposite (ord_Side order))) = Inr (taker2, makers2, trades2)"
        and logs: "logs = trade_logs E (prd_Id (ob_product b)) (taker_of E order) (ob_logSeq b) (ob_tradeSeq b) trades2 @
          [if rests taker2 then newOpenLog E n (prd_Id (ob_product b)) taker2 else closing_log E n (prd_Id (ob_product b)) taker2]"
      then have eq: "taker2 = taker'" "trades2 = trades" using ml by simp_all
      have sized: "sized_taker (taker_of E order)" using assms(6) by (simp add: sized_taker_def)
      note S = match_list_sized_sums [OF ml sized]
      have "ord_Size order = bo_Size taker' + sum_list (map snd trades)" "0 \<le> bo_Size taker'"
        using S(1,5) assms(3) book_inv_wf [OF assms(2)] by (simp_all add: order_ok_def order_wf_def)
      moreover have "bo_Type taker' = OrderTypeLimit" using same_identD(4) [OF match_list_ident [OF ml]] assms(6) by simp
      ultimately have "ord_Size order = sum_list (map snd trades)" using False by (simp add: rests_def)
      then show ?thesis
        using app a False by (simp add: logs eq trade_logs_open trade_logs_columns)
    qed
  qed
qed

definition fok_buy :: "u64 \<Rightarrow> rat \<Rightarrow> rat order" where
  "fok_buy oid sz = sample_order oid SideBuy OrderTypeLimit FillOrKill sz 101 0"

theorem FOK_limit_all_or_nothing_witness:
  "\<exists>b' logs. apply_order rat_env sample_book (fok_buy 5 4) = Inr (b', logs) \<and> open_logs logs = [] \<and>
    (sum_list (map ml_Size (match_logs logs)) = 4 \<or> match_logs logs = [] \<and> book_view rat_env b' = book_view rat_env sample_book)"
proof -
  have ok: "order_ok (fok_buy 5 4)" by (simp add: fok_buy_def order_ok_def id_ok_def)
  have fresh: "\<not> window_refuses (window_of sample_book (ord_Id (fok_buy 5 4))) (ord_Id (fok_buy 5 4))"
    unfolding sample_refuses by (simp add: fok_buy_def)
  show ?thesis
    using FOK_limit_all_or_nothing [OF rat_env_laws sample_book_inv ok _ _ _ fresh]
    by (simp add: fok_buy_def OrderStatusNew_def OrderStatusCancelling_def)
qed

text \<open>C17. Good-till-crossing buys are post-only: if the best ask does not cross the order's price it is
  applied and nothing trades; otherwise it is nullified and the book is as before. In neither case
  does a GTX buy take liquidity.\<close>

theorem GTX_buy_never_takes:
  assumes "env_laws E" and "book_inv E b" and "order_ok order"
    and "ord_TimeInForce order = GoodTillCrossing" and "ord_Status order \<noteq> OrderStatusCancelling"
    and "ord_Side order = SideBuy"
  shows "\<exists>b' logs. apply_order E b order = Inr (b', logs) \<and> match_logs logs = [] \<and>
    book_view E b' SideSell = book_view E b SideSell"
proof -
  have tif: "ord_TimeInForce order \<noteq> ImmediateOrCancel" using assms(4) by simp
  define stop where "stop = (case book_view E b SideSell of [] \<Rightarrow> True
      | m # ms \<Rightarrow> \<not> pricesCross SideBuy (bo_Price (taker_of E order)) (bo_Price m))"
  have eq: "apply_order E b order = (if stop then ApplyOrder E b order else NullifyOrder E b order)"
    using tif assms(4-6) IsOrderWillNotMatch_eq [OF env_lawsD(1) [OF assms(1)] assms(2), of order]
    by (simp add: apply_order_def stop_def cong: list.case_cong)
  show ?thesis
  proof (cases "\<not> stop \<or> window_refuses (window_of b (ord_Id order)) (ord_Id order)")
    case True
    moreover have "id_ok (ord_Id order)" using assms(3) by (simp add: order_ok_def)
    ultimately show ?thesis
      using ApplyOrder_refused [OF assms(2,3)] NullifyOrder_step [OF assms(2), of order] by (auto simp: eq)
  next
    case False
    obtain b' logs where a: "ApplyOrder E b order = Inr (b', logs)" using ApplyOrder_step [OF assms(1-3)] by blast
    have fresh: "\<not> window_refuses (window_of b (ord_Id order)) (ord_Id order)" using False by blast
    from assms(1-3) fresh a show ?thesis
    proof (rule ApplyOrder_elim)
      fix taker' makers' trades n
      assume ml: "match_list E (ob_product b) (taker_of E order) (book_view E b (Opposite (ord_Side order))) = Inr (taker', makers', trades)"
        and logs: "logs = trade_logs E (prd_Id (ob_product b)) (taker_of E order) (ob_logSeq b) (ob_tradeSeq b) trades @
          [if rests taker' then newOpenLog E n (prd_Id (ob_product b)) taker' else closing_log E n (prd_Id (ob_product b)) taker']"
        and view: "book_view E b' (Opposite (ord_Side order)) = makers'"
      have "trades = [] \<and> makers' = book_view E b SideSell"
        using ml False by (cases "book_view E b SideSell") (simp_all add: stop_def assms(6))
      then show ?thesis using eq a False view assms(6) by (simp add: logs)
    qed
  qed
qed

definition gtx_buy :: "rat order" where
  "gtx_buy = sample_order 5 SideBuy OrderTypeLimit GoodTillCrossing 3 99 0"

theorem GTX_buy_never_takes_witness:
  "\<exists>b' logs. apply_order rat_env sample_book gtx_buy = Inr (b', logs) \<and> match_logs logs = [] \<and>
    book_view rat_env b' SideSell = sample_asks"
  using GTX_buy_never_takes [OF rat_env_laws sample_book_inv, of gtx_buy]
  by (simp add: gtx_buy_def order_ok_def id_ok_def sample_view OrderStatusNew_def OrderStatusCancelling_def)

subsection \<open>Where the code departs from the names of the times in force\<close>

text \<open>A GTX sell can take: \<open>IsOrderWillNotMatch\<close> asks the bid queue for its last entry, which is the
  worst bid, so with bids at 99 and 90 a GTX sell at 95 passes the check and trades at 99.\<close>

theorem GTX_sell_takes:
  "summary (run_orders rat_env sample_book
      [sample_order 5 SideBuy OrderTypeLimit GoodTillCanceled 1 90 0,
       sample_order 6 SideSell OrderTypeLimit GoodTillCrossing 2 95 0]) =
    Some (23, 11, [(3, 2, 99)], [(5, 1)], [(6, 0, DoneReasonFilled)])"
  by code_simp

text \<open>A FOK market order is never refused for lack of liquidity: it trades in part, and the rest is
  cancelled.\<close>

theorem FOK_market_partial:
  "summary (apply_order rat_env sample_book (sample_order 5 SideSell OrderTypeMarket FillOrKill 8 0 0)) =
    Some (23, 11, [(3, 5, 99)], [], [(3, 0, DoneReasonFilled), (5, 0, DoneReasonCancelled)])"
  by code_simp

text \<open>A FOK order that is delivered twice is closed twice: first filled, then nullified with its whole
  size as remaining, because \<open>NullifyOrder\<close> ignores the error of the duplicate window.\<close>

theorem FOK_redelivered:
  "summary (run_orders rat_env sample_book [fok_buy 5 5, fok_buy 5 5]) =
    Some (26, 12, [(1, 2, 100), (2, 3, 101)], [],
      [(1, 0, DoneReasonFilled), (2, 0, DoneReasonFilled), (5, 0, DoneReasonFilled), (5, 5, DoneReasonCancelled)])"
  by code_simp

text \<open>An id that is older than the window of its shard is dropped without a log, although it was never
  applied.\<close>

theorem late_id_dropped:
  "summary (run_orders rat_env sample_book
      [sample_order 40 SideBuy OrderTypeLimit GoodTillCanceled 1 90 0,
       sample_order 30 SideBuy OrderTypeLimit GoodTillCanceled 1 90 0]) = Some (21, 10, [], [(40, 1)], [])"
  by code_simp

text \<open>An order whose side is neither buy nor sell, which the REST interface lets through, crashes the
  engine: a limit order with such a side that does not match completely dereferences a nil depth.\<close>

theorem unknown_side_panics:
  "(case apply_order rat_env sample_book (sample_order 5 ''long'' OrderTypeLimit GoodTillCanceled 1 200 0) of
      Inl f \<Rightarrow> f = nil_deref | Inr r \<Rightarrow> False)"
  by code_simp

text \<open>An unknown time in force is ignored: no log, and the order stays new forever.\<close>

theorem unknown_time_in_force_ignored:
  "summary (apply_order rat_env sample_book (sample_order 5 SideBuy OrderTypeLimit ''DAY'' 1 90 0)) =
    Some (20, 10, [], [], [])"
  by code_simp

end
