(* ===== verification/Store.thy ===== *)
theory Store
  imports Models
begin

text \<open>
  The store of \<open>models/store.go\<close> and \<open>models/mysql/*.go\<close>: the tables, one operation per method with
  the filter, order, limit, unique key and update of its SQL statement, and transactions. MySQL
  itself is not in the repository: every statement may fail, which the parameter \<open>F\<close> decides (by
  the number of the statement), and transactions are run one after the other. The columns
  \<open>created_at\<close> and \<open>updated_at\<close>, which are only shown to users, are left out, and an \<open>AUTO_INCREMENT\<close> id
  is one more than the number of rows.
\<close>

subsection \<open>Tables and statements\<close>

record 'd db =
  db_accounts :: "'d account list"
  db_bills :: "'d bill list"
  db_orders :: "nat \<Rightarrow> 'd order list"       \<comment> \<open>the tables \<open>g_order_0\<close> to \<open>g_order_127\<close>\<close>
  db_fills :: "'d fill list"
  db_trades :: "'d trade list"
  db_ticks :: "'d tick list"
  db_products :: "'d product list"
  db_users :: "user list"
  db_fee_rates :: "'d fee_rate list"
  db_configs :: "config list"
  db_stmt :: nat                           \<comment> \<open>statements run so far\<close>

datatype failure = Err string | Crash fault

type_synonym ('d, 'a) dbop = "'d db \<Rightarrow> (failure + 'a) \<times> 'd db"

type_synonym faults = "nat \<Rightarrow> string option"

definition returnS :: "'a \<Rightarrow> ('d, 'a) dbop" where
  "returnS x s = (Inr x, s)"

definition failS :: "failure \<Rightarrow> ('d, 'a) dbop" where
  "failS e s = (Inl e, s)"

definition bindS :: "('d, 'a) dbop \<Rightarrow> ('a \<Rightarrow> ('d, 'b) dbop) \<Rightarrow> ('d, 'b) dbop" where
  "bindS m f s = (case m s of (Inl e, s') \<Rightarrow> (Inl e, s') | (Inr x, s') \<Rightarrow> f x s')"

text \<open>One SQL statement: it fails, or it computes a result and new tables, which may be an error of
  its own (a duplicate key).\<close>

definition stmt :: "faults \<Rightarrow> ('d db \<Rightarrow> (string + 'a) \<times> 'd db) \<Rightarrow> ('d, 'a) dbop" where
  "stmt F g s =
     (let n = db_stmt s in
      case F n of
        Some e \<Rightarrow> (Inl (Err e), s\<lparr>db_stmt := Suc n\<rparr>)
      | None \<Rightarrow> (case g s of
          (Inl e, s') \<Rightarrow> (Inl (Err e), s\<lparr>db_stmt := Suc n\<rparr>)
        | (Inr x, s') \<Rightarrow> (Inr x, s'\<lparr>db_stmt := Suc n\<rparr>)))"

definition query :: "faults \<Rightarrow> ('d db \<Rightarrow> 'a) \<Rightarrow> ('d, 'a) dbop" where
  "query F g = stmt F (\<lambda>s. (Inr (g s), s))"

definition exec :: "faults \<Rightarrow> ('d db \<Rightarrow> 'd db) \<Rightarrow> ('d, unit) dbop" where
  "exec F g = stmt F (\<lambda>s. (Inr (), g s))"

text \<open>\<open>WHERE ... UPDATE\<close>, \<open>ORDER BY\<close> and \<open>LIMIT\<close>.\<close>

definition upd_where :: "('a \<Rightarrow> bool) \<Rightarrow> ('a \<Rightarrow> 'a) \<Rightarrow> 'a list \<Rightarrow> 'a list" where
  "upd_where P f rows = map (\<lambda>r. if P r then f r else r) rows"

definition limit :: "int \<Rightarrow> 'a list \<Rightarrow> 'a list" where
  "limit n rows = take (nat n) rows"

definition last_by :: "('a \<Rightarrow> 'b::linorder) \<Rightarrow> 'a list \<Rightarrow> 'a option" where
  "last_by k rows = (case rev (sort_key k rows) of [] \<Rightarrow> None | r # rs \<Rightarrow> Some r)"

subsection \<open>Accounts\<close>

definition GetAccount :: "faults \<Rightarrow> u64 \<Rightarrow> string \<Rightarrow> ('d, 'd account option) dbop" where
  "GetAccount F userId currency =
     query F (\<lambda>s. find (\<lambda>a. acc_UserId a = userId \<and> acc_Currency a = currency) (db_accounts s))"

definition GetAccountsByUserId :: "faults \<Rightarrow> u64 \<Rightarrow> ('d, 'd account list) dbop" where
  "GetAccountsByUserId F userId = query F (\<lambda>s. filter (\<lambda>a. acc_UserId a = userId) (db_accounts s))"

definition GetAccountForUpdate :: "faults \<Rightarrow> u64 \<Rightarrow> string \<Rightarrow> ('d, 'd account option) dbop" where
  "GetAccountForUpdate F userId currency =
     query F (\<lambda>s. find (\<lambda>a. acc_UserId a = userId \<and> acc_Currency a = currency) (db_accounts s))"

text \<open>The unique key \<open>idx_uid_currency\<close> refuses a second account.\<close>

definition AddAccount :: "faults \<Rightarrow> 'd account \<Rightarrow> ('d, unit) dbop" where
  "AddAccount F account = stmt F (\<lambda>s.
     if \<exists>a\<in>set (db_accounts s). acc_UserId a = acc_UserId account \<and> acc_Currency a = acc_Currency account
     then (Inl ''Duplicate entry'', s)
     else (Inr (), s\<lparr>db_accounts := db_accounts s @ [account\<lparr>acc_Id := of_nat (length (db_accounts s)) + 1\<rparr>]\<rparr>))"

definition UpdateAccount :: "faults \<Rightarrow> 'd account \<Rightarrow> ('d, unit) dbop" where
  "UpdateAccount F account =
     exec F (\<lambda>s. s\<lparr>db_accounts := upd_where (\<lambda>a. acc_Id a = acc_Id account) (\<lambda>_. account) (db_accounts s)\<rparr>)"

subsection \<open>Bills\<close>

definition GetUnsettledBillsByUserId :: "faults \<Rightarrow> u64 \<Rightarrow> string \<Rightarrow> ('d, 'd bill list) dbop" where
  "GetUnsettledBillsByUserId F userId currency =
     query F (\<lambda>s. take 100 (sort_key bil_Id
       (filter (\<lambda>b. \<not> bil_Settled b \<and> bil_UserId b = userId \<and> bil_Currency b = currency) (db_bills s))))"

definition GetUnsettledBills :: "faults \<Rightarrow> ('d, 'd bill list) dbop" where
  "GetUnsettledBills F = query F (\<lambda>s. take 100 (sort_key bil_Id (filter (\<lambda>b. \<not> bil_Settled b) (db_bills s))))"

fun insert_bills :: "'d bill list \<Rightarrow> 'd bill list \<Rightarrow> 'd bill list" where
  "insert_bills rows [] = rows"
| "insert_bills rows (b # bs) = insert_bills (rows @ [b\<lparr>bil_Id := of_nat (length rows) + 1\<rparr>]) bs"

definition AddBills :: "faults \<Rightarrow> 'd bill list \<Rightarrow> ('d, unit) dbop" where
  "AddBills F bills = (if bills = [] then returnS ()
     else exec F (\<lambda>s. s\<lparr>db_bills := insert_bills (db_bills s) bills\<rparr>))"

definition UpdateBill :: "faults \<Rightarrow> 'd bill \<Rightarrow> ('d, unit) dbop" where
  "UpdateBill F bill =
     exec F (\<lambda>s. s\<lparr>db_bills := upd_where (\<lambda>b. bil_Id b = bil_Id bill) (\<lambda>_. bill) (db_bills s)\<rparr>)"

subsection \<open>Products, users, fee rates, configuration\<close>

definition GetProductById :: "faults \<Rightarrow> string \<Rightarrow> ('d, 'd product option) dbop" where
  "GetProductById F i = query F (\<lambda>s. find (\<lambda>p. prd_Id p = i) (db_products s))"

definition GetProducts :: "faults \<Rightarrow> ('d, 'd product list) dbop" where
  "GetProducts F = query F db_products"

definition GetUserByEmail :: "faults \<Rightarrow> string \<Rightarrow> ('d, user option) dbop" where
  "GetUserByEmail F email = query F (\<lambda>s. find (\<lambda>u. usr_Email u = email) (db_users s))"

definition GetUserById :: "faults \<Rightarrow> u64 \<Rightarrow> ('d, user option) dbop" where
  "GetUserById F i = query F (\<lambda>s. find (\<lambda>u. usr_Id u = i) (db_users s))"

definition AddUser :: "faults \<Rightarrow> user \<Rightarrow> ('d, unit) dbop" where
  "AddUser F user = stmt F (\<lambda>s.
     if \<exists>u\<in>set (db_users s). usr_Email u = usr_Email user then (Inl ''Duplicate entry'', s)
     else (Inr (), s\<lparr>db_users := db_users s @ [user\<lparr>usr_Id := of_nat (length (db_users s)) + 1\<rparr>]\<rparr>))"

definition UpdateUser :: "faults \<Rightarrow> user \<Rightarrow> ('d, unit) dbop" where
  "UpdateUser F user = exec F (\<lambda>s. s\<lparr>db_users := upd_where (\<lambda>u. usr_Id u = usr_Id user) (\<lambda>_. user) (db_users s)\<rparr>)"

definition GetFeeRateByUserLevel :: "faults \<Rightarrow> string \<Rightarrow> ('d, 'd fee_rate option) dbop" where
  "GetFeeRateByUserLevel F level = query F (\<lambda>s. find (\<lambda>r. fee_UserLevel r = level) (db_fee_rates s))"

definition GetConfigs :: "faults \<Rightarrow> ('d, config list) dbop" where
  "GetConfigs F = query F db_configs"

subsection \<open>Orders\<close>

definition GetOrderById :: "faults \<Rightarrow> u64 \<Rightarrow> ('d, 'd order option) dbop" where
  "GetOrderById F orderId =
     query F (\<lambda>s. find (\<lambda>r. ord_Id r = orderId) (db_orders s (GetTableIndexByOrderId orderId)))"

definition GetOrderByClientOid :: "faults \<Rightarrow> u64 \<Rightarrow> string \<Rightarrow> ('d, 'd order option) dbop" where
  "GetOrderByClientOid F userId clientOid =
     query F (\<lambda>s. find (\<lambda>r. ord_UserId r = userId \<and> ord_ClientOid r = clientOid)
       (db_orders s (GetTableIndexByUserId userId)))"

definition GetOrderByIdForUpdate :: "faults \<Rightarrow> u64 \<Rightarrow> ('d, 'd order option) dbop" where
  "GetOrderByIdForUpdate F orderId =
     query F (\<lambda>s. find (\<lambda>r. ord_Id r = orderId) (db_orders s (GetTableIndexByOrderId orderId)))"

definition GetOrdersByUserId :: "faults \<Rightarrow> u64 \<Rightarrow> order_status list \<Rightarrow> side option \<Rightarrow> string \<Rightarrow>
    int \<Rightarrow> int \<Rightarrow> int \<Rightarrow> ('d, 'd order list) dbop" where
  "GetOrdersByUserId F userId statuses s productId beforeId afterId lmt =
     query F (\<lambda>st. limit (if lmt \<le> 0 then 100 else lmt) (rev (sort_key ord_Id (filter (\<lambda>r.
         ord_UserId r = userId \<and>
         (statuses \<noteq> [] \<longrightarrow> ord_Status r \<in> set statuses) \<and>
         (productId \<noteq> [] \<longrightarrow> ord_ProductId r = productId) \<and>
         (case s of None \<Rightarrow> True | Some s' \<Rightarrow> ord_Side r = s') \<and>
         (beforeId > 0 \<longrightarrow> beforeId < uint (ord_Id r)) \<and>
         (afterId > 0 \<longrightarrow> uint (ord_Id r) < afterId))
       (db_orders st (GetTableIndexByUserId userId))))))"

definition AddOrder :: "faults \<Rightarrow> 'd order \<Rightarrow> ('d, unit) dbop" where
  "AddOrder F order = stmt F (\<lambda>s.
     let i = GetTableIndexByUserId (ord_UserId order) in
     if \<exists>r\<in>set (db_orders s i). ord_Id r = ord_Id order then (Inl ''Duplicate entry'', s)
     else (Inr (), s\<lparr>db_orders := (db_orders s)(i := db_orders s i @ [order])\<rparr>))"

definition UpdateOrder :: "faults \<Rightarrow> 'd order \<Rightarrow> ('d, unit) dbop" where
  "UpdateOrder F order = exec F (\<lambda>s.
     let i = GetTableIndexByUserId (ord_UserId order) in
     s\<lparr>db_orders := (db_orders s)(i := upd_where (\<lambda>r. ord_Id r = ord_Id order) (\<lambda>_. order) (db_orders s i))\<rparr>)"

definition UpdateOrderStatus :: "faults \<Rightarrow> u64 \<Rightarrow> order_status \<Rightarrow> order_status \<Rightarrow> ('d, bool) dbop" where
  "UpdateOrderStatus F orderId oldStatus newStatus = stmt F (\<lambda>s.
     let i = GetTableIndexByOrderId orderId;
         P = (\<lambda>r. ord_Id r = orderId \<and> ord_Status r = oldStatus)
     in (Inr (\<exists>r\<in>set (db_orders s i). P r),
         s\<lparr>db_orders := (db_orders s)(i := upd_where P (\<lambda>r. r\<lparr>ord_Status := newStatus\<rparr>) (db_orders s i))\<rparr>))"

subsection \<open>Fills\<close>

definition GetLastFillByProductId :: "faults \<Rightarrow> string \<Rightarrow> ('d, 'd fill option) dbop" where
  "GetLastFillByProductId F productId =
     query F (\<lambda>s. last_by fil_Id (filter (\<lambda>f. fil_ProductId f = productId) (db_fills s)))"

definition GetUnsettledFillsByOrderId :: "faults \<Rightarrow> u64 \<Rightarrow> ('d, 'd fill list) dbop" where
  "GetUnsettledFillsByOrderId F orderId =
     query F (\<lambda>s. take 100 (sort_key fil_Id (filter (\<lambda>f. \<not> fil_Settled f \<and> fil_OrderId f = orderId) (db_fills s))))"

definition GetUnsettledFills :: "faults \<Rightarrow> int \<Rightarrow> ('d, 'd fill list) dbop" where
  "GetUnsettledFills F count =
     query F (\<lambda>s. limit count (sort_key fil_Id (filter (\<lambda>f. \<not> fil_Settled f) (db_fills s))))"

definition UpdateFill :: "faults \<Rightarrow> 'd fill \<Rightarrow> ('d, unit) dbop" where
  "UpdateFill F fill = exec F (\<lambda>s. s\<lparr>db_fills := upd_where (\<lambda>f. fil_Id f = fil_Id fill) (\<lambda>_. fill) (db_fills s)\<rparr>)"

text \<open>\<open>INSERT IGNORE\<close> with the unique key \<open>o_m\<close> on (order id, message sequence): a fill that is there
  already is skipped.\<close>

definition same_fill :: "'d fill \<Rightarrow> 'd fill \<Rightarrow> bool" where
  "same_fill a b \<longleftrightarrow> fil_OrderId a = fil_OrderId b \<and> fil_MessageSeq a = fil_MessageSeq b"

fun insert_fills :: "'d fill list \<Rightarrow> 'd fill list \<Rightarrow> 'd fill list" where
  "insert_fills rows [] = rows"
| "insert_fills rows (f # fs) =
     (if \<exists>r\<in>set rows. same_fill r f then insert_fills rows fs
      else insert_fills (rows @ [f\<lparr>fil_Id := of_nat (length rows) + 1\<rparr>]) fs)"

definition AddFills :: "faults \<Rightarrow> 'd fill list \<Rightarrow> ('d, unit) dbop" where
  "AddFills F fills = (if fills = [] then returnS ()
     else exec F (\<lambda>s. s\<lparr>db_fills := insert_fills (db_fills s) fills\<rparr>))"

subsection \<open>Trades\<close>

definition GetLastTradeByProductId :: "faults \<Rightarrow> string \<Rightarrow> ('d, 'd trade option) dbop" where
  "GetLastTradeByProductId F productId =
     query F (\<lambda>s. last_by trd_Id (filter (\<lambda>t. trd_ProductId t = productId) (db_trades s)))"

definition GetTradesByProductId :: "faults \<Rightarrow> string \<Rightarrow> int \<Rightarrow> ('d, 'd trade list) dbop" where
  "GetTradesByProductId F productId count =
     query F (\<lambda>s. limit count (rev (sort_key trd_Id (filter (\<lambda>t. trd_ProductId t = productId) (db_trades s)))))"

text \<open>\<open>g_trade\<close> has no unique key but its id, so \<open>INSERT IGNORE\<close> ignores nothing.\<close>

fun insert_trades :: "'d trade list \<Rightarrow> 'd trade list \<Rightarrow> 'd trade list" where
  "insert_trades rows [] = rows"
| "insert_trades rows (t # ts) = insert_trades (rows @ [t\<lparr>trd_Id := of_nat (length rows) + 1\<rparr>]) ts"

definition AddTrades :: "faults \<Rightarrow> 'd trade list \<Rightarrow> ('d, unit) dbop" where
  "AddTrades F trades = (if trades = [] then returnS ()
     else exec F (\<lambda>s. s\<lparr>db_trades := insert_trades (db_trades s) trades\<rparr>))"

subsection \<open>Ticks\<close>

definition GetTicksByProductId :: "faults \<Rightarrow> string \<Rightarrow> int \<Rightarrow> int \<Rightarrow> int \<Rightarrow> int \<Rightarrow> ('d, 'd tick list) dbop" where
  "GetTicksByProductId F productId granularity beforeTime afterTime lmt =
     query F (\<lambda>s. limit (if lmt \<le> 0 then 100 else lmt) (rev (sort_key tck_Time (filter (\<lambda>t.
         tck_ProductId t = productId \<and> tck_Granularity t = granularity \<and>
         (beforeTime > 0 \<longrightarrow> beforeTime < tck_Time t) \<and> (afterTime > 0 \<longrightarrow> tck_Time t < afterTime))
       (db_ticks s)))))"

definition GetLastTickByProductId :: "faults \<Rightarrow> string \<Rightarrow> int \<Rightarrow> ('d, 'd tick option) dbop" where
  "GetLastTickByProductId F productId granularity =
     query F (\<lambda>s. last_by tck_Time (filter (\<lambda>t. tck_ProductId t = productId \<and> tck_Granularity t = granularity) (db_ticks s)))"

text \<open>The last tick of every granularity: the join of a product's ticks with the latest time of their
  granularity.\<close>

definition GetLastTicksAllByProductId :: "faults \<Rightarrow> string \<Rightarrow> ('d, 'd tick list) dbop" where
  "GetLastTicksAllByProductId F productId = query F (\<lambda>s.
     let t1 = filter (\<lambda>t. tck_ProductId t = productId) (db_ticks s) in
     filter (\<lambda>t. list_all (\<lambda>t'. tck_Granularity t' = tck_Granularity t \<longrightarrow> tck_Time t' \<le> tck_Time t) t1) t1)"

text \<open>\<open>ON DUPLICATE KEY UPDATE\<close> with the unique key \<open>p_g_t\<close> on (product, granularity, time).\<close>

definition same_tick :: "'d tick \<Rightarrow> 'd tick \<Rightarrow> bool" where
  "same_tick a b \<longleftrightarrow> tck_ProductId a = tck_ProductId b \<and> tck_Granularity a = tck_Granularity b \<and> tck_Time a = tck_Time b"

definition upsert_tick :: "'d tick \<Rightarrow> 'd tick list \<Rightarrow> 'd tick list" where
  "upsert_tick t rows = (if \<exists>r\<in>set rows. same_tick r t then upd_where (\<lambda>r. same_tick r t) (\<lambda>_. t) rows else rows @ [t])"

text \<open>Batches of 500; a nil tick is skipped, and a batch of nils runs no statement.\<close>

function add_tick_batches :: "faults \<Rightarrow> 'd tick option list \<Rightarrow> ('d, unit) dbop" where
  "add_tick_batches F ticks =
     (if ticks = [] then returnS ()
      else let batch = List.map_filter id (take 500 ticks) in
        if batch = [] then add_tick_batches F (drop 500 ticks)
        else bindS (exec F (\<lambda>s. s\<lparr>db_ticks := fold upsert_tick batch (db_ticks s)\<rparr>))
               (\<lambda>_. add_tick_batches F (drop 500 ticks)))"
  by pat_completeness auto
termination by (relation "measure (\<lambda>(F, ticks). length ticks)") auto

declare add_tick_batches.simps [simp del]

definition AddTicks :: "faults \<Rightarrow> 'd tick option list \<Rightarrow> ('d, unit) dbop" where
  "AddTicks F ticks = (if ticks = [] then returnS () else add_tick_batches F ticks)"

definition AddOrUpdateTick :: "faults \<Rightarrow> 'd tick option \<Rightarrow> ('d, unit) dbop" where
  "AddOrUpdateTick F tick = (case tick of None \<Rightarrow> returnS ()
     | Some t \<Rightarrow> exec F (\<lambda>s. s\<lparr>db_ticks := upsert_tick t (db_ticks s)\<rparr>))"

subsection \<open>Transactions\<close>

text \<open>
  \<open>BeginTx\<close>, the body, and \<open>CommitTx\<close> when the body asks for it (its second result); a body that
  returns without committing, an error and a crash all end in the deferred \<open>Rollback\<close>.
\<close>

definition with_tx :: "faults \<Rightarrow> ('d, 'a \<times> bool) dbop \<Rightarrow> ('d, 'a) dbop" where
  "with_tx F body s =
     (case query F (\<lambda>_. ()) s of
        (Inl e, s0) \<Rightarrow> (Inl e, s0)
      | (Inr _, s0) \<Rightarrow>
          (case body s0 of
             (Inl e, s1) \<Rightarrow> (Inl e, s\<lparr>db_stmt := db_stmt s1\<rparr>)
           | (Inr (x, False), s1) \<Rightarrow> (Inr x, s\<lparr>db_stmt := db_stmt s1\<rparr>)
           | (Inr (x, True), s1) \<Rightarrow>
               (case query F (\<lambda>_. ()) s1 of
                  (Inl e, s2) \<Rightarrow> (Inl e, s\<lparr>db_stmt := db_stmt s2\<rparr>)
                | (Inr _, s2) \<Rightarrow> (Inr x, s2))))"

end
