(* ===== verification/Accounts.thy ===== *)
theory Accounts
  imports Store
begin

text \<open>
  The account service (\<open>service/account_service.go\<close>): holding a balance for an order, writing delayed
  bills, and settling a user's bills into the account; with the balances they keep.
\<close>

subsection \<open>Operations\<close>

text \<open>The loop of \<open>ExecuteBill\<close>: sums the bills and marks them settled.\<close>

fun settle_bills :: "faults \<Rightarrow> 'd::linordered_idom bill list \<Rightarrow> 'd \<Rightarrow> 'd \<Rightarrow> ('d, 'd \<times> 'd) dbop" where
  "settle_bills F [] availableSum holdSum = returnS (availableSum, holdSum)"
| "settle_bills F (b # bills) availableSum holdSum =
     bindS (UpdateBill F (b\<lparr>bil_Settled := True\<rparr>)) (\<lambda>_.
       settle_bills F bills (availableSum + bil_Available b) (holdSum + bil_Hold b))"

text \<open>Locks the user's account, creating it if there is none.\<close>

definition lock_account :: "faults \<Rightarrow> u64 \<Rightarrow> string \<Rightarrow> ('d::linordered_idom, 'd account option) dbop" where
  "lock_account F userId currency =
     bindS (GetAccountForUpdate F userId currency) (\<lambda>found. case found of
         Some a \<Rightarrow> returnS (Some a)
       | None \<Rightarrow> bindS (AddAccount F \<lparr>acc_Id = 0, acc_UserId = userId, acc_Currency = currency,
             acc_Hold = 0, acc_Available = 0\<rparr>) (\<lambda>_. GetAccountForUpdate F userId currency))"

definition ExecuteBill_tx :: "faults \<Rightarrow> u64 \<Rightarrow> string \<Rightarrow> ('d::linordered_idom, unit \<times> bool) dbop" where
  "ExecuteBill_tx F userId currency =
     bindS (lock_account F userId currency) (\<lambda>account.
     bindS (GetUnsettledBillsByUserId F userId currency) (\<lambda>bills.
     if bills = [] then returnS ((), False)
     else bindS (settle_bills F bills 0 0) (\<lambda>(availableSum, holdSum).
       case account of
         None \<Rightarrow> failS (Crash nil_deref)
       | Some a \<Rightarrow> bindS (UpdateAccount F (a\<lparr>acc_Available := acc_Available a + availableSum,
             acc_Hold := acc_Hold a + holdSum\<rparr>)) (\<lambda>_. returnS ((), True)))))"

definition ExecuteBill :: "faults \<Rightarrow> u64 \<Rightarrow> string \<Rightarrow> ('d::linordered_idom, unit) dbop" where
  "ExecuteBill F userId currency = with_tx F (ExecuteBill_tx F userId currency)"

definition HoldBalance :: "faults \<Rightarrow> u64 \<Rightarrow> string \<Rightarrow> 'd::linordered_idom \<Rightarrow> bill_type \<Rightarrow> ('d, unit) dbop" where
  "HoldBalance F userId currency sz billType =
     (if sz \<le> 0 then failS (Err ''size less than 0'')
      else bindS (GetAccountForUpdate F userId currency) (\<lambda>found.
        case found of
          None \<Rightarrow> failS (Err ''no enough'')
        | Some account \<Rightarrow>
            if \<not> sz \<le> acc_Available account then failS (Err (''no enough '' @ currency))
            else bindS (AddBills F [\<lparr>bil_Id = 0, bil_UserId = userId, bil_Currency = currency,
                   bil_Available = - sz, bil_Hold = sz, bil_Type = billType, bil_Settled = True, bil_Notes = []\<rparr>])
                 (\<lambda>_. UpdateAccount F (account\<lparr>acc_Available := acc_Available account - sz,
                   acc_Hold := acc_Hold account + sz\<rparr>))))"

definition HasEnoughBalance :: "faults \<Rightarrow> u64 \<Rightarrow> string \<Rightarrow> 'd::linordered_idom \<Rightarrow> ('d, bool) dbop" where
  "HasEnoughBalance F userId currency sz =
     bindS (GetAccount F userId currency) (\<lambda>found.
       case found of None \<Rightarrow> returnS False | Some account \<Rightarrow> returnS (sz \<le> acc_Available account))"

definition AddDelayBill :: "faults \<Rightarrow> u64 \<Rightarrow> string \<Rightarrow> 'd \<Rightarrow> 'd \<Rightarrow> bill_type \<Rightarrow> string \<Rightarrow> ('d, unit) dbop" where
  "AddDelayBill F userId currency available hold billType notes =
     AddBills F [\<lparr>bil_Id = 0, bil_UserId = userId, bil_Currency = currency, bil_Available = available,
       bil_Hold = hold, bil_Type = billType, bil_Settled = False, bil_Notes = notes\<rparr>]"

subsection \<open>Success and failure of statements\<close>

text \<open>The same tables, up to the number of statements run.\<close>

definition same_tables :: "'d db \<Rightarrow> 'd db \<Rightarrow> bool" where
  "same_tables s s' \<longleftrightarrow> (\<exists>n. s' = s\<lparr>db_stmt := n\<rparr>)"

lemma same_tables_refl [simp]: "same_tables s s"
  unfolding same_tables_def by (rule exI [of _ "db_stmt s"]) simp

lemma same_tablesI [simp]: "same_tables s (s\<lparr>db_stmt := n\<rparr>)"
  by (auto simp: same_tables_def)

lemma same_tables_trans: "same_tables a b \<Longrightarrow> same_tables b c \<Longrightarrow> same_tables a c"
  by (auto simp: same_tables_def)

lemma same_tables_simps:
  assumes "same_tables s s'"
  shows "db_accounts s' = db_accounts s" "db_bills s' = db_bills s" "db_orders s' = db_orders s"
    "db_fills s' = db_fills s" "db_trades s' = db_trades s" "db_ticks s' = db_ticks s"
    "db_products s' = db_products s" "db_users s' = db_users s" "db_fee_rates s' = db_fee_rates s"
    "db_configs s' = db_configs s"
  using assms by (auto simp: same_tables_def)

lemma bindS_Inr:
  "bindS m f s = (Inr y, s') \<longleftrightarrow> (\<exists>x s1. m s = (Inr x, s1) \<and> f x s1 = (Inr y, s'))"
  by (auto simp: bindS_def split: prod.splits sum.splits)

lemma returnS_Inr [simp]: "returnS x s = (Inr y, s') \<longleftrightarrow> y = x \<and> s' = s"
  by (auto simp: returnS_def)

lemma failS_Inr [simp]: "\<not> failS e s = (Inr y, s')"
  by (simp add: failS_def)

lemma bind_found_Inr:
  "bindS m (\<lambda>r. case r of None \<Rightarrow> failS e | Some x \<Rightarrow> f x) s = (Inr y, s') \<longleftrightarrow>
    (\<exists>x s1. m s = (Inr (Some x), s1) \<and> f x s1 = (Inr y, s'))"
proof
  assume "bindS m (\<lambda>r. case r of None \<Rightarrow> failS e | Some x \<Rightarrow> f x) s = (Inr y, s')"
  then obtain r s1 where r: "m s = (Inr r, s1)" "(case r of None \<Rightarrow> failS e | Some x \<Rightarrow> f x) s1 = (Inr y, s')"
    by (auto simp: bindS_Inr)
  then show "\<exists>x s1. m s = (Inr (Some x), s1) \<and> f x s1 = (Inr y, s')" by (cases r) auto
qed (auto simp: bindS_Inr)

lemma if_fail_Inr: "(if b then failS e else m) s = (Inr y, s') \<longleftrightarrow> \<not> b \<and> m s = (Inr y, s')"
  by simp

text \<open>Taking a successful computation apart.\<close>

lemmas tx_elims = bind_found_Inr bindS_Inr if_fail_Inr returnS_Inr

lemma stmt_Inr:
  "stmt F g s = (Inr x, s') \<longleftrightarrow> F (db_stmt s) = None \<and> (\<exists>s1. g s = (Inr x, s1) \<and> s' = s1\<lparr>db_stmt := Suc (db_stmt s)\<rparr>)"
  by (auto simp: stmt_def Let_def split: option.splits prod.splits sum.splits)

lemma query_Inr: "query F g s = (Inr x, s') \<Longrightarrow> x = g s \<and> same_tables s s'"
  by (auto simp: query_def stmt_Inr)

lemma exec_Inr: "exec F g s = (Inr x, s') \<Longrightarrow> same_tables (g s) s'"
  by (auto simp: exec_def stmt_Inr)

text \<open>A transaction that does not succeed leaves the tables as they were.\<close>

lemma query_same: "query F g s = (r, s') \<Longrightarrow> same_tables s s'"
  by (auto simp: query_def stmt_def Let_def split: option.splits)

lemma with_tx_Inl: "with_tx F body s = (Inl e, s') \<Longrightarrow> same_tables s s'"
  by (auto simp: with_tx_def split: prod.splits sum.splits bool.splits dest: query_same)

lemma with_tx_Inr:
  assumes "with_tx F body s = (Inr x, s')"
  obtains (rolled_back) s0 s1 where "same_tables s s0" and "body s0 = (Inr (x, False), s1)" and "same_tables s s'"
  | (commit) s0 s1 where "same_tables s s0" and "body s0 = (Inr (x, True), s1)" and "same_tables s1 s'"
proof (cases "query F (\<lambda>_. ()) s")
  case (Pair r0 s0)
  note q0 = query_same [OF Pair]
  show thesis
  proof (cases r0)
    case (Inl e)
    then show thesis using assms Pair by (simp add: with_tx_def)
  next
    case (Inr u)
    obtain r1 s1 where b: "body s0 = (r1, s1)" by (cases "body s0")
    obtain r2 s2 where q: "query F (\<lambda>_. ()) s1 = (r2, s2)" by (cases "query F (\<lambda>_. ()) s1")
    consider (err) e where "r1 = Inl e" | (no) y where "r1 = Inr (y, False)" | (yes) y where "r1 = Inr (y, True)"
      by (metis (full_types) old.sum.exhaust prod.exhaust)
    then show thesis
    proof cases
      case err
      then show thesis using assms Pair Inr b by (simp add: with_tx_def)
    next
      case no
      then have "s' = s\<lparr>db_stmt := db_stmt s1\<rparr>" using assms Pair Inr b by (auto simp: with_tx_def)
      then have "same_tables s s'" "body s0 = (Inr (x, False), s1)"
        using assms Pair Inr b no by (auto simp: with_tx_def)
      with q0 show thesis by (intro that(1)) 
    next
      case yes
      then have "y = x" "s' = s2" using assms Pair Inr b q by (cases r2; auto simp: with_tx_def)+
      then have "body s0 = (Inr (x, True), s1)" "same_tables s1 s'" using yes b query_same [OF q] by simp_all
      then show thesis by (rule that(2) [OF q0])
    qed
  qed
qed

subsection \<open>Balances\<close>

text \<open>
  What belongs to the (user, currency) pairs that satisfy \<open>P\<close>: the accounts, and the bills that are
  not yet settled into them.
\<close>

definition avail_of :: "(u64 \<times> string \<Rightarrow> bool) \<Rightarrow> 'd::linordered_idom db \<Rightarrow> 'd" where
  "avail_of P s =
     (\<Sum>a\<leftarrow>db_accounts s. if P (acc_UserId a, acc_Currency a) then acc_Available a else 0) +
     (\<Sum>b\<leftarrow>db_bills s. if \<not> bil_Settled b \<and> P (bil_UserId b, bil_Currency b) then bil_Available b else 0)"

definition hold_of :: "(u64 \<times> string \<Rightarrow> bool) \<Rightarrow> 'd::linordered_idom db \<Rightarrow> 'd" where
  "hold_of P s =
     (\<Sum>a\<leftarrow>db_accounts s. if P (acc_UserId a, acc_Currency a) then acc_Hold a else 0) +
     (\<Sum>b\<leftarrow>db_bills s. if \<not> bil_Settled b \<and> P (bil_UserId b, bil_Currency b) then bil_Hold b else 0)"

text \<open>Everything of one currency in the exchange.\<close>

definition currency_total :: "string \<Rightarrow> 'd::linordered_idom db \<Rightarrow> 'd" where
  "currency_total c s = avail_of (\<lambda>k. snd k = c) s + hold_of (\<lambda>k. snd k = c) s"

text \<open>Ids number the rows, and a user has one account per currency; \<open>room s n\<close>: the next \<open>n\<close> ids do not
  wrap.\<close>

definition ids_ok :: "('r \<Rightarrow> u64) \<Rightarrow> 'r list \<Rightarrow> bool" where
  "ids_ok k rows \<longleftrightarrow> distinct (map k rows) \<and> (\<forall>r\<in>set rows. unat (k r) \<le> length rows)"

definition books_wf :: "'d db \<Rightarrow> bool" where
  "books_wf s \<longleftrightarrow> ids_ok acc_Id (db_accounts s) \<and> ids_ok bil_Id (db_bills s) \<and>
     distinct (map (\<lambda>a. (acc_UserId a, acc_Currency a)) (db_accounts s))"

definition room :: "'d db \<Rightarrow> nat \<Rightarrow> bool" where
  "room s n \<longleftrightarrow> length (db_accounts s) + n < 2 ^ 64 \<and> length (db_bills s) + n < 2 ^ 64"

lemma next_id:
  assumes "n + 1 < 2 ^ 64"
  shows "unat (of_nat n + 1 :: u64) = n + 1"
proof -
  have "(of_nat n + 1 :: u64) = of_nat (n + 1)" by (simp only: of_nat_add of_nat_1)
  moreover have "unat (of_nat (n + 1) :: u64) = take_bit 64 (n + 1)"
    by (simp only: unsigned_of_nat) simp
  moreover have "take_bit 64 (n + 1) = n + 1" using assms by (rule take_bit_nat_eq_self)
  ultimately show ?thesis by (simp only:)
qed

lemma ids_ok_append:
  assumes "ids_ok k rows" and "length rows + 1 < 2 ^ 64" and "k x = of_nat (length rows) + 1"
  shows "ids_ok k (rows @ [x])"
proof -
  have "unat (k x) = length rows + 1" using next_id [OF assms(2)] assms(3) by simp
  then show ?thesis using assms(1) by (fastforce simp: ids_ok_def)
qed

lemma same_tables_balances:
  assumes "same_tables s s'"
  shows "avail_of P s' = avail_of P s" "hold_of P s' = hold_of P s" "books_wf s' = books_wf s"
  using same_tables_simps [OF assms] by (simp_all add: avail_of_def hold_of_def books_wf_def)

lemma upd_where_ids:
  assumes "\<And>r. P r \<Longrightarrow> k (f r) = k r"
  shows "map k (upd_where P f rows) = map k rows"
  using assms by (simp add: upd_where_def)

lemma upd_where_length [simp]: "length (upd_where P f rows) = length rows"
  by (simp add: upd_where_def)

text \<open>Replacing the row with the id of \<open>x\<close> changes a sum by the difference.\<close>

lemma sum_upd_id:
  assumes "distinct (map k rows)" and "old \<in> set rows" and "k old = k x"
  shows "(\<Sum>r\<leftarrow>upd_where (\<lambda>r. k r = k x) (\<lambda>_. x) rows. f r) = (\<Sum>r\<leftarrow>rows. f r) - f old + (f x :: 'd::linordered_idom)"
  using assms
proof (induction rows)
  case Nil
  then show ?case by simp
next
  case (Cons r rows)
  show ?case
  proof (cases "r = old")
    case True
    have "upd_where (\<lambda>r. k r = k x) (\<lambda>_. x) rows = rows"
      using Cons.prems(1,3) True by (auto simp: upd_where_def image_iff intro!: map_idI)
    with True Cons.prems(3) show ?thesis by (simp add: upd_where_def)
  next
    case False
    then have "old \<in> set rows" and "k r \<noteq> k x" using Cons.prems by (auto simp: image_iff)
    with Cons show ?thesis by (simp add: upd_where_def)
  qed
qed

lemma distinct_id_eq:
  "distinct (map k rows) \<Longrightarrow> a \<in> set rows \<Longrightarrow> b \<in> set rows \<Longrightarrow> k a = k b \<Longrightarrow> a = b"
  by (auto simp: distinct_map inj_on_def)

text \<open>Settling bills.\<close>

definition settled :: "'d bill \<Rightarrow> 'd bill" where
  "settled b = b\<lparr>bil_Settled := True\<rparr>"

lemma settled_simps [simp]:
  "bil_Id (settled b) = bil_Id b" "bil_Settled (settled b)"
  by (simp_all add: settled_def)

lemma upd_where_mem:
  assumes "distinct (map bil_Id rows)" and "b \<in> set rows"
  shows "upd_where (\<lambda>r. bil_Id r = bil_Id (settled b)) (\<lambda>_. settled b) rows = upd_where (\<lambda>r. r = b) settled rows"
  unfolding upd_where_def
proof (rule map_cong [OF refl])
  fix r assume "r \<in> set rows"
  then have "bil_Id r = bil_Id b \<longleftrightarrow> r = b" using assms distinct_id_eq by metis
  then show "(if bil_Id r = bil_Id (settled b) then settled b else r) = (if r = b then settled r else r)" by simp
qed

lemma settle_bills_Inr:
  "settle_bills F bills a h s = (Inr r, s') \<Longrightarrow> distinct (map bil_Id (db_bills s)) \<Longrightarrow>
    set bills \<subseteq> set (db_bills s) \<Longrightarrow> distinct bills \<Longrightarrow> (\<And>b. b \<in> set bills \<Longrightarrow> \<not> bil_Settled b) \<Longrightarrow>
    r = (a + (\<Sum>b\<leftarrow>bills. bil_Available b), h + (\<Sum>b\<leftarrow>bills. bil_Hold b)) \<and>
    same_tables (s\<lparr>db_bills := upd_where (\<lambda>b. b \<in> set bills) settled (db_bills s)\<rparr>) s'"
proof (induction bills arbitrary: a h s)
  case Nil
  then show ?case by (simp add: upd_where_def)
next
  case (Cons b bills)
  obtain u s1 where u: "UpdateBill F (settled b) s = (Inr u, s1)"
      "settle_bills F bills (a + bil_Available b) (h + bil_Hold b) s1 = (Inr r, s')"
    using Cons.prems(1) by (auto simp: bindS_Inr settled_def)
  have rows: "db_bills s1 = upd_where (\<lambda>r. r = b) settled (db_bills s)"
    and st: "same_tables (s\<lparr>db_bills := upd_where (\<lambda>r. r = b) settled (db_bills s)\<rparr>) s1"
    using exec_Inr [OF u(1) [unfolded UpdateBill_def]] upd_where_mem [OF Cons.prems(2), of b] Cons.prems(3)
    by (auto dest: same_tables_simps)
  have "settled b \<notin> set bills" using Cons.prems(5) [of "settled b"] by auto
  moreover have ne: "c \<noteq> b" if "c \<in> set bills" for c using Cons.prems(4) that by auto
  ultimately have upd: "upd_where (\<lambda>r. r \<in> set bills) settled (db_bills s1) = upd_where (\<lambda>r. r \<in> set (b # bills)) settled (db_bills s)"
    by (auto simp: rows upd_where_def)
  have "r = (a + bil_Available b + (\<Sum>b\<leftarrow>bills. bil_Available b), h + bil_Hold b + (\<Sum>b\<leftarrow>bills. bil_Hold b)) \<and>
    same_tables (s1\<lparr>db_bills := upd_where (\<lambda>b. b \<in> set bills) settled (db_bills s1)\<rparr>) s'"
  proof (rule Cons.IH [OF u(2)])
    show "distinct (map bil_Id (db_bills s1))"
      using Cons.prems(2) by (simp add: rows upd_where_ids)
    show "set bills \<subseteq> set (db_bills s1)"
      using Cons.prems(3) ne by (fastforce simp: rows upd_where_def)
  qed (use Cons.prems in auto)
  moreover have "same_tables (s\<lparr>db_bills := upd_where (\<lambda>r. r \<in> set (b # bills)) settled (db_bills s)\<rparr>)
      (s1\<lparr>db_bills := upd_where (\<lambda>r. r \<in> set bills) settled (db_bills s1)\<rparr>)"
    using st unfolding upd by (cases s) (auto simp: same_tables_def)
  ultimately show ?case using same_tables_trans by (auto simp: algebra_simps)
qed

lemma sum_settled:
  assumes "distinct rows" and "set bills \<subseteq> set rows" and "distinct bills" and "\<And>b. f (settled b) = 0"
  shows "(\<Sum>b\<leftarrow>upd_where (\<lambda>b. b \<in> set bills) settled rows. f b) = (\<Sum>b\<leftarrow>rows. f b) - (\<Sum>b\<leftarrow>bills. (f b :: 'd::linordered_idom))"
proof -
  have "(\<Sum>b\<leftarrow>upd_where (\<lambda>b. b \<in> set bills) settled rows. f b) = (\<Sum>b\<leftarrow>rows. if b \<in> set bills then 0 else f b)"
    by (simp add: upd_where_def comp_def assms(4) if_distrib cong: if_cong)
  also have "\<dots> = (\<Sum>b\<in>set rows. if b \<in> set bills then 0 else f b)"
    using assms(1) by (simp add: sum_list_distinct_conv_sum_set)
  also have "\<dots> = (\<Sum>b\<in>set rows - set bills. f b)"
    by (rule sum.mono_neutral_cong_right) auto
  also have "\<dots> = (\<Sum>b\<in>set rows. f b) - (\<Sum>b\<in>set bills. f b)"
    using assms(2) by (simp add: sum_diff)
  finally show ?thesis using assms(1,3) by (simp add: sum_list_distinct_conv_sum_set)
qed

lemma ids_ok_upd:
  assumes "ids_ok k rows" and "\<And>r. r \<in> set rows \<Longrightarrow> P r \<Longrightarrow> k (f r) = k r"
  shows "ids_ok k (upd_where P f rows)"
proof -
  have "map k (upd_where P f rows) = map k rows"
    using assms(2) by (auto simp: upd_where_def)
  moreover then have "k ` set (upd_where P f rows) = k ` set rows" by (metis image_set)
  ultimately show ?thesis
    using assms(1) unfolding ids_ok_def by (metis (no_types, lifting) image_iff upd_where_length)
qed

text \<open>Updating an account by its id.\<close>

lemma UpdateAccount_Inr:
  assumes "UpdateAccount F (x :: 'd::linordered_idom account) s = (Inr u, s')" and wf: "books_wf s" and old: "old \<in> set (db_accounts s)"
    and same: "acc_Id x = acc_Id old" "acc_UserId x = acc_UserId old" "acc_Currency x = acc_Currency old"
  shows "avail_of P s' = avail_of P s +
      (if P (acc_UserId old, acc_Currency old) then acc_Available x - acc_Available old else 0)"
    and "hold_of P s' = hold_of P s + (if P (acc_UserId old, acc_Currency old) then acc_Hold x - acc_Hold old else 0)"
    and "books_wf s'" and "db_bills s' = db_bills s"
    and "db_accounts s' = upd_where (\<lambda>a. acc_Id a = acc_Id x) (\<lambda>_. x) (db_accounts s)"
proof -
  note e = same_tables_simps [OF exec_Inr [OF assms(1) [unfolded UpdateAccount_def]], simplified]
  have dist: "distinct (map acc_Id (db_accounts s))" using wf by (simp add: books_wf_def ids_ok_def)
  show "db_bills s' = db_bills s" by (rule e(2))
  show acc: "db_accounts s' = upd_where (\<lambda>a. acc_Id a = acc_Id x) (\<lambda>_. x) (db_accounts s)" by (rule e(1))
  show "avail_of P s' = avail_of P s +
      (if P (acc_UserId old, acc_Currency old) then acc_Available x - acc_Available old else 0)"
    by (simp add: avail_of_def e(2) acc sum_upd_id [OF dist old same(1) [symmetric]] same(2,3))
  show "hold_of P s' = hold_of P s + (if P (acc_UserId old, acc_Currency old) then acc_Hold x - acc_Hold old else 0)"
    by (simp add: hold_of_def e(2) acc sum_upd_id [OF dist old same(1) [symmetric]] same(2,3))
  have "map (\<lambda>a. (acc_UserId a, acc_Currency a)) (db_accounts s') = map (\<lambda>a. (acc_UserId a, acc_Currency a)) (db_accounts s)"
    unfolding acc upd_where_def using distinct_id_eq [OF dist _ old] same by auto
  moreover have "ids_ok acc_Id (db_accounts s')"
    unfolding acc using wf by (intro ids_ok_upd) (simp_all add: books_wf_def)
  ultimately show "books_wf s'" using wf by (simp add: books_wf_def e(2))
qed

lemma AddAccount_Inr:
  assumes "AddAccount F x s = (Inr u, s')" and "books_wf s" and "room s 1"
    and "acc_Available x = 0" and "acc_Hold x = 0"
  shows "avail_of P s' = avail_of P s" and "hold_of P s' = hold_of P s" and "books_wf s'"
    and "db_bills s' = db_bills s"
    and "\<exists>i. db_accounts s' = db_accounts s @ [x\<lparr>acc_Id := i\<rparr>]"
proof -
  define y where "y = x\<lparr>acc_Id := of_nat (length (db_accounts s)) + 1\<rparr>"
  have acc: "db_accounts s' = db_accounts s @ [y]" "db_bills s' = db_bills s"
    and uniq: "(acc_UserId x, acc_Currency x) \<notin> (\<lambda>a. (acc_UserId a, acc_Currency a)) ` set (db_accounts s)"
    using assms(1) by (auto simp: AddAccount_def stmt_Inr y_def split: if_splits)
  show "avail_of P s' = avail_of P s" "hold_of P s' = hold_of P s"
    using assms(4,5) by (simp_all add: avail_of_def hold_of_def acc y_def)
  have "ids_ok acc_Id (db_accounts s')"
    unfolding acc using assms(2,3) by (intro ids_ok_append) (simp_all add: books_wf_def room_def y_def)
  then show "books_wf s'"
    using assms(2) uniq by (simp add: books_wf_def acc y_def)
  show "db_bills s' = db_bills s" by (rule acc(2))
  show "\<exists>i. db_accounts s' = db_accounts s @ [x\<lparr>acc_Id := i\<rparr>]" using acc(1) by (auto simp: y_def)
qed

definition unsettled_of :: "u64 \<Rightarrow> string \<Rightarrow> 'd db \<Rightarrow> 'd bill list" where
  "unsettled_of uid c s = filter (\<lambda>b. \<not> bil_Settled b \<and> bil_UserId b = uid \<and> bil_Currency b = c) (db_bills s)"

text \<open>Settling moves the bills' amounts from the bills to the account.\<close>

lemma settled_balances:
  assumes "distinct (db_bills s)" and "set bills \<subseteq> set (unsettled_of uid c s)" and "distinct bills"
    and "db_bills s' = upd_where (\<lambda>b. b \<in> set bills) settled (db_bills s)" and "db_accounts s' = db_accounts s"
  shows "avail_of P s' = avail_of P s - (if P (uid, c) then \<Sum>b\<leftarrow>bills. bil_Available b else 0)"
    and "hold_of P s' = hold_of P s - (if P (uid, c) then \<Sum>b\<leftarrow>bills. bil_Hold (b :: 'd::linordered_idom bill) else 0)"
proof -
  have sub: "set bills \<subseteq> set (db_bills s)" using assms(2) by (auto simp: unsettled_of_def)
  have k: "\<not> bil_Settled b \<and> bil_UserId b = uid \<and> bil_Currency b = c" if "b \<in> set bills" for b
    using that assms(2) by (auto simp: unsettled_of_def)
  have "(\<Sum>b\<leftarrow>bills. if \<not> bil_Settled b \<and> P (bil_UserId b, bil_Currency b) then bil_Available b else 0) =
      (if P (uid, c) then \<Sum>b\<leftarrow>bills. bil_Available b else 0)"
    using k by (induction bills) auto
  then show "avail_of P s' = avail_of P s - (if P (uid, c) then \<Sum>b\<leftarrow>bills. bil_Available b else 0)"
    by (simp add: avail_of_def assms(4,5) sum_settled [OF assms(1) sub assms(3)])
  have "(\<Sum>b\<leftarrow>bills. if \<not> bil_Settled b \<and> P (bil_UserId b, bil_Currency b) then bil_Hold b else 0) =
      (if P (uid, c) then \<Sum>b\<leftarrow>bills. bil_Hold b else 0)"
    using k by (induction bills) auto
  then show "hold_of P s' = hold_of P s - (if P (uid, c) then \<Sum>b\<leftarrow>bills. bil_Hold b else 0)"
    by (simp add: hold_of_def assms(4,5) sum_settled [OF assms(1) sub assms(3)])
qed

lemma count_unsettled:
  assumes "ids_ok bil_Id (db_bills s)" and "set bills \<subseteq> set (unsettled_of uid c s)" and "distinct bills"
    and "db_bills s' = upd_where (\<lambda>b. b \<in> set bills) settled (db_bills s)"
  shows "length (unsettled_of uid c s') = length (unsettled_of uid c s) - length bills"
proof -
  have "unsettled_of uid c s' = filter (\<lambda>b. b \<notin> set bills) (unsettled_of uid c s)"
  proof -
    have "filter (\<lambda>b. \<not> bil_Settled b \<and> bil_UserId b = uid \<and> bil_Currency b = c)
        (map (\<lambda>r. if r \<in> set bills then settled r else r) rows) =
      filter (\<lambda>b. b \<notin> set bills) (filter (\<lambda>b. \<not> bil_Settled b \<and> bil_UserId b = uid \<and> bil_Currency b = c) rows)"
      for rows by (induction rows) (auto simp: settled_def)
    then show ?thesis by (simp only: unsettled_of_def assms(4) upd_where_def)
  qed
  moreover have "distinct (unsettled_of uid c s)"
    using assms(1) by (simp add: unsettled_of_def ids_ok_def distinct_map)
  then have "length (filter (\<lambda>b. b \<notin> set bills) (unsettled_of uid c s)) = card (set (unsettled_of uid c s) - set bills)"
    by (metis distinct_card distinct_filter set_diff_eq set_filter)
  moreover have "card (set (unsettled_of uid c s) - set bills) = length (unsettled_of uid c s) - length bills"
    using assms(2,3) \<open>distinct (unsettled_of uid c s)\<close> by (simp add: card_Diff_subset distinct_card)
  ultimately show ?thesis by simp
qed

lemma find_account:
  "find (\<lambda>a. acc_UserId a = uid \<and> acc_Currency a = c) accounts = Some a \<Longrightarrow>
    a \<in> set accounts \<and> acc_UserId a = uid \<and> acc_Currency a = c"
  by (auto simp: find_Some_iff)

text \<open>The body of \<open>ExecuteBill\<close> when it commits.\<close>

lemma lock_account_Inr:
  assumes "lock_account F uid c s = (Inr account, s')"
    and wf: "books_wf (s :: 'd::linordered_idom db)" and room: "room s 1"
  shows "(\<forall>P. avail_of P s' = avail_of P s \<and> hold_of P s' = hold_of P s) \<and> books_wf s' \<and> db_bills s' = db_bills s \<and>
    account = find (\<lambda>a. acc_UserId a = uid \<and> acc_Currency a = c) (db_accounts s')"
proof -
  obtain found s1 where f: "GetAccountForUpdate F uid c s = (Inr found, s1)"
    and r: "(case found of
         Some a \<Rightarrow> returnS (Some a)
       | None \<Rightarrow> bindS (AddAccount F \<lparr>acc_Id = 0, acc_UserId = uid, acc_Currency = c,
             acc_Hold = 0, acc_Available = 0\<rparr>) (\<lambda>_. GetAccountForUpdate F uid c)) s1 = (Inr account, s')"
    using assms(1) by (auto simp: lock_account_def bindS_Inr)
  note q = query_Inr [OF f [unfolded GetAccountForUpdate_def]]
  have st: "same_tables s s1" using q by simp
  have wf1: "books_wf s1" "room s1 1" "db_bills s1 = db_bills s"
    using wf room same_tables_balances(3) [OF st] same_tables_simps(1,2) [OF st] by (simp_all add: room_def)
  note bal = same_tables_balances(1,2) [OF st]
  show ?thesis
  proof (cases found)
    case (Some a)
    then have "s' = s1" "account = Some a" using r by simp_all
    then show ?thesis using q wf1 bal same_tables_simps(1) [OF st] Some by simp
  next
    case None
    then obtain u s2 where a: "AddAccount F \<lparr>acc_Id = 0, acc_UserId = uid, acc_Currency = c,
             acc_Hold = 0, acc_Available = (0 :: 'd)\<rparr> s1 = (Inr u, s2)"
      and g: "GetAccountForUpdate F uid c s2 = (Inr account, s')"
      using r by (auto simp: bindS_Inr)
    note q2 = query_Inr [OF g [unfolded GetAccountForUpdate_def]]
    have st2: "same_tables s2 s'" using q2 by simp
    note A = AddAccount_Inr [OF a wf1(1,2), simplified]
    show ?thesis
      using q2 A same_tables_balances [OF st2] same_tables_simps(1,2) [OF st2] wf1(3) bal by simp
  qed
qed

lemma ExecuteBill_commit:
  assumes "ExecuteBill_tx F uid c s = (Inr (u, True), s')" and wf: "books_wf (s :: 'd::linordered_idom db)" and room: "room s 1"
  shows "(\<forall>P. avail_of P s' = avail_of P s \<and> hold_of P s' = hold_of P s) \<and> books_wf s' \<and>
    length (unsettled_of uid c s') = length (unsettled_of uid c s) - 100"
proof -
  obtain account s1 bills s2 av h s3 a u2 where
      l: "lock_account F uid c s = (Inr account, s1)"
      and g: "GetUnsettledBillsByUserId F uid c s1 = (Inr bills, s2)" and ne: "bills \<noteq> []"
      and st: "settle_bills F bills 0 0 s2 = (Inr (av, h), s3)" and a: "account = Some a"
      and up: "UpdateAccount F (a\<lparr>acc_Available := acc_Available a + av, acc_Hold := acc_Hold a + h\<rparr>) s3 = (Inr u2, s')"
    using assms(1) by (auto simp: ExecuteBill_tx_def bindS_Inr split: if_splits option.splits)
  note L = lock_account_Inr [OF l wf room]
  note q = query_Inr [OF g [unfolded GetUnsettledBillsByUserId_def]]
  have t2: "same_tables s1 s2" and bills: "bills = take 100 (sort_key bil_Id (unsettled_of uid c s2))"
    using q same_tables_simps(2) [of s1 s2] by (simp_all add: unsettled_of_def)
  have wf2: "books_wf s2" using L same_tables_balances(3) [OF t2] by simp
  have ids: "ids_ok bil_Id (db_bills s2)" using wf2 by (simp add: books_wf_def)
  have dist: "distinct (db_bills s2)" using ids by (simp add: ids_ok_def distinct_map)
  have sub: "set bills \<subseteq> set (unsettled_of uid c s2)" unfolding bills by (metis set_sort set_take_subset)
  have db: "distinct bills" unfolding bills using dist by (simp add: unsettled_of_def distinct_take)
  have uns: "\<not> bil_Settled b" if "b \<in> set bills" for b using sub that by (auto simp: unsettled_of_def)
  have sub': "set bills \<subseteq> set (db_bills s2)" using sub by (auto simp: unsettled_of_def)
  have dids: "distinct (map bil_Id (db_bills s2))" using ids by (simp add: ids_ok_def)
  note S = settle_bills_Inr [OF st dids sub' db uns]
  have s3: "db_bills s3 = upd_where (\<lambda>b. b \<in> set bills) settled (db_bills s2)" "db_accounts s3 = db_accounts s2"
    and sums: "av = (\<Sum>b\<leftarrow>bills. bil_Available b)" "h = (\<Sum>b\<leftarrow>bills. bil_Hold b)"
    using S by (auto dest: same_tables_simps)
  note B = settled_balances [OF dist sub db s3]
  have "ids_ok bil_Id (db_bills s3)" unfolding s3 using ids by (intro ids_ok_upd) simp_all
  then have wf3: "books_wf s3" using wf2 by (simp add: books_wf_def s3)
  have "find (\<lambda>a. acc_UserId a = uid \<and> acc_Currency a = c) (db_accounts s3) = Some a"
    using L a same_tables_simps(1) [OF t2] s3(2) by simp
  then have mem: "a \<in> set (db_accounts s3)" "acc_UserId a = uid" "acc_Currency a = c"
    using find_account by blast+
  note U = UpdateAccount_Inr [OF up wf3 mem(1), simplified]
  have "avail_of P s' = avail_of P s \<and> hold_of P s' = hold_of P s" for P
    using L same_tables_balances(1,2) [OF t2] by (simp add: U(1,2) B mem sums)
  moreover have "length (unsettled_of uid c s') = length (unsettled_of uid c s) - 100"
  proof -
    have "unsettled_of uid c s' = unsettled_of uid c s3" by (simp add: unsettled_of_def U(4))
    moreover have "unsettled_of uid c s2 = unsettled_of uid c s"
      using L same_tables_simps(2) [OF t2] by (simp add: unsettled_of_def)
    ultimately show ?thesis using count_unsettled [OF ids sub db s3(1)] by (simp add: bills min_def)
  qed
  ultimately show ?thesis using U(3) by blast
qed

lemma no_unsettled:
  assumes "ExecuteBill_tx F uid c s = (Inr (u, False), s')" and "books_wf (s :: 'd::linordered_idom db)" and "room s 1"
  shows "unsettled_of uid c s = []"
proof -
  obtain account s1 bills s2 where
      l: "lock_account F uid c s = (Inr account, s1)"
      and g: "GetUnsettledBillsByUserId F uid c s1 = (Inr bills, s2)" and "bills = []"
    using assms(1) by (auto simp: ExecuteBill_tx_def bindS_Inr split: if_splits option.splits)
  note L = lock_account_Inr [OF l assms(2,3)]
  have "take 100 (sort_key bil_Id (unsettled_of uid c s1)) = []"
    using query_Inr [OF g [unfolded GetUnsettledBillsByUserId_def]] \<open>bills = []\<close> by (simp only: unsettled_of_def)
  then have "length (sort_key bil_Id (unsettled_of uid c s1)) = 0" by simp
  then have "unsettled_of uid c s1 = []" by (simp only: length_sort length_0_conv)
  then show ?thesis using L by (simp add: unsettled_of_def)
qed

subsection \<open>Adding a bill, holding a balance\<close>

definition bill_row :: "'d db \<Rightarrow> 'd bill \<Rightarrow> 'd bill" where
  "bill_row s b = b\<lparr>bil_Id := of_nat (length (db_bills s)) + 1\<rparr>"

lemma AddBills_one:
  assumes "AddBills F [b] s = (Inr u, s')"
  shows "same_tables (s\<lparr>db_bills := db_bills s @ [bill_row s b]\<rparr>) s'"
  using exec_Inr [of F _ s u s'] assms by (simp add: AddBills_def bill_row_def)

lemma add_bill_balances:
  assumes "same_tables (s\<lparr>db_bills := db_bills s @ [bill_row s (b :: 'd::linordered_idom bill)]\<rparr>) s'"
    and "books_wf s" and "room s 1"
  shows "avail_of P s' = avail_of P s +
      (if \<not> bil_Settled b \<and> P (bil_UserId b, bil_Currency b) then bil_Available b else 0)"
    and "hold_of P s' = hold_of P s +
      (if \<not> bil_Settled b \<and> P (bil_UserId b, bil_Currency b) then bil_Hold b else 0)"
    and "books_wf s'"
proof -
  note e = same_tables_simps [OF assms(1), simplified]
  have r: "bil_Settled (bill_row s b) = bil_Settled b" "bil_UserId (bill_row s b) = bil_UserId b"
    "bil_Currency (bill_row s b) = bil_Currency b" "bil_Available (bill_row s b) = bil_Available b"
    "bil_Hold (bill_row s b) = bil_Hold b"
    by (simp_all add: bill_row_def)
  show "avail_of P s' = avail_of P s +
      (if \<not> bil_Settled b \<and> P (bil_UserId b, bil_Currency b) then bil_Available b else 0)"
    by (simp add: avail_of_def e r)
  show "hold_of P s' = hold_of P s +
      (if \<not> bil_Settled b \<and> P (bil_UserId b, bil_Currency b) then bil_Hold b else 0)"
    by (simp add: hold_of_def e r)
  have "ids_ok bil_Id (db_bills s @ [bill_row s b])"
    using assms(2,3) by (intro ids_ok_append) (simp_all add: books_wf_def room_def bill_row_def)
  then show "books_wf s'" using assms(2) by (simp add: books_wf_def e)
qed

lemma HoldBalance_Inr:
  assumes "HoldBalance F uid c (sz :: 'd::linordered_idom) ty s = (Inr u, s')" and "books_wf s" and "room s 1"
  shows "0 < sz" and "\<exists>a\<in>set (db_accounts s). acc_UserId a = uid \<and> acc_Currency a = c \<and> sz \<le> acc_Available a"
    and "avail_of P s' = avail_of P s - (if P (uid, c) then sz else 0)"
    and "hold_of P s' = hold_of P s + (if P (uid, c) then sz else 0)"
    and "books_wf s'" and "db_orders s' = db_orders s" and "db_fills s' = db_fills s"
    and "db_products s' = db_products s"
proof -
  define b where "b = \<lparr>bil_Id = 0, bil_UserId = uid, bil_Currency = c, bil_Available = - sz, bil_Hold = sz,
    bil_Type = ty, bil_Settled = True, bil_Notes = []\<rparr>"
  have pos: "0 < sz" using assms(1) by (auto simp: HoldBalance_def split: if_splits)
  obtain found s1 where g: "GetAccountForUpdate F uid c s = (Inr found, s1)"
    and r: "(case found of None \<Rightarrow> failS (Err ''no enough'')
        | Some account \<Rightarrow> if \<not> sz \<le> acc_Available account then failS (Err (''no enough '' @ c))
            else bindS (AddBills F [b]) (\<lambda>_. UpdateAccount F (account\<lparr>acc_Available := acc_Available account - sz,
                   acc_Hold := acc_Hold account + sz\<rparr>))) s1 = (Inr u, s')"
  proof -
    have "\<not> sz \<le> 0" using pos by simp
    then show thesis
      using assms(1) that unfolding HoldBalance_def if_not_P [OF \<open>\<not> sz \<le> 0\<close>] bindS_Inr b_def by blast
  qed
  note q = query_Inr [OF g [unfolded GetAccountForUpdate_def]]
  then have t1: "same_tables s s1" by simp
  obtain a where a: "found = Some a" "sz \<le> acc_Available a"
    using r by (cases found) (auto split: if_splits)
  then have mem: "a \<in> set (db_accounts s)" "acc_UserId a = uid" "acc_Currency a = c"
    using q find_account [of uid c "db_accounts s" a] by simp_all
  show "0 < sz" by (rule pos)
  show "\<exists>a\<in>set (db_accounts s). acc_UserId a = uid \<and> acc_Currency a = c \<and> sz \<le> acc_Available a"
    using mem a(2) by blast
  obtain u1 s2 where ab: "AddBills F [b] s1 = (Inr u1, s2)"
    and up: "UpdateAccount F (a\<lparr>acc_Available := acc_Available a - sz, acc_Hold := acc_Hold a + sz\<rparr>) s2 = (Inr u, s')"
    using r a by (auto simp: bindS_Inr)
  note t2 = AddBills_one [OF ab]
  have wf1: "books_wf s1" "room s1 1"
    using assms(2,3) same_tables_balances(3) [OF t1] same_tables_simps [OF t1] by (simp_all add: room_def)
  note B = add_bill_balances [OF t2 wf1]
  note e2 = same_tables_simps [OF t2, simplified] and e1 = same_tables_simps [OF t1]
  have mem2: "a \<in> set (db_accounts s2)" using mem(1) by (simp add: e1 e2)
  note U = UpdateAccount_Inr [OF up B(3) mem2, simplified]
  show "avail_of P s' = avail_of P s - (if P (uid, c) then sz else 0)"
    using same_tables_balances(1) [OF t1] by (simp add: U(1) B(1) mem b_def)
  show "hold_of P s' = hold_of P s + (if P (uid, c) then sz else 0)"
    using same_tables_balances(2) [OF t1] by (simp add: U(2) B(2) mem b_def)
  show "books_wf s'" by (rule U(3))
  note eU = same_tables_simps [OF exec_Inr [OF up [unfolded UpdateAccount_def]], simplified]
  show "db_orders s' = db_orders s" "db_fills s' = db_fills s" "db_products s' = db_products s"
    by (simp_all only: eU e1 e2)
qed

lemma same_unsettled: "same_tables s s' \<Longrightarrow> unsettled_of uid c s' = unsettled_of uid c s"
  by (simp add: unsettled_of_def same_tables_simps)

lemma same_room: "same_tables s s' \<Longrightarrow> room s' n = room s n"
  by (simp add: room_def same_tables_simps)

lemma ExecuteBill_tx_result:
  assumes "with_tx F (ExecuteBill_tx F uid c) s = (Inr u, s')" and "books_wf (s :: 'd::linordered_idom db)" and "room s 1"
  shows "(\<forall>P. avail_of P s' = avail_of P s \<and> hold_of P s' = hold_of P s) \<and> books_wf s' \<and>
    length (unsettled_of uid c s') = length (unsettled_of uid c s) - 100"
  using assms(1)
proof (cases rule: with_tx_Inr)
  case (rolled_back s0 s1)
  have "books_wf s0" "room s0 1"
    using assms(2,3) same_tables_balances(3) [OF rolled_back(1)] same_room [OF rolled_back(1)] by simp_all
  with no_unsettled rolled_back(2) have "unsettled_of uid c s0 = []" by blast
  then show ?thesis
    using same_tables_balances [OF rolled_back(3)] same_unsettled [OF rolled_back(3)] same_unsettled [OF rolled_back(1)] assms(2)
    by simp
next
  case (commit s0 s1)
  have "books_wf s0" "room s0 1"
    using assms(2,3) same_tables_balances(3) [OF commit(1)] same_room [OF commit(1)] by simp_all
  from ExecuteBill_commit [OF commit(2) this] show ?thesis
    using same_tables_balances [OF commit(3)] same_tables_balances [OF commit(1)]
      same_unsettled [OF commit(3)] same_unsettled [OF commit(1)] by simp
qed

subsection \<open>Properties\<close>

text \<open>C18. Settling bills moves money without creating or destroying any, whatever statement fails: if
  \<open>ExecuteBill\<close> returns an error, no table has changed; if it succeeds, the available and the held
  amount of every user in every currency (accounts and unsettled bills together) are what they were,
  and up to 100 of the user's bills in the currency have been settled.\<close>

theorem ExecuteBill_conserves:
  assumes "books_wf (s :: 'd::linordered_idom db)" and "room s 1"
  shows "case ExecuteBill F uid c s of
      (Inl e, s') \<Rightarrow> same_tables s s'
    | (Inr u, s') \<Rightarrow> (\<forall>P. avail_of P s' = avail_of P s \<and> hold_of P s' = hold_of P s) \<and> books_wf s' \<and>
        length (unsettled_of uid c s') = length (unsettled_of uid c s) - 100"
proof (cases "ExecuteBill F uid c s")
  case (Pair r s')
  show ?thesis
  proof (cases r)
    case (Inl e)
    then show ?thesis using Pair with_tx_Inl [of F "ExecuteBill_tx F uid c" s] by (simp add: ExecuteBill_def)
  next
    case (Inr u)
    have tx: "with_tx F (ExecuteBill_tx F uid c) s = (Inr u, s')" using Pair Inr by (simp add: ExecuteBill_def)
    have "(\<forall>P. avail_of P s' = avail_of P s \<and> hold_of P s' = hold_of P s) \<and> books_wf s' \<and>
        length (unsettled_of uid c s') = length (unsettled_of uid c s) - 100"
      using tx assms by (rule ExecuteBill_tx_result)
    then show ?thesis using Pair Inr by simp
  qed
qed

end
