(* ===== verification/Orders.thy ===== *)
theory Orders
  imports Accounts Book_Invariant
begin

text \<open>
  The order service (\<open>service/order_service.go\<close>): placing an order, which checks and rounds its amounts
  and holds its cost in the same transaction that stores it, and settling an order's fills into
  delayed bills. \<open>PlaceOrder\<close> takes the id that the snowflake node generates as a parameter.
\<close>

subsection \<open>Placing orders\<close>

text \<open>The switch on the order type: the size, price and funds of the order, or an error.\<close>

definition order_amounts :: "'d::linordered_idom decimal_pkg \<Rightarrow> 'd product \<Rightarrow> order_type \<Rightarrow> side \<Rightarrow> 'd \<Rightarrow> 'd \<Rightarrow> 'd \<Rightarrow>
    failure + ('d \<times> 'd \<times> 'd)" where
  "order_amounts D product orderType s sz price funds =
     (if orderType = OrderTypeLimit then
        let sz = dec_round D sz (prd_BaseScale product) in
        if sz < prd_BaseMinSize product then Inl (Err ''size less than base min size'')
        else let price = dec_round D price (prd_QuoteScale product) in
          bindR (if 0 < prd_QuoteIncrement product
                 then (case dec_mod D price (prd_QuoteIncrement product) of
                     None \<Rightarrow> Inl (Crash (Panic ''decimal division by 0''))
                   | Some m \<Rightarrow> if m \<noteq> 0 then Inl (Err ''price must be a multiple of quote_increment'') else Inr ())
                 else Inr ()) (\<lambda>_.
          if price \<le> 0 then Inl (Err ''price must be positive for limit orders'')
          else Inr (sz, price, sz * price))
      else if orderType = OrderTypeMarket then
        if s = SideBuy then
          let funds = dec_round D funds (prd_QuoteScale product) in
          if funds < prd_QuoteMinSize product then Inl (Err ''funds less than quote min size'')
          else Inr (0, 0, funds)
        else
          let sz = dec_round D sz (prd_BaseScale product) in
          if sz < prd_BaseMinSize product then Inl (Err ''size less than base min size'')
          else Inr (sz, 0, 0)
      else Inl (Err ''unknown order type''))"

definition hold_amount :: "'d product \<Rightarrow> side \<Rightarrow> 'd \<Rightarrow> 'd \<Rightarrow> string \<times> 'd" where
  "hold_amount product s sz funds =
     (if s = SideBuy then (prd_QuoteCurrency product, funds) else (prd_BaseCurrency product, sz))"

definition liftS :: "failure + 'a \<Rightarrow> ('d, 'a) dbop" where
  "liftS r = (case r of Inl e \<Rightarrow> failS e | Inr x \<Rightarrow> returnS x)"

text \<open>The transaction of \<open>PlaceOrder\<close>: hold the balance, check the shard, store the order.\<close>

definition PlaceOrder_tx :: "faults \<Rightarrow> u64 \<Rightarrow> string \<Rightarrow> 'd::linordered_idom \<Rightarrow> 'd order \<Rightarrow> ('d, 'd order \<times> bool) dbop" where
  "PlaceOrder_tx F newId holdCurrency holdSize order =
     bindS (HoldBalance F (ord_UserId order) holdCurrency holdSize BillTypeTrade) (\<lambda>_.
       let order = order\<lparr>ord_Id := newId\<rparr> in
       if GetTableIndexByOrderId (ord_Id order) \<noteq> GetTableIndexByUserId (ord_UserId order)
       then failS (Crash (Fatal ''shard index mismatch''))
       else bindS (AddOrder F order) (\<lambda>_. returnS (order, True)))"

definition PlaceOrder :: "faults \<Rightarrow> 'd::linordered_idom decimal_pkg \<Rightarrow> u64 \<Rightarrow> u64 \<Rightarrow> string \<Rightarrow> string \<Rightarrow> string \<Rightarrow>
    order_type \<Rightarrow> time_in_force \<Rightarrow> side \<Rightarrow> 'd \<Rightarrow> 'd \<Rightarrow> 'd \<Rightarrow> ('d, 'd order) dbop" where
  "PlaceOrder F D newId userId userLevel clientOid productId orderType timeInForce s sz price funds =
     bindS (GetProductById F productId) (\<lambda>p.
     case p of None \<Rightarrow> failS (Err ''product not found'')
     | Some product \<Rightarrow>
       bindS (GetFeeRateByUserLevel F userLevel) (\<lambda>r.
       case r of None \<Rightarrow> failS (Err ''feeRate not found'')
       | Some feeRate \<Rightarrow>
         if fee_MakerFeeRatio feeRate < 0 \<or> 1 \<le> fee_MakerFeeRatio feeRate then failS (Err ''invalid feeRate.MakerFeeRatio'')
         else if fee_TakerFeeRatio feeRate < 0 \<or> 1 \<le> fee_TakerFeeRatio feeRate then failS (Err ''invalid feeRate.TakerFeeRatio'')
         else bindS (liftS (order_amounts D product orderType s sz price funds)) (\<lambda>(sz, price, funds).
           let (holdCurrency, holdSize) = hold_amount product s sz funds;
               order = \<lparr>ord_Id = 0, ord_ProductId = prd_Id product, ord_UserId = userId, ord_ClientOid = clientOid,
                 ord_Size = sz, ord_Funds = funds, ord_FilledSize = 0, ord_ExecutedValue = 0, ord_Price = price,
                 ord_FillFees = 0, ord_Type = orderType, ord_Side = s, ord_TimeInForce = timeInForce,
                 ord_TakerFeeRatio = fee_TakerFeeRatio feeRate, ord_MakerFeeRatio = fee_MakerFeeRatio feeRate,
                 ord_Status = OrderStatusNew, ord_Settled = False\<rparr>
           in with_tx F (PlaceOrder_tx F newId holdCurrency holdSize order))))"

subsection \<open>Settling fills\<close>

definition fill_notes :: "'d fill \<Rightarrow> string" where
  "fill_notes fill = u64_string (fil_OrderId fill) @ ''-'' @ u64_string (fil_Id fill)"

definition liquidity_fee :: "'d::times fill \<Rightarrow> 'd order \<Rightarrow> 'd \<Rightarrow> failure + 'd" where
  "liquidity_fee fill order amount =
     (if fil_Liquidity fill = ''T'' then Inr (amount * ord_TakerFeeRatio order)
      else if fil_Liquidity fill = ''M'' then Inr (amount * ord_MakerFeeRatio order)
      else Inl (Err (''invalid fill liquidity value: '' @ fil_Liquidity fill)))"

text \<open>One trade of the order.\<close>

definition settle_trade :: "faults \<Rightarrow> 'd::linordered_idom product \<Rightarrow> 'd order \<Rightarrow> 'd fill \<Rightarrow> ('d, 'd order \<times> 'd fill) dbop" where
  "settle_trade F product order fill =
     (let executedValue = fil_Size fill * fil_Price fill;
          order = order\<lparr>ord_ExecutedValue := ord_ExecutedValue order + executedValue,
                        ord_FilledSize := ord_FilledSize order + fil_Size fill\<rparr>;
          uid = ord_UserId order; base = prd_BaseCurrency product; quote = prd_QuoteCurrency product;
          notes = fill_notes fill
      in if ord_Side order = SideBuy then
        bindS (liftS (liquidity_fee fill order (fil_Size fill))) (\<lambda>fee.
        bindS (AddDelayBill F uid base (fil_Size fill - fee) 0 BillTypeTrade notes) (\<lambda>_.
        bindS (AddDelayBill F uid quote 0 (- executedValue) BillTypeTrade notes) (\<lambda>_.
        bindS (if 0 < fee then AddDelayBill F 0 base fee 0 BillTypeTrade notes else returnS ()) (\<lambda>_.
          returnS (order\<lparr>ord_FillFees := ord_FillFees order + fee\<rparr>, fill\<lparr>fil_Settled := True, fil_Fee := fee\<rparr>)))))
      else
        bindS (liftS (liquidity_fee fill order executedValue)) (\<lambda>fee.
        bindS (AddDelayBill F uid base 0 (- fil_Size fill) BillTypeTrade notes) (\<lambda>_.
        bindS (AddDelayBill F uid quote (executedValue - fee) 0 BillTypeTrade notes) (\<lambda>_.
        bindS (if 0 < fee then AddDelayBill F 0 quote fee 0 BillTypeTrade notes else returnS ()) (\<lambda>_.
          returnS (order\<lparr>ord_FillFees := ord_FillFees order + fee\<rparr>, fill\<lparr>fil_Settled := True, fil_Fee := fee\<rparr>))))))"

text \<open>The fill that closes the order: its final status, and the release of what is still held.\<close>

definition close_order :: "faults \<Rightarrow> 'd::linordered_idom product \<Rightarrow> 'd order \<Rightarrow> 'd fill \<Rightarrow> ('d, 'd order) dbop" where
  "close_order F product order fill =
     bindS (liftS (if fil_DoneReason fill = DoneReasonCancelled
            then Inr (if ord_FilledSize order = 0 then OrderStatusCancelled else OrderStatusPartial)
            else if fil_DoneReason fill = DoneReasonFilled then Inr OrderStatusFilled
            else Inl (Crash (Fatal (''unknown done reason: '' @ fil_DoneReason fill))))) (\<lambda>status.
     let uid = ord_UserId order; notes = fill_notes fill;
         remainingFunds = ord_Funds order - ord_ExecutedValue order;
         remainingSize = ord_Size order - ord_FilledSize order
     in bindS (if ord_Side order = SideBuy
            then (if 0 < remainingFunds
                  then AddDelayBill F uid (prd_QuoteCurrency product) remainingFunds (- remainingFunds) BillTypeTrade notes
                  else returnS ())
            else (if 0 < remainingSize
                  then AddDelayBill F uid (prd_BaseCurrency product) remainingSize (- remainingSize) BillTypeTrade notes
                  else returnS ())) (\<lambda>_.
          returnS (order\<lparr>ord_Status := status\<rparr>)))"

text \<open>The loop over the fills; the closing fill ends it, and what follows stays unsettled.\<close>

fun execute_fills :: "faults \<Rightarrow> 'd::linordered_idom product \<Rightarrow> 'd order \<Rightarrow> 'd fill list \<Rightarrow> ('d, 'd order \<times> 'd fill list) dbop" where
  "execute_fills F product order [] = returnS (order, [])"
| "execute_fills F product order (fill # fills) =
     (if \<not> fil_Done fill then
        bindS (settle_trade F product order fill) (\<lambda>(order', fill').
        bindS (execute_fills F product order' fills) (\<lambda>(order'', fills').
          returnS (order'', fill' # fills')))
      else
        bindS (close_order F product order fill) (\<lambda>order'.
          returnS (order', fill\<lparr>fil_Settled := True\<rparr> # fills)))"

fun update_fills :: "faults \<Rightarrow> 'd fill list \<Rightarrow> ('d, unit) dbop" where
  "update_fills F [] = returnS ()"
| "update_fills F (fill # fills) = bindS (UpdateFill F fill) (\<lambda>_. update_fills F fills)"

definition final_status :: "order_status \<Rightarrow> bool" where
  "final_status st \<longleftrightarrow> st = OrderStatusFilled \<or> st = OrderStatusCancelled \<or> st = OrderStatusPartial"

definition ExecuteFill_tx :: "faults \<Rightarrow> u64 \<Rightarrow> ('d::linordered_idom, unit \<times> bool) dbop" where
  "ExecuteFill_tx F orderId =
     bindS (GetOrderByIdForUpdate F orderId) (\<lambda>r.
     case r of None \<Rightarrow> failS (Err ''order not found'')
     | Some order \<Rightarrow>
       if final_status (ord_Status order) then failS (Err ''order status invalid'')
       else bindS (GetProductById F (ord_ProductId order)) (\<lambda>p.
       case p of None \<Rightarrow> failS (Err ''product not found'')
       | Some product \<Rightarrow>
         bindS (GetUnsettledFillsByOrderId F orderId) (\<lambda>fills.
         if fills = [] then returnS ((), False)
         else bindS (execute_fills F product order fills) (\<lambda>(order', fills').
           bindS (UpdateOrder F order') (\<lambda>_.
           bindS (update_fills F fills') (\<lambda>_. returnS ((), True)))))))"

definition ExecuteFill :: "faults \<Rightarrow> u64 \<Rightarrow> ('d::linordered_idom, unit) dbop" where
  "ExecuteFill F orderId = with_tx F (ExecuteFill_tx F orderId)"

end
