(* ===== verification/Settlement.thy ===== *)
theory Settlement
  imports Orders
begin

text \<open>
  What settling fills does to the money of the exchange: each trade gives the order's user what was
  bought or the proceeds, less the fee, which user 0 gets; it takes what was sold or the cost from
  what the order holds; and the closing fill releases the rest of the hold. Everything is written as
  unsettled bills, so the lemmas speak of accounts and unsettled bills together.
\<close>

text \<open>The amounts among \<open>xs\<close> whose key satisfies \<open>P\<close>.\<close>

definition amts :: "(u64 \<times> string \<Rightarrow> bool) \<Rightarrow> ((u64 \<times> string) \<times> 'd::linordered_idom) list \<Rightarrow> 'd" where
  "amts P xs = (\<Sum>(k, x)\<leftarrow>xs. if P k then x else 0)"

lemma amts_simps [simp]:
  "amts P [] = 0" "amts P ((k, x) # xs) = (if P k then x else 0) + amts P xs"
  "amts P (xs @ ys) = amts P xs + amts P ys"
  by (simp_all add: amts_def)

definition bills_added :: "'d::linordered_idom db \<Rightarrow> 'd db \<Rightarrow> nat \<Rightarrow> ((u64 \<times> string) \<times> 'd) list \<Rightarrow>
    ((u64 \<times> string) \<times> 'd) list \<Rightarrow> bool" where
  "bills_added s s' n avail hold \<longleftrightarrow> books_wf s' \<and> db_accounts s' = db_accounts s \<and>
     length (db_bills s') \<le> length (db_bills s) + n \<and> db_orders s' = db_orders s \<and> db_fills s' = db_fills s \<and>
     (\<forall>P. avail_of P s' = avail_of P s + amts P avail \<and> hold_of P s' = hold_of P s + amts P hold)"

lemma bills_added_refl: "books_wf s \<Longrightarrow> bills_added s s 0 [] []"
  by (simp add: bills_added_def)

lemma bills_added_trans:
  "bills_added s s1 n av1 h1 \<Longrightarrow> bills_added s1 s2 m av2 h2 \<Longrightarrow> bills_added s s2 (n + m) (av1 @ av2) (h1 @ h2)"
  by (auto simp: bills_added_def)

lemma bills_added_room: "bills_added s s' n av h \<Longrightarrow> room s (n + m) \<Longrightarrow> room s' m"
  by (auto simp: bills_added_def room_def)

lemma bills_added_wf: "bills_added s s' n av h \<Longrightarrow> books_wf s'"
  by (simp add: bills_added_def)

lemma bills_added_weaken: "bills_added s s' n av h \<Longrightarrow> n \<le> m \<Longrightarrow> bills_added s s' m av h"
  by (auto simp: bills_added_def)

lemma AddDelayBill_Inr:
  assumes "AddDelayBill F uid c av h ty notes s = (Inr u, s')" and "books_wf s" and "room s (Suc n)"
  shows "bills_added s s' 1 [((uid, c), av)] [((uid, c), h)]"
proof -
  note t = AddBills_one [OF assms(1) [unfolded AddDelayBill_def]]
  have "room s 1" using assms(3) by (simp add: room_def)
  note B = add_bill_balances [OF t assms(2) this]
  note e = same_tables_simps [OF t, simplified]
  show ?thesis using B(3) by (simp add: bills_added_def e B(1,2))
qed

lemma when_bill:
  assumes "(if b then AddDelayBill F uid c av h ty notes else returnS ()) s = (Inr u, s')"
    and "books_wf s" and "room s (Suc n)"
  shows "bills_added s s' 1 [((uid, c), if b then av else 0)] [((uid, c), if b then h else 0)]"
proof (cases b)
  case True
  then show ?thesis using AddDelayBill_Inr assms by fastforce
next
  case False
  then show ?thesis using assms by (simp add: bills_added_def)
qed

lemma liftS_Inr [simp]: "liftS r s = (Inr x, s') \<longleftrightarrow> r = Inr x \<and> s' = s"
  by (cases r) (auto simp: liftS_def)

text \<open>The currency an order holds and the one it receives, and what a trade takes and gives.\<close>

definition hold_cur :: "'d product \<Rightarrow> 'd order \<Rightarrow> string" where
  "hold_cur product order = (if ord_Side order = SideBuy then prd_QuoteCurrency product else prd_BaseCurrency product)"

definition recv_cur :: "'d product \<Rightarrow> 'd order \<Rightarrow> string" where
  "recv_cur product order = (if ord_Side order = SideBuy then prd_BaseCurrency product else prd_QuoteCurrency product)"

definition fill_value :: "'d::linordered_idom fill \<Rightarrow> 'd" where
  "fill_value f = fil_Size f * fil_Price f"

definition spent :: "'d::linordered_idom order \<Rightarrow> 'd fill \<Rightarrow> 'd" where
  "spent order f = (if ord_Side order = SideBuy then fill_value f else fil_Size f)"

definition gained :: "'d::linordered_idom order \<Rightarrow> 'd fill \<Rightarrow> 'd" where
  "gained order f = (if ord_Side order = SideBuy then fil_Size f else fill_value f)"

text \<open>What the order still holds.\<close>

definition still_held :: "'d::linordered_idom order \<Rightarrow> 'd" where
  "still_held order = (if ord_Side order = SideBuy then ord_Funds order - ord_ExecutedValue order
     else ord_Size order - ord_FilledSize order)"

text \<open>What settling leaves alone.\<close>

definition same_order :: "'d order \<Rightarrow> 'd order \<Rightarrow> bool" where
  "same_order a b \<longleftrightarrow> ord_Id a = ord_Id b \<and> ord_ProductId a = ord_ProductId b \<and> ord_UserId a = ord_UserId b \<and>
     ord_Size a = ord_Size b \<and> ord_Funds a = ord_Funds b \<and> ord_Side a = ord_Side b \<and> ord_Type a = ord_Type b \<and>
     ord_Price a = ord_Price b \<and> ord_TakerFeeRatio a = ord_TakerFeeRatio b \<and> ord_MakerFeeRatio a = ord_MakerFeeRatio b"

definition fees_ok :: "'d::linordered_idom order \<Rightarrow> bool" where
  "fees_ok order \<longleftrightarrow> 0 \<le> ord_TakerFeeRatio order \<and> 0 \<le> ord_MakerFeeRatio order"

definition fill_ok :: "'d::linordered_idom fill \<Rightarrow> bool" where
  "fill_ok f \<longleftrightarrow> 0 \<le> fil_Size f \<and> 0 \<le> fil_Price f"

lemma liquidity_fee_nonneg:
  "liquidity_fee fill order amount = Inr fee \<Longrightarrow> 0 \<le> amount \<Longrightarrow> fees_ok order \<Longrightarrow> 0 \<le> fee"
  by (auto simp: liquidity_fee_def fees_ok_def split: if_splits)

lemma liquidity_fee_cong:
  "ord_TakerFeeRatio a = ord_TakerFeeRatio b \<Longrightarrow> ord_MakerFeeRatio a = ord_MakerFeeRatio b \<Longrightarrow>
    liquidity_fee fill a amount = liquidity_fee fill b amount"
  by (simp add: liquidity_fee_def)

text \<open>One trade.\<close>

definition trade_bills :: "'d::linordered_idom product \<Rightarrow> 'd order \<Rightarrow> 'd fill \<Rightarrow> 'd \<Rightarrow> ((u64 \<times> string) \<times> 'd) list" where
  "trade_bills product order f fee =
     [((ord_UserId order, recv_cur product order), gained order f - fee), ((0, recv_cur product order), fee)]"

lemma three_bills:
  assumes "AddDelayBill F u1 c1 av1 h1 BillTypeTrade ns s = (Inr x, s1)"
    and "AddDelayBill F u2 c2 av2 h2 BillTypeTrade ns s1 = (Inr y, s2)"
    and "(if 0 < fee then AddDelayBill F u3 c3 fee 0 BillTypeTrade ns else returnS ()) s2 = (Inr z, s')"
    and "books_wf s" and "room s (Suc (Suc (Suc n)))" and "0 \<le> fee"
  shows "bills_added s s' 3 [((u1, c1), av1), ((u2, c2), av2), ((u3, c3), fee)] [((u1, c1), h1), ((u2, c2), h2)]"
proof -
  have b1: "bills_added s s1 1 [((u1, c1), av1)] [((u1, c1), h1)]"
    using AddDelayBill_Inr [OF assms(1,4), of "Suc (Suc n)"] assms(5) by simp
  have b2: "bills_added s1 s2 1 [((u2, c2), av2)] [((u2, c2), h2)]"
    using AddDelayBill_Inr [OF assms(2) bills_added_wf [OF b1], of "Suc n"] bills_added_room [OF b1, of "Suc (Suc n)"] assms(5)
    by simp
  note b12 = bills_added_trans [OF b1 b2]
  have b3: "bills_added s2 s' 1 [((u3, c3), if 0 < fee then fee else 0)] [((u3, c3), if 0 < fee then 0 else 0)]"
    using when_bill [OF assms(3) bills_added_wf [OF b2], of n] bills_added_room [OF b12, of "Suc n"] assms(5)
    by simp
  have "fee = (if 0 < fee then fee else 0)" using assms(6) by simp
  then show ?thesis
    using bills_added_trans [OF b12 b3] by (auto simp: bills_added_def numeral_3_eq_3)
qed

text \<open>One trade: the user gets the gain less the fee, user 0 the fee, and the hold shrinks by what the
  trade cost.\<close>

definition traded_order :: "'d::linordered_idom order \<Rightarrow> 'd fill \<Rightarrow> 'd \<Rightarrow> 'd order" where
  "traded_order order f fee = order\<lparr>ord_ExecutedValue := ord_ExecutedValue order + fill_value f,
     ord_FilledSize := ord_FilledSize order + fil_Size f, ord_FillFees := ord_FillFees order + fee\<rparr>"

lemma traded_order_simps [simp]:
  "ord_ExecutedValue (traded_order order f fee) = ord_ExecutedValue order + fill_value f"
  "ord_FilledSize (traded_order order f fee) = ord_FilledSize order + fil_Size f"
  "ord_Status (traded_order order f fee) = ord_Status order"
  "same_order (traded_order order f fee) order"
  by (simp_all add: traded_order_def same_order_def)

lemma liquidity_fee_upd [simp]:
  "liquidity_fee fill (order\<lparr>ord_ExecutedValue := v, ord_FilledSize := z\<rparr>) amount = liquidity_fee fill order amount"
  by (simp add: liquidity_fee_def)

lemma settle_trade_buy:
  "ord_Side order = SideBuy \<Longrightarrow> settle_trade F product order fill =
    bindS (liftS (liquidity_fee fill order (fil_Size fill))) (\<lambda>fee.
    bindS (AddDelayBill F (ord_UserId order) (prd_BaseCurrency product) (fil_Size fill - fee) 0 BillTypeTrade (fill_notes fill)) (\<lambda>_.
    bindS (AddDelayBill F (ord_UserId order) (prd_QuoteCurrency product) 0 (- fill_value fill) BillTypeTrade (fill_notes fill)) (\<lambda>_.
    bindS (if 0 < fee then AddDelayBill F 0 (prd_BaseCurrency product) fee 0 BillTypeTrade (fill_notes fill) else returnS ()) (\<lambda>_.
      returnS (traded_order order fill fee, fill\<lparr>fil_Settled := True, fil_Fee := fee\<rparr>)))))"
  by (simp add: settle_trade_def Let_def traded_order_def fill_value_def)

lemma settle_trade_sell:
  "ord_Side order \<noteq> SideBuy \<Longrightarrow> settle_trade F product order fill =
    bindS (liftS (liquidity_fee fill order (fill_value fill))) (\<lambda>fee.
    bindS (AddDelayBill F (ord_UserId order) (prd_BaseCurrency product) 0 (- fil_Size fill) BillTypeTrade (fill_notes fill)) (\<lambda>_.
    bindS (AddDelayBill F (ord_UserId order) (prd_QuoteCurrency product) (fill_value fill - fee) 0 BillTypeTrade (fill_notes fill)) (\<lambda>_.
    bindS (if 0 < fee then AddDelayBill F 0 (prd_QuoteCurrency product) fee 0 BillTypeTrade (fill_notes fill) else returnS ()) (\<lambda>_.
      returnS (traded_order order fill fee, fill\<lparr>fil_Settled := True, fil_Fee := fee\<rparr>)))))"
  by (simp add: settle_trade_def Let_def traded_order_def fill_value_def)

lemma settle_trade_Inr:
  assumes "settle_trade F product order fill s = (Inr (order', fill'), s')"
    and "books_wf s" and "room s (Suc (Suc (Suc n)))" and "fees_ok order" and "fill_ok fill"
  obtains fee av h where "0 \<le> fee" and "bills_added s s' 3 av h"
    and "\<And>P. amts P av = amts P [((ord_UserId order, recv_cur product order), gained order fill - fee), ((0, recv_cur product order), fee)]"
    and "\<And>P. amts P h = amts P [((ord_UserId order, hold_cur product order), - spent order fill)]"
    and "order' = traded_order order fill fee" and "fill' = fill\<lparr>fil_Settled := True, fil_Fee := fee\<rparr>"
proof (cases "ord_Side order = SideBuy")
  case True
  obtain fee x1 s1 x2 s2 x3 where fee: "liquidity_fee fill order (fil_Size fill) = Inr fee"
    and b: "AddDelayBill F (ord_UserId order) (prd_BaseCurrency product) (fil_Size fill - fee) 0 BillTypeTrade (fill_notes fill) s = (Inr x1, s1)"
      "AddDelayBill F (ord_UserId order) (prd_QuoteCurrency product) 0 (- fill_value fill) BillTypeTrade (fill_notes fill) s1 = (Inr x2, s2)"
      "(if 0 < fee then AddDelayBill F 0 (prd_BaseCurrency product) fee 0 BillTypeTrade (fill_notes fill) else returnS ()) s2 = (Inr x3, s')"
    and r: "order' = traded_order order fill fee" "fill' = fill\<lparr>fil_Settled := True, fil_Fee := fee\<rparr>"
    using assms(1) unfolding settle_trade_buy [OF True] bindS_Inr liftS_Inr returnS_Inr prod.inject by blast
  have nn: "0 \<le> fee" using liquidity_fee_nonneg [OF fee] assms(4,5) by (simp add: fill_ok_def)
  show thesis
    by (rule that [OF nn three_bills [OF b assms(2,3) nn] _ _ r])
      (use True in \<open>simp_all add: recv_cur_def hold_cur_def gained_def spent_def\<close>)
next
  case False
  obtain fee x1 s1 x2 s2 x3 where fee: "liquidity_fee fill order (fill_value fill) = Inr fee"
    and b: "AddDelayBill F (ord_UserId order) (prd_BaseCurrency product) 0 (- fil_Size fill) BillTypeTrade (fill_notes fill) s = (Inr x1, s1)"
      "AddDelayBill F (ord_UserId order) (prd_QuoteCurrency product) (fill_value fill - fee) 0 BillTypeTrade (fill_notes fill) s1 = (Inr x2, s2)"
      "(if 0 < fee then AddDelayBill F 0 (prd_QuoteCurrency product) fee 0 BillTypeTrade (fill_notes fill) else returnS ()) s2 = (Inr x3, s')"
    and r: "order' = traded_order order fill fee" "fill' = fill\<lparr>fil_Settled := True, fil_Fee := fee\<rparr>"
    using assms(1) unfolding settle_trade_sell [OF False] bindS_Inr liftS_Inr returnS_Inr prod.inject by blast
  have nn: "0 \<le> fee" using liquidity_fee_nonneg [OF fee] assms(4,5) by (simp add: fill_ok_def fill_value_def)
  show thesis
    by (rule that [OF nn three_bills [OF b assms(2,3) nn] _ _ r])
      (use False in \<open>simp_all add: recv_cur_def hold_cur_def gained_def spent_def\<close>)
qed

text \<open>The closing fill moves what is still held back to the available balance.\<close>

lemma close_order_Inr:
  assumes "close_order F product order fill s = (Inr order', s')" and "books_wf s" and "room s (Suc n)"
  shows "\<exists>av h. bills_added s s' 1 av h \<and>
    (\<forall>P. amts P av = amts P [((ord_UserId order, hold_cur product order), max 0 (still_held order))]) \<and>
    (\<forall>P. amts P h = amts P [((ord_UserId order, hold_cur product order), - max 0 (still_held order))])"
    and "same_order order' order" and "final_status (ord_Status order')"
    and "ord_ExecutedValue order' = ord_ExecutedValue order" and "ord_FilledSize order' = ord_FilledSize order"
    and "ord_Status order' = (if fil_DoneReason fill = DoneReasonFilled then OrderStatusFilled
      else if ord_FilledSize order = 0 then OrderStatusCancelled else OrderStatusPartial)"
proof -
  define cur where "cur = hold_cur product order"
  define amount where "amount = still_held order"
  obtain status where st: "status = (if fil_DoneReason fill = DoneReasonFilled then OrderStatusFilled
      else if ord_FilledSize order = 0 then OrderStatusCancelled else OrderStatusPartial)"
    and o': "order' = order\<lparr>ord_Status := status\<rparr>"
    and b: "(if 0 < amount then AddDelayBill F (ord_UserId order) cur amount (- amount) BillTypeTrade (fill_notes fill) else returnS ()) s = (Inr (), s')"
    using assms(1)
    by (cases "ord_Side order = SideBuy"; cases "fil_DoneReason fill = DoneReasonFilled")
      (auto simp: close_order_def Let_def bindS_Inr cur_def amount_def hold_cur_def still_held_def split: if_splits)
  note B = when_bill [OF b assms(2,3)]
  then show "\<exists>av h. bills_added s s' 1 av h \<and>
    (\<forall>P. amts P av = amts P [((ord_UserId order, hold_cur product order), max 0 (still_held order))]) \<and>
    (\<forall>P. amts P h = amts P [((ord_UserId order, hold_cur product order), - max 0 (still_held order))])"
    by (intro exI conjI) (assumption, auto simp: cur_def amount_def max_def)
  show "same_order order' order" "ord_ExecutedValue order' = ord_ExecutedValue order" "ord_FilledSize order' = ord_FilledSize order"
    by (simp_all add: o' same_order_def)
  show "final_status (ord_Status order')" by (simp add: o' st final_status_def)
  show "ord_Status order' = (if fil_DoneReason fill = DoneReasonFilled then OrderStatusFilled
      else if ord_FilledSize order = 0 then OrderStatusCancelled else OrderStatusPartial)"
    by (simp add: o' st)
qed

subsection \<open>All fills of an order\<close>

definition traded :: "'d fill list \<Rightarrow> 'd fill list" where
  "traded fs = takeWhile (\<lambda>f. \<not> fil_Done f) fs"

definition closed :: "'d fill list \<Rightarrow> bool" where
  "closed fs \<longleftrightarrow> list_ex fil_Done fs"

lemma traded_simps [simp]:
  "traded [] = []" "traded (f # fs) = (if fil_Done f then [] else f # traded fs)"
  "closed [] = False" "closed (f # fs) = (fil_Done f \<or> closed fs)"
  by (simp_all add: traded_def closed_def)

definition all_spent :: "'d::linordered_idom order \<Rightarrow> 'd fill list \<Rightarrow> 'd" where
  "all_spent order fs = (\<Sum>f\<leftarrow>traded fs. spent order f)"

definition all_gained :: "'d::linordered_idom order \<Rightarrow> 'd fill list \<Rightarrow> 'd" where
  "all_gained order fs = (\<Sum>f\<leftarrow>traded fs. gained order f)"

text \<open>What the closing fill releases, if there is one.\<close>

definition released :: "'d::linordered_idom order \<Rightarrow> 'd fill list \<Rightarrow> 'd" where
  "released order fs = (if closed fs then max 0 (still_held order - all_spent order fs) else 0)"

lemma same_order_funs:
  assumes "same_order a b"
  shows "recv_cur product a = recv_cur product b" "hold_cur product a = hold_cur product b"
    "spent a f = spent b f" "gained a f = gained b f" "ord_UserId a = ord_UserId b" "fees_ok a = fees_ok b"
  using assms by (simp_all add: same_order_def recv_cur_def hold_cur_def spent_def gained_def fees_ok_def)

lemma same_order_trans: "same_order a b \<Longrightarrow> same_order b c \<Longrightarrow> same_order a c"
  by (simp add: same_order_def)

lemma still_held_traded: "still_held (traded_order order f fee) = still_held order - spent order f"
  by (simp add: still_held_def traded_order_def spent_def)

lemma all_traded:
  "all_spent (traded_order order f fee) fs = all_spent order fs"
  "all_gained (traded_order order f fee) fs = all_gained order fs"
  by (simp_all add: all_spent_def all_gained_def same_order_funs [OF traded_order_simps(4)])

lemma all_Cons:
  "\<not> fil_Done f \<Longrightarrow> all_spent order (f # fs) = spent order f + all_spent order fs"
  "\<not> fil_Done f \<Longrightarrow> all_gained order (f # fs) = gained order f + all_gained order fs"
  "\<not> fil_Done f \<Longrightarrow> released (traded_order order f fee) fs = released order (f # fs)"
  by (simp_all add: all_spent_def all_gained_def released_def still_held_traded all_traded
      same_order_funs [OF traded_order_simps(4)] algebra_simps)

text \<open>What a successful settlement is: the money it moves, by user and currency.\<close>

definition settlement :: "'d::linordered_idom product \<Rightarrow> 'd order \<Rightarrow> 'd fill list \<Rightarrow> 'd order \<Rightarrow>
    ((u64 \<times> string) \<times> 'd) list \<Rightarrow> ((u64 \<times> string) \<times> 'd) list \<Rightarrow> bool" where
  "settlement product order fs order' av h \<longleftrightarrow>
     (\<forall>c. amts (\<lambda>k. snd k = c) av =
        (if c = recv_cur product order then all_gained order fs else 0) +
        (if c = hold_cur product order then released order fs else 0)) \<and>
     (\<forall>P. amts P h = (if P (ord_UserId order, hold_cur product order)
        then - (all_spent order fs + released order fs) else 0)) \<and>
     same_order order' order \<and>
     ord_ExecutedValue order' = ord_ExecutedValue order + (\<Sum>f\<leftarrow>traded fs. fill_value f) \<and>
     ord_FilledSize order' = ord_FilledSize order + (\<Sum>f\<leftarrow>traded fs. fil_Size f) \<and>
     (if closed fs then final_status (ord_Status order') else ord_Status order' = ord_Status order)"

lemma execute_fills_Inr:
  assumes "execute_fills F product order fs s = (Inr (order', fs'), s')"
    and "books_wf s" and "room s (3 * length fs + n)" and "fees_ok order" and "list_all fill_ok fs"
  shows "\<exists>av h. bills_added s s' (3 * length fs) av h \<and> settlement product order fs order' av h"
  using assms
proof (induction fs arbitrary: order order' fs' s)
  case Nil
  then have "order' = order" "s' = s" by simp_all
  moreover have "settlement product order [] order [] []"
    by (simp add: settlement_def all_spent_def all_gained_def released_def same_order_def)
  ultimately show ?case using bills_added_refl [OF Nil.prems(2)] by auto
next
  case (Cons f fs)
  show ?case
  proof (cases "fil_Done f")
    case False
    then obtain o1 f1 s1 fs1 where t: "settle_trade F product order f s = (Inr (o1, f1), s1)"
      and r: "execute_fills F product o1 fs s1 = (Inr (order', fs1), s')"
      using Cons.prems(1) by (auto simp: bindS_Inr)
    have "3 * length (f # fs) + n = Suc (Suc (Suc (3 * length fs + n)))" by simp
    then have room3: "room s (Suc (Suc (Suc (3 * length fs + n))))" using Cons.prems(3) by (simp only:)
    have fok: "fill_ok f" "list_all fill_ok fs" using Cons.prems(5) by simp_all
    obtain fee av1 h1 where T: "bills_added s s1 3 av1 h1"
        "\<And>P. amts P av1 = amts P [((ord_UserId order, recv_cur product order), gained order f - fee), ((0, recv_cur product order), fee)]"
        "\<And>P. amts P h1 = amts P [((ord_UserId order, hold_cur product order), - spent order f)]"
        "o1 = traded_order order f fee"
      using settle_trade_Inr [OF t Cons.prems(2) room3 Cons.prems(4) fok(1)] by metis
    note so = same_order_funs [OF traded_order_simps(4)]
    obtain av2 h2 where IH: "bills_added s1 s' (3 * length fs) av2 h2" "settlement product o1 fs order' av2 h2"
      using Cons.IH [OF r bills_added_wf [OF T(1)] _ _ fok(2)] bills_added_room [OF T(1), of "3 * length fs + n"]
        room3 Cons.prems(4) T(4) by (auto simp: so numeral_3_eq_3)
    have "settlement product order (f # fs) order' (av1 @ av2) (h1 @ h2)"
      using IH(2) False unfolding settlement_def T(4)
      by (auto simp: so T(2,3) all_traded all_Cons same_order_trans [OF _ traded_order_simps(4)] algebra_simps)
    moreover have "bills_added s s' (3 * length (f # fs)) (av1 @ av2) (h1 @ h2)"
      using bills_added_trans [OF T(1) IH(1)] by (simp add: algebra_simps)
    ultimately show ?thesis by blast
  next
    case True
    then have c: "close_order F product order f s = (Inr order', s')"
      using Cons.prems(1) by (auto simp: bindS_Inr)
    have "3 * length (f # fs) + n = Suc (3 * length fs + n + 2)" by simp
    then have room1: "room s (Suc (3 * length fs + n + 2))" using Cons.prems(3) by (simp only:)
    note C = close_order_Inr [OF c Cons.prems(2) room1]
    from C(1) obtain av h where B: "bills_added s s' 1 av h"
        "\<And>P. amts P av = amts P [((ord_UserId order, hold_cur product order), max 0 (still_held order))]"
        "\<And>P. amts P h = amts P [((ord_UserId order, hold_cur product order), - max 0 (still_held order))]"
      by blast
    have "settlement product order (f # fs) order' av h"
      using True C(2-5) by (auto simp: settlement_def B(2,3) all_spent_def all_gained_def released_def)
    moreover have "bills_added s s' (3 * length (f # fs)) av h"
      using bills_added_weaken [OF B(1)] by simp
    ultimately show ?thesis by blast
  qed
qed

subsection \<open>The fills are marked\<close>

text \<open>The fills a settlement handles: the trades up to the closing fill, and the closing fill.\<close>

fun handled :: "'d fill list \<Rightarrow> 'd fill list" where
  "handled [] = []"
| "handled (f # fs) = (if fil_Done f then [f] else f # handled fs)"

lemma execute_fills_marks:
  "execute_fills F product order fs s = (Inr (order', fs'), s') \<Longrightarrow>
    map fil_Id fs' = map fil_Id fs \<and>
    (\<exists>k. k = length (handled fs) \<and> list_all fil_Settled (take k fs') \<and> drop k fs' = drop k fs)"
proof (induction fs arbitrary: order fs' s)
  case (Cons f fs)
  show ?case
  proof (cases "fil_Done f")
    case False
    then obtain o1 f1 s1 fs1 where t: "settle_trade F product order f s = (Inr (o1, f1), s1)"
      and r: "execute_fills F product o1 fs s1 = (Inr (order', fs1), s')" and fs': "fs' = f1 # fs1"
      using Cons.prems by (auto simp: bindS_Inr)
    have "fil_Id f1 = fil_Id f \<and> fil_Settled f1"
      using t by (cases "ord_Side order = SideBuy") (auto simp: settle_trade_buy settle_trade_sell bindS_Inr)
    with Cons.IH [OF r] False show ?thesis by (simp add: fs')
  next
    case True
    with Cons.prems show ?thesis by (auto simp: bindS_Inr)
  qed
qed simp

definition write_fill :: "'d fill \<Rightarrow> 'd fill list \<Rightarrow> 'd fill list" where
  "write_fill x rows = upd_where (\<lambda>r. fil_Id r = fil_Id x) (\<lambda>_. x) rows"

lemma update_fills_Inr:
  "update_fills F fs s = (Inr u, s') \<Longrightarrow> same_tables (s\<lparr>db_fills := fold write_fill fs (db_fills s)\<rparr>) s'"
proof (induction fs arbitrary: s)
  case (Cons f fs)
  then obtain x s1 where "UpdateFill F f s = (Inr x, s1)" and r: "update_fills F fs s1 = (Inr u, s')"
    by (auto simp: bindS_Inr)
  then have t: "same_tables (s\<lparr>db_fills := write_fill f (db_fills s)\<rparr>) s1"
    using exec_Inr by (fastforce simp: UpdateFill_def write_fill_def)
  then have "same_tables (s\<lparr>db_fills := fold write_fill (f # fs) (db_fills s)\<rparr>) (s1\<lparr>db_fills := fold write_fill fs (db_fills s1)\<rparr>)"
    by (cases s) (auto simp: same_tables_def)
  then show ?case using Cons.IH [OF r] by (rule same_tables_trans)
qed simp

lemma write_fill_mem: "r \<in> set (write_fill x rows) \<Longrightarrow> r = x \<or> r \<in> set rows \<and> fil_Id r \<noteq> fil_Id x"
  by (auto simp: write_fill_def upd_where_def split: if_splits)

lemma fold_write_mem:
  "r \<in> set (fold write_fill fs rows) \<Longrightarrow> r \<in> set fs \<or> r \<in> set rows \<and> fil_Id r \<notin> fil_Id ` set fs"
proof (induction fs arbitrary: rows)
  case (Cons x fs)
  then have "r \<in> set fs \<or> r \<in> set (write_fill x rows) \<and> fil_Id r \<notin> fil_Id ` set fs" by simp
  then show ?case using write_fill_mem by fastforce
qed simp

lemma handled_settled:
  assumes "map fil_Id fs' = map fil_Id fs" and "distinct (map fil_Id fs)"
    and "list_all fil_Settled (take (length (handled fs)) fs')"
    and "r \<in> set (fold write_fill fs' rows)" and "f \<in> set (handled fs)" and "fil_Id r = fil_Id f"
  shows "fil_Settled r"
proof -
  define k where "k = length (handled fs)"
  have take: "handled fs = take k fs" unfolding k_def by (induction fs) auto
  have "map fil_Id (take k fs') = map fil_Id (handled fs)" using assms(1) by (simp add: take take_map [symmetric])
  then have "fil_Id f \<in> fil_Id ` set (take k fs')" using assms(5) by (metis image_eqI image_set)
  then obtain f' where f': "f' \<in> set (take k fs')" "fil_Id f' = fil_Id f" by auto
  then have in_fs': "f' \<in> set fs'" by (meson in_set_takeD)
  then have "r \<in> set fs'" using fold_write_mem [OF assms(4)] f'(2) assms(6) by force
  moreover have "distinct (map fil_Id fs')" using assms(1,2) by simp
  ultimately have "r = f'" using in_fs' f'(2) assms(6) distinct_id_eq by metis
  then show ?thesis using f'(1) assms(3) by (simp add: k_def list_all_iff)
qed

subsection \<open>Order tables\<close>

text \<open>Every order is in the table of its id, which is the table of its user; ids identify orders.\<close>

definition orders_wf :: "'d::linordered_idom db \<Rightarrow> bool" where
  "orders_wf s \<longleftrightarrow> (\<forall>i. distinct (map ord_Id (db_orders s i)) \<and>
     (\<forall>r\<in>set (db_orders s i). GetTableIndexByOrderId (ord_Id r) = i \<and> GetTableIndexByUserId (ord_UserId r) = i \<and> fees_ok r))"

definition fills_wf :: "'d::linordered_idom db \<Rightarrow> bool" where
  "fills_wf s \<longleftrightarrow> distinct (map fil_Id (db_fills s)) \<and> list_all fill_ok (db_fills s)"

definition the_order :: "'d db \<Rightarrow> u64 \<Rightarrow> 'd order option" where
  "the_order s oid = find (\<lambda>r. ord_Id r = oid) (db_orders s (GetTableIndexByOrderId oid))"

lemma the_order_mem:
  "the_order s oid = Some r \<Longrightarrow> r \<in> set (db_orders s (GetTableIndexByOrderId oid)) \<and> ord_Id r = oid"
  by (auto simp: the_order_def find_Some_iff)

lemma find_upd_id:
  "find (\<lambda>r. k r = i) rows = Some old \<Longrightarrow> k x = i \<Longrightarrow>
    find (\<lambda>r. k r = i) (upd_where (\<lambda>r. k r = k x) (\<lambda>_. x) rows) = Some x"
  by (induction rows) (auto simp: upd_where_def split: if_splits)

lemma UpdateOrder_Inr:
  assumes "UpdateOrder F order' s = (Inr u, s')" and wf: "orders_wf s" and o: "the_order s oid = Some order"
    and same: "same_order order' order"
  shows "the_order s' oid = Some order'" and "orders_wf s'" and "db_fills s' = db_fills s"
    and "db_accounts s' = db_accounts s" and "db_bills s' = db_bills s"
proof -
  note mem = the_order_mem [OF o]
  define i where "i = GetTableIndexByOrderId oid"
  have ids: "ord_Id order' = oid" "ord_UserId order' = ord_UserId order" "fees_ok order' = fees_ok order"
    using same mem by (simp_all add: same_order_def fees_ok_def)
  have ui: "GetTableIndexByUserId (ord_UserId order') = i"
    using wf mem by (auto simp: orders_wf_def i_def ids)
  have t: "same_tables (s\<lparr>db_orders := (db_orders s)(i := upd_where (\<lambda>r. ord_Id r = ord_Id order') (\<lambda>_. order') (db_orders s i))\<rparr>) s'"
    using exec_Inr [OF assms(1) [unfolded UpdateOrder_def]] by (simp add: Let_def ui)
  note e = same_tables_simps [OF t, simplified]
  show "db_fills s' = db_fills s" "db_accounts s' = db_accounts s" "db_bills s' = db_bills s" by (simp_all only: e)
  have f: "find (\<lambda>r. ord_Id r = oid) (db_orders s i) = Some order" using o by (simp add: the_order_def i_def)
  show "the_order s' oid = Some order'"
    using find_upd_id [OF f ids(1)] unfolding the_order_def i_def [symmetric] e(3) by simp
  have rows: "map ord_Id (upd_where (\<lambda>r. ord_Id r = ord_Id order') (\<lambda>_. order') (db_orders s i)) = map ord_Id (db_orders s i)"
    by (auto simp: upd_where_def)
  have fee: "fees_ok order'" using wf mem by (auto simp: ids orders_wf_def i_def)
  have r_ok: "GetTableIndexByOrderId (ord_Id r) = i \<and> GetTableIndexByUserId (ord_UserId r) = i \<and> fees_ok r"
    if "r \<in> set (upd_where (\<lambda>r. ord_Id r = ord_Id order') (\<lambda>_. order') (db_orders s i))" for r
  proof -
    have "r = order' \<or> r \<in> set (db_orders s i)" using that by (auto simp: upd_where_def split: if_splits)
    then show ?thesis using wf fee ui ids(1) by (auto simp: orders_wf_def i_def)
  qed
  show "orders_wf s'"
    using wf r_ok rows unfolding orders_wf_def e(3) by (simp add: fun_upd_def)
qed

subsection \<open>Settling an order's fills\<close>

definition pending_fills :: "'d db \<Rightarrow> u64 \<Rightarrow> 'd fill list" where
  "pending_fills s oid = take 100 (sort_key fil_Id (filter (\<lambda>f. \<not> fil_Settled f \<and> fil_OrderId f = oid) (db_fills s)))"

definition the_product :: "'d db \<Rightarrow> string \<Rightarrow> 'd product option" where
  "the_product s i = find (\<lambda>p. prd_Id p = i) (db_products s)"

text \<open>What \<open>ExecuteFill\<close> achieves when it commits.\<close>

definition fills_settled :: "'d::linordered_idom db \<Rightarrow> 'd db \<Rightarrow> u64 \<Rightarrow> 'd order \<Rightarrow> 'd product \<Rightarrow> bool" where
  "fills_settled s s' oid order product \<longleftrightarrow>
     (let fs = pending_fills s oid in
      (\<forall>c. currency_total c s' = currency_total c s +
         (if c = recv_cur product order then all_gained order fs else 0) -
         (if c = hold_cur product order then all_spent order fs else 0)) \<and>
      (\<forall>P. hold_of P s' = hold_of P s -
         (if P (ord_UserId order, hold_cur product order) then all_spent order fs + released order fs else 0)) \<and>
      (\<exists>order'. the_order s' oid = Some order' \<and> same_order order' order \<and>
         ord_ExecutedValue order' = ord_ExecutedValue order + (\<Sum>f\<leftarrow>traded fs. fill_value f) \<and>
         ord_FilledSize order' = ord_FilledSize order + (\<Sum>f\<leftarrow>traded fs. fil_Size f) \<and>
         (if closed fs then final_status (ord_Status order') else ord_Status order' = ord_Status order)) \<and>
      (\<forall>f\<in>set (handled fs). \<forall>r\<in>set (db_fills s'). fil_Id r = fil_Id f \<longrightarrow> fil_Settled r) \<and>
      books_wf s' \<and> orders_wf s' \<and> db_accounts s' = db_accounts s)"

lemma fills_settled_cong:
  assumes "same_tables s0 s" and "same_tables s1 s'" and "fills_settled s s1 oid order product"
  shows "fills_settled s0 s' oid order product"
  using assms(3) same_tables_balances [OF assms(1)] same_tables_balances [OF assms(2)]
    same_tables_simps [OF assms(1)] same_tables_simps [OF assms(2)]
  by (simp add: fills_settled_def pending_fills_def currency_total_def the_order_def orders_wf_def)

lemma ExecuteFill_commit:
  assumes "ExecuteFill_tx F oid s = (Inr (u, True), s')"
    and "books_wf (s :: 'd::linordered_idom db)" and "orders_wf s" and "fills_wf s" and "room s 300"
  obtains order product where "the_order s oid = Some order" and "\<not> final_status (ord_Status order)"
    and "the_product s (ord_ProductId order) = Some product" and "fills_settled s s' oid order product"
proof -
  obtain order s1 product s2 where
      o: "GetOrderByIdForUpdate F oid s = (Inr (Some order), s1)" "\<not> final_status (ord_Status order)"
      and p: "GetProductById F (ord_ProductId order) s1 = (Inr (Some product), s2)"
      and rest: "bindS (GetUnsettledFillsByOrderId F oid) (\<lambda>fills.
         if fills = [] then returnS ((), False)
         else bindS (execute_fills F product order fills) (\<lambda>(order', fills').
           bindS (UpdateOrder F order') (\<lambda>_.
           bindS (update_fills F fills') (\<lambda>_. returnS ((), True))))) s2 = (Inr (u, True), s')"
    using assms(1) unfolding ExecuteFill_tx_def bind_found_Inr if_fail_Inr by blast
  obtain fs s3 where g: "GetUnsettledFillsByOrderId F oid s2 = (Inr fs, s3)"
      and rest2: "bindS (execute_fills F product order fs) (\<lambda>(order', fills').
           bindS (UpdateOrder F order') (\<lambda>_.
           bindS (update_fills F fills') (\<lambda>_. returnS ((), True)))) s3 = (Inr (u, True), s')"
    using rest unfolding bindS_Inr [of "GetUnsettledFillsByOrderId F oid"] by (auto split: if_splits)
  obtain order' fs' s4 x s5 y where
      e: "execute_fills F product order fs s3 = (Inr (order', fs'), s4)"
      and uo: "UpdateOrder F order' s4 = (Inr x, s5)" and uf: "update_fills F fs' s5 = (Inr y, s')"
    using rest2 by (auto simp: bindS_Inr)
  note q1 = query_Inr [OF o(1) [unfolded GetOrderByIdForUpdate_def]]
  note q2 = query_Inr [OF p [unfolded GetProductById_def]]
  note q3 = query_Inr [OF g [unfolded GetUnsettledFillsByOrderId_def]]
  have t: "same_tables s s3" using q1 q2 q3 same_tables_trans by blast
  note es = same_tables_simps [OF t]
  have found: "the_order s oid = Some order" using q1 by (simp add: the_order_def)
  have prod: "the_product s (ord_ProductId order) = Some product"
    using q2 same_tables_simps(7) [of s s1] q1 by (simp add: the_product_def)
  have "db_fills s2 = db_fills s" using same_tables_simps(4) [of s s1] same_tables_simps(4) [of s1 s2] q1 q2 by simp
  then have fs: "fs = pending_fills s oid" using q3 by (simp add: pending_fills_def)
  have len: "3 * length fs \<le> 300" by (simp add: fs pending_fills_def)
  have wf3: "books_wf s3" "orders_wf s3" using assms(2,3) same_tables_balances(3) [OF t] es(3) by (simp_all add: orders_wf_def)
  have room3: "room s3 (3 * length fs + (300 - 3 * length fs))" using assms(5) len es(1,2) by (simp add: room_def)
  have fee: "fees_ok order" using assms(3) the_order_mem [OF found] by (auto simp: orders_wf_def)
  have sub: "set fs \<subseteq> set (db_fills s)"
    unfolding fs pending_fills_def by (auto dest!: in_set_takeD)
  then have fok: "list_all fill_ok fs" using assms(4) by (auto simp: fills_wf_def list_all_iff)
  obtain av h where S: "bills_added s3 s4 (3 * length fs) av h" "settlement product order fs order' av h"
    using execute_fills_Inr [OF e wf3(1) room3 fee fok] by blast
  have so: "same_order order' order" using S(2) by (simp add: settlement_def)
  have s4: "db_orders s4 = db_orders s" "db_fills s4 = db_fills s" "db_accounts s4 = db_accounts s" "books_wf s4"
    using S(1) es by (simp_all add: bills_added_def)
  have o4: "the_order s4 oid = Some order" "orders_wf s4"
    using found assms(3) s4(1) by (simp_all add: the_order_def orders_wf_def)
  note U = UpdateOrder_Inr [OF uo o4(2,1) so]
  have wf5: "books_wf s5" using s4(4) U(4,5) by (simp add: books_wf_def)
  have tf: "same_tables (s5\<lparr>db_fills := fold write_fill fs' (db_fills s5)\<rparr>) s'" by (rule update_fills_Inr [OF uf])
  note ef = same_tables_simps [OF tf, simplified]
  have bal: "avail_of P s' = avail_of P s + amts P av" "hold_of P s' = hold_of P s + amts P h" for P
  proof -
    have "avail_of P s' = avail_of P s4" "hold_of P s' = hold_of P s4"
      by (simp_all add: avail_of_def hold_of_def ef(1,2) U(4,5))
    then show "avail_of P s' = avail_of P s + amts P av" "hold_of P s' = hold_of P s + amts P h"
      using S(1) same_tables_balances(1,2) [OF t] by (simp_all add: bills_added_def)
  qed
  have dist: "distinct (map fil_Id fs)"
  proof -
    have "distinct (map fil_Id (filter (\<lambda>f. \<not> fil_Settled f \<and> fil_OrderId f = oid) (db_fills s)))"
      using assms(4) by (simp add: fills_wf_def distinct_map_filter)
    then show ?thesis
      unfolding fs pending_fills_def by (simp add: take_map [symmetric] distinct_take distinct_map)
  qed
  have marks: "fil_Settled r" if "f \<in> set (handled fs)" "r \<in> set (db_fills s')" "fil_Id r = fil_Id f" for f r
    using execute_fills_marks [OF e] handled_settled [OF _ dist _ _ that(1,3)] that(2) by (auto simp: ef(4))
  have "fills_settled s s' oid order product"
    unfolding fills_settled_def Let_def fs [symmetric]
  proof (intro conjI)
    show "\<forall>c. currency_total c s' = currency_total c s +
         (if c = recv_cur product order then all_gained order fs else 0) -
         (if c = hold_cur product order then all_spent order fs else 0)"
      using S(2) by (auto simp: currency_total_def bal settlement_def)
    show "\<forall>P. hold_of P s' = hold_of P s -
         (if P (ord_UserId order, hold_cur product order) then all_spent order fs + released order fs else 0)"
      using S(2) by (auto simp: bal settlement_def)
    show "\<exists>order'. the_order s' oid = Some order' \<and> same_order order' order \<and>
         ord_ExecutedValue order' = ord_ExecutedValue order + (\<Sum>f\<leftarrow>traded fs. fill_value f) \<and>
         ord_FilledSize order' = ord_FilledSize order + (\<Sum>f\<leftarrow>traded fs. fil_Size f) \<and>
         (if closed fs then final_status (ord_Status order') else ord_Status order' = ord_Status order)"
      using S(2) U(1) ef(3) by (intro exI [of _ order']) (simp add: settlement_def the_order_def)
    show "\<forall>f\<in>set (handled fs). \<forall>r\<in>set (db_fills s'). fil_Id r = fil_Id f \<longrightarrow> fil_Settled r"
      using marks by blast
    show "books_wf s'" using wf5 by (simp add: books_wf_def ef(1,2))
    show "orders_wf s'" using U(2) by (simp add: orders_wf_def ef(3))
    show "db_accounts s' = db_accounts s" by (simp add: ef(1) U(4) s4(3))
  qed
  with found o(2) prod that show thesis by blast
qed

end
