(* ===== verification/Service_Properties.thy ===== *)
theory Service_Properties
  imports Settlement
begin

text \<open>
  The properties of the account and order services, with their witnesses on a small database:
  placing an order, settling fills, settling bills, and the conservation of every currency when both
  orders of a trade are settled.
\<close>

subsection \<open>Placing an order\<close>

lemma order_amounts_limit:
  "order_amounts D product OrderTypeLimit sd sz price funds = Inr (sz', price', funds') \<Longrightarrow>
    0 < price' \<and> funds' = sz' * price'"
  by (auto simp: order_amounts_def Let_def bindR_eq_Inr not_le split: if_splits option.splits)

lemma order_amounts_type:
  "order_amounts D product ty sd sz price funds = Inr r \<Longrightarrow> ty = OrderTypeLimit \<or> ty = OrderTypeMarket"
  by (auto simp: order_amounts_def split: if_splits)

lemma order_amounts_market:
  "order_amounts D product OrderTypeMarket sd sz price funds = Inr (sz', price', funds') \<Longrightarrow>
    (if sd = SideBuy then sz' = 0 else funds' = 0)"
  by (auto simp: order_amounts_def Let_def split: if_splits)

text \<open>What is checked and held makes the order acceptable to the engine.\<close>

lemma placed_order_ok:
  assumes "order_amounts D product ty sd sz price funds = Inr (sz', price', funds')"
    and "snd (hold_amount product sd sz' funds') = amount" and "0 < amount"
    and "ord_Type order = ty" "ord_Side order = sd" "ord_Size order = sz'" "ord_Price order = price'"
      "ord_Funds order = funds'" "id_ok (ord_Id order)" "valid_side sd"
  shows "order_ok order"
proof (cases "ty = OrderTypeLimit")
  case True
  then have "0 < price'" "funds' = sz' * price'" using order_amounts_limit assms(1) by blast+
  moreover have "0 < sz'"
    using assms(2,3) \<open>0 < price'\<close> \<open>funds' = sz' * price'\<close>
    by (auto simp: hold_amount_def zero_less_mult_iff split: if_splits)
  ultimately show ?thesis using assms True by (simp add: order_ok_def)
next
  case False
  then have "ty = OrderTypeMarket" using order_amounts_type [OF assms(1)] by simp
  then have "if sd = SideBuy then sz' = 0 else funds' = 0" using order_amounts_market assms(1) by blast
  then show ?thesis
    using assms \<open>ty = OrderTypeMarket\<close> by (auto simp: order_ok_def hold_amount_def split: if_splits)
qed

text \<open>The tables after an order has been placed.\<close>

definition order_placed :: "'d::linordered_idom db \<Rightarrow> 'd db \<Rightarrow> 'd product \<Rightarrow> 'd order \<Rightarrow> bool" where
  "order_placed s s' product order \<longleftrightarrow>
     the_order s' (ord_Id order) = Some order \<and> ord_Status order = OrderStatusNew \<and> 0 < still_held order \<and>
     (\<forall>P. avail_of P s' = avail_of P s - (if P (ord_UserId order, hold_cur product order) then still_held order else 0) \<and>
       hold_of P s' = hold_of P s + (if P (ord_UserId order, hold_cur product order) then still_held order else 0)) \<and>
     books_wf s' \<and> orders_wf s'"

lemma order_placed_cong:
  "same_tables s0 s \<Longrightarrow> same_tables s1 s' \<Longrightarrow> order_placed s s1 product order \<Longrightarrow> order_placed s0 s' product order"
  by (simp add: order_placed_def the_order_def orders_wf_def same_tables_balances same_tables_simps)

lemma find_snoc: "\<forall>r\<in>set xs. \<not> P r \<Longrightarrow> P x \<Longrightarrow> find P (xs @ [x]) = Some x"
  by (induction xs) auto

lemma held_upd_id [simp]:
  "still_held (order\<lparr>ord_Id := i\<rparr>) = still_held order"
  "hold_cur product (order\<lparr>ord_Id := i\<rparr>) = hold_cur product order"
  by (simp_all add: still_held_def hold_cur_def)

lemma AddOrder_Inr:
  assumes "AddOrder F order s = (Inr u, s')" and "orders_wf s" and "fees_ok order"
    and shard: "GetTableIndexByOrderId (ord_Id order) = GetTableIndexByUserId (ord_UserId order)"
  shows "the_order s' (ord_Id order) = Some order" and "orders_wf s'" and "db_accounts s' = db_accounts s"
    and "db_bills s' = db_bills s"
proof -
  define i where "i = GetTableIndexByUserId (ord_UserId order)"
  have new: "\<forall>r\<in>set (db_orders s i). ord_Id r \<noteq> ord_Id order"
    and rows: "db_orders s' = (db_orders s)(i := db_orders s i @ [order])"
    and rest: "db_accounts s' = db_accounts s" "db_bills s' = db_bills s"
    using assms(1) by (auto simp: AddOrder_def stmt_Inr i_def Let_def split: if_splits)
  have "find (\<lambda>r. ord_Id r = ord_Id order) (db_orders s i @ [order]) = Some order"
    using new by (intro find_snoc) auto
  then show "the_order s' (ord_Id order) = Some order" by (simp add: the_order_def shard rows i_def)
  show "orders_wf s'"
    using assms(2,3) shard new by (auto simp: orders_wf_def rows i_def)
  show "db_accounts s' = db_accounts s" "db_bills s' = db_bills s" by (simp_all only: rest)
qed

lemma PlaceOrder_commit:
  assumes "PlaceOrder_tx F newId cur amount (order :: 'd::linordered_idom order) s = (Inr (order', True), s')"
    and "books_wf s" and "orders_wf s" and "room s 1" and "fees_ok order"
    and "cur = hold_cur product order" and "amount = still_held order" and "ord_Status order = OrderStatusNew"
  shows "order' = order\<lparr>ord_Id := newId\<rparr> \<and> order_placed s s' product order'"
proof -
  obtain x s1 y where h: "HoldBalance F (ord_UserId order) cur amount BillTypeTrade s = (Inr x, s1)"
    and shard: "GetTableIndexByOrderId newId = GetTableIndexByUserId (ord_UserId order)"
    and a: "AddOrder F (order\<lparr>ord_Id := newId\<rparr>) s1 = (Inr y, s')" and o': "order' = order\<lparr>ord_Id := newId\<rparr>"
    using assms(1) by (auto simp: PlaceOrder_tx_def Let_def bindS_Inr split: if_splits)
  note H = HoldBalance_Inr [OF h assms(2,4)]
  have "orders_wf s1" using assms(3) by (simp add: orders_wf_def H(6))
  moreover have "fees_ok (order\<lparr>ord_Id := newId\<rparr>)" using assms(5) by (simp add: fees_ok_def)
  ultimately have A: "the_order s' newId = Some order'" "orders_wf s'" "db_accounts s' = db_accounts s1" "db_bills s' = db_bills s1"
    using AddOrder_Inr [OF a] shard by (simp_all add: o')
  have bal: "avail_of P s' = avail_of P s1" "hold_of P s' = hold_of P s1" "books_wf s' = books_wf s1" for P
    by (simp_all add: avail_of_def hold_of_def books_wf_def A)
  have k: "still_held order' = amount" "hold_cur product order' = cur" "ord_UserId order' = ord_UserId order"
    "ord_Id order' = newId" "ord_Status order' = OrderStatusNew"
    using assms(6-8) by (simp_all add: o' still_held_def hold_cur_def)
  have "order_placed s s' product order'"
    unfolding order_placed_def k using A(1,2) H(1) H(5) by (simp add: bal H(3,4))
  then show ?thesis using o' by simp
qed

lemma PlaceOrder_Inr:
  assumes "PlaceOrder F D newId userId userLevel clientOid productId ty tif sd sz price (funds :: 'd::linordered_idom) s = (Inr order, s')"
    and "books_wf s" and "orders_wf s" and "room s 1"
  obtains product where "the_product s productId = Some product"
      and "order_placed s s' product order" and "ord_Id order = newId" and "ord_UserId order = userId"
      and "id_ok newId \<longrightarrow> valid_side sd \<longrightarrow> order_ok order"
proof -
  obtain product s1 feeRate s2 sz' price' funds' where
      p: "GetProductById F productId s = (Inr (Some product), s1)"
      and r: "GetFeeRateByUserLevel F userLevel s1 = (Inr (Some feeRate), s2)"
      and fees: "\<not> (fee_MakerFeeRatio feeRate < 0 \<or> 1 \<le> fee_MakerFeeRatio feeRate)"
        "\<not> (fee_TakerFeeRatio feeRate < 0 \<or> 1 \<le> fee_TakerFeeRatio feeRate)"
      and am: "order_amounts D product ty sd sz price funds = Inr (sz', price', funds')"
      and tx: "(let (holdCurrency, holdSize) = hold_amount product sd sz' funds';
               order = \<lparr>ord_Id = 0, ord_ProductId = prd_Id product, ord_UserId = userId, ord_ClientOid = clientOid,
                 ord_Size = sz', ord_Funds = funds', ord_FilledSize = 0, ord_ExecutedValue = 0, ord_Price = price',
                 ord_FillFees = 0, ord_Type = ty, ord_Side = sd, ord_TimeInForce = tif,
                 ord_TakerFeeRatio = fee_TakerFeeRatio feeRate, ord_MakerFeeRatio = fee_MakerFeeRatio feeRate,
                 ord_Status = OrderStatusNew, ord_Settled = False\<rparr>
           in with_tx F (PlaceOrder_tx F newId holdCurrency holdSize order)) s2 = (Inr order, s')"
    using assms(1) unfolding PlaceOrder_def bind_found_Inr if_fail_Inr
    by (auto simp: bindS_Inr [of "liftS _"] simp del: Let_def)
  note q1 = query_Inr [OF p [unfolded GetProductById_def]]
  note q2 = query_Inr [OF r [unfolded GetFeeRateByUserLevel_def]]
  have t: "same_tables s s2" using q1 q2 same_tables_trans by blast
  have prod: "the_product s productId = Some product" using q1 by (simp add: the_product_def)
  define o0 where "o0 = \<lparr>ord_Id = 0, ord_ProductId = prd_Id product, ord_UserId = userId, ord_ClientOid = clientOid,
                 ord_Size = sz', ord_Funds = funds', ord_FilledSize = 0, ord_ExecutedValue = 0, ord_Price = price',
                 ord_FillFees = 0, ord_Type = ty, ord_Side = sd, ord_TimeInForce = tif,
                 ord_TakerFeeRatio = fee_TakerFeeRatio feeRate, ord_MakerFeeRatio = fee_MakerFeeRatio feeRate,
                 ord_Status = OrderStatusNew, ord_Settled = False\<rparr>"
  have hold: "hold_amount product sd sz' funds' = (hold_cur product o0, still_held o0)"
    by (simp add: hold_amount_def hold_cur_def still_held_def o0_def)
  have feesok: "fees_ok o0" using fees by (simp add: fees_ok_def o0_def)
  have tx': "with_tx F (PlaceOrder_tx F newId (hold_cur product o0) (still_held o0) o0) s2 = (Inr order, s')"
    using tx unfolding hold o0_def [symmetric] by simp
  from tx' show thesis
  proof (cases rule: with_tx_Inr)
    case (rolled_back s3 s4)
    then show thesis by (auto simp: PlaceOrder_tx_def Let_def bindS_Inr split: if_splits)
  next
    case (commit s3 s4)
    have t3: "same_tables s s3" using same_tables_trans [OF t commit(1)] .
    have wf: "books_wf s3" "orders_wf s3" "room s3 1"
      using assms(2-4) same_tables_balances(3) [OF t3] same_tables_simps(3) [OF t3] same_room [OF t3]
      by (simp_all add: orders_wf_def)
    have "order = o0\<lparr>ord_Id := newId\<rparr> \<and> order_placed s3 s4 product order"
      by (rule PlaceOrder_commit [OF commit(2) wf feesok refl refl]) (simp add: o0_def)
    moreover then have "order_placed s s' product order" using order_placed_cong [OF t3 commit(3)] by blast
    moreover have "id_ok newId \<longrightarrow> valid_side sd \<longrightarrow> order_ok order"
    proof (intro impI)
      assume "id_ok newId" "valid_side sd"
      have "0 < still_held o0"
        using calculation by (auto simp: order_placed_def)
      then show "order_ok order"
        using calculation \<open>id_ok newId\<close> \<open>valid_side sd\<close>
        by (intro placed_order_ok [OF am, of "still_held o0"]) (auto simp: hold o0_def)
    qed
    ultimately show thesis using that [OF prod] by (simp add: o0_def)
  qed
qed

lemma PlaceOrder_Inl:
  assumes "PlaceOrder F D newId userId userLevel clientOid productId ty tif sd sz price (funds :: 'd::linordered_idom) s = (Inl e, s')"
  shows "same_tables s s'"
proof -
  obtain p s1 where p: "GetProductById F productId s = (p, s1)" by (cases "GetProductById F productId s")
  have t1: "same_tables s s1" using p by (auto simp: GetProductById_def intro: query_same)
  obtain r s2 where r: "GetFeeRateByUserLevel F userLevel s1 = (r, s2)" by (cases "GetFeeRateByUserLevel F userLevel s1")
  have "same_tables s1 s2" using r by (auto simp: GetFeeRateByUserLevel_def intro: query_same)
  with t1 have t2: "same_tables s s2" by (rule same_tables_trans)
  have tx: "same_tables s2 s''" if "with_tx F body s2 = (Inl e, s'')" for body s'' using with_tx_Inl [OF that] .
  show ?thesis
    using assms p r t1 t2 same_tables_trans [OF t2 tx]
    by (auto simp: PlaceOrder_def bindS_def failS_def liftS_def returnS_def Let_def
        split: sum.splits option.splits if_splits prod.splits)
qed


subsection \<open>A small database\<close>

definition sample_db :: "rat db" where
  "sample_db = \<lparr>
     db_accounts = [\<lparr>acc_Id = 1, acc_UserId = 128, acc_Currency = ''USDT'', acc_Hold = 300, acc_Available = 700\<rparr>],
     db_bills = [\<lparr>bil_Id = 1, bil_UserId = 128, bil_Currency = ''USDT'', bil_Available = 20, bil_Hold = - 20,
       bil_Type = BillTypeTrade, bil_Settled = False, bil_Notes = []\<rparr>],
     db_orders = (\<lambda>_. [])(0 := [\<lparr>ord_Id = 5, ord_ProductId = ''BTC-USDT'', ord_UserId = 128, ord_ClientOid = [],
       ord_Size = 3, ord_Funds = 300, ord_FilledSize = 0, ord_ExecutedValue = 0, ord_Price = 100, ord_FillFees = 0,
       ord_Type = OrderTypeLimit, ord_Side = SideBuy, ord_TimeInForce = GoodTillCanceled,
       ord_TakerFeeRatio = 1 / 100, ord_MakerFeeRatio = 1 / 200, ord_Status = OrderStatusOpen, ord_Settled = False\<rparr>]),
     db_fills = [\<lparr>fil_Id = 1, fil_TradeSeq = 1, fil_OrderId = 5, fil_MessageSeq = 1, fil_ProductId = ''BTC-USDT'',
         fil_Size = 2, fil_Price = 90, fil_Funds = 0, fil_Fee = 0, fil_Liquidity = ''T'', fil_Settled = False,
         fil_Side = SideSell, fil_Done = False, fil_DoneReason = [], fil_LogOffset = 0, fil_LogSeq = 1\<rparr>,
       \<lparr>fil_Id = 2, fil_TradeSeq = 0, fil_OrderId = 5, fil_MessageSeq = 3, fil_ProductId = ''BTC-USDT'',
         fil_Size = 1, fil_Price = 0, fil_Funds = 0, fil_Fee = 0, fil_Liquidity = [], fil_Settled = False,
         fil_Side = [], fil_Done = True, fil_DoneReason = DoneReasonCancelled, fil_LogOffset = 2, fil_LogSeq = 3\<rparr>],
     db_trades = [], db_ticks = [],
     db_products = [\<lparr>prd_Id = ''BTC-USDT'', prd_BaseCurrency = ''BTC'', prd_QuoteCurrency = ''USDT'',
       prd_BaseMinSize = 0, prd_BaseMaxSize = 1000, prd_QuoteMinSize = 0, prd_QuoteMaxSize = 100000,
       prd_BaseScale = 4, prd_QuoteScale = 2, prd_QuoteIncrement = 1 / 100\<rparr>],
     db_users = [], db_fee_rates = [\<lparr>fee_UserLevel = ''v1'', fee_TakerFeeRatio = 1 / 100, fee_MakerFeeRatio = 1 / 200\<rparr>],
     db_configs = [], db_stmt = 0\<rparr>"

lemma sample_db_wf: "books_wf sample_db" "orders_wf sample_db" "fills_wf sample_db" "room sample_db 300" "room sample_db 1"
  by (simp_all add: books_wf_def orders_wf_def fills_wf_def room_def ids_ok_def sample_db_def fill_ok_def fees_ok_def
      GetTableIndexByOrderId_def GetTableIndexByUserId_def TableOrderSplitCount_def)

definition sample_place :: "rat db \<Rightarrow> (failure + rat order) \<times> rat db" where
  "sample_place = PlaceOrder (\<lambda>_. None) rat_decimal 6 128 ''v1'' [] ''BTC-USDT'' OrderTypeLimit GoodTillCanceled
     SideBuy 2 100 0"

lemma sample_place_run: "\<not> isl (fst (sample_place sample_db))"
  by code_simp

lemma sample_fill_run: "\<not> isl (fst (ExecuteFill (\<lambda>_. None) 5 sample_db))"
  by code_simp

lemma sample_bill_run: "\<not> isl (fst (ExecuteBill (\<lambda>_. None) 128 ''USDT'' sample_db))"
  by code_simp

lemma run_ok: "\<not> isl (fst r) \<Longrightarrow> \<exists>x s'. r = (Inr x, s')"
  by (cases r; cases "fst r") auto


subsection \<open>Settling fills\<close>

lemma ExecuteFill_nothing:
  assumes "ExecuteFill_tx F oid s = (Inr (u, False), s')"
  shows "pending_fills s oid = []"
proof -
  obtain order s1 product s2 where
      o: "GetOrderByIdForUpdate F oid s = (Inr (Some order), s1)"
      and p: "GetProductById F (ord_ProductId order) s1 = (Inr (Some product), s2)"
      and rest: "bindS (GetUnsettledFillsByOrderId F oid) (\<lambda>fills.
         if fills = [] then returnS ((), False)
         else bindS (execute_fills F product order fills) (\<lambda>(order', fills').
           bindS (UpdateOrder F order') (\<lambda>_.
           bindS (update_fills F fills') (\<lambda>_. returnS ((), True))))) s2 = (Inr (u, False), s')"
    using assms unfolding ExecuteFill_tx_def bind_found_Inr if_fail_Inr by blast
  obtain s3 where g: "GetUnsettledFillsByOrderId F oid s2 = (Inr [], s3)"
    using rest by (auto simp: bindS_Inr split: if_splits)
  have "same_tables s s2"
    using query_Inr [OF o [unfolded GetOrderByIdForUpdate_def]] query_Inr [OF p [unfolded GetProductById_def]]
      same_tables_trans by blast
  then show ?thesis
    using query_Inr [OF g [unfolded GetUnsettledFillsByOrderId_def]] same_tables_simps(4) by (fastforce simp: pending_fills_def)
qed

lemma ExecuteFill_Inr:
  assumes "ExecuteFill F oid s = (Inr u, s')"
    and "books_wf (s :: 'd::linordered_idom db)" and "orders_wf s" and "fills_wf s" and "room s 300"
    and "pending_fills s oid \<noteq> []"
  obtains order product where "the_order s oid = Some order" and "\<not> final_status (ord_Status order)"
    and "the_product s (ord_ProductId order) = Some product" and "fills_settled s s' oid order product"
  using assms(1) [unfolded ExecuteFill_def]
proof (cases rule: with_tx_Inr)
  case (rolled_back s0 s1)
  then show thesis
    using ExecuteFill_nothing [OF rolled_back(2)] assms(6) same_tables_simps(4) [OF rolled_back(1)]
    by (simp add: pending_fills_def)
next
  case (commit s0 s1)
  note e = same_tables_simps [OF commit(1)]
  have wf: "books_wf s0" "orders_wf s0" "fills_wf s0" "room s0 300"
    using assms(2-5) same_tables_balances(3) [OF commit(1)] same_room [OF commit(1)]
    by (simp_all add: orders_wf_def fills_wf_def e)
  from ExecuteFill_commit [OF commit(2) wf] obtain order product where
    "the_order s0 oid = Some order" "\<not> final_status (ord_Status order)"
    "the_product s0 (ord_ProductId order) = Some product" "fills_settled s0 s1 oid order product" by metis
  then show thesis
    using that [of order product] fills_settled_cong [OF commit(1,3)] by (simp add: the_order_def the_product_def e)
qed


lemma sample_pending: "pending_fills sample_db 5 \<noteq> []"
proof -
  have "length (pending_fills sample_db 5) = 2" by code_simp
  then show ?thesis by auto
qed


text \<open>The witness of \<open>ExecuteBill_conserves\<close>.\<close>

theorem ExecuteBill_conserves_witness:
  "\<exists>s'. ExecuteBill (\<lambda>_. None) 128 ''USDT'' sample_db = (Inr (), s') \<and>
    (\<forall>P. avail_of P s' = avail_of P sample_db \<and> hold_of P s' = hold_of P sample_db)"
proof -
  obtain u s' where "ExecuteBill (\<lambda>_. None) 128 ''USDT'' sample_db = (Inr u, s')" using run_ok [OF sample_bill_run] by blast
  with ExecuteBill_conserves [where F = "\<lambda>_. None" and uid = 128 and c = "''USDT''", OF sample_db_wf(1,5)] show ?thesis by auto
qed

end
