(* ===== verification/Book_Equiv.thy ===== *)
theory Book_Equiv
  imports Applier
begin

text \<open>
  Two books that hold the same orders, counters and duplicate windows behave alike, whatever their maps
  and trees look like inside. A restored book is such a copy of the book its snapshot was taken of, so
  what the engine does after a restart is what it would have done without one.
\<close>

definition same_book :: "('d::linordered_idom, 'q) env \<Rightarrow> ('d, 'q) order_book \<Rightarrow> ('d, 'q) order_book \<Rightarrow> bool" where
  "same_book E b1 b2 \<longleftrightarrow> abs_book E b1 = abs_book E b2 \<and>
     ob_orderIdWindows b1 = ob_orderIdWindows b2 \<and> ob_product b1 = ob_product b2"

lemma same_book_refl [simp]: "same_book E b b"
  by (simp add: same_book_def)

lemma same_book_sym: "same_book E a b \<Longrightarrow> same_book E b a"
  by (simp add: same_book_def)

lemma same_book_trans: "same_book E a b \<Longrightarrow> same_book E b c \<Longrightarrow> same_book E a c"
  by (simp add: same_book_def)

lemma same_bookD:
  assumes "same_book E b1 b2"
  shows "book_view E b1 = book_view E b2" "ob_logSeq b1 = ob_logSeq b2" "ob_tradeSeq b1 = ob_tradeSeq b2"
    "ob_orderIdWindows b1 = ob_orderIdWindows b2" "ob_product b1 = ob_product b2" "window_of b1 = window_of b2"
  using assms by (simp_all add: same_book_def abs_book_def window_of_def fun_eq_iff)

subsection \<open>What the operations do to the windows\<close>

lemma apply_loop_windows:
  "apply_loop E b taker logs itr = Inr (b', t', l') \<Longrightarrow> ob_orderIdWindows b' = ob_orderIdWindows b"
proof (induction itr arbitrary: b taker logs)
  case (Cons entry itr)
  obtain d where d: "ob_depths b (Opposite (bo_Side taker)) = Some d"
    using Cons.prems by (auto simp: bindR_eq_Inr)
  obtain maker where m: "dp_orders d (snd entry) = Some maker"
    using Cons.prems d by (auto simp: bindR_eq_Inr)
  show ?case
  proof (cases "pricesCross (bo_Side taker) (bo_Price taker) (bo_Price maker)")
    case False
    then show ?thesis using Cons.prems d m by simp
  next
    case True
    obtain t2 sz x y where c: "calcTradeSize E (ob_product b) taker maker = Inr (t2, sz, x, y)"
      using Cons.prems d m True by (auto simp: bindR_eq_Inr)
    show ?thesis
    proof (cases "sz = 0")
      case True
      then show ?thesis using Cons.prems d m \<open>pricesCross _ _ _\<close> c by simp
    next
      case False
      obtain d' m' where r: "decrSize E d (bo_OrderId maker) sz = Inr (d', m')"
        using Cons.prems d m \<open>pricesCross _ _ _\<close> c False by (cases "decrSize E d (bo_OrderId maker) sz") auto
      show ?thesis
        using Cons.prems d m \<open>pricesCross _ _ _\<close> c False r
        by (cases "bo_Size m' = 0"; cases "taker_exhausted t2")
          (auto simp: nextLogSeq_def nextTradeSeq_def Let_def dest!: Cons.IH)
    qed
  qed
qed simp

lemma apply_rest_windows:
  "apply_rest E b taker logs = Inr (b', l') \<Longrightarrow> ob_orderIdWindows b' = ob_orderIdWindows b"
  by (auto simp: apply_rest_def bindR_eq_Inr nextLogSeq_def Let_def split: if_splits)

lemma ApplyOrder_windows:
  assumes "ApplyOrder E b order = Inr (b', logs)" and "put_window b (ord_Id order) = Inr r"
  shows "ob_orderIdWindows b' = ob_orderIdWindows (seen_book r b)"
proof (cases r)
  case (Inl e)
  then show ?thesis using assms by (simp add: ApplyOrder_def seen_book_def)
next
  case (Inr b0)
  then show ?thesis
    using assms
    by (auto simp: ApplyOrder_def seen_book_def bindR_eq_Inr Let_def dest!: apply_loop_windows apply_rest_windows)
qed

lemma CancelOrder_windows:
  assumes "CancelOrder E b order = Inr (b', logs)" and "put_window b (ord_Id order) = Inr r"
  shows "ob_orderIdWindows b' = ob_orderIdWindows (seen_book r b)"
proof -
  have c: "bindR (deref (ob_depths (seen_book r b) (ord_Side order))) (\<lambda>d.
         case dp_orders d (ord_Id order) of
           None \<Rightarrow> Inr (seen_book r b, [])
         | Some bookOrder \<Rightarrow>
             let remainingSize = bo_Size bookOrder in
             (case decrSize E d (ord_Id order) (bo_Size bookOrder) of
                Inl err \<Rightarrow> Inl (Panic err)
              | Inr (d', bookOrder') \<Rightarrow>
                  let (b1, ls) = nextLogSeq ((seen_book r b)\<lparr>ob_depths := (ob_depths (seen_book r b))(ord_Side order \<mapsto> d')\<rparr>)
                  in Inr (b1, [newDoneLog E ls (prd_Id (ob_product b)) bookOrder' remainingSize
                                DoneReasonCancelled]))) = Inr (b', logs)"
    using assms by (simp add: CancelOrder_def Let_def flip: seen_book_def)
  then obtain d where d: "ob_depths (seen_book r b) (ord_Side order) = Some d" by (auto simp: bindR_eq_Inr)
  show ?thesis
  proof (cases "dp_orders d (ord_Id order)")
    case (Some bookOrder)
    then show ?thesis
      using c d by (cases "decrSize E d (ord_Id order) (bo_Size bookOrder)") (auto simp: nextLogSeq_def Let_def)
  qed (use c d in simp)
qed

lemma NullifyOrder_windows:
  assumes "NullifyOrder E b order = Inr (b', logs)" and "put_window b (ord_Id order) = Inr r"
  shows "ob_orderIdWindows b' = ob_orderIdWindows (seen_book r b)"
  using assms by (auto simp: NullifyOrder_def seen_book_def nextLogSeq_def Let_def split: sum.splits)

lemma put_window_same:
  assumes "ob_orderIdWindows b1 = ob_orderIdWindows b2" and "put_window b1 oid = Inr r1" and "put_window b2 oid = Inr r2"
  shows "ob_orderIdWindows (seen_book r1 b1) = ob_orderIdWindows (seen_book r2 b2)"
proof -
  have i: "GetTableIndexByOrderId oid < length (ob_orderIdWindows b2)"
    using assms(3) by (auto simp: put_window_def Let_def split: if_splits)
  then obtain r where "put (ob_orderIdWindows b2 ! GetTableIndexByOrderId oid) oid = Inr r"
    using assms(3) by (auto simp: put_window_def Let_def bindR_eq_Inr)
  then show ?thesis using assms i by (cases r) (auto simp: put_window_def seen_book_def Let_def)
qed

lemma put_window_total:
  assumes "book_inv E b" and "id_ok oid"
  obtains r where "put_window b oid = Inr r"
  using put_window_seen [OF assms] by metis

subsection \<open>Equal books, equal results\<close>

lemma ApplyOrder_same:
  assumes laws: "env_laws E" and inv: "book_inv E b1" "book_inv E b2" and ok: "order_ok order"
    and same: "same_book E b1 b2"
    and a1: "ApplyOrder E b1 order = Inr (b1', l1)" and a2: "ApplyOrder E b2 order = Inr (b2', l2)"
  shows "same_book E b1' b2' \<and> l1 = l2"
proof -
  have id: "id_ok (ord_Id order)" using ok by (simp add: order_ok_def)
  obtain r1 where r1: "put_window b1 (ord_Id order) = Inr r1" using put_window_total [OF inv(1) id] .
  obtain r2 where r2: "put_window b2 (ord_Id order) = Inr r2" using put_window_total [OF inv(2) id] .
  have win: "ob_orderIdWindows b1' = ob_orderIdWindows b2'"
    using ApplyOrder_windows [OF a1 r1] ApplyOrder_windows [OF a2 r2] put_window_same [OF same_bookD(4) [OF same] r1 r2]
    by simp
  show ?thesis
  proof (cases "window_refuses (window_of b1 (ord_Id order)) (ord_Id order)")
    case True
    then have "window_refuses (window_of b2 (ord_Id order)) (ord_Id order)" using same_bookD(6) [OF same] by simp
    then show ?thesis using ApplyOrder_refused [OF inv(1) ok True] ApplyOrder_refused [OF inv(2) ok] a1 a2 same by simp
  next
    case False
    then have F2: "\<not> window_refuses (window_of b2 (ord_Id order)) (ord_Id order)" using same_bookD(6) [OF same] by simp
    obtain c1 k1 where c1: "ApplyOrder E b1 order = Inr (c1, k1)" "ob_product c1 = ob_product b1"
        "spec_apply E (ob_product b1) (taker_of E order) (abs_book E b1) = Inr (abs_book E c1, k1)"
      using ApplyOrder_accepted [OF laws inv(1) ok False] by metis
    obtain c2 k2 where c2: "ApplyOrder E b2 order = Inr (c2, k2)" "ob_product c2 = ob_product b2"
        "spec_apply E (ob_product b2) (taker_of E order) (abs_book E b2) = Inr (abs_book E c2, k2)"
      using ApplyOrder_accepted [OF laws inv(2) ok F2] by metis
    show ?thesis using c1 c2 a1 a2 win same by (simp add: same_book_def)
  qed
qed

lemma CancelOrder_same:
  assumes laws: "env_laws E" and inv: "book_inv E b1" "book_inv E b2" and ok: "order_ok order"
    and same: "same_book E b1 b2"
    and a1: "CancelOrder E b1 order = Inr (b1', l1)" and a2: "CancelOrder E b2 order = Inr (b2', l2)"
  shows "same_book E b1' b2' \<and> l1 = l2"
proof -
  have id: "id_ok (ord_Id order)" "valid_side (ord_Side order)" using ok by (simp_all add: order_ok_def)
  obtain r1 where r1: "put_window b1 (ord_Id order) = Inr r1" using put_window_total [OF inv(1) id(1)] .
  obtain r2 where r2: "put_window b2 (ord_Id order) = Inr r2" using put_window_total [OF inv(2) id(1)] .
  have win: "ob_orderIdWindows b1' = ob_orderIdWindows b2'"
    using CancelOrder_windows [OF a1 r1] CancelOrder_windows [OF a2 r2] put_window_same [OF same_bookD(4) [OF same] r1 r2]
    by simp
  obtain c1 k1 where c1: "CancelOrder E b1 order = Inr (c1, k1)" "ob_product c1 = ob_product b1"
      "spec_cancel E (ob_product b1) order (abs_book E b1) = (abs_book E c1, k1)"
    using CancelOrder_correct [OF laws inv(1) id] by metis
  obtain c2 k2 where c2: "CancelOrder E b2 order = Inr (c2, k2)" "ob_product c2 = ob_product b2"
      "spec_cancel E (ob_product b2) order (abs_book E b2) = (abs_book E c2, k2)"
    using CancelOrder_correct [OF laws inv(2) id] by metis
  show ?thesis using c1 c2 a1 a2 win same by (simp add: same_book_def)
qed

lemma NullifyOrder_same:
  assumes inv: "book_inv E b1" "book_inv E b2" and ok: "order_ok order"
    and same: "same_book E b1 b2"
    and a1: "NullifyOrder E b1 order = Inr (b1', l1)" and a2: "NullifyOrder E b2 order = Inr (b2', l2)"
  shows "same_book E b1' b2' \<and> l1 = l2"
proof -
  have id: "id_ok (ord_Id order)" using ok by (simp add: order_ok_def)
  obtain r1 where r1: "put_window b1 (ord_Id order) = Inr r1" using put_window_total [OF inv(1) id] .
  obtain r2 where r2: "put_window b2 (ord_Id order) = Inr r2" using put_window_total [OF inv(2) id] .
  have win: "ob_orderIdWindows b1' = ob_orderIdWindows b2'"
    using NullifyOrder_windows [OF a1 r1] NullifyOrder_windows [OF a2 r2] put_window_same [OF same_bookD(4) [OF same] r1 r2]
    by simp
  obtain c1 where c1: "NullifyOrder E b1 order = Inr (c1, [newDoneLog E (ob_logSeq b1 + 1) (prd_Id (ob_product b1))
      (newBookOrder order) (ord_Size order) DoneReasonCancelled])" "ob_product c1 = ob_product b1"
      "abs_book E c1 = (abs_book E b1)\<lparr>ab_logSeq := ob_logSeq b1 + 1\<rparr>"
    using NullifyOrder_correct [OF inv(1) id] by metis
  obtain c2 where c2: "NullifyOrder E b2 order = Inr (c2, [newDoneLog E (ob_logSeq b2 + 1) (prd_Id (ob_product b2))
      (newBookOrder order) (ord_Size order) DoneReasonCancelled])" "ob_product c2 = ob_product b2"
      "abs_book E c2 = (abs_book E b2)\<lparr>ab_logSeq := ob_logSeq b2 + 1\<rparr>"
    using NullifyOrder_correct [OF inv(2) id] by metis
  show ?thesis using c1 c2 a1 a2 win same same_bookD(2) [OF same] by (simp add: same_book_def)
qed

lemma checks_same:
  assumes laws: "env_laws E" and inv: "book_inv E b1" "book_inv E b2" and ok: "order_ok order"
    and same: "same_book E b1 b2"
  shows "IsOrderWillNotMatch E b1 order = IsOrderWillNotMatch E b2 order"
    and "IsOrderWillFullMatch E b1 order = IsOrderWillFullMatch E b2 order"
proof -
  note v = same_bookD [OF same]
  show "IsOrderWillNotMatch E b1 order = IsOrderWillNotMatch E b2 order"
    by (simp only: IsOrderWillNotMatch_eq [OF env_lawsD(1) [OF laws] inv(1)]
        IsOrderWillNotMatch_eq [OF env_lawsD(1) [OF laws] inv(2)] v(1))
  obtain taker' makers' trades where
    ml: "match_list E (ob_product b1) (taker_of E order) (book_view E b1 (Opposite (ord_Side order))) = Inr (taker', makers', trades)"
    using match_total [OF laws inv(1) ok] .
  then have ml2: "match_list E (ob_product b2) (taker_of E order) (book_view E b2 (Opposite (ord_Side order))) = Inr (taker', makers', trades)"
    using v(1,5) by simp
  show "IsOrderWillFullMatch E b1 order = IsOrderWillFullMatch E b2 order"
    by (simp only: IsOrderWillFullMatch_eq [OF inv(1) ml] IsOrderWillFullMatch_eq [OF inv(2) ml2])
qed

lemma apply_order_same:
  assumes laws: "env_laws E" and inv: "book_inv E b1" "book_inv E b2" and ok: "order_ok order"
    and same: "same_book E b1 b2"
    and a1: "apply_order E b1 order = Inr (b1', l1)" and a2: "apply_order E b2 order = Inr (b2', l2)"
  shows "same_book E b1' b2' \<and> l1 = l2"
proof -
  have id: "id_ok (ord_Id order)" "valid_side (ord_Side order)" using ok by (simp_all add: order_ok_def)
  note A = ApplyOrder_same [OF laws inv ok same] and C = CancelOrder_same [OF laws inv ok same]
    and N = NullifyOrder_same [OF inv ok same]
  have ioc: ?thesis if tif: "ord_Status order \<noteq> OrderStatusCancelling" "ord_TimeInForce order = ImmediateOrCancel"
  proof -
    obtain c1 k1 m1 where c1: "ApplyOrder E b1 order = Inr (c1, k1)" "CancelOrder E c1 order = Inr (b1', m1)" "l1 = k1 @ m1"
      using a1 tif by (auto simp: apply_order_def bindR_eq_Inr)
    obtain c2 k2 m2 where c2: "ApplyOrder E b2 order = Inr (c2, k2)" "CancelOrder E c2 order = Inr (b2', m2)" "l2 = k2 @ m2"
      using a2 tif by (auto simp: apply_order_def bindR_eq_Inr)
    have i: "book_inv E c1" "book_inv E c2"
      using ApplyOrder_step [OF laws inv(1) ok] ApplyOrder_step [OF laws inv(2) ok] c1(1) c2(1)
      by (auto dest: good_step_inv)
    from A [OF c1(1) c2(1)] have s: "same_book E c1 c2" "k1 = k2" by simp_all
    from CancelOrder_same [OF laws i ok s(1) c1(2) c2(2)] show ?thesis using s(2) c1(3) c2(3) by simp
  qed
  show ?thesis
    using a1 a2 ioc A C N checks_same [OF laws inv ok same] same
    by (fastforce simp: apply_order_def bindR_eq_Inr split: if_splits)
qed

text \<open>Runs: equal books go through equal runs.\<close>

lemma run_orders_same:
  assumes laws: "env_laws E"
  shows "book_inv E b1 \<Longrightarrow> book_inv E b2 \<Longrightarrow> list_all order_ok orders \<Longrightarrow> same_book E b1 b2 \<Longrightarrow>
    run_orders E b1 orders = Inr (b1', l1) \<Longrightarrow> run_orders E b2 orders = Inr (b2', l2) \<Longrightarrow>
    same_book E b1' b2' \<and> l1 = l2"
proof (induction orders arbitrary: b1 b2 l1 l2)
  case (Cons order orders)
  obtain c1 k1 m1 where c1: "apply_order E b1 order = Inr (c1, k1)" "run_orders E c1 orders = Inr (b1', m1)" "l1 = k1 @ m1"
    using Cons.prems(5) by (auto simp: bindR_eq_Inr)
  obtain c2 k2 m2 where c2: "apply_order E b2 order = Inr (c2, k2)" "run_orders E c2 orders = Inr (b2', m2)" "l2 = k2 @ m2"
    using Cons.prems(6) by (auto simp: bindR_eq_Inr)
  have ok: "order_ok order" "list_all order_ok orders" using Cons.prems(3) by simp_all
  have i: "book_inv E c1" "book_inv E c2"
    using apply_order_step [OF laws Cons.prems(1) ok(1)] apply_order_step [OF laws Cons.prems(2) ok(1)] c1(1) c2(1)
    by (auto dest: good_step_inv)
  have s: "same_book E c1 c2" "k1 = k2"
    using apply_order_same [OF laws Cons.prems(1,2) ok(1) Cons.prems(4) c1(1) c2(1)] by simp_all
  show ?case using Cons.IH [OF i ok(2) s(1) c1(2) c2(2)] s(2) c1(3) c2(3) by simp
qed simp

text \<open>A snapshot of a book that is a copy of another, restored into a new book, is a copy again.\<close>

lemma restored_same:
  assumes "env_laws E" and "book_inv E b"
    and "\<And>d. ob_depths b SideSell = Some d \<Longrightarrow> range_of (dp_orders d) sells"
    and "\<And>d. ob_depths b SideBuy = Some d \<Longrightarrow> range_of (dp_orders d) buys"
  obtains snap b' where "Snapshot b sells buys = Inr snap" and "Restore E (NewOrderBook E (ob_product b)) snap = Inr b'"
    and "same_book E b' b" and "book_inv E b'" and "obs_LogSeq snap = ob_logSeq b"
    and "obs_OrderIdWindows snap = ob_orderIdWindows b"
proof -
  obtain snap b' where s: "Snapshot b sells buys = Inr snap" "Restore E (NewOrderBook E (ob_product b)) snap = Inr b'"
      "abs_book E b' = abs_book E b" "ob_orderIdWindows b' = ob_orderIdWindows b" "book_inv E b'" "ob_product b' = ob_product b"
    using snapshot_restore [OF env_lawsD(1) [OF assms(1)] assms(2-4), of "ob_product b"] by blast
  moreover have "obs_LogSeq snap = ob_logSeq b" "obs_OrderIdWindows snap = ob_orderIdWindows b"
    using s(1) by (auto simp: Snapshot_def bindR_eq_Inr)
  ultimately show thesis using that by (simp add: same_book_def)
qed

end
