(* ===== verification/Log_Reader.thy ===== *)
theory Log_Reader
  imports OrderBook
begin

text \<open>
  The reader of the matching log (\<open>matching/kafka_log_reader.go\<close>), which every consumer of the log runs:
  it drops messages whose sequence number it has seen, stops the process on a gap, and passes the rest
  to the observer with their offsets. A message is its Kafka offset and the log that its JSON encodes.
\<close>

type_synonym 'd msg = "int \<times> 'd log"

text \<open>The loop of \<open>Run\<close>: what is delivered, the last sequence number, and how the loop ended (\<open>None\<close>:
  it waits for the next message).\<close>

fun run_reader :: "int \<Rightarrow> 'd msg list \<Rightarrow> 'd msg list \<times> int \<times> fault option" where
  "run_reader lastSeq [] = ([], lastSeq, None)"
| "run_reader lastSeq ((offset, l) # ms) =
     (if GetSeq l \<le> lastSeq then run_reader lastSeq ms
      else if 0 < lastSeq \<and> GetSeq l \<noteq> lastSeq + 1 then ([], lastSeq, Some (Fatal ''non-sequence detected''))
      else (case run_reader (GetSeq l) ms of (ds, r) \<Rightarrow> ((offset, l) # ds, r)))"

definition delivered :: "int \<Rightarrow> 'd msg list \<Rightarrow> 'd log list" where
  "delivered lastSeq ms = map snd (fst (run_reader lastSeq ms))"

lemma run_reader_append:
  "run_reader s xs = (ds, s', None) \<Longrightarrow> run_reader s (xs @ ys) = (case run_reader s' ys of (ds', r) \<Rightarrow> (ds @ ds', r))"
proof (induction s xs arbitrary: ds rule: run_reader.induct)
  case (2 lastSeq offset l ms)
  show ?case
  proof (cases "GetSeq l \<le> lastSeq")
    case True
    then show ?thesis using 2 by simp
  next
    case False
    with "2.prems" have gap: "\<not> (0 < lastSeq \<and> GetSeq l \<noteq> lastSeq + 1)" by (auto split: if_splits)
    obtain ds1 where "run_reader (GetSeq l) ms = (ds1, s', None)" "ds = (offset, l) # ds1"
      using "2.prems" False gap by (auto split: prod.splits)
    with "2.IH"(2) [OF False gap] False gap show ?thesis by (auto split: prod.splits)
  qed
qed simp

text \<open>Nothing is delivered out of order, twice, or after a gap, whatever the messages are.\<close>

lemma run_reader_consec:
  "0 < s \<Longrightarrow> run_reader s ms = (ds, s', r) \<Longrightarrow> consec s (map (GetSeq \<circ> snd) ds) \<and> s' = s + int (length ds)"
proof (induction s ms arbitrary: ds rule: run_reader.induct)
  case (2 lastSeq offset l ms)
  show ?case
  proof (cases "GetSeq l \<le> lastSeq \<or> GetSeq l \<noteq> lastSeq + 1")
    case True
    then show ?thesis using 2 by (auto split: if_splits)
  next
    case False
    then obtain ds1 where "run_reader (GetSeq l) ms = (ds1, s', r)" "ds = (offset, l) # ds1" "GetSeq l = lastSeq + 1"
      using "2.prems" by (auto split: prod.splits)
    with "2.IH"(2) False "2.prems"(1) show ?thesis by auto
  qed
qed simp

lemma run_reader_increasing:
  "run_reader s ms = (ds, s', r) \<Longrightarrow> sorted_wrt (<) (s # map (GetSeq \<circ> snd) ds)"
proof (induction s ms arbitrary: ds rule: run_reader.induct)
  case (2 lastSeq offset l ms)
  show ?case
  proof (cases "GetSeq l \<le> lastSeq")
    case True
    then show ?thesis using 2 by simp
  next
    case False
    show ?thesis
    proof (cases "0 < lastSeq \<and> GetSeq l \<noteq> lastSeq + 1")
      case True
      then show ?thesis using "2.prems" False by simp
    next
      case no_gap: False
      then obtain ds1 where ds1: "run_reader (GetSeq l) ms = (ds1, s', r)" "ds = (offset, l) # ds1"
        using "2.prems" False by (auto split: prod.splits)
      have "sorted_wrt (<) (GetSeq l # map (GetSeq \<circ> snd) ds1)" using "2.IH"(2) [OF False no_gap ds1(1)] .
      moreover have "map (GetSeq \<circ> snd) ds = GetSeq l # map (GetSeq \<circ> snd) ds1" using ds1(2) by simp
      moreover have "lastSeq < GetSeq l" using False by simp
      ultimately show ?thesis by (simp only: sorted_wrt2 [OF transp_on_less])
    qed
  qed
qed simp

lemma run_reader_subset: "set (fst (run_reader s ms)) \<subseteq> set ms"
  by (induction s ms rule: run_reader.induct) (auto split: prod.splits)

text \<open>A batch that starts at or before the number last read: the old part is dropped, the rest is
  delivered.\<close>

lemma run_reader_batch:
  assumes "consec c (map (GetSeq \<circ> snd) ms)" and "c \<le> n" and "0 \<le> c"
  shows "run_reader n ms = (drop (nat (n - c)) ms, max n (c + int (length ms)), None)"
  using assms
proof (induction ms arbitrary: c n)
  case (Cons m ms)
  obtain offset l where m: "m = (offset, l)" by (cases m)
  have seq: "GetSeq l = c + 1" and c: "consec (c + 1) (map (GetSeq \<circ> snd) ms)" using Cons.prems(1) m by (simp_all add: comp_def)
  show ?case
  proof (cases "c = n")
    case True
    with Cons.IH [OF c, of "c + 1"] Cons.prems(3) seq show ?thesis by (simp add: m)
  next
    case False
    then have "nat (n - c) = Suc (nat (n - (c + 1)))" using Cons.prems(2) by simp
    with Cons.IH [OF c, of n] Cons.prems False seq show ?thesis by (simp add: m)
  qed
qed simp

text \<open>The log topic: the offset of a log is its position.\<close>

definition topic :: "'d log list \<Rightarrow> 'd msg list" where
  "topic logs = zip (map int [0..<length logs]) logs"

lemma topic_simps [simp]: "length (topic logs) = length logs" "map snd (topic logs) = logs"
  by (simp_all add: topic_def)

lemma topic_append: "topic (xs @ ys) = topic xs @ zip (map int [length xs..<length xs + length ys]) ys"
proof -
  have "[0..<length xs + length ys] = [0..<length xs] @ [length xs..<length xs + length ys]"
    by (rule upt_add_eq_append) simp
  then show ?thesis by (simp add: topic_def zip_append1)
qed

text \<open>Reading a topic that grows by a batch that starts at or before what has been read.\<close>

lemma read_more:
  assumes "run_reader 0 (topic xs) = (ds, n, None)" and "map snd ds = take (nat n) L"
    and "consec c (map GetSeq ys)" and "0 \<le> c" and "c \<le> n" and "n \<le> int (length L)"
    and "ys = take (length ys) (drop (nat c) L)"
  obtains ds' n' where "run_reader 0 (topic (xs @ ys)) = (ds', n', None)" and "map snd ds' = take (nat n') L"
    and "n' = max n (c + int (length ys))" and "n' \<le> int (length L)"
proof -
  define ms where "ms = zip (map int [length xs..<length xs + length ys]) ys"
  have ms: "map snd ms = ys" "length ms = length ys" by (simp_all add: ms_def)
  have "map GetSeq ys = map (GetSeq \<circ> snd) ms" unfolding ms(1) [symmetric] by simp
  with assms(3) have "consec c (map (GetSeq \<circ> snd) ms)" by simp
  from run_reader_batch [OF this assms(5,4)]
  have r: "run_reader n ms = (drop (nat (n - c)) ms, max n (c + int (length ys)), None)" unfolding ms(2) .
  define n' where "n' = max n (c + int (length ys))"
  have "run_reader 0 (topic (xs @ ys)) = (ds @ drop (nat (n - c)) ms, n', None)"
    using run_reader_append [OF assms(1), of ms] r by (simp add: topic_append ms_def n'_def)
  moreover have "map snd (ds @ drop (nat (n - c)) ms) = take (nat n') L"
  proof (cases "c + int (length ys) \<le> n")
    case True
    then have "drop (nat (n - c)) ms = []" "n' = n" using ms(2) by (simp_all add: n'_def)
    then show ?thesis using assms(2) by simp
  next
    case False
    define i where "i = nat (n - c)"
    have i: "nat n = nat c + i" "i \<le> length ys" "nat n' = nat n + (length ys - i)"
      using False assms(4,5) by (simp_all add: i_def n'_def nat_add_distrib)
    have "drop i ys = take (length ys - i) (drop (nat n) L)"
      unfolding i(1) by (subst assms(7)) (simp add: drop_take add.commute)
    moreover have "map snd (drop i ms) = drop i ys" unfolding ms(1) [symmetric] by (rule drop_map [symmetric])
    ultimately show ?thesis using assms(2) i(3) by (simp add: take_add flip: i_def)
  qed
  moreover have "n' \<le> int (length L)"
  proof (cases "ys = []")
    case False
    have "length ys \<le> length L - nat c" using arg_cong [OF assms(7), of length] by simp
    moreover have "0 < length ys" using False by simp
    ultimately show ?thesis using assms(4-6) by (simp add: n'_def)
  qed (use assms(5,6) in \<open>simp add: n'_def\<close>)
  ultimately show thesis using that n'_def by blast
qed

end
