(* ===== verification/Machines.thy ===== *)
theory Machines
  imports Prelude
begin

text \<open>
  Machines that run as long as they are not stopped: a step function from events to successor states
  (\<open>None\<close>: the event is not enabled, \<open>Inl\<close>: the process dies), the states that runs reach, and the two
  arguments about them that the engine and the workers share: an invariant that every allowed step
  keeps, and a schedule that ends.
\<close>

inductive reaches :: "('ev \<Rightarrow> 's \<Rightarrow> 's res option) \<Rightarrow> ('ev \<Rightarrow> 's \<Rightarrow> bool) \<Rightarrow> 's \<Rightarrow> 's \<Rightarrow> bool"
  for step allowed where
  start: "reaches step allowed s s"
| step: "reaches step allowed s s1 \<Longrightarrow> allowed ev s1 \<Longrightarrow> step ev s1 = Some (Inr s2) \<Longrightarrow> reaches step allowed s s2"

inductive_cases reachesE: "reaches step allowed s s'"

lemma reaches_trans: "reaches step allowed b c \<Longrightarrow> reaches step allowed a b \<Longrightarrow> reaches step allowed a c"
  by (induction rule: reaches.induct) (auto intro: reaches.step)

lemma reaches_one: "allowed ev s \<Longrightarrow> step ev s = Some (Inr s') \<Longrightarrow> reaches step allowed s s'"
  by (rule reaches.step [OF reaches.start])

lemma reaches_mono:
  "reaches step allowed a b \<Longrightarrow> (\<And>ev s. allowed ev s \<Longrightarrow> allowed' ev s) \<Longrightarrow> reaches step allowed' a b"
  by (induction rule: reaches.induct) (auto intro: reaches.intros)

text \<open>A run of given events.\<close>

fun run_machine :: "('ev \<Rightarrow> 's \<Rightarrow> 's res option) \<Rightarrow> 'ev list \<Rightarrow> 's \<Rightarrow> 's res option" where
  "run_machine step [] s = Some (Inr s)"
| "run_machine step (ev # evs) s = (case step ev s of Some (Inr s') \<Rightarrow> run_machine step evs s' | r \<Rightarrow> r)"

fun allowed_run :: "('ev \<Rightarrow> 's \<Rightarrow> 's res option) \<Rightarrow> ('ev \<Rightarrow> 's \<Rightarrow> bool) \<Rightarrow> 'ev list \<Rightarrow> 's \<Rightarrow> bool" where
  "allowed_run step allowed [] s = True"
| "allowed_run step allowed (ev # evs) s =
     (allowed ev s \<and> (case step ev s of Some (Inr s') \<Rightarrow> allowed_run step allowed evs s' | _ \<Rightarrow> True))"

lemma allowed_runI: "(\<And>ev s. ev \<in> set evs \<Longrightarrow> allowed ev s) \<Longrightarrow> allowed_run step allowed evs s"
  by (induction evs arbitrary: s) (auto split: option.splits sum.splits)

lemma run_machine_reaches:
  "run_machine step evs s = Some (Inr s') \<Longrightarrow> allowed_run step allowed evs s \<Longrightarrow> reaches step allowed s s'"
proof (induction evs arbitrary: s)
  case (Cons ev evs)
  then obtain s1 where s1: "step ev s = Some (Inr s1)" "run_machine step evs s1 = Some (Inr s')" "allowed ev s"
      "allowed_run step allowed evs s1" by (auto split: option.splits sum.splits)
  have "reaches step allowed s s1" using s1(3,1) by (rule reaches_one)
  moreover have "reaches step allowed s1 s'" using s1(2,4) by (rule Cons.IH)
  ultimately show ?case by (rule reaches_trans [rotated])
qed (auto intro: reaches.start)

subsection \<open>Invariants\<close>

locale machine =
  fixes step :: "'ev \<Rightarrow> 's \<Rightarrow> 's res option"
    and allowed :: "'ev \<Rightarrow> 's \<Rightarrow> bool"
    and good :: "'s \<Rightarrow> bool"
  assumes keeps: "good s \<Longrightarrow> allowed ev s \<Longrightarrow> step ev s = Some (Inr s') \<Longrightarrow> good s'"
begin

lemma reaches_good: "reaches step allowed s s' \<Longrightarrow> good s \<Longrightarrow> good s'"
  by (induction rule: reaches.induct) (auto intro: keeps)

lemma run_good: "run_machine step evs s = Some (Inr s') \<Longrightarrow> allowed_run step allowed evs s \<Longrightarrow> good s \<Longrightarrow> good s'"
  by (rule reaches_good [OF run_machine_reaches])

end

subsection \<open>Schedules that end\<close>

locale scheduled_machine = machine step allowed good
  for step :: "'ev \<Rightarrow> 's \<Rightarrow> 's res option" and allowed :: "'ev \<Rightarrow> 's \<Rightarrow> bool" and good :: "'s \<Rightarrow> bool" +
  fixes schedule :: "'s \<Rightarrow> 'ev option"
    and R :: "('s \<times> 's) set"
  assumes ends: "wf R"
    and runs: "good s \<Longrightarrow> schedule s = Some ev \<Longrightarrow> allowed ev s \<and> (\<exists>s'. step ev s = Some (Inr s') \<and> (s', s) \<in> R)"
begin

lemma comes_to_rest: "good s \<Longrightarrow> \<exists>s'. reaches step allowed s s' \<and> schedule s' = None \<and> good s'"
proof (induction s rule: wf_induct_rule [OF ends])
  case (1 s)
  show ?case
  proof (cases "schedule s")
    case None
    then show ?thesis using 1(2) reaches.start by metis
  next
    case (Some ev)
    then obtain s1 where s1: "allowed ev s" "step ev s = Some (Inr s1)" "(s1, s) \<in> R" using runs [OF 1(2)] by blast
    from keeps [OF 1(2) s1(1,2)] have "good s1" .
    then obtain s' where s': "reaches step allowed s1 s'" "schedule s' = None" "good s'" using 1(1) [OF s1(3)] by blast
    have "reaches step allowed s s1" using s1(1,2) by (rule reaches_one)
    with s'(1) have "reaches step allowed s s'" by (rule reaches_trans)
    with s'(2,3) show ?thesis by blast
  qed
qed

end

end
