(* ===== verification/Engine.thy ===== *)
theory Engine
  imports Book_Equiv Log_Reader Machines
begin

text \<open>
  The matching engine (\<open>matching/engine.go\<close>): four goroutines that share channels. \<open>runFetcher\<close> reads
  orders from Kafka, \<open>runApplier\<close> applies them to the book and takes snapshots, \<open>runCommitter\<close> stores the
  logs in batches and approves snapshots, \<open>runSnapshots\<close> asks for snapshots and stores the approved ones.
  The state holds the fields of \<open>Engine\<close>, the contents of its channels and the local variables of
  the goroutines; one event is one goroutine moving from one channel operation to the next. A
  channel that is full blocks its sender: the event is not enabled. The outside is the topic of
  orders, the topic of logs, and the snapshot that Redis holds; a restart drops the state
  and starts from the outside again.

  \<open>orderBook.Snapshot\<close> copies the orders but shares the windows with the book (\<open>OrderIdWindows\<close> is a
  slice of pointers), and a snapshot is only written out when \<open>runSnapshots\<close> stores it. The model
  therefore writes the windows that the book has at that moment.
\<close>

subsection \<open>State\<close>

record 'd snapshot =
  sn_OrderBookSnapshot :: "'d order_book_snapshot"
  sn_OrderOffset :: int

record ('d, 'q) engine =
  en_product :: "'d product"
  en_OrderBook :: "('d, 'q) order_book"
  en_orderOffset :: int
  en_orderCh :: "(int \<times> 'd order) list"
  en_logCh :: "'d log list"
  en_snapshotReqCh :: "'d snapshot list"
  en_snapshotApproveReqCh :: "'d snapshot list"
  en_snapshotCh :: "'d snapshot list"
  en_readerPos :: int                               \<comment> \<open>the order reader: next offset\<close>
  en_applied :: int                                 \<comment> \<open>\<open>runApplier\<close>: \<open>orderOffset\<close>\<close>
  en_sending :: "(int \<times> 'd log list) option"        \<comment> \<open>\<open>runApplier\<close>: inside the loop that writes \<open>logs\<close>\<close>
  en_seq :: int                                     \<comment> \<open>\<open>runCommitter\<close>: \<open>seq\<close>\<close>
  en_pending :: "'d snapshot option"                \<comment> \<open>\<open>runCommitter\<close>: \<open>pending\<close>\<close>
  en_logs :: "'d log list"                          \<comment> \<open>\<open>runCommitter\<close>: \<open>logs\<close>\<close>
  en_approving :: "'d snapshot option"              \<comment> \<open>\<open>runCommitter\<close>: writing to \<open>snapshotCh\<close>\<close>
  en_lastOffset :: int                              \<comment> \<open>\<open>runSnapshots\<close>: \<open>orderOffset\<close>\<close>

text \<open>The outside: a message that does not decode to an order is \<open>None\<close>.\<close>

record 'd world =
  wd_orders :: "(int \<times> 'd order option) list"
  wd_log :: "'d log list"
  wd_snapshot :: "'d snapshot option"

definition no_book :: "'d order_book_snapshot" where
  "no_book = \<lparr>obs_ProductId = [], obs_Orders = [], obs_TradeSeq = 0, obs_LogSeq = 0, obs_OrderIdWindows = []\<rparr>"

definition LogSeq :: "'d snapshot \<Rightarrow> int" where
  "LogSeq s = obs_LogSeq (sn_OrderBookSnapshot s)"

subsection \<open>Starting\<close>

definition restore :: "('d::linordered_idom, 'q) env \<Rightarrow> ('d, 'q) engine \<Rightarrow> 'd snapshot \<Rightarrow> ('d, 'q) engine res" where
  "restore E e s =
     bindR (Restore E (en_OrderBook e) (sn_OrderBookSnapshot s)) (\<lambda>b.
       Inr (e\<lparr>en_orderOffset := sn_OrderOffset s, en_OrderBook := b\<rparr>))"

definition NewEngine :: "('d::linordered_idom, 'q) env \<Rightarrow> 'd product \<Rightarrow> 'd snapshot option \<Rightarrow> ('d, 'q) engine res" where
  "NewEngine E product latest =
     (let e = \<lparr>en_product = product, en_OrderBook = NewOrderBook E product, en_orderOffset = 0, en_orderCh = [],
               en_logCh = [], en_snapshotReqCh = [], en_snapshotApproveReqCh = [], en_snapshotCh = [],
               en_readerPos = 0, en_applied = 0, en_sending = None, en_seq = 0, en_pending = None, en_logs = [],
               en_approving = None, en_lastOffset = 0\<rparr>
      in case latest of None \<Rightarrow> Inr e | Some s \<Rightarrow> restore E e s)"

text \<open>\<open>Start\<close>: the first assignments of the goroutines.\<close>

definition Start :: "('d, 'q) engine \<Rightarrow> ('d, 'q) engine" where
  "Start e = e\<lparr>en_readerPos := (if 0 < en_orderOffset e then en_orderOffset e + 1 else en_orderOffset e),
     en_applied := 0, en_seq := ob_logSeq (en_OrderBook e), en_lastOffset := en_orderOffset e\<rparr>"

subsection \<open>The goroutines\<close>

text \<open>\<open>runFetcher\<close>: the next message at or after the position; one that does not decode is skipped.\<close>

definition fetch_order :: "('d, 'q) engine \<Rightarrow> 'd world \<Rightarrow> ('d, 'q) engine option" where
  "fetch_order e w =
     (case filter (\<lambda>m. en_readerPos e \<le> fst m) (wd_orders w) of
        [] \<Rightarrow> None
      | (offset, None) # ms \<Rightarrow> Some (e\<lparr>en_readerPos := offset + 1\<rparr>)
      | (offset, Some order) # ms \<Rightarrow>
          if length (en_orderCh e) < 10000
          then Some (e\<lparr>en_readerPos := offset + 1, en_orderCh := en_orderCh e @ [(offset, order)]\<rparr>)
          else None)"

text \<open>\<open>runApplier\<close>: apply one order; write one of its logs, or record its offset when all are written;
  answer a snapshot request. \<open>sells\<close> and \<open>buys\<close> are the order in which Go visits the maps.\<close>

definition take_order :: "('d::linordered_idom, 'q) env \<Rightarrow> ('d, 'q) engine \<Rightarrow> ('d, 'q) engine res option" where
  "take_order E e =
     (case (en_sending e, en_orderCh e) of
        (None, (offset, order) # rest) \<Rightarrow> Some (bindR (apply_order E (en_OrderBook e) order) (\<lambda>(b, logs).
          Inr (e\<lparr>en_OrderBook := b, en_orderCh := rest, en_sending := Some (offset, logs)\<rparr>)))
      | _ \<Rightarrow> None)"

definition send_log :: "('d, 'q) engine \<Rightarrow> ('d, 'q) engine option" where
  "send_log e =
     (case en_sending e of
        None \<Rightarrow> None
      | Some (offset, []) \<Rightarrow> Some (e\<lparr>en_applied := offset, en_sending := None\<rparr>)
      | Some (offset, l # ls) \<Rightarrow>
          if length (en_logCh e) < 10000
          then Some (e\<lparr>en_logCh := en_logCh e @ [l], en_sending := Some (offset, ls)\<rparr>) else None)"

definition take_snapshot :: "u64 list \<Rightarrow> u64 list \<Rightarrow> ('d, 'q) engine \<Rightarrow> ('d, 'q) engine res option" where
  "take_snapshot sells buys e =
     (case (en_sending e, en_snapshotReqCh e) of
        (None, s # rest) \<Rightarrow>
          if en_applied e - sn_OrderOffset s \<le> 1000 then Some (Inr (e\<lparr>en_snapshotReqCh := rest\<rparr>))
          else if length (en_snapshotApproveReqCh e) < 32 then
            Some (bindR (Snapshot (en_OrderBook e) sells buys) (\<lambda>obs.
              Inr (e\<lparr>en_snapshotReqCh := rest, en_snapshotApproveReqCh := en_snapshotApproveReqCh e @
                [\<lparr>sn_OrderBookSnapshot = obs, sn_OrderOffset = en_applied e\<rparr>]\<rparr>)))
          else None
      | _ \<Rightarrow> None)"

text \<open>\<open>runCommitter\<close>: take one log, and store the batch when the channel is empty or the batch is full;
  take one snapshot to approve; write an approved snapshot to its channel. \<open>ok\<close> says whether the
  store takes the batch; if not, the process panics.\<close>

definition commit_log :: "bool \<Rightarrow> ('d, 'q) engine \<Rightarrow> 'd world \<Rightarrow> (('d, 'q) engine \<times> 'd world) res option" where
  "commit_log ok e w =
     (case (en_approving e, en_logCh e) of
        (None, l # rest) \<Rightarrow>
          if GetSeq l \<le> en_seq e then Some (Inr (e\<lparr>en_logCh := rest\<rparr>, w))
          else
            let e1 = e\<lparr>en_logCh := rest, en_seq := GetSeq l, en_logs := en_logs e @ [l]\<rparr> in
            if rest \<noteq> [] \<and> length (en_logs e1) < 100 then Some (Inr (e1, w))
            else if \<not> ok then Some (Inl (Panic ''log store error''))
            else
              let w1 = w\<lparr>wd_log := wd_log w @ en_logs e1\<rparr>; e2 = e1\<lparr>en_logs := []\<rparr> in
              (case en_pending e2 of
                 Some p \<Rightarrow> if LogSeq p \<le> en_seq e2
                   then Some (Inr (e2\<lparr>en_approving := Some p, en_pending := None\<rparr>, w1)) else Some (Inr (e2, w1))
               | None \<Rightarrow> Some (Inr (e2, w1)))
      | _ \<Rightarrow> None)"

definition take_approval :: "('d, 'q) engine \<Rightarrow> ('d, 'q) engine option" where
  "take_approval e =
     (case (en_approving e, en_snapshotApproveReqCh e) of
        (None, s # rest) \<Rightarrow>
          if LogSeq s \<le> en_seq e
          then Some (e\<lparr>en_snapshotApproveReqCh := rest, en_approving := Some s, en_pending := None\<rparr>)
          else Some (e\<lparr>en_snapshotApproveReqCh := rest, en_pending := Some s\<rparr>)
      | _ \<Rightarrow> None)"

definition send_approved :: "('d, 'q) engine \<Rightarrow> ('d, 'q) engine option" where
  "send_approved e =
     (case en_approving e of
        Some s \<Rightarrow> if length (en_snapshotCh e) < 32
          then Some (e\<lparr>en_snapshotCh := en_snapshotCh e @ [s], en_approving := None\<rparr>) else None
      | None \<Rightarrow> None)"

text \<open>\<open>runSnapshots\<close>: the timer; storing an approved snapshot, which may fail.\<close>

definition request_snapshot :: "('d, 'q) engine \<Rightarrow> ('d, 'q) engine option" where
  "request_snapshot e =
     (if length (en_snapshotReqCh e) < 32
      then Some (e\<lparr>en_snapshotReqCh := en_snapshotReqCh e @
        [\<lparr>sn_OrderBookSnapshot = no_book, sn_OrderOffset = en_lastOffset e\<rparr>]\<rparr>)
      else None)"

definition written :: "('d, 'q) order_book \<Rightarrow> 'd snapshot \<Rightarrow> 'd snapshot" where
  "written b s = s\<lparr>sn_OrderBookSnapshot := (sn_OrderBookSnapshot s)\<lparr>obs_OrderIdWindows := ob_orderIdWindows b\<rparr>\<rparr>"

definition store_snapshot :: "bool \<Rightarrow> ('d, 'q) engine \<Rightarrow> 'd world \<Rightarrow> (('d, 'q) engine \<times> 'd world) option" where
  "store_snapshot ok e w =
     (case en_snapshotCh e of
        [] \<Rightarrow> None
      | s # rest \<Rightarrow>
          if \<not> ok then Some (e\<lparr>en_snapshotCh := rest\<rparr>, w)
          else Some (e\<lparr>en_snapshotCh := rest, en_lastOffset := sn_OrderOffset s\<rparr>,
            w\<lparr>wd_snapshot := Some (written (en_OrderBook e) s)\<rparr>))"

subsection \<open>Events\<close>

datatype event = Fetch | TakeOrder | SendLog | TakeSnapshot "u64 list" "u64 list" | CommitLog bool
  | TakeApproval | SendApproved | RequestSnapshot | StoreSnapshot bool | Restart

text \<open>\<open>None\<close>: not enabled. \<open>Some (Inl f)\<close>: the process dies.\<close>

fun engine_step :: "('d::linordered_idom, 'q) env \<Rightarrow> event \<Rightarrow> ('d, 'q) engine \<times> 'd world \<Rightarrow>
    (('d, 'q) engine \<times> 'd world) res option" where
  "engine_step E Fetch (e, w) = map_option (\<lambda>e. Inr (e, w)) (fetch_order e w)"
| "engine_step E TakeOrder (e, w) = map_option (\<lambda>r. bindR r (\<lambda>e. Inr (e, w))) (take_order E e)"
| "engine_step E SendLog (e, w) = map_option (\<lambda>e. Inr (e, w)) (send_log e)"
| "engine_step E (TakeSnapshot sells buys) (e, w) = map_option (\<lambda>r. bindR r (\<lambda>e. Inr (e, w))) (take_snapshot sells buys e)"
| "engine_step E (CommitLog ok) (e, w) = commit_log ok e w"
| "engine_step E TakeApproval (e, w) = map_option (\<lambda>e. Inr (e, w)) (take_approval e)"
| "engine_step E SendApproved (e, w) = map_option (\<lambda>e. Inr (e, w)) (send_approved e)"
| "engine_step E RequestSnapshot (e, w) = map_option (\<lambda>e. Inr (e, w)) (request_snapshot e)"
| "engine_step E (StoreSnapshot ok) (e, w) = map_option Inr (store_snapshot ok e w)"
| "engine_step E Restart (e, w) =
     Some (bindR (NewEngine E (en_product e) (wd_snapshot w)) (\<lambda>e. Inr (Start e, w)))"

end
