(* ===== verification/Engine_Recovery.thy ===== *)
theory Engine_Recovery
  imports Engine
begin

text \<open>
  What the engine's log says, across crashes and restarts. The reference is the run of
  \<open>apply_order\<close> over all orders of the topic, from a new book, without any interruption. The invariant
  relates every reachable state of the goroutines to a point of that run; it gives that a reader of the
  log topic sees exactly a prefix of the logs of the reference run.
\<close>

subsection \<open>The reference run\<close>

definition decoded :: "(int \<times> 'd order option) list \<Rightarrow> (int \<times> 'd order) list" where
  "decoded T = List.map_filter (\<lambda>m. map_option (Pair (fst m)) (snd m)) T"

definition orders_in :: "(int \<times> 'd order option) list \<Rightarrow> int \<Rightarrow> int \<Rightarrow> (int \<times> 'd order) list" where
  "orders_in T lo hi = filter (\<lambda>m. lo \<le> fst m \<and> fst m < hi) (decoded T)"

definition topic_ok :: "(int \<times> 'd::linordered_idom order option) list \<Rightarrow> bool" where
  "topic_ok T \<longleftrightarrow> sorted_wrt (\<lambda>a b. fst a < fst b) T \<and>
     (\<forall>m\<in>set T. 0 \<le> fst m \<and> (case snd m of None \<Rightarrow> True | Some order \<Rightarrow> order_ok order))"

definition reference_logs :: "('d::linordered_idom, 'q) env \<Rightarrow> 'd product \<Rightarrow> (int \<times> 'd order option) list \<Rightarrow> 'd log list" where
  "reference_logs E product T =
     (case run_orders E (NewOrderBook E product) (map snd (decoded T)) of Inl f \<Rightarrow> [] | Inr (b, logs) \<Rightarrow> logs)"

text \<open>A book that is a copy of the reference book after the messages before offset \<open>k\<close>, and the logs up
  to there.\<close>

definition at_point :: "('d::linordered_idom, 'q) env \<Rightarrow> 'd product \<Rightarrow> (int \<times> 'd order option) list \<Rightarrow> int \<Rightarrow>
    ('d, 'q) order_book \<Rightarrow> 'd log list \<Rightarrow> bool" where
  "at_point E product T k b L \<longleftrightarrow> book_inv E b \<and>
     (\<exists>b0. run_orders E (NewOrderBook E product) (map snd (orders_in T 0 k)) = Inr (b0, L) \<and> same_book E b0 b)"

lemma decoded_mem: "(off, order) \<in> set (decoded T) \<longleftrightarrow> (off, Some order) \<in> set T"
  by (force simp: decoded_def List.map_filter_def)

lemma decoded_simps [simp]:
  "decoded [] = []" "decoded ((off, None) # T) = decoded T" "decoded ((off, Some order) # T) = (off, order) # decoded T"
  by (simp_all add: decoded_def)

lemma decoded_append [simp]: "decoded (xs @ ys) = decoded xs @ decoded ys"
  by (simp add: decoded_def List.map_filter_def)

lemma decoded_sorted:
  "sorted_wrt (\<lambda>a b. fst a < fst b) T \<Longrightarrow> sorted_wrt (\<lambda>a b. fst a < fst b) (decoded T)"
proof (induction T)
  case (Cons m T)
  then show ?case by (cases m; cases "snd m") (fastforce simp: decoded_mem)+
qed simp

lemma decoded_ok: "topic_ok T \<Longrightarrow> (off, order) \<in> set (decoded T) \<Longrightarrow> order_ok order \<and> 0 \<le> off"
  by (fastforce simp: topic_ok_def decoded_mem)

lemma filter_split:
  "sorted_wrt (\<lambda>a b. fst a < fst b) D \<Longrightarrow> lo \<le> mid \<Longrightarrow> mid \<le> (hi :: int) \<Longrightarrow>
    filter (\<lambda>m. lo \<le> fst m \<and> fst m < hi) D =
    filter (\<lambda>m. lo \<le> fst m \<and> fst m < mid) D @ filter (\<lambda>m. mid \<le> fst m \<and> fst m < hi) D"
proof (induction D)
  case (Cons m D)
  have "filter (\<lambda>m. lo \<le> fst m \<and> fst m < mid) D = []" if "mid \<le> fst m"
    using that Cons.prems(1) by (force simp: filter_empty_conv)
  with Cons show ?case by auto
qed simp

lemma orders_in_split:
  "topic_ok T \<Longrightarrow> lo \<le> mid \<Longrightarrow> mid \<le> hi \<Longrightarrow> orders_in T lo hi = orders_in T lo mid @ orders_in T mid hi"
  unfolding orders_in_def by (rule filter_split) (simp_all add: topic_ok_def decoded_sorted)

lemma orders_in_empty [simp]: "orders_in T k k = []"
  by (simp add: orders_in_def)

lemma orders_in_ok: "topic_ok T \<Longrightarrow> list_all order_ok (map snd (orders_in T lo hi))"
  by (auto simp: orders_in_def list_all_iff dest: decoded_ok)

text \<open>The first message at or after a position.\<close>

lemma first_message:
  assumes "topic_ok T" and "filter (\<lambda>m. pos \<le> fst m) T = (off, r) # ms"
  shows "pos \<le> off \<and> 0 \<le> off \<and> orders_in T pos (off + 1) = (case r of None \<Rightarrow> [] | Some order \<Rightarrow> [(off, order)])"
proof -
  obtain us vs where T: "T = us @ (off, r) # vs" "\<forall>u\<in>set us. \<not> pos \<le> fst u" "pos \<le> off"
    using assms(2) by (auto simp: filter_eq_Cons_iff)
  have "fst m < off" if "m \<in> set us" for m using assms(1) that by (auto simp: T(1) topic_ok_def sorted_wrt_append)
  moreover have "off < fst m" if "m \<in> set vs" for m using assms(1) that by (auto simp: T(1) topic_ok_def sorted_wrt_append)
  ultimately have "filter (\<lambda>m. pos \<le> fst m \<and> fst m < off + 1) (decoded us) = []"
    "filter (\<lambda>m. pos \<le> fst m \<and> fst m < off + 1) (decoded vs) = []"
    using T(2) by (force simp: filter_empty_conv decoded_mem)+
  then have "orders_in T pos (off + 1) = (case r of None \<Rightarrow> [] | Some order \<Rightarrow> [(off, order)])"
    using T(3) by (cases r) (simp_all add: orders_in_def T(1))
  moreover have "0 \<le> off" using assms(1) by (auto simp: T(1) topic_ok_def)
  ultimately show ?thesis using T(3) by simp
qed

lemma no_message:
  "filter (\<lambda>m. pos \<le> fst m) T = [] \<Longrightarrow> orders_in T pos hi = []"
  by (fastforce simp: orders_in_def filter_empty_conv decoded_mem)

text \<open>The first order of a range.\<close>

lemma first_order:
  assumes "topic_ok T" and "0 \<le> k" and "orders_in T k pos = (off, order) # rest"
  shows "orders_in T 0 (off + 1) = orders_in T 0 k @ [(off, order)]" and "rest = orders_in T (off + 1) pos"
    and "k \<le> off" and "off < pos" and "order_ok order"
proof -
  have m: "(off, order) \<in> set (orders_in T k pos)" unfolding assms(3) by simp
  then show r: "k \<le> off" "off < pos" by (simp_all add: orders_in_def)
  show "order_ok order" using m decoded_ok [OF assms(1)] by (auto simp: orders_in_def)
  have s: "orders_in T k pos = orders_in T k (off + 1) @ orders_in T (off + 1) pos"
    by (rule orders_in_split [OF assms(1)]) (use r in simp_all)
  have "(off, order) \<in> set (orders_in T k (off + 1))" using m r by (simp add: orders_in_def)
  then obtain y ys where y: "orders_in T k (off + 1) = y # ys" by (cases "orders_in T k (off + 1)") auto
  then have y1: "y = (off, order)" using s assms(3) by simp
  have "sorted_wrt (\<lambda>a b. fst a < fst b) (orders_in T k (off + 1))"
    using assms(1) by (simp add: orders_in_def sorted_wrt_filter decoded_sorted topic_ok_def)
  moreover have "fst z \<le> off" if "z \<in> set (orders_in T k (off + 1))" for z using that by (auto simp: orders_in_def)
  ultimately have "ys = []" using y y1 by (cases ys) fastforce+
  with y y1 have one: "orders_in T k (off + 1) = [(off, order)]" by simp
  then show "rest = orders_in T (off + 1) pos" using s assms(3) by simp
  show "orders_in T 0 (off + 1) = orders_in T 0 k @ [(off, order)]"
    unfolding one [symmetric] by (rule orders_in_split [OF assms(1)]) (use assms(2) r in simp_all)
qed

lemma at_pointD:
  assumes "env_laws E" and "topic_ok T" and "at_point E product T k b L"
  shows "book_inv E b" "ob_logSeq b = int (length L)" "ob_product b = product" "consec 0 (map GetSeq L)"
proof -
  obtain b0 where b0: "run_orders E (NewOrderBook E product) (map snd (orders_in T 0 k)) = Inr (b0, L)" "same_book E b0 b"
    using assms(3) by (auto simp: at_point_def)
  have "good_step E (NewOrderBook E product) b0 L"
    using run_orders_step [OF assms(1) NewOrderBook_inv(1) [OF env_lawsD(1) [OF assms(1)]] orders_in_ok [OF assms(2)],
      of product 0 k] b0(1) by simp
  moreover have "ob_logSeq (NewOrderBook E product) = 0" "ob_product (NewOrderBook E product) = product"
    by (simp_all add: NewOrderBook_def Let_def)
  ultimately show "ob_logSeq b = int (length L)" "ob_product b = product" "consec 0 (map GetSeq L)"
    using same_bookD [OF b0(2)] by (simp_all add: good_step_def)
  show "book_inv E b" using assms(3) by (simp add: at_point_def)
qed

lemma at_point_start:
  assumes "env_laws E"
  shows "at_point E product T 0 (NewOrderBook E product) []"
  using NewOrderBook_inv(1) [OF env_lawsD(1) [OF assms]] by (simp add: at_point_def)

lemma at_point_cong:
  "at_point E product T k b L \<Longrightarrow> orders_in T 0 k' = orders_in T 0 k \<Longrightarrow> at_point E product T k' b L"
  by (simp add: at_point_def)

lemma at_point_same:
  "at_point E product T k b L \<Longrightarrow> same_book E b b' \<Longrightarrow> book_inv E b' \<Longrightarrow> at_point E product T k b' L"
  using same_book_trans by (fastforce simp: at_point_def)

lemma at_point_next:
  assumes laws: "env_laws E" and ap: "at_point E product T k b L" and ok: "order_ok order"
    and a: "apply_order E b order = Inr (b', logs)" and o: "orders_in T 0 k' = orders_in T 0 k @ [(off, order)]"
    and T: "topic_ok T"
  shows "at_point E product T k' b' (L @ logs)"
proof -
  obtain b0 where b0: "run_orders E (NewOrderBook E product) (map snd (orders_in T 0 k)) = Inr (b0, L)" "same_book E b0 b"
      "book_inv E b" using ap by (auto simp: at_point_def)
  have i0: "book_inv E b0"
    using run_orders_step [OF laws NewOrderBook_inv(1) [OF env_lawsD(1) [OF laws]] orders_in_ok [OF T], of product 0 k]
      b0(1) by (simp add: good_step_def)
  obtain b1 l1 where a1: "apply_order E b0 order = Inr (b1, l1)" using apply_order_step [OF laws i0 ok] by blast
  have s: "same_book E b1 b'" "l1 = logs" using apply_order_same [OF laws i0 b0(3) ok b0(2) a1 a] by simp_all
  have "book_inv E b'" using apply_order_step [OF laws b0(3) ok] a by (auto dest: good_step_inv)
  then show ?thesis using b0(1) a1 s by (auto simp: at_point_def o run_orders_append)
qed

text \<open>The logs at a point are the first logs of the reference run.\<close>

lemma reference_prefix:
  assumes laws: "env_laws E" and T: "topic_ok T" and ap: "at_point E product T k b L" and "0 \<le> k"
  shows "take (length L) (reference_logs E product T) = L \<and> length L \<le> length (reference_logs E product T)"
    and "orders_in T k hi = [] \<Longrightarrow> \<forall>m\<in>set T. fst m < hi \<Longrightarrow> k \<le> hi \<Longrightarrow> L = reference_logs E product T"
proof -
  define top where "top = Max (insert k (insert hi ((\<lambda>m. fst m + 1) ` set T)))"
  have ge: "x \<le> top" if "x \<in> insert k (insert hi ((\<lambda>m. fst m + 1) ` set T))" for x
    unfolding top_def by (rule Max_ge) (use that in simp_all)
  have top: "k \<le> top" "hi \<le> top" by (simp_all add: ge)
  have top3: "fst m < top" if "m \<in> set T" for m using ge [of "fst m + 1"] that by simp
  have all: "orders_in T 0 top = decoded T"
    using T top3 by (force simp: orders_in_def filter_id_conv decoded_mem topic_ok_def)
  have sp: "decoded T = orders_in T 0 k @ orders_in T k top"
    unfolding all [symmetric] by (rule orders_in_split [OF T \<open>0 \<le> k\<close> top(1)])
  obtain b0 where b0: "run_orders E (NewOrderBook E product) (map snd (orders_in T 0 k)) = Inr (b0, L)"
    using ap by (auto simp: at_point_def)
  note step = run_orders_step [OF laws NewOrderBook_inv(1) [OF env_lawsD(1) [OF laws]]]
  obtain b1 L1 where "run_orders E (NewOrderBook E product) (map snd (orders_in T 0 top)) = Inr (b1, L1)"
    using step [OF orders_in_ok [OF T]] by blast
  then have r: "run_orders E (NewOrderBook E product) (map snd (decoded T)) = Inr (b1, L1)" by (simp add: all)
  then obtain M where M: "L1 = L @ M" "orders_in T k top = [] \<Longrightarrow> M = []"
    unfolding sp using b0 by (fastforce simp: run_orders_append bindR_eq_Inr)
  show "take (length L) (reference_logs E product T) = L \<and> length L \<le> length (reference_logs E product T)"
    using r M(1) by (simp add: reference_logs_def)
  assume e: "orders_in T k hi = []" "\<forall>m\<in>set T. fst m < hi" "k \<le> hi"
  have "orders_in T hi top = []" using e(2) by (force simp: orders_in_def filter_empty_conv decoded_mem)
  then have "orders_in T k top = []" using orders_in_split [OF T e(3) top(2)] e(1) by simp
  then show "L = reference_logs E product T" using r M by (simp add: reference_logs_def)
qed

subsection \<open>The invariant\<close>

text \<open>
  Some point \<open>k\<close> of the reference run is where the applier is; \<open>c\<close> logs were stored before this
  incarnation's buffer; \<open>n\<close> logs have been delivered to readers of the topic.
\<close>

definition reading_ok :: "(int \<times> 'd order option) list \<Rightarrow> int \<Rightarrow> ('d, 'q) engine \<Rightarrow> bool" where
  "reading_ok T k e \<longleftrightarrow> 0 \<le> k \<and> k \<le> en_readerPos e \<and> en_orderCh e = orders_in T k (en_readerPos e)"

definition offset_ok :: "(int \<times> 'd order option) list \<Rightarrow> int \<Rightarrow> ('d, 'q) engine \<Rightarrow> bool" where
  "offset_ok T k e \<longleftrightarrow>
     (en_sending e = None \<longrightarrow> 0 < en_applied e \<longrightarrow> orders_in T 0 (en_applied e + 1) = orders_in T 0 k) \<and>
     (\<forall>off ls. en_sending e = Some (off, ls) \<longrightarrow> orders_in T 0 (off + 1) = orders_in T 0 k)"

definition unsent :: "('d, 'q) engine \<Rightarrow> 'd log list" where
  "unsent e = (case en_sending e of None \<Rightarrow> [] | Some (off, ls) \<Rightarrow> ls)"

definition pipeline_ok :: "'d log list \<Rightarrow> nat \<Rightarrow> ('d, 'q) engine \<Rightarrow> bool" where
  "pipeline_ok L c e \<longleftrightarrow> en_logs e @ en_logCh e @ unsent e = drop c L \<and> c \<le> length L \<and>
     en_seq e = int (c + length (en_logs e)) \<and> (en_logCh e = [] \<longrightarrow> en_logs e = [])"

definition stored_ok :: "'d log list \<Rightarrow> nat \<Rightarrow> nat \<Rightarrow> 'd world \<Rightarrow> bool" where
  "stored_ok R c n w \<longleftrightarrow> (\<exists>ds. run_reader 0 (topic (wd_log w)) = (ds, int n, None) \<and> map snd ds = take n R) \<and>
     c \<le> n \<and> n \<le> length R"

text \<open>A snapshot is that of a copy of the reference book after its offset.\<close>

definition ranges :: "('d, 'q) order_book \<Rightarrow> u64 list \<Rightarrow> u64 list \<Rightarrow> bool" where
  "ranges b sells buys \<longleftrightarrow>
     (\<forall>d. ob_depths b SideSell = Some d \<longrightarrow> range_of (dp_orders d) sells) \<and>
     (\<forall>d. ob_depths b SideBuy = Some d \<longrightarrow> range_of (dp_orders d) buys)"

definition snap_ok :: "('d::linordered_idom, 'q) env \<Rightarrow> 'd product \<Rightarrow> (int \<times> 'd order option) list \<Rightarrow> 'd snapshot \<Rightarrow> bool" where
  "snap_ok E product T s \<longleftrightarrow> 0 < sn_OrderOffset s \<and>
     (\<exists>b L sells buys. at_point E product T (sn_OrderOffset s + 1) b L \<and> ranges b sells buys \<and>
        Snapshot b sells buys = Inr (sn_OrderBookSnapshot s))"

definition approved_snaps :: "('d, 'q) engine \<Rightarrow> 'd world \<Rightarrow> 'd snapshot set" where
  "approved_snaps e w = set (en_snapshotCh e) \<union> set_option (en_approving e) \<union> set_option (wd_snapshot w)"

definition all_snaps :: "('d, 'q) engine \<Rightarrow> 'd world \<Rightarrow> 'd snapshot set" where
  "all_snaps e w = approved_snaps e w \<union> set (en_snapshotApproveReqCh e) \<union> set_option (en_pending e)"

definition snaps_ok :: "('d::linordered_idom, 'q) env \<Rightarrow> 'd product \<Rightarrow> (int \<times> 'd order option) list \<Rightarrow> nat \<Rightarrow>
    ('d, 'q) engine \<Rightarrow> 'd world \<Rightarrow> bool" where
  "snaps_ok E product T n e w \<longleftrightarrow> Ball (all_snaps e w) (snap_ok E product T) \<and>
     (\<forall>s\<in>approved_snaps e w. LogSeq s \<le> int n) \<and>
     (\<forall>s\<in>set (en_snapshotReqCh e). 0 \<le> sn_OrderOffset s) \<and> 0 \<le> en_lastOffset e"

definition inv_at :: "('d::linordered_idom, 'q) env \<Rightarrow> 'd product \<Rightarrow> (int \<times> 'd order option) list \<Rightarrow> int \<Rightarrow> 'd log list \<Rightarrow>
    nat \<Rightarrow> nat \<Rightarrow> ('d, 'q) engine \<times> 'd world \<Rightarrow> bool" where
  "inv_at E product T k L c n s \<longleftrightarrow> (case s of (e, w) \<Rightarrow>
     wd_orders w = T \<and> en_product e = product \<and> at_point E product T k (en_OrderBook e) L \<and>
     reading_ok T k e \<and> offset_ok T k e \<and> pipeline_ok L c e \<and>
     stored_ok (reference_logs E product T) c n w \<and> snaps_ok E product T n e w)"

definition engine_inv :: "('d::linordered_idom, 'q) env \<Rightarrow> 'd product \<Rightarrow> (int \<times> 'd order option) list \<Rightarrow>
    ('d, 'q) engine \<times> 'd world \<Rightarrow> bool" where
  "engine_inv E product T s \<longleftrightarrow> (\<exists>k L c n. inv_at E product T k L c n s)"

text \<open>
  Which steps are taken for granted: Go visits every map entry once; a snapshot is approved only when
  the logs before it are stored, not merely buffered; and it is written out while the book still
  has the windows it had when the snapshot was taken. The code checks neither of the last two
  (\<open>buffered_approval_loses_logs\<close> and \<open>shared_windows_lose_orders\<close> below show what then happens).
\<close>

definition orderly :: "event \<Rightarrow> ('d, 'q) engine \<Rightarrow> bool" where
  "orderly ev e \<longleftrightarrow> (case ev of
       TakeSnapshot sells buys \<Rightarrow> ranges (en_OrderBook e) sells buys
     | TakeApproval \<Rightarrow> (case en_snapshotApproveReqCh e of [] \<Rightarrow> True
         | s # ss \<Rightarrow> LogSeq s \<le> en_seq e \<longrightarrow> LogSeq s \<le> en_seq e - int (length (en_logs e)))
     | StoreSnapshot ok \<Rightarrow> (case en_snapshotCh e of [] \<Rightarrow> True
         | s # ss \<Rightarrow> ok \<longrightarrow> obs_OrderIdWindows (sn_OrderBookSnapshot s) = ob_orderIdWindows (en_OrderBook e))
     | _ \<Rightarrow> True)"

lemmas inv_defs = inv_at_def reading_ok_def offset_ok_def pipeline_ok_def unsent_def snaps_ok_def
  all_snaps_def approved_snaps_def

subsection \<open>Every step keeps it\<close>

lemma fetch_keeps:
  assumes T: "topic_ok T" and inv: "inv_at E product T k L c n (e, w)" and f: "fetch_order e w = Some e'"
  shows "inv_at E product T k L c n (e', w)"
proof -
  have w: "wd_orders w = T" and pos: "0 \<le> k" "k \<le> en_readerPos e" and ch: "en_orderCh e = orders_in T k (en_readerPos e)"
    using inv by (simp_all add: inv_at_def reading_ok_def)
  obtain off r ms where m: "filter (\<lambda>m. en_readerPos e \<le> fst m) T = (off, r) # ms"
    using f w by (cases "filter (\<lambda>m. en_readerPos e \<le> fst m) T") (auto simp: fetch_order_def)
  note F = first_message [OF T m]
  have "orders_in T k (off + 1) = en_orderCh e @ (case r of None \<Rightarrow> [] | Some order \<Rightarrow> [(off, order)])"
    using orders_in_split [OF T pos(2), of "off + 1"] F ch by simp
  then have "reading_ok T k e'"
    using f w m F pos by (cases r) (auto simp: fetch_order_def reading_ok_def split: if_splits)
  moreover have "en_product e' = en_product e" "en_OrderBook e' = en_OrderBook e" "en_sending e' = en_sending e"
      "en_applied e' = en_applied e" "en_logs e' = en_logs e" "en_logCh e' = en_logCh e" "en_seq e' = en_seq e"
      "all_snaps e' w = all_snaps e w" "approved_snaps e' w = approved_snaps e w"
      "en_snapshotReqCh e' = en_snapshotReqCh e" "en_lastOffset e' = en_lastOffset e"
    using f w m by (cases r; auto simp: fetch_order_def all_snaps_def approved_snaps_def split: if_splits)+
  ultimately show ?thesis
    using inv by (simp add: inv_at_def offset_ok_def pipeline_ok_def unsent_def snaps_ok_def)
qed

lemma take_order_keeps:
  assumes laws: "env_laws E" and T: "topic_ok T" and inv: "inv_at E product T k L c n (e, w)"
    and t: "take_order E e = Some r"
  shows "\<exists>e' k' L'. r = Inr e' \<and> inv_at E product T k' L' c n (e', w)"
proof -
  obtain off order rest where ch: "en_sending e = None" "en_orderCh e = (off, order) # rest"
    using t by (auto simp: take_order_def split: option.splits list.splits prod.splits)
  have pos: "0 \<le> k" "k \<le> en_readerPos e" "orders_in T k (en_readerPos e) = (off, order) # rest"
    and ap: "at_point E product T k (en_OrderBook e) L"
    using inv ch by (simp_all add: inv_at_def reading_ok_def)
  note F = first_order [OF T pos(1) pos(3)]
  obtain b logs where a: "apply_order E (en_OrderBook e) order = Inr (b, logs)"
    using apply_order_step [OF laws at_pointD(1) [OF laws T ap] F(5)] by blast
  define e' where "e' = e\<lparr>en_OrderBook := b, en_orderCh := rest, en_sending := Some (off, logs)\<rparr>"
  have r: "r = Inr e'" using t ch a by (simp add: take_order_def e'_def)
  have "at_point E product T (off + 1) b (L @ logs)" by (rule at_point_next [OF laws ap F(5) a F(1) T])
  moreover have "reading_ok T (off + 1) e'" using pos F by (simp add: reading_ok_def e'_def)
  moreover have "offset_ok T (off + 1) e'" by (simp add: offset_ok_def e'_def)
  moreover have "pipeline_ok (L @ logs) c e'"
    using inv ch by (auto simp: inv_at_def pipeline_ok_def unsent_def e'_def)
  moreover have "snaps_ok E product T n e' w"
    using inv by (simp add: inv_at_def snaps_ok_def all_snaps_def approved_snaps_def e'_def)
  ultimately show ?thesis
    using inv r by (auto simp: inv_at_def e'_def)
qed

lemma send_log_keeps:
  assumes inv: "inv_at E product T k L c n (e, w)" and s: "send_log e = Some e'"
  shows "inv_at E product T k L c n (e', w)"
proof -
  obtain off ls where sd: "en_sending e = Some (off, ls)" using s by (auto simp: send_log_def split: option.splits)
  show ?thesis
  proof (cases ls)
    case Nil
    then have "e' = e\<lparr>en_applied := off, en_sending := None\<rparr>" using s sd by (simp add: send_log_def)
    then show ?thesis using inv sd Nil by (simp add: inv_defs)
  next
    case (Cons l ls')
    then have "e' = e\<lparr>en_logCh := en_logCh e @ [l], en_sending := Some (off, ls')\<rparr>"
      using s sd by (auto simp: send_log_def split: if_splits)
    then show ?thesis using inv sd Cons by (simp add: inv_defs)
  qed
qed

lemma take_snapshot_keeps:
  assumes laws: "env_laws E" and T: "topic_ok T" and inv: "inv_at E product T k L c n (e, w)"
    and ranges: "ranges (en_OrderBook e) sells buys" and t: "take_snapshot sells buys e = Some r"
  shows "\<exists>e'. r = Inr e' \<and> inv_at E product T k L c n (e', w)"
proof -
  obtain s rest where ch: "en_sending e = None" "en_snapshotReqCh e = s # rest"
    using t by (auto simp: take_snapshot_def split: option.splits list.splits)
  have ap: "at_point E product T k (en_OrderBook e) L" and req: "0 \<le> sn_OrderOffset s"
    and off: "0 < en_applied e \<longrightarrow> orders_in T 0 (en_applied e + 1) = orders_in T 0 k"
    using inv ch by (simp_all add: inv_defs)
  show ?thesis
  proof (cases "en_applied e - sn_OrderOffset s \<le> 1000")
    case True
    then have "r = Inr (e\<lparr>en_snapshotReqCh := rest\<rparr>)" using t ch by (simp add: take_snapshot_def)
    moreover have "inv_at E product T k L c n (e\<lparr>en_snapshotReqCh := rest\<rparr>, w)"
      using inv ch by (simp add: inv_defs)
    ultimately show ?thesis by blast
  next
    case False
    then have pos: "0 < en_applied e" using req by simp
    obtain obs where obs: "Snapshot (en_OrderBook e) sells buys = Inr obs"
      using restored_same [OF laws at_pointD(1) [OF laws T ap]] ranges unfolding ranges_def by metis
    define new where "new = \<lparr>sn_OrderBookSnapshot = obs, sn_OrderOffset = en_applied e\<rparr>"
    define e' where "e' = e\<lparr>en_snapshotReqCh := rest, en_snapshotApproveReqCh := en_snapshotApproveReqCh e @ [new]\<rparr>"
    have r: "r = Inr e'"
      using t ch False obs by (auto simp: take_snapshot_def e'_def new_def split: if_splits)
    have "at_point E product T (en_applied e + 1) (en_OrderBook e) L" by (rule at_point_cong [OF ap]) (use off pos in simp)
    then have "snap_ok E product T new" using pos ranges obs by (auto simp: snap_ok_def new_def)
    then have "inv_at E product T k L c n (e', w)" using inv ch by (simp add: inv_defs e'_def)
    then show ?thesis using r by blast
  qed
qed

lemma snap_ok_pending: "p \<in> set_option (en_pending e) \<Longrightarrow> p \<in> all_snaps e w"
  by (simp add: all_snaps_def)

lemma commit_log_keeps:
  assumes laws: "env_laws E" and T: "topic_ok T" and inv: "inv_at E product T k L c n (e, w)"
    and t: "commit_log ok e w = Some (Inr (e', w'))"
  shows "\<exists>c' n'. inv_at E product T k L c' n' (e', w')"
proof -
  obtain l rest where ch: "en_approving e = None" "en_logCh e = l # rest"
    using t by (auto simp: commit_log_def split: option.splits list.splits)
  have ap: "at_point E product T k (en_OrderBook e) L" and k: "0 \<le> k"
    and pl: "en_logs e @ l # rest @ unsent e = drop c L" "c \<le> length L" "en_seq e = int (c + length (en_logs e))"
    and st: "stored_ok (reference_logs E product T) c n w"
    using inv ch by (simp_all add: inv_at_def pipeline_ok_def reading_ok_def)
  have "consec 0 (map GetSeq (take c L @ drop c L))" using at_pointD(4) [OF laws T ap] by simp
  then have con: "consec (int c) (map GetSeq (en_logs e @ l # rest @ unsent e))"
    unfolding pl(1) using pl(2) by (simp only: map_append consec_append) simp
  then have seq: "GetSeq l = en_seq e + 1" "consec (int c) (map GetSeq (en_logs e @ [l]))" using pl(3) by simp_all
  define e1 where "e1 = e\<lparr>en_logCh := rest, en_seq := GetSeq l, en_logs := en_logs e @ [l]\<rparr>"
  show ?thesis
  proof (cases "rest \<noteq> [] \<and> length (en_logs e1) < 100")
    case True
    then have "e' = e1 \<and> w' = w" using t ch seq by (simp add: commit_log_def Let_def e1_def)
    moreover have "pipeline_ok L c e1" using pl seq True by (simp add: pipeline_ok_def e1_def unsent_def)
    ultimately have "inv_at E product T k L c n (e', w')"
      using inv by (simp add: inv_at_def reading_ok_def offset_ok_def snaps_ok_def all_snaps_def approved_snaps_def e1_def)
    then show ?thesis by blast
  next
    case False
    define w1 where "w1 = w\<lparr>wd_log := wd_log w @ en_logs e @ [l]\<rparr>"
    define ready where "ready = (case en_pending e of Some p \<Rightarrow> LogSeq p \<le> GetSeq l | None \<Rightarrow> False)"
    define e2 where "e2 = (if ready then e1\<lparr>en_logs := [], en_approving := en_pending e, en_pending := None\<rparr>
      else e1\<lparr>en_logs := []\<rparr>)"
    have r: "e' = e2 \<and> w' = w1"
      using t ch seq False
      by (cases ok; cases "en_pending e") (auto simp: commit_log_def Let_def e1_def e2_def w1_def ready_def split: if_splits)
    define m where "m = length (en_logs e @ [l])"
    define c' where "c' = c + m"
    have pre: "en_logs e @ [l] = take m (drop c L)" unfolding pl(1) [symmetric] by (simp add: m_def)
    have "m \<le> length (drop c L)" unfolding pl(1) [symmetric] m_def by simp
    then have c': "c' \<le> length L" using pl(2) by (simp add: c'_def)
    have rest: "rest @ unsent e = drop c' L"
      using arg_cong [OF pl(1), of "drop m"] by (simp add: m_def c'_def add.commute)
    define R where "R = reference_logs E product T"
    note P = reference_prefix(1) [OF laws T ap k, folded R_def]
    have eqR: "take m (drop c R) = take m (drop c L)"
      using P c' by (metis c'_def drop_take take_drop take_take min.absorb1 add.commute add_diff_cancel_left')
    have preR: "en_logs e @ [l] = take (length (en_logs e @ [l])) (drop (nat (int c)) R)"
      unfolding nat_int m_def [symmetric] by (rule trans [OF pre eqR [symmetric]])
    obtain ds where ds: "run_reader 0 (topic (wd_log w)) = (ds, int n, None)" "map snd ds = take (nat (int n)) R"
        "int c \<le> int n" "int n \<le> int (length R)"
      using st by (auto simp: stored_ok_def R_def)
    obtain ds' n' where ds': "run_reader 0 (topic (wd_log w @ en_logs e @ [l])) = (ds', n', None)"
        "map snd ds' = take (nat n') R" "n' = max (int n) (int c + int (length (en_logs e @ [l])))" "n' \<le> int (length R)"
      by (rule read_more [OF ds(1,2) seq(2) _ ds(3,4) preR]) simp
    define nn where "nn = nat n'"
    have "0 \<le> n'" unfolding ds'(3) by (simp add: le_max_iff_disj)
    then have nn: "n' = int nn" "n \<le> nn" "c' \<le> nn" using ds'(3) by (simp_all add: nn_def c'_def m_def)
    have st': "stored_ok R c' nn w1" using ds'(1,2,4) nn(3) unfolding nn(1) by (simp add: stored_ok_def w1_def)
    have seq': "GetSeq l = int c'" using seq pl(3) by (simp add: c'_def m_def)
    have "pipeline_ok L c' e2"
      using rest c' seq' False by (auto simp: pipeline_ok_def e2_def e1_def unsent_def)
    moreover have "snaps_ok E product T nn e2 w1"
    proof -
      have old: "snaps_ok E product T n e w" using inv by (simp add: inv_at_def)
      have "all_snaps e2 w1 = all_snaps e w"
        using ch(1) by (auto simp: all_snaps_def approved_snaps_def e2_def e1_def w1_def)
      moreover have "LogSeq s \<le> int nn" if "s \<in> approved_snaps e2 w1" for s
      proof (cases "s \<in> approved_snaps e w")
        case True
        then have "LogSeq s \<le> int n" using old by (simp add: snaps_ok_def)
        then show ?thesis using nn(2) by simp
      next
        case False
        with that have "ready" "en_pending e = Some s"
          by (auto simp: approved_snaps_def e2_def e1_def w1_def split: if_splits)
        then show ?thesis using seq' nn(3) by (simp add: ready_def)
      qed
      ultimately show ?thesis using old by (simp add: snaps_ok_def) (simp add: e2_def e1_def)
    qed
    ultimately have "inv_at E product T k L c' nn (e', w')"
      using inv st' r by (simp add: inv_at_def reading_ok_def offset_ok_def R_def) (simp add: e2_def e1_def w1_def)
    then show ?thesis by blast
  qed
qed

lemma take_approval_keeps:
  assumes inv: "inv_at E product T k L c n (e, w)" and o: "orderly TakeApproval e"
    and t: "take_approval e = Some e'"
  shows "inv_at E product T k L c n (e', w)"
proof -
  obtain s rest where ch: "en_approving e = None" "en_snapshotApproveReqCh e = s # rest"
    using t by (auto simp: take_approval_def split: option.splits list.splits)
  have "c \<le> n" "en_seq e = int (c + length (en_logs e))" using inv by (simp_all add: inv_at_def stored_ok_def pipeline_ok_def)
  then have "LogSeq s \<le> en_seq e \<Longrightarrow> LogSeq s \<le> int n" using o ch by (simp add: orderly_def)
  moreover have "e' = (if LogSeq s \<le> en_seq e
      then e\<lparr>en_snapshotApproveReqCh := rest, en_approving := Some s, en_pending := None\<rparr>
      else e\<lparr>en_snapshotApproveReqCh := rest, en_pending := Some s\<rparr>)"
    using t ch by (auto simp: take_approval_def split: if_splits)
  ultimately show ?thesis using inv ch by (cases "LogSeq s \<le> en_seq e") (simp_all add: inv_defs ball_Un)
qed

lemma send_approved_keeps:
  assumes inv: "inv_at E product T k L c n (e, w)" and t: "send_approved e = Some e'"
  shows "inv_at E product T k L c n (e', w)"
proof -
  obtain s where ch: "en_approving e = Some s" using t by (auto simp: send_approved_def split: option.splits)
  then have "e' = e\<lparr>en_snapshotCh := en_snapshotCh e @ [s], en_approving := None\<rparr>"
    using t by (auto simp: send_approved_def split: if_splits)
  then show ?thesis using inv ch by (simp add: inv_defs ball_Un)
qed

lemma request_snapshot_keeps:
  assumes inv: "inv_at E product T k L c n (e, w)" and t: "request_snapshot e = Some e'"
  shows "inv_at E product T k L c n (e', w)"
  using inv t by (auto simp: request_snapshot_def inv_defs split: if_splits)

lemma store_snapshot_keeps:
  assumes inv: "inv_at E product T k L c n (e, w)" and o: "orderly (StoreSnapshot ok) e"
    and t: "store_snapshot ok e w = Some (e', w')"
  shows "inv_at E product T k L c n (e', w')"
proof -
  obtain s rest where ch: "en_snapshotCh e = s # rest" using t by (auto simp: store_snapshot_def split: list.splits)
  have "written (en_OrderBook e) s = s" if ok using o ch that by (simp add: orderly_def written_def)
  then have "if ok then e' = e\<lparr>en_snapshotCh := rest, en_lastOffset := sn_OrderOffset s\<rparr> \<and> w' = w\<lparr>wd_snapshot := Some s\<rparr>
      else e' = e\<lparr>en_snapshotCh := rest\<rparr> \<and> w' = w"
    using t ch by (cases ok) (auto simp: store_snapshot_def)
  moreover have "0 < sn_OrderOffset s" using inv ch by (simp add: inv_defs snap_ok_def ball_Un)
  ultimately show ?thesis using inv ch by (cases ok) (simp_all add: inv_defs stored_ok_def ball_Un)
qed

lemma fresh_engine_inv:
  assumes "at_point E product T k b L" and "0 \<le> k" and "stored_ok (reference_logs E product T) (length L) n w"
    and "wd_orders w = T" and "\<forall>s\<in>set_option (wd_snapshot w). snap_ok E product T s \<and> LogSeq s \<le> int n"
    and "0 \<le> off" and "ob_logSeq b = int (length L)" and "k = (if 0 < off then off + 1 else off)"
  shows "inv_at E product T k L (length L) n (Start \<lparr>en_product = product, en_OrderBook = b, en_orderOffset = off, en_orderCh = [],
               en_logCh = [], en_snapshotReqCh = [], en_snapshotApproveReqCh = [], en_snapshotCh = [],
               en_readerPos = 0, en_applied = 0, en_sending = None, en_seq = 0, en_pending = None, en_logs = [],
               en_approving = None, en_lastOffset = 0\<rparr>, w)"
  using assms by (simp add: inv_defs Start_def)

lemma engine_restart_keeps:
  assumes laws: "env_laws E" and T: "topic_ok T" and inv: "inv_at E product T k L c n (e, w)"
  shows "\<exists>e' k' L' c'. NewEngine E (en_product e) (wd_snapshot w) = Inr e' \<and> inv_at E product T k' L' c' n (Start e', w)"
proof -
  have w: "wd_orders w = T" "en_product e = product" "stored_ok (reference_logs E product T) c n w"
    and sn: "\<forall>s\<in>set_option (wd_snapshot w). snap_ok E product T s \<and> LogSeq s \<le> int n"
    using inv by (auto simp: inv_defs)
  have st: "stored_ok (reference_logs E product T) m n w" if "m \<le> n" for m using w(3) that by (simp add: stored_ok_def)
  show ?thesis
  proof (cases "wd_snapshot w")
    case None
    have "inv_at E product T 0 [] (length ([] :: 'a log list)) n (Start \<lparr>en_product = product, en_OrderBook = NewOrderBook E product,
        en_orderOffset = 0, en_orderCh = [], en_logCh = [], en_snapshotReqCh = [], en_snapshotApproveReqCh = [], en_snapshotCh = [],
        en_readerPos = 0, en_applied = 0, en_sending = None, en_seq = 0, en_pending = None, en_logs = [],
        en_approving = None, en_lastOffset = 0\<rparr>, w)"
      by (rule fresh_engine_inv [OF at_point_start [OF laws] _ st w(1) sn])
        (simp_all add: NewOrderBook_def Let_def)
    then show ?thesis using None w(2) by (auto simp: NewEngine_def)
  next
    case (Some s)
    then have so: "snap_ok E product T s" "LogSeq s \<le> int n" using sn by simp_all
    obtain b L' sells buys where b: "at_point E product T (sn_OrderOffset s + 1) b L'" "ranges b sells buys"
        "Snapshot b sells buys = Inr (sn_OrderBookSnapshot s)" and pos: "0 < sn_OrderOffset s"
      using so(1) by (auto simp: snap_ok_def)
    note D = at_pointD [OF laws T b(1)]
    obtain snap b' where "Snapshot b sells buys = Inr snap" "Restore E (NewOrderBook E (ob_product b)) snap = Inr b'"
        "same_book E b' b" "book_inv E b'" "obs_LogSeq snap = ob_logSeq b"
      using restored_same [OF laws D(1)] b(2) unfolding ranges_def by metis
    moreover from this have "ob_logSeq b' = ob_logSeq b" by (simp add: same_bookD(2))
    ultimately have r: "Restore E (NewOrderBook E product) (sn_OrderBookSnapshot s) = Inr b'" "same_book E b b'" "book_inv E b'"
        "LogSeq s = int (length L')" "ob_logSeq b' = int (length L')"
      using b(3) D same_book_sym by (auto simp: LogSeq_def)
    have "inv_at E product T (sn_OrderOffset s + 1) L' (length L') n (Start \<lparr>en_product = product, en_OrderBook = b',
        en_orderOffset = sn_OrderOffset s, en_orderCh = [], en_logCh = [], en_snapshotReqCh = [], en_snapshotApproveReqCh = [],
        en_snapshotCh = [], en_readerPos = 0, en_applied = 0, en_sending = None, en_seq = 0, en_pending = None, en_logs = [],
        en_approving = None, en_lastOffset = 0\<rparr>, w)"
      by (rule fresh_engine_inv [OF at_point_same [OF b(1) r(2,3)] _ st w(1) sn _ r(5)]) (use pos so r in simp_all)
    then show ?thesis using Some w(2) r(1) by (auto simp: NewEngine_def restore_def)
  qed
qed

lemma engine_step_keeps:
  assumes laws: "env_laws E" and T: "topic_ok T" and inv: "engine_inv E product T (e, w)" and o: "orderly ev e"
  shows "case engine_step E ev (e, w) of
      None \<Rightarrow> True
    | Some (Inl f) \<Rightarrow> ev = CommitLog False
    | Some (Inr s') \<Rightarrow> engine_inv E product T s'"
proof -
  obtain k L c n where i: "inv_at E product T k L c n (e, w)" using inv by (auto simp: engine_inv_def)
  have keep: "engine_inv E product T s" if "inv_at E product T k' L' c' n' s" for k' L' c' n' s
    using that by (auto simp: engine_inv_def)
  show ?thesis
  proof (cases ev)
    case Fetch
    then show ?thesis
      using keep [OF fetch_keeps [OF T i]] by (auto split: option.splits)
  next
    case TakeOrder
    then show ?thesis
      using take_order_keeps [OF laws T i] keep by (fastforce split: option.splits)
  next
    case SendLog
    then show ?thesis using keep [OF send_log_keeps [OF i]] by (auto split: option.splits)
  next
    case (TakeSnapshot sells buys)
    then have "ranges (en_OrderBook e) sells buys" using o by (simp add: orderly_def)
    then show ?thesis using TakeSnapshot take_snapshot_keeps [OF laws T i] keep by (fastforce split: option.splits)
  next
    case (CommitLog ok)
    have "ok = False" if "commit_log ok e w = Some (Inl f)" for f
      using that by (auto simp: commit_log_def Let_def split: option.splits list.splits if_splits)
    then show ?thesis using CommitLog commit_log_keeps [OF laws T i] keep by (fastforce split: option.splits sum.splits)
  next
    case TakeApproval
    then show ?thesis using keep [OF take_approval_keeps [OF i]] o by (auto split: option.splits)
  next
    case SendApproved
    then show ?thesis using keep [OF send_approved_keeps [OF i]] by (auto split: option.splits)
  next
    case RequestSnapshot
    then show ?thesis using keep [OF request_snapshot_keeps [OF i]] by (auto split: option.splits)
  next
    case (StoreSnapshot ok)
    then show ?thesis using keep [OF store_snapshot_keeps [OF i]] o by (auto split: option.splits)
  next
    case Restart
    then show ?thesis using engine_restart_keeps [OF laws T i] keep by fastforce
  qed
qed

end
