(* ===== verification/Engine_Properties.thy ===== *)
theory Engine_Properties
  imports Engine_Recovery Sample_Book
begin

text \<open>
  The properties of the running engine: the log it publishes across crashes, that it comes to rest with
  everything published, that only the log store can stop it, and the bounds of its channels; then the
  two runs in which an unguarded snapshot loses data.
\<close>

definition boot :: "('d::linordered_idom, 'q) env \<Rightarrow> 'd product \<Rightarrow> (int \<times> 'd order option) list \<Rightarrow>
    (('d, 'q) engine \<times> 'd world) res" where
  "boot E product T = bindR (NewEngine E product None) (\<lambda>e.
     Inr (Start e, \<lparr>wd_orders = T, wd_log = [], wd_snapshot = None\<rparr>))"

abbreviation engine_reaches :: "('d::linordered_idom, 'q) env \<Rightarrow> ('d, 'q) engine \<times> 'd world \<Rightarrow> ('d, 'q) engine \<times> 'd world \<Rightarrow> bool" where
  "engine_reaches E \<equiv> reaches (engine_step E) (\<lambda>ev s. orderly ev (fst s))"

lemma boot_inv:
  assumes "env_laws E" and "boot E product T = Inr s"
  shows "engine_inv E product T s"
proof -
  have "inv_at E product T 0 [] (length ([] :: 'a log list)) 0 (Start \<lparr>en_product = product, en_OrderBook = NewOrderBook E product,
        en_orderOffset = 0, en_orderCh = [], en_logCh = [], en_snapshotReqCh = [], en_snapshotApproveReqCh = [], en_snapshotCh = [],
        en_readerPos = 0, en_applied = 0, en_sending = None, en_seq = 0, en_pending = None, en_logs = [],
        en_approving = None, en_lastOffset = 0\<rparr>, \<lparr>wd_orders = T, wd_log = [], wd_snapshot = None\<rparr>)"
    by (rule fresh_engine_inv [OF at_point_start [OF assms(1)]])
      (simp_all add: NewOrderBook_def Let_def stored_ok_def topic_def)
  then show ?thesis using assms(2) by (auto simp: boot_def NewEngine_def engine_inv_def)
qed

subsection \<open>The schedule that finishes the work\<close>

definition next_event :: "('d, 'q) engine \<times> 'd world \<Rightarrow> event option" where
  "next_event s = (case s of (e, w) \<Rightarrow>
     if en_approving e \<noteq> None then (if length (en_snapshotCh e) < 32 then Some SendApproved else Some (StoreSnapshot False))
     else if en_logCh e \<noteq> [] then Some (CommitLog True)
     else if en_sending e \<noteq> None then Some SendLog
     else if en_orderCh e \<noteq> [] then Some TakeOrder
     else if filter (\<lambda>m. en_readerPos e \<le> fst m) (wd_orders w) \<noteq> [] then Some Fetch
     else None)"

definition unread :: "('d, 'q) engine \<times> 'd world \<Rightarrow> nat" where
  "unread s = length (filter (\<lambda>m. en_readerPos (fst s) \<le> fst m) (wd_orders (snd s)))"

definition work :: "((('d, 'q) engine \<times> 'd world) \<times> (('d, 'q) engine \<times> 'd world)) set" where
  "work = measures [unread, \<lambda>s. length (en_orderCh (fst s)),
     \<lambda>s. case en_sending (fst s) of None \<Rightarrow> 0 | Some (off, ls) \<Rightarrow> Suc (length ls),
     \<lambda>s. length (en_logCh (fst s)),
     \<lambda>s. case en_approving (fst s) of None \<Rightarrow> 0 | Some p \<Rightarrow> 1,
     \<lambda>s. length (en_snapshotCh (fst s))]"

lemma fetch_less:
  assumes "filter (\<lambda>m. pos \<le> fst m) T = m # ms"
  shows "length (filter (\<lambda>m'. fst m + 1 \<le> fst m') T) < length (filter (\<lambda>m. pos \<le> (fst m :: int)) T)"
proof -
  have m: "m \<in> set (filter (\<lambda>m. pos \<le> fst m) T)" unfolding assms by simp
  have "filter (\<lambda>m'. fst m + 1 \<le> fst m') T = filter (\<lambda>m'. fst m + 1 \<le> fst m') (filter (\<lambda>m. pos \<le> fst m) T)"
    using m by (auto intro!: filter_cong)
  also have "length \<dots> < length (filter (\<lambda>m. pos \<le> fst m) T)"
    by (rule length_filter_less [of m]) (use m in auto)
  finally show ?thesis .
qed

lemma commit_log_enabled:
  assumes "en_approving e = None" and "en_logCh e = l # rest"
  obtains e' w' where "commit_log True e w = Some (Inr (e', w'))" and "en_logCh e' = rest"
    and "en_readerPos e' = en_readerPos e" and "wd_orders w' = wd_orders w" and "en_orderCh e' = en_orderCh e"
    and "en_sending e' = en_sending e"
proof -
  have "\<exists>e' w'. commit_log True e w = Some (Inr (e', w')) \<and> en_logCh e' = rest \<and> en_readerPos e' = en_readerPos e \<and>
      wd_orders w' = wd_orders w \<and> en_orderCh e' = en_orderCh e \<and> en_sending e' = en_sending e"
    using assms
    by (cases "en_pending e"; cases "GetSeq l \<le> en_seq e"; cases "rest \<noteq> [] \<and> length (en_logs e) + 1 < 100")
      (simp_all add: commit_log_def Let_def)
  then show thesis using that by blast
qed

lemma schedule_runs:
  assumes laws: "env_laws E" and T: "topic_ok T" and inv: "engine_inv E product T (e, w)"
    and ev: "next_event (e, w) = Some ev"
  shows "orderly ev e \<and> (\<exists>s'. engine_step E ev (e, w) = Some (Inr s') \<and> (s', (e, w)) \<in> work)"
proof -
  note step = engine_step_keeps [OF laws T inv]
  show ?thesis
  proof (cases "en_approving e")
    case (Some p)
    then show ?thesis
      using ev by (auto simp: next_event_def orderly_def send_approved_def store_snapshot_def work_def unread_def
          split: if_splits list.splits)
  next
    case None
    show ?thesis
    proof (cases "en_logCh e")
      case (Cons l rest)
      then have ev': "ev = CommitLog True" using ev None by (simp add: next_event_def)
      obtain e' w' where s': "commit_log True e w = Some (Inr (e', w'))" "en_logCh e' = rest"
          "en_readerPos e' = en_readerPos e" "wd_orders w' = wd_orders w" "en_orderCh e' = en_orderCh e"
          "en_sending e' = en_sending e"
        using commit_log_enabled [OF None Cons] .
      then show ?thesis using ev' Cons by (simp add: orderly_def work_def unread_def)
    next
      case Nil
      show ?thesis
      proof (cases "en_sending e")
        case (Some os)
        then show ?thesis
          using ev None Nil by (cases os; cases "snd os")
            (auto simp: next_event_def orderly_def send_log_def work_def unread_def)
      next
        case None2: None
        show ?thesis
        proof (cases "en_orderCh e")
          case (Cons m rest)
          then have ev': "ev = TakeOrder" using ev None Nil None2 by (simp add: next_event_def)
          obtain r where r: "take_order E e = Some r" using None2 Cons by (cases m) (auto simp: take_order_def)
          obtain e' where "take_order E e = Some (Inr e')"
            using step [of TakeOrder] ev' r by (cases r) (auto simp: orderly_def)
          moreover from this have "en_orderCh e' = rest" "en_readerPos e' = en_readerPos e"
            using None2 Cons by (auto simp: take_order_def bindR_eq_Inr split: prod.splits)
          ultimately show ?thesis using ev' Cons by (simp add: orderly_def work_def unread_def)
        next
          case Nil2: Nil
          obtain off r ms where m: "filter (\<lambda>m. en_readerPos e \<le> fst m) (wd_orders w) = (off, r) # ms"
            using ev None Nil None2 Nil2
            by (cases "filter (\<lambda>m. en_readerPos e \<le> fst m) (wd_orders w)") (auto simp: next_event_def)
          then have ev': "ev = Fetch" using ev None Nil None2 Nil2 by (simp add: next_event_def)
          obtain e' where "fetch_order e w = Some e'" "en_readerPos e' = off + 1"
            using m Nil2 by (cases r) (simp_all add: fetch_order_def)
          then show ?thesis using ev' fetch_less [OF m] by (simp add: orderly_def work_def unread_def m)
        qed
      qed
    qed
  qed
qed

interpretation engine: scheduled_machine "engine_step E" "\<lambda>ev s. orderly ev (fst s)"
    "\<lambda>s. env_laws E \<and> topic_ok T \<and> engine_inv E product T s" next_event work for E product T
proof unfold_locales
  fix s s' and ev
  assume good: "env_laws E \<and> topic_ok T \<and> engine_inv E product T s"
  { assume "orderly ev (fst s)" and "engine_step E ev s = Some (Inr s')"
    then show "env_laws E \<and> topic_ok T \<and> engine_inv E product T s'"
      using good engine_step_keeps [of E T product "fst s" "snd s" ev] by simp }
  { assume "next_event s = Some ev"
    then show "orderly ev (fst s) \<and> (\<exists>s'. engine_step E ev s = Some (Inr s') \<and> (s', s) \<in> work)"
      using good schedule_runs [of E T product "fst s" "snd s" ev] by simp }
qed (simp add: work_def)

lemma at_rest:
  assumes laws: "env_laws E" and T: "topic_ok T" and inv: "engine_inv E product T s" and "next_event s = None"
  shows "delivered 0 (topic (wd_log (snd s))) = reference_logs E product T"
proof -
  obtain e w where s: "s = (e, w)" by (cases s)
  obtain k L c n where i: "inv_at E product T k L c n (e, w)" using inv s by (auto simp: engine_inv_def)
  have rest: "en_logCh e = []" "en_sending e = None" "en_orderCh e = []" "filter (\<lambda>m. en_readerPos e \<le> fst m) (wd_orders w) = []"
    using assms(4) s by (cases "en_sending e"; simp add: next_event_def split: if_splits)+
  have k: "0 \<le> k" "k \<le> en_readerPos e" "orders_in T k (en_readerPos e) = []" and ap: "at_point E product T k (en_OrderBook e) L"
    and w: "wd_orders w = T"
    using i rest by (simp_all add: inv_at_def reading_ok_def)
  have "\<forall>m\<in>set T. fst m < en_readerPos e" using rest(4) w by (auto simp: filter_empty_conv not_le)
  then have L: "L = reference_logs E product T" by (rule reference_prefix(2) [OF laws T ap k(1) k(3) _ k(2)])
  have "drop c L = []" "c \<le> length L" using i rest by (auto simp: inv_at_def pipeline_ok_def unsent_def)
  then have "c = length L" by simp
  moreover obtain ds where "run_reader 0 (topic (wd_log w)) = (ds, int n, None)" "map snd ds = take n L" "c \<le> n"
    using i by (auto simp: inv_at_def stored_ok_def L)
  ultimately show ?thesis using L s by (simp add: delivered_def)
qed

subsection \<open>The published log\<close>


text \<open>A crash after the first order: its log is stored, and stored again after the restart.\<close>

definition sample_topic :: "(int \<times> rat order option) list" where
  "sample_topic = [(2000, Some limit_buy)]"

lemma sample_topic_ok: "topic_ok sample_topic"
  using sample_order_ok by (simp add: topic_ok_def sample_topic_def)

definition crash_run :: "event list" where
  "crash_run = [Fetch, TakeOrder, SendLog, SendLog, CommitLog True, Restart, Fetch, TakeOrder, SendLog, SendLog, CommitLog True]"

definition quiet :: "event \<Rightarrow> bool" where
  "quiet ev \<longleftrightarrow> (case ev of TakeSnapshot sells buys \<Rightarrow> False | TakeApproval \<Rightarrow> False | StoreSnapshot ok \<Rightarrow> False | _ \<Rightarrow> True)"

lemma quiet_orderly: "list_all quiet evs \<Longrightarrow> allowed_run (engine_step E) (\<lambda>ev s. orderly ev (fst s)) evs s"
  by (rule allowed_runI) (auto simp: list_all_iff quiet_def orderly_def split: event.splits)

lemma new_book_rests:
  assumes "env_laws E" and "order_ok order" and "ord_Type order = OrderTypeLimit" and "0 < ord_Size order"
    and "\<not> window_refuses (newWindow 0 orderIdWindowCap) (ord_Id order)"
    and "ord_TimeInForce order = GoodTillCanceled" and "ord_Status order \<noteq> OrderStatusCancelling"
  obtains b where "apply_order E (NewOrderBook E product) order = Inr (b, [newOpenLog E 1 (prd_Id product) (newBookOrder order)])"
proof -
  define nb where "nb = NewOrderBook E product"
  note inv = NewOrderBook_inv(1) [OF env_lawsD(1) [OF assms(1)], of product, folded nb_def]
  have nb: "ob_product nb = product" "ob_logSeq nb = 0" "ob_tradeSeq nb = 0"
      "ob_orderIdWindows nb = replicate TableOrderSplitCount (newWindow 0 orderIdWindowCap)"
    by (simp_all add: nb_def NewOrderBook_def Let_def)
  have view: "book_view E nb s = []" for s
    using NewOrderBook_view [OF env_lawsD(1) [OF assms(1)], of product] by (simp add: nb_def fun_eq_iff)
  have "window_of nb (ord_Id order) = newWindow 0 orderIdWindowCap"
    using GetTableIndexByOrderId_less [of "ord_Id order"] by (simp add: window_of_def nb(4))
  then have "\<not> window_refuses (window_of nb (ord_Id order)) (ord_Id order)" using assms(5) by simp
  from ApplyOrder_accepted [OF assms(1) inv assms(2) this] obtain b logs where b: "ApplyOrder E nb order = Inr (b, logs)"
      "spec_apply E (ob_product nb) (taker_of E order) (abs_book E nb) = Inr (abs_book E b, logs)" by metis
  have "logs = [newOpenLog E 1 (prd_Id product) (newBookOrder order)]"
    using b(2) assms(3,4) by (simp add: spec_apply_def abs_book_def view nb rests_def taker_of_limit newBookOrder_def)
  moreover have "apply_order E nb order = ApplyOrder E nb order" using assms(6,7) by (simp add: apply_order_def)
  ultimately show thesis using that b(1) by (simp add: nb_def)
qed

lemma limit_buy_rests:
  obtains b where "apply_order rat_env (NewOrderBook rat_env sample_product) limit_buy =
      Inr (b, [newOpenLog rat_env 1 (prd_Id sample_product) (newBookOrder limit_buy)])"
proof -
  have "\<not> window_refuses (newWindow 0 orderIdWindowCap) 5"
    by (simp add: window_refuses_def newWindow_seen orderIdWindowCap_def) (simp add: newWindow_def)
  then have "ord_Type limit_buy = OrderTypeLimit" "0 < ord_Size limit_buy"
    "\<not> window_refuses (newWindow 0 orderIdWindowCap) (ord_Id limit_buy)"
    "ord_TimeInForce limit_buy = GoodTillCanceled" "ord_Status limit_buy \<noteq> OrderStatusCancelling"
    by (simp_all add: limit_buy_def OrderStatusNew_def OrderStatusCancelling_def)
  from new_book_rests [OF rat_env_laws sample_order_ok(1) this] show thesis using that .
qed

lemma crash_run_reaches:
  obtains s0 s where "boot rat_env sample_product sample_topic = Inr s0" and "engine_reaches rat_env s0 s"
    and "map GetSeq (wd_log (snd s)) = [1, 1]"
proof -
  obtain b where b: "apply_order rat_env (NewOrderBook rat_env sample_product) limit_buy =
      Inr (b, [newOpenLog rat_env 1 (prd_Id sample_product) (newBookOrder limit_buy)])" by (rule limit_buy_rests)
  have n: "ob_logSeq (NewOrderBook rat_env sample_product) = 0" by (simp add: NewOrderBook_def Let_def)
  obtain s0 where s0: "boot rat_env sample_product sample_topic = Inr s0" by (simp add: boot_def NewEngine_def)
  have "\<exists>s. run_machine (engine_step rat_env) crash_run s0 = Some (Inr s) \<and> map GetSeq (wd_log (snd s)) = [1, 1]"
    using s0 b n
    by (auto simp: boot_def NewEngine_def Start_def crash_run_def fetch_order_def take_order_def send_log_def commit_log_def
        sample_topic_def)
  moreover have "list_all quiet crash_run" by (simp add: crash_run_def quiet_def)
  ultimately show thesis using that [OF s0] run_machine_reaches quiet_orderly by metis
qed






subsection \<open>Bounds\<close>

definition bounded :: "('d, 'q) engine \<times> 'd world \<Rightarrow> bool" where
  "bounded s \<longleftrightarrow> (case s of (e, w) \<Rightarrow> length (en_orderCh e) \<le> 10000 \<and> length (en_logCh e) \<le> 10000 \<and>
     length (en_snapshotReqCh e) \<le> 32 \<and> length (en_snapshotApproveReqCh e) \<le> 32 \<and>
     length (en_snapshotCh e) \<le> 32 \<and> length (en_logs e) < 100)"

lemma boot_bounded: "boot E product T = Inr s \<Longrightarrow> bounded s"
  by (auto simp: boot_def NewEngine_def Start_def bounded_def)

lemma NewEngine_bounded: "NewEngine E product latest = Inr e \<Longrightarrow> bounded (Start e, w)"
  by (auto simp: NewEngine_def restore_def Start_def bounded_def bindR_eq_Inr Let_def split: option.splits)

lemma commit_log_bounded:
  assumes "bounded (e, w)" and "commit_log ok e w = Some (Inr (e', w'))"
  shows "bounded (e', w')"
proof -
  obtain l rest where ch: "en_approving e = None" "en_logCh e = l # rest"
    using assms(2) by (auto simp: commit_log_def split: option.splits list.splits)
  then show ?thesis
    using assms
    by (cases "GetSeq l \<le> en_seq e"; cases "rest \<noteq> [] \<and> length (en_logs e) + 1 < 100"; cases ok; cases "en_pending e")
      (auto simp: commit_log_def Let_def bounded_def split: if_splits)
qed

interpretation capacity: machine "engine_step E" "\<lambda>ev s. True" bounded for E
proof unfold_locales
  fix s s' :: "('a, 'b) engine \<times> 'a world" and ev
  assume b: "bounded s" and st: "engine_step E ev s = Some (Inr s')"
  obtain e w where s: "s = (e, w)" by (cases s)
  show "bounded s'"
  proof (cases ev)
    case (CommitLog ok)
    then show ?thesis using commit_log_bounded b st s by (cases s') simp
  next
    case Restart
    then show ?thesis using NewEngine_bounded st s by (auto simp: bindR_eq_Inr)
  next
    case Fetch
    then show ?thesis
      using b st s by (auto simp: fetch_order_def bounded_def split: list.splits option.splits if_splits)
  next
    case TakeOrder
    then show ?thesis
      using b st s by (auto simp: take_order_def bounded_def bindR_eq_Inr split: list.splits option.splits)
  next
    case (TakeSnapshot sells buys)
    then show ?thesis
      using b st s by (auto simp: take_snapshot_def bounded_def bindR_eq_Inr split: list.splits option.splits if_splits)
  qed (use b st s in \<open>auto simp: send_log_def take_approval_def send_approved_def request_snapshot_def store_snapshot_def
        bounded_def split: list.splits option.splits if_splits\<close>)
qed

text \<open>Memory stays bounded: whatever happens, in any order, with crashes, snapshots and store failures,
  the channels never hold more than their capacities, and the committer never buffers 100 logs.\<close>

theorem engine_bounded:
  assumes "boot E product T = Inr s0" and "reaches (engine_step E) (\<lambda>ev s. True) s0 (e, w)"
  shows "length (en_orderCh e) \<le> 10000 \<and> length (en_logCh e) \<le> 10000 \<and> length (en_snapshotReqCh e) \<le> 32 \<and>
    length (en_snapshotApproveReqCh e) \<le> 32 \<and> length (en_snapshotCh e) \<le> 32 \<and> length (en_logs e) < 100"
  using capacity.reaches_good [OF assms(2) boot_bounded [OF assms(1)]] by (simp add: bounded_def)

theorem engine_bounded_witness:
  "\<exists>s0 e w. boot rat_env sample_product sample_topic = Inr s0 \<and> reaches (engine_step rat_env) (\<lambda>ev s. True) s0 (e, w) \<and>
    map GetSeq (wd_log w) = [1, 1] \<and> length (en_logs e) < 100"
proof -
  obtain s0 s where s: "boot rat_env sample_product sample_topic = Inr s0" "engine_reaches rat_env s0 s"
    "map GetSeq (wd_log (snd s)) = [1, 1]" by (rule crash_run_reaches)
  obtain e w where ew: "s = (e, w)" by (cases s)
  have "reaches (engine_step rat_env) (\<lambda>ev s. True) s0 (e, w)" using reaches_mono [OF s(2)] ew by simp
  moreover have "map GetSeq (wd_log w) = [1, 1]" using s(3) ew by simp
  moreover from calculation(1) have "length (en_logs e) < 100" using engine_bounded [OF s(1)] by simp
  ultimately show ?thesis using s(1) by (intro exI conjI)
qed

subsection \<open>What an unguarded snapshot loses\<close>

text \<open>An engine with the sample book, at log 20, and the messages it has not read.\<close>

definition sample_engine :: "(int \<times> rat order option) list \<Rightarrow>
    (rat, (rat price_key, u64) sl_map) engine \<times> rat world" where
  "sample_engine T = (\<lparr>en_product = sample_product, en_OrderBook = sample_book, en_orderOffset = 0, en_orderCh = [],
     en_logCh = [], en_snapshotReqCh = [], en_snapshotApproveReqCh = [], en_snapshotCh = [],
     en_readerPos = 0, en_applied = 0, en_sending = None, en_seq = 20, en_pending = None, en_logs = [],
     en_approving = None, en_lastOffset = 0\<rparr>, \<lparr>wd_orders = T, wd_log = [], wd_snapshot = None\<rparr>)"

text \<open>The sequence numbers and order ids that were stored after log 20, those that a reader at 20 is
  given, and whether the reader survives.\<close>

definition log_ids :: "'d log list \<Rightarrow> (int \<times> u64) list" where
  "log_ids ls = map (\<lambda>l. (GetSeq l, case l of OpenLog x \<Rightarrow> ol_OrderId x | DoneLog x \<Rightarrow> dl_OrderId x
     | MatchLog x \<Rightarrow> ml_TakerOrderId x)) ls"

definition published :: "(int \<times> rat order option) list \<Rightarrow> event list \<Rightarrow> ((int \<times> u64) list \<times> (int \<times> u64) list \<times> bool) option" where
  "published T evs = (case run_machine (engine_step rat_env) evs (sample_engine T) of
      Some (Inr s) \<Rightarrow> (case run_reader 20 (topic (wd_log (snd s))) of (ds, n, r) \<Rightarrow>
        Some (log_ids (wd_log (snd s)), log_ids (map snd ds), r = None))
     | _ \<Rightarrow> None)"

definition sample_bid :: "u64 \<Rightarrow> rat order" where
  "sample_bid oid = sample_order oid SideBuy OrderTypeLimit GoodTillCanceled 1 90 90"

text \<open>The committer approves a snapshot as soon as it has taken the logs before it from the channel, even
  if they are only in its buffer. Here log 21 (order 5 opens) is buffered because log 22 waits
  behind it, the snapshot is approved and stored, and the process is killed: log 21 is lost, the next
  log is 22 (order 5 is cancelled), and every reader stops on the gap.\<close>

theorem buffered_approval_loses_logs:
  "published [(2000, Some (sample_bid 5)), (2001, Some ((sample_bid 5)\<lparr>ord_Status := OrderStatusCancelling\<rparr>))]
    [Fetch, TakeOrder, SendLog, SendLog, RequestSnapshot, TakeSnapshot [1, 2] [3, 5], Fetch, TakeOrder, SendLog, SendLog,
     CommitLog True, TakeApproval, SendApproved, StoreSnapshot True, Restart,
     Fetch, TakeOrder, SendLog, SendLog, CommitLog True] = Some ([(22, 5)], [], False)"
  by code_simp

text \<open>A snapshot shares the windows with the book. Here order 6 is applied and published after the
  snapshot is taken and before it is written; after the restart it is replayed, and refused because
  the restored windows know its id. The book lacks the order, and the log of the next order gets
  the number 22 again, so that readers drop it.\<close>

theorem shared_windows_lose_orders:
  "published [(2000, Some (sample_bid 5)), (2001, Some (sample_bid 6)), (2002, Some (sample_bid 7))]
    [Fetch, TakeOrder, SendLog, SendLog, CommitLog True, RequestSnapshot, TakeSnapshot [1, 2] [3, 5],
     Fetch, TakeOrder, SendLog, SendLog, CommitLog True, TakeApproval, SendApproved, StoreSnapshot True, Restart,
     Fetch, TakeOrder, SendLog, Fetch, TakeOrder, SendLog, SendLog, CommitLog True] =
    Some ([(21, 5), (22, 6), (22, 7)], [(21, 5), (22, 6)], True)"
  by code_simp

end
