(* ===== verification/Makers.thy ===== *)
theory Makers
  imports Accounts Log_Reader Machines
begin

text \<open>
  The skeleton that the three consumers of the matching log share (\<open>worker/fill_maker.go\<close>,
  \<open>worker/trade_maker.go\<close>, \<open>worker/tick_maker.go\<close>): the log reader calls the observer, the observer writes
  rows to a channel, the flusher collects rows and stores them in batches, retrying until the
  database takes them. A restart reads the last stored row and goes on from its offset and sequence
  number. What differs is the observer (the rows of a log), the insert, and the constructor; they are
  parameters here.
\<close>

subsection \<open>State and steps\<close>

record ('r, 'loc) maker =
  mk_ch :: "'r list"             \<comment> \<open>\<open>fillCh\<close>, \<open>tradeCh\<close>, \<open>tickCh\<close>\<close>
  mk_state :: 'loc               \<comment> \<open>what the observer keeps\<close>
  mk_pos :: int                  \<comment> \<open>the log reader: next offset\<close>
  mk_lastSeq :: int              \<comment> \<open>the log reader: \<open>lastSeq\<close>\<close>
  mk_sending :: "'r list"        \<comment> \<open>the observer: rows still to be written to the channel\<close>
  mk_buffer :: "'r list"         \<comment> \<open>the flusher's batch\<close>
  mk_storing :: bool             \<comment> \<open>the flusher is in its retry loop\<close>

type_synonym ('d, 'r, 'loc, 's) observer = "'d msg \<Rightarrow> 'loc \<Rightarrow> 's \<Rightarrow> ('r list \<times> 'loc) \<times> 's"

definition start_maker :: "int \<Rightarrow> int \<Rightarrow> 'loc \<Rightarrow> ('r, 'loc) maker" where
  "start_maker logOffset logSeq loc = \<lparr>mk_ch = [], mk_state = loc,
     mk_pos = (if 0 < logOffset then logOffset + 1 else logOffset), mk_lastSeq = logSeq,
     mk_sending = [], mk_buffer = [], mk_storing = False\<rparr>"

text \<open>One turn of \<open>Run\<close>, once the previous call of the observer has returned.\<close>

definition read_log :: "'d msg list \<Rightarrow> ('d, 'r, 'loc, 's) observer \<Rightarrow> ('r, 'loc) maker \<Rightarrow> 's \<Rightarrow>
    (('r, 'loc) maker \<times> 's) res option" where
  "read_log T obs mk s =
     (if mk_sending mk \<noteq> [] then None
      else case filter (\<lambda>m. mk_pos mk \<le> fst m) T of
        [] \<Rightarrow> None
      | (offset, l) # ms \<Rightarrow>
          if GetSeq l \<le> mk_lastSeq mk then Some (Inr (mk\<lparr>mk_pos := offset + 1\<rparr>, s))
          else if 0 < mk_lastSeq mk \<and> GetSeq l \<noteq> mk_lastSeq mk + 1 then Some (Inl (Fatal ''non-sequence detected''))
          else (case obs (offset, l) (mk_state mk) s of ((rows, loc), s1) \<Rightarrow>
            Some (Inr (mk\<lparr>mk_pos := offset + 1, mk_lastSeq := GetSeq l, mk_state := loc, mk_sending := rows\<rparr>, s1))))"

definition send_row :: "('r, 'loc) maker \<Rightarrow> ('r, 'loc) maker option" where
  "send_row mk = (case mk_sending mk of [] \<Rightarrow> None
     | r # rs \<Rightarrow> if length (mk_ch mk) < 1000 then Some (mk\<lparr>mk_ch := mk_ch mk @ [r], mk_sending := rs\<rparr>) else None)"

text \<open>The flusher: take a row; go on while the channel has more and the batch is not full; then store.\<close>

definition take_row :: "('r, 'loc) maker \<Rightarrow> ('r, 'loc) maker option" where
  "take_row mk = (if mk_storing mk then None
     else case mk_ch mk of [] \<Rightarrow> None
     | r # rest \<Rightarrow>
         let mk1 = mk\<lparr>mk_ch := rest, mk_buffer := mk_buffer mk @ [r]\<rparr> in
         Some (mk1\<lparr>mk_storing := \<not> (rest \<noteq> [] \<and> length (mk_buffer mk1) < 1000)\<rparr>))"

definition store_rows :: "('r list \<Rightarrow> 's \<Rightarrow> (failure + unit) \<times> 's) \<Rightarrow> ('r, 'loc) maker \<Rightarrow> 's \<Rightarrow>
    (('r, 'loc) maker \<times> 's) res option" where
  "store_rows ins mk s = (if \<not> mk_storing mk then None
     else case ins (mk_buffer mk) s of
       (Inr u, s1) \<Rightarrow> Some (Inr (mk\<lparr>mk_buffer := [], mk_storing := False\<rparr>, s1))
     | (Inl (Err e), s1) \<Rightarrow> Some (Inr (mk, s1))
     | (Inl (Crash f), s1) \<Rightarrow> Some (Inl f))"

text \<open>\<open>Outside\<close>: another process or goroutine changes the database.\<close>

datatype 's maker_event = ReadLog | SendRow | TakeRow | StoreRows | RestartMaker | Outside 's

fun maker_step :: "'d msg list \<Rightarrow> ('d, 'r, 'loc, 's) observer \<Rightarrow> ('r list \<Rightarrow> 's \<Rightarrow> (failure + unit) \<times> 's) \<Rightarrow>
    ('s \<Rightarrow> (failure + int \<times> int \<times> 'loc) \<times> 's) \<Rightarrow> 's maker_event \<Rightarrow> ('r, 'loc) maker \<times> 's \<Rightarrow>
    (('r, 'loc) maker \<times> 's) res option" where
  "maker_step T obs ins new ReadLog (mk, s) = read_log T obs mk s"
| "maker_step T obs ins new SendRow (mk, s) = map_option (\<lambda>mk. Inr (mk, s)) (send_row mk)"
| "maker_step T obs ins new TakeRow (mk, s) = map_option (\<lambda>mk. Inr (mk, s)) (take_row mk)"
| "maker_step T obs ins new StoreRows (mk, s) = store_rows ins mk s"
| "maker_step T obs ins new RestartMaker (mk, s) = Some (case new s of
       (Inr (logOffset, logSeq, loc), s1) \<Rightarrow> Inr (start_maker logOffset logSeq loc, s1)
     | (Inl (Err e), s1) \<Rightarrow> Inl (Panic e)
     | (Inl (Crash f), s1) \<Rightarrow> Inl f)"
| "maker_step T obs ins new (Outside s1) (mk, s) = Some (Inr (mk, s1))"

subsection \<open>Tables that only grow\<close>

text \<open>The ids of a table of rows that are never deleted: 1, 2, ...\<close>

definition numbered :: "('r \<Rightarrow> u64) \<Rightarrow> 'r list \<Rightarrow> bool" where
  "numbered k rows \<longleftrightarrow> map (\<lambda>r. unat (k r)) rows = map Suc [0..<length rows]"

lemma numbered_Nil [simp]: "numbered k []"
  by (simp add: numbered_def)

lemma numbered_append:
  "numbered k rows \<Longrightarrow> length rows + 1 < 2 ^ 64 \<Longrightarrow> k r = of_nat (length rows) + 1 \<Longrightarrow> numbered k (rows @ [r])"
  by (simp add: numbered_def next_id del: unsigned_of_nat)

lemma numbered_sorted:
  assumes "numbered k rows"
  shows "sorted (map k rows)"
proof -
  have "sorted (map Suc [0..<length rows])" by (simp add: sorted_map)
  then have "sorted (map (\<lambda>r. unat (k r)) rows)" using assms by (simp only: numbered_def)
  then show ?thesis by (simp add: sorted_map word_le_nat_alt)
qed

lemma last_by_filter:
  assumes "numbered k rows"
  shows "last_by k (filter P rows) = (if filter P rows = [] then None else Some (last (filter P rows)))"
proof -
  have "sorted (map k (filter P rows))" using numbered_sorted [OF assms] by (rule sorted_filter)
  then have "sort_key k (filter P rows) = filter P rows" by (rule sort_key_id_if_sorted)
  then show ?thesis
    by (auto simp: last_by_def last_rev hd_rev split: list.splits)
qed

subsection \<open>Reading on from a row\<close>

definition offsets_ok :: "'d msg list \<Rightarrow> bool" where
  "offsets_ok T \<longleftrightarrow> sorted_wrt (\<lambda>a b. fst a < fst b) T \<and> (\<forall>m\<in>set T. 0 \<le> fst m)"

lemma filter_ge_Cons:
  assumes "sorted_wrt (\<lambda>a b. fst a < fst b) T" and "filter (\<lambda>m. pos \<le> fst m) T = (off, l) # ms"
  shows "filter (\<lambda>m. off + 1 \<le> fst m) T = ms" and "pos \<le> (off :: int)"
proof -
  obtain us vs where T: "T = us @ (off, l) # vs" "\<forall>u\<in>set us. \<not> pos \<le> fst u" "pos \<le> off" "ms = filter (\<lambda>m. pos \<le> fst m) vs"
    using assms(2) by (auto simp: filter_eq_Cons_iff)
  have us: "fst m < off" if "m \<in> set us" for m using assms(1) that by (auto simp: T(1) sorted_wrt_append)
  have vs: "off < fst m" if "m \<in> set vs" for m using assms(1) that by (auto simp: T(1) sorted_wrt_append)
  have "filter (\<lambda>m. off + 1 \<le> fst m) us = []" using us by (force simp: filter_empty_conv)
  moreover have "filter (\<lambda>m. off + 1 \<le> fst m) vs = filter (\<lambda>m. pos \<le> fst m) vs"
    by (rule filter_cong) (use vs T(3) in force)+
  ultimately show "filter (\<lambda>m. off + 1 \<le> fst m) T = ms" by (simp add: T)
  show "pos \<le> off" by (rule T(3))
qed

text \<open>A reader that starts after a delivered message, with its number, delivers what came after it.\<close>

lemma run_reader_resume:
  assumes "sorted_wrt (\<lambda>a b. fst a < fst b) ms" and "run_reader s ms = (d1 @ (off, l) # d2, s', r)"
  shows "run_reader (GetSeq l) (filter (\<lambda>m. off + 1 \<le> fst m) ms) = (d2, s', r)" and "(off, l) \<in> set ms"
  using assms
proof (induction s ms arbitrary: d1 rule: run_reader.induct)
  case (2 lastSeq offset l1 ms)
  { case 1
    have srt: "sorted_wrt (\<lambda>a b. fst a < fst b) ms" "\<forall>m\<in>set ms. offset < fst m" using 1(1) by auto
    show ?case
    proof (cases "GetSeq l1 \<le> lastSeq")
      case True
      have "(off, l) \<in> set ms" using "2.IH"(2) [OF True srt(1)] 1(2) True by simp
      then have "offset < off" using srt(2) by fastforce
      then show ?thesis using "2.IH"(1) [OF True srt(1)] 1(2) True by simp
    next
      case False
      have gap: "\<not> (0 < lastSeq \<and> GetSeq l1 \<noteq> lastSeq + 1)" using 1(2) False by (auto split: if_splits)
      obtain ds where ds: "run_reader (GetSeq l1) ms = (ds, s', r)" "d1 @ (off, l) # d2 = (offset, l1) # ds"
        using 1(2) False gap by (auto split: prod.splits)
      show ?thesis
      proof (cases d1)
        case Nil
        then have "off = offset" "l = l1" "ds = d2" using ds(2) by simp_all
        moreover have "filter (\<lambda>m. offset + 1 \<le> fst m) ms = ms" using srt(2) by (force simp: filter_id_conv)
        ultimately show ?thesis using ds(1) by simp
      next
        case (Cons x d1')
        then have ds': "run_reader (GetSeq l1) ms = (d1' @ (off, l) # d2, s', r)" using ds by simp
        have "(off, l) \<in> set ms" using "2.IH"(4) [OF False gap srt(1) ds'] .
        then have "offset < off" using srt(2) by fastforce
        then show ?thesis using "2.IH"(3) [OF False gap srt(1) ds'] by simp
      qed
    qed
  next
    case 2
    then have srt: "sorted_wrt (\<lambda>a b. fst a < fst b) ms" by simp
    show ?case
    proof (cases "GetSeq l1 \<le> lastSeq")
      case True
      then show ?thesis using "2.IH"(2) [OF True srt] 2(2) by simp
    next
      case False
      have gap: "\<not> (0 < lastSeq \<and> GetSeq l1 \<noteq> lastSeq + 1)" using 2(2) False by (auto split: if_splits)
      obtain ds where ds: "run_reader (GetSeq l1) ms = (ds, s', r)" "d1 @ (off, l) # d2 = (offset, l1) # ds"
        using 2(2) False gap by (auto split: prod.splits)
      show ?thesis
      proof (cases d1)
        case (Cons x d1')
        then have ds': "run_reader (GetSeq l1) ms = (d1' @ (off, l) # d2, s', r)" using ds by simp
        show ?thesis using "2.IH"(4) [OF False gap srt ds'] by simp
      qed (use ds in simp)
    qed
  }
qed simp_all

text \<open>The position at which every reader starts: after the last log it has handled. An offset of zero is
  read again, and its log discarded by its number.\<close>

lemma run_reader_start:
  assumes T: "offsets_ok T" and rd: "run_reader 0 T = (E1 @ (off, l) # E2, n, r)"
  shows "run_reader (GetSeq l) (filter (\<lambda>m. (if 0 < off then off + 1 else off) \<le> fst m) T) = (E2, n, r)"
proof (cases "0 < off")
  case True
  have srt: "sorted_wrt (\<lambda>a b. fst a < fst b) T" using T by (simp add: offsets_ok_def)
  then show ?thesis using run_reader_resume(1) [OF srt rd] True by simp
next
  case False
  have srt: "sorted_wrt (\<lambda>a b. fst a < fst b) T" using T by (simp add: offsets_ok_def)
  note R = run_reader_resume [OF srt rd]
  have z: "off = 0" using R(2) T False by (force simp: offsets_ok_def)
  obtain T' where T': "T = (0, l) # T'" "filter (\<lambda>m. 1 \<le> fst m) T = T'"
  proof (cases T)
    case (Cons t T')
    have "fst t = 0" using R(2) T z Cons by (fastforce simp: offsets_ok_def)
    then have "t = (0, l)" using R(2) T z Cons by (fastforce simp: offsets_ok_def)
    moreover from this have "filter (\<lambda>m. 1 \<le> fst m) T = T'"
      using T Cons by (auto simp: offsets_ok_def filter_id_conv)
    ultimately show thesis using that Cons by blast
  qed (use R(2) in simp)
  have "filter (\<lambda>m. 0 \<le> fst m) T = T" using T by (simp add: offsets_ok_def filter_id_conv)
  then show ?thesis using R(1) z T' by (simp add: T'(1))
qed

subsection \<open>Makers whose rows depend on the log alone\<close>

text \<open>
  \<open>stored s\<close> are the rows of this maker in the database (without what others may change),
  \<open>good\<close> says that they do not collide, \<open>ok\<close> is the invariant of the table, \<open>space\<close> that its ids do not run
  out, and \<open>whole\<close> that a sequence of rows does not end inside the rows of one log.
\<close>

definition rows_from :: "('d msg \<Rightarrow> 'r list) \<Rightarrow> 'd msg list \<Rightarrow> 'r list" where
  "rows_from rows_of ms = concat (map rows_of ms)"

lemma rows_from_simps [simp]:
  "rows_from rows_of [] = []"
  "rows_from rows_of (m # ms) = rows_of m @ rows_from rows_of ms"
  "rows_from rows_of (xs @ ys) = rows_from rows_of xs @ rows_from rows_of ys"
  by (simp_all add: rows_from_def)

text \<open>Cutting rows between logs.\<close>

lemma rows_from_split:
  assumes one: "\<And>m xs ys zs. xs @ ys = rows_of m @ zs \<Longrightarrow> xs \<noteq> [] \<Longrightarrow> whole xs \<Longrightarrow> \<exists>us. xs = rows_of m @ us \<and> whole us"
    and "xs @ ys = rows_from rows_of D" and "whole xs"
  shows "\<exists>D1 D2. D = D1 @ D2 \<and> xs = rows_from rows_of D1"
  using assms(2,3)
proof (induction D arbitrary: xs)
  case (Cons m D)
  show ?case
  proof (cases "xs = []")
    case True
    then show ?thesis by (intro exI [of _ "[]"] exI [of _ "m # D"]) simp
  next
    case False
    then obtain us where us: "xs = rows_of m @ us" "whole us" using one [of xs ys m] Cons.prems by auto
    then have "us @ ys = rows_from rows_of D" using Cons.prems(1) by simp
    then obtain D1 D2 where "D = D1 @ D2" "us = rows_from rows_of D1" using Cons.IH us(2) by blast
    then show ?thesis by (intro exI [of _ "m # D1"] exI [of _ D2]) (simp add: us)
  qed
qed (auto intro: exI [of _ "[]"])

definition maker_allowed :: "('s \<Rightarrow> 'r list) \<Rightarrow> ('s \<Rightarrow> bool) \<Rightarrow> (nat \<Rightarrow> 's \<Rightarrow> bool) \<Rightarrow> ('r list \<Rightarrow> bool) \<Rightarrow>
    's maker_event \<Rightarrow> ('r, 'loc) maker \<times> 's \<Rightarrow> bool" where
  "maker_allowed stored ok space whole ev ms \<longleftrightarrow> (case ev of
       StoreRows \<Rightarrow> space (length (mk_buffer (fst ms))) (snd ms)
     | RestartMaker \<Rightarrow> whole (stored (snd ms))
     | Outside s1 \<Rightarrow> ok s1 \<and> stored s1 = stored (snd ms)
     | _ \<Rightarrow> True)"

definition maker_inv :: "'d msg list \<Rightarrow> ('d msg \<Rightarrow> 'r list) \<Rightarrow> ('s \<Rightarrow> 'r list) \<Rightarrow> ('s \<Rightarrow> bool) \<Rightarrow> ('r, 'loc) maker \<times> 's \<Rightarrow> bool" where
  "maker_inv T rows_of stored ok ms \<longleftrightarrow> (case ms of (mk, s) \<Rightarrow> ok s \<and>
     (\<exists>D1 D2 n n' r. run_reader 0 T = (D1 @ D2, n, r) \<and>
        run_reader (mk_lastSeq mk) (filter (\<lambda>m. mk_pos mk \<le> fst m) T) = (D2, n', r) \<and>
        stored s @ mk_buffer mk @ mk_ch mk @ mk_sending mk = rows_from rows_of D1))"

locale log_maker =
  fixes obs :: "('d, 'r, 'loc, 's) observer"
    and ins :: "'r list \<Rightarrow> 's \<Rightarrow> (failure + unit) \<times> 's"
    and new :: "'s \<Rightarrow> (failure + int \<times> int \<times> 'loc) \<times> 's"
    and rows_of :: "'d msg \<Rightarrow> 'r list"
    and stored :: "'s \<Rightarrow> 'r list"
    and good :: "'r list \<Rightarrow> bool"
    and ok :: "'s \<Rightarrow> bool"
    and space :: "nat \<Rightarrow> 's \<Rightarrow> bool"
    and whole :: "'r list \<Rightarrow> bool"
    and position :: "'r \<Rightarrow> int \<times> int"
  assumes observes: "obs m loc s = ((rows, loc'), s') \<Longrightarrow> ok s \<Longrightarrow> rows = rows_of m \<and> stored s' = stored s \<and> ok s'"
    and inserts: "ok s \<Longrightarrow> good (stored s @ rows) \<Longrightarrow> space (length rows) s \<Longrightarrow> ins rows s = (res, s') \<Longrightarrow>
      ok s' \<and> (case res of Inr u \<Rightarrow> stored s' = stored s @ rows | Inl (Err e) \<Rightarrow> stored s' = stored s | Inl (Crash f) \<Rightarrow> True)"
    and starts: "ok s \<Longrightarrow> new s = (Inr (off, seq, loc), s') \<Longrightarrow> ok s' \<and> stored s' = stored s \<and>
      (off, seq) = (if stored s = [] then (0, 0) else position (last (stored s)))"
    and positions: "row \<in> set (rows_of (off, l)) \<Longrightarrow> position row = (off, GetSeq l)"
    and splits: "xs @ ys = rows_from rows_of D \<Longrightarrow> whole xs \<Longrightarrow> \<exists>D1 D2. D = D1 @ D2 \<and> xs = rows_from rows_of D1"
    and good_prefix: "good (xs @ ys) \<Longrightarrow> good xs"
begin

abbreviation inv where "inv T \<equiv> maker_inv T rows_of stored ok"
abbreviation step where "step T \<equiv> maker_step T obs ins new"
abbreviation allowed where "allowed \<equiv> maker_allowed stored ok space whole"

lemma read_keeps:
  assumes T: "offsets_ok T" and inv: "inv T (mk, s)" and st: "read_log T obs mk s = Some (Inr (mk', s'))"
  shows "inv T (mk', s')"
proof -
  obtain D1 D2 n n' r where i: "run_reader 0 T = (D1 @ D2, n, r)"
      "run_reader (mk_lastSeq mk) (filter (\<lambda>m. mk_pos mk \<le> fst m) T) = (D2, n', r)"
      "stored s @ mk_buffer mk @ mk_ch mk @ mk_sending mk = rows_from rows_of D1" "ok s"
    using inv by (auto simp: maker_inv_def)
  have idle: "mk_sending mk = []" using st by (auto simp: read_log_def split: if_splits)
  obtain off l ms where m: "filter (\<lambda>m. mk_pos mk \<le> fst m) T = (off, l) # ms"
    using st idle by (cases "filter (\<lambda>m. mk_pos mk \<le> fst m) T") (auto simp: read_log_def)
  have rest: "filter (\<lambda>m. off + 1 \<le> fst m) T = ms" using filter_ge_Cons(1) [OF _ m] T by (simp add: offsets_ok_def)
  show ?thesis
  proof (cases "GetSeq l \<le> mk_lastSeq mk")
    case True
    then show ?thesis using st idle m rest i by (auto simp: read_log_def maker_inv_def)
  next
    case False
    then have gap: "\<not> (0 < mk_lastSeq mk \<and> GetSeq l \<noteq> mk_lastSeq mk + 1)"
      using st idle m by (auto simp: read_log_def split: if_splits)
    obtain rows loc s1 where o: "obs (off, l) (mk_state mk) s = ((rows, loc), s1)"
      by (metis prod.exhaust)
    then have mk': "mk' = mk\<lparr>mk_pos := off + 1, mk_lastSeq := GetSeq l, mk_state := loc, mk_sending := rows\<rparr>" "s' = s1"
      using st idle m False gap by (auto simp: read_log_def)
    obtain D3 where D3: "run_reader (GetSeq l) ms = (D3, n', r)" "D2 = (off, l) # D3"
      using i(2) m False gap by (auto split: prod.splits)
    have "rows = rows_of (off, l)" "stored s1 = stored s" "ok s1" using observes [OF o i(4)] by simp_all
    then show ?thesis
      unfolding maker_inv_def mk' prod.case using i(1,3) D3 idle
      by (intro conjI exI [of _ "D1 @ [(off, l)]"] exI [of _ D3] exI [of _ n] exI [of _ n'] exI [of _ r])
        (simp_all add: rest)
  qed
qed

lemma store_keeps:
  assumes inv: "inv T (mk, s)" and good: "good (rows_from rows_of (fst (run_reader 0 T)))"
    and a: "allowed StoreRows (mk, s)" and st: "store_rows ins mk s = Some (Inr (mk', s'))"
  shows "inv T (mk', s')"
proof -
  obtain D1 D2 n1 n' r1 where i: "run_reader 0 T = (D1 @ D2, n1, r1)"
      "run_reader (mk_lastSeq mk) (filter (\<lambda>m. mk_pos mk \<le> fst m) T) = (D2, n', r1)"
      "(stored s @ mk_buffer mk) @ mk_ch mk @ mk_sending mk = rows_from rows_of D1" "ok s"
    using inv by (auto simp: maker_inv_def)
  have "good (((stored s @ mk_buffer mk) @ mk_ch mk @ mk_sending mk) @ rows_from rows_of D2)"
    unfolding i(3) using good i(1) by simp
  then have g: "good (stored s @ mk_buffer mk)" using good_prefix by blast
  have space: "space (length (mk_buffer mk)) s" using a by (simp add: maker_allowed_def)
  obtain x s1 where x: "ins (mk_buffer mk) s = (x, s1)" by (cases "ins (mk_buffer mk) s")
  note I = inserts [OF i(4) g space x]
  show ?thesis
  proof (cases x)
    case (Inr u)
    then have "mk' = mk\<lparr>mk_buffer := [], mk_storing := False\<rparr>" "s' = s1"
      using st x by (auto simp: store_rows_def split: if_splits)
    then show ?thesis using i(1-3) I Inr by (auto simp: maker_inv_def)
  next
    case (Inl e)
    then have "mk' = mk" "s' = s1" "\<exists>e'. e = Err e'"
      using st x by (auto simp: store_rows_def split: if_splits failure.splits)
    then show ?thesis using i(1-3) I Inl by (auto simp: maker_inv_def)
  qed
qed

lemma inv_prefix:
  assumes "inv T (mk, s)"
  obtains D ys n r where "run_reader 0 T = (D, n, r)" and "ok s" and "stored s @ ys = rows_from rows_of D"
proof -
  obtain D1 D2 n r where "run_reader 0 T = (D1 @ D2, n, r)" "ok s"
      "stored s @ mk_buffer mk @ mk_ch mk @ mk_sending mk = rows_from rows_of D1"
    using assms by (auto simp: maker_inv_def)
  then show thesis by (intro that [of "D1 @ D2" n r "mk_buffer mk @ mk_ch mk @ mk_sending mk @ rows_from rows_of D2"])
      (simp_all flip: append_assoc)
qed

lemma restart_keeps:
  assumes T: "offsets_ok T" and inv: "inv T (mk, s)" and a: "allowed RestartMaker (mk, s)"
    and new: "new s = (Inr (off, seq, loc), s')"
  shows "inv T (start_maker off seq loc, s')"
proof -
  obtain D ys n r where i: "run_reader 0 T = (D, n, r)" "ok s" and ys: "stored s @ ys = rows_from rows_of D"
    using inv by (rule inv_prefix)
  have "whole (stored s)" using a by (simp add: maker_allowed_def)
  from splits [OF ys this] obtain D1 D2 where D: "D = D1 @ D2" "stored s = rows_from rows_of D1" by blast
  note S = starts [OF i(2) new]
  show ?thesis
  proof (cases "stored s = []")
    case True
    have "filter (\<lambda>m. 0 \<le> fst m) T = T" using T by (simp add: offsets_ok_def filter_id_conv)
    then show ?thesis
      using True S i(1) by (auto simp: maker_inv_def start_maker_def intro!: exI [of _ "[]"])
  next
    case False
    define row where "row = last (stored s)"
    have "row \<in> set (rows_from rows_of D1)" using False D(2) by (simp add: row_def)
    define P where "P = (\<lambda>m. rows_of m \<noteq> [])"
    have "\<exists>m\<in>set D1. P m" using False D(2) by (auto simp: P_def rows_from_def)
    then obtain E1 m E2 where E: "D1 = E1 @ m # E2" "P m" "\<forall>m\<in>set E2. \<not> P m"
      by (metis split_list_last_prop)
    have e2: "rows_from rows_of E2 = []" using E(3) by (auto simp: P_def rows_from_def)
    obtain o1 l1 where m: "m = (o1, l1)" by (cases m)
    have "row = last (rows_of m)" using D(2) E(2) e2 by (simp add: row_def E(1) P_def)
    then have pos: "off = o1" "seq = GetSeq l1" using S False positions [of row o1 l1] E(2) m
      by (auto simp: row_def P_def)
    have rd: "run_reader 0 T = (E1 @ (o1, l1) # E2 @ D2, n, r)" using i(1) D(1) E(1) m by simp
    have "run_reader seq (filter (\<lambda>m. (if 0 < off then off + 1 else off) \<le> fst m) T) = (E2 @ D2, n, r)"
      unfolding pos by (rule run_reader_start [OF T rd])
    moreover have "rows_from rows_of (E1 @ [m]) = stored s" using D(2) e2 by (simp add: E(1))
    moreover have "run_reader 0 T = ((E1 @ [m]) @ E2 @ D2, n, r)" using rd m by simp
    ultimately show ?thesis
      using S unfolding maker_inv_def start_maker_def by fastforce
  qed
qed

lemma step_keeps:
  assumes T: "offsets_ok T" and good: "good (rows_from rows_of (fst (run_reader 0 T)))"
    and inv: "inv T ms" and a: "allowed ev ms" and st: "step T ev ms = Some (Inr ms')"
  shows "inv T ms'"
proof -
  obtain mk s mk' s' where ms: "ms = (mk, s)" "ms' = (mk', s')" by (cases ms; cases ms')
  show ?thesis
  proof (cases ev)
    case ReadLog
    then show ?thesis using read_keeps [OF T inv [unfolded ms]] st ms by simp
  next
    case SendRow
    then show ?thesis
      using st inv ms by (auto simp: send_row_def maker_inv_def split: list.splits if_splits)
  next
    case TakeRow
    then show ?thesis
      using st inv ms by (auto simp: take_row_def maker_inv_def Let_def split: list.splits if_splits)
  next
    case StoreRows
    then show ?thesis using store_keeps [OF inv [unfolded ms] good] a st ms by simp
  next
    case RestartMaker
    then obtain off seq loc where "new s = (Inr (off, seq, loc), s')" "mk' = start_maker off seq loc"
      using st ms by (auto split: prod.splits sum.splits failure.splits)
    then show ?thesis using restart_keeps [OF T inv [unfolded ms]] a ms RestartMaker by simp
  next
    case (Outside s1)
    then show ?thesis using st inv a ms by (auto simp: maker_inv_def maker_allowed_def)
  qed
qed

text \<open>What is in the database is a prefix of the rows of the logs that a reader of the whole topic is
  given, in order.\<close>

lemma stored_prefix:
  assumes T: "offsets_ok T" and good: "good (rows_from rows_of (fst (run_reader 0 T)))"
    and "inv T ms0" and "reaches (step T) allowed ms0 ms"
  shows "\<exists>k. stored (snd ms) = take k (rows_from rows_of (fst (run_reader 0 T)))"
proof -
  have "machine (step T) allowed (inv T)" by unfold_locales (rule step_keeps [OF T good])
  from machine.reaches_good [OF this assms(4,3)] have "inv T ms" .
  then obtain D ys n r where "run_reader 0 T = (D, n, r)" "stored (snd ms) @ ys = rows_from rows_of D"
    by (cases ms) (rule inv_prefix, auto)
  then have "stored (snd ms) = take (length (stored (snd ms))) (rows_from rows_of (fst (run_reader 0 T)))"
    by (metis append_eq_conv_conj fst_conv)
  then show ?thesis by blast
qed

lemma start_inv:
  assumes "offsets_ok T" and "ok s" and "stored s = []" and "new s = (Inr (off, seq, loc), s')"
  shows "inv T (start_maker off seq loc, s')"
proof -
  have "filter (\<lambda>m. 0 \<le> fst m) T = T" using assms(1) by (simp add: offsets_ok_def filter_id_conv)
  then show ?thesis
    using starts [OF assms(2,4)] assms(3)
    by (cases "run_reader 0 T") (auto simp: maker_inv_def start_maker_def intro!: exI [of _ "[]"])
qed

end

subsection \<open>Catching up\<close>

text \<open>Store a full batch, else take from the channel, else write to it, else read the log.\<close>

definition maker_schedule :: "'d msg list \<Rightarrow> ('r, 'loc) maker \<times> 's \<Rightarrow> 's maker_event option" where
  "maker_schedule T ms = (case ms of (mk, s) \<Rightarrow>
     if mk_storing mk then Some StoreRows
     else if mk_ch mk \<noteq> [] then Some TakeRow
     else if mk_sending mk \<noteq> [] then Some SendRow
     else if filter (\<lambda>m. mk_pos mk \<le> fst m) T \<noteq> [] then Some ReadLog
     else None)"

definition maker_measure :: "'d msg list \<Rightarrow> ('r, 'loc) maker \<times> 's \<Rightarrow> nat \<times> nat \<times> nat \<times> nat" where
  "maker_measure T ms = (case ms of (mk, s) \<Rightarrow>
     (length (filter (\<lambda>m. mk_pos mk \<le> fst m) T), length (mk_sending mk), length (mk_ch mk), if mk_storing mk then 1 else 0))"

definition maker_order :: "'d msg list \<Rightarrow> (('r, 'loc) maker \<times> 's) rel" where
  "maker_order T = inv_image (less_than <*lex*> less_than <*lex*> less_than <*lex*> less_than) (maker_measure T)"

lemma wf_maker_order: "wf (maker_order T)"
  by (simp add: maker_order_def wf_lex_prod)

text \<open>A batch is stored or waits for more rows that are in the channel.\<close>

definition batch_ok :: "('r, 'loc) maker \<Rightarrow> bool" where
  "batch_ok mk \<longleftrightarrow> mk_buffer mk \<noteq> [] \<longrightarrow> mk_storing mk \<or> mk_ch mk \<noteq> []"

locale live_log_maker = log_maker +
  assumes stores: "ok s \<Longrightarrow> \<exists>s'. ins rows s = (Inr (), s')"
    and space_left: "ins rows s = (Inr (), s') \<Longrightarrow> space (length rows + n) s \<Longrightarrow> space n s'"
    and space_kept: "obs m loc s = (x, s') \<Longrightarrow> space n s \<Longrightarrow> space n s'"
    and space_mono: "space (i + n) s \<Longrightarrow> space i s"
begin

definition lively :: "'a msg list \<Rightarrow> ('d, 'b) maker \<times> 'c \<Rightarrow> bool" where
  "lively T ms \<longleftrightarrow> inv T ms \<and> batch_ok (fst ms) \<and>
     (\<exists>n. space n (snd ms) \<and> length (stored (snd ms)) + n = length (rows_from rows_of (fst (run_reader 0 T))))"

lemma lively_inv:
  assumes "lively T (mk, s)"
  obtains D1 D2 m m' r n where "run_reader 0 T = (D1 @ D2, m, r)"
    and "run_reader (mk_lastSeq mk) (filter (\<lambda>m. mk_pos mk \<le> fst m) T) = (D2, m', r)"
    and "stored s @ mk_buffer mk @ mk_ch mk @ mk_sending mk = rows_from rows_of D1" and "ok s"
    and "space (length (mk_buffer mk) + n) s"
    and "length (stored s) + length (mk_buffer mk) + n = length (rows_from rows_of (D1 @ D2))"
proof -
  from assms obtain D1 D2 m m' r k where i: "run_reader 0 T = (D1 @ D2, m, r)"
      "run_reader (mk_lastSeq mk) (filter (\<lambda>m. mk_pos mk \<le> fst m) T) = (D2, m', r)"
      "stored s @ mk_buffer mk @ mk_ch mk @ mk_sending mk = rows_from rows_of D1" "ok s"
      "space k s" "length (stored s) + k = length (rows_from rows_of (D1 @ D2))"
    by (auto simp: lively_def maker_inv_def)
  have "length (stored s) + length (mk_buffer mk) \<le> length (rows_from rows_of D1)"
    using arg_cong [OF i(3), of length] by simp
  then have "length (mk_buffer mk) \<le> k" using i(6) by simp
  then have "k = length (mk_buffer mk) + (k - length (mk_buffer mk))" by simp
  then show thesis using that [OF i(1-4)] i(5,6) by (metis add.assoc)
qed

lemma scheduled_runs:
  assumes offs: "offsets_ok T" and l: "lively T ms" and none: "snd (snd (run_reader 0 T)) = None"
    and good: "good (rows_from rows_of (fst (run_reader 0 T)))"
    and ev: "maker_schedule T ms = Some ev"
  shows "allowed ev ms \<and> (\<exists>ms'. step T ev ms = Some (Inr ms') \<and> (ms', ms) \<in> maker_order T \<and> lively T ms')"
proof -
  obtain mk s where ms: "ms = (mk, s)" by (cases ms)
  obtain D1 D2 m m' r n where i: "run_reader 0 T = (D1 @ D2, m, r)"
      "run_reader (mk_lastSeq mk) (filter (\<lambda>m. mk_pos mk \<le> fst m) T) = (D2, m', r)"
      "stored s @ mk_buffer mk @ mk_ch mk @ mk_sending mk = rows_from rows_of D1" "ok s"
      "space (length (mk_buffer mk) + n) s"
      "length (stored s) + length (mk_buffer mk) + n = length (rows_from rows_of (D1 @ D2))"
    using lively_inv [OF l [unfolded ms]] by metis
  have r: "r = None" using none i(1) by simp
  consider (store) "mk_storing mk" "ev = StoreRows"
    | (take) "\<not> mk_storing mk" "mk_ch mk \<noteq> []" "ev = TakeRow"
    | (send) "\<not> mk_storing mk" "mk_ch mk = []" "mk_sending mk \<noteq> []" "ev = SendRow"
    | (read) "\<not> mk_storing mk" "mk_ch mk = []" "mk_sending mk = []"
        "filter (\<lambda>m. mk_pos mk \<le> fst m) T \<noteq> []" "ev = ReadLog"
    using ev ms by (auto simp: maker_schedule_def split: if_splits)
  then show ?thesis
  proof cases
    case store
    obtain s' where s': "ins (mk_buffer mk) s = (Inr (), s')" using stores [OF i(4)] by blast
    have a: "allowed ev ms" using space_mono [OF i(5)] by (simp add: maker_allowed_def store ms)
    have st: "step T ev ms = Some (Inr (mk\<lparr>mk_buffer := [], mk_storing := False\<rparr>, s'))"
      using s' store by (simp add: ms store_rows_def)
    have "(stored s @ mk_buffer mk) @ mk_ch mk @ mk_sending mk @ rows_from rows_of D2 = rows_from rows_of (D1 @ D2)"
      by (simp flip: i(3))
    moreover have "good (rows_from rows_of (D1 @ D2))" using good i(1) by simp
    ultimately have "good ((stored s @ mk_buffer mk) @ mk_ch mk @ mk_sending mk @ rows_from rows_of D2)" by (simp only:)
    then have g: "good (stored s @ mk_buffer mk)" by (rule good_prefix)
    have "stored s' = stored s @ mk_buffer mk"
      using inserts [OF i(4) g space_mono [OF i(5)] s'] by simp
    moreover have "space n s'" using space_left [OF s' i(5)] .
    moreover have "inv T (mk\<lparr>mk_buffer := [], mk_storing := False\<rparr>, s')"
      using store_keeps [of T mk s, OF _ good] l a st store by (simp add: lively_def ms)
    ultimately have "lively T (mk\<lparr>mk_buffer := [], mk_storing := False\<rparr>, s')"
      unfolding lively_def using i(1,6) by (auto simp: batch_ok_def intro!: exI [of _ n])
    then show ?thesis using a st store by (auto simp: maker_order_def maker_measure_def ms)
  next
    case take
    then obtain x rest where x: "mk_ch mk = x # rest" by (cases "mk_ch mk") auto
    define mk' where "mk' = mk\<lparr>mk_ch := rest, mk_buffer := mk_buffer mk @ [x],
        mk_storing := \<not> (rest \<noteq> [] \<and> length (mk_buffer mk @ [x]) < 1000)\<rparr>"
    have st: "step T ev ms = Some (Inr (mk', s))" using take x by (simp add: ms take_row_def mk'_def Let_def)
    have a: "allowed ev ms" by (simp add: take maker_allowed_def)
    have "inv T (mk', s)" using l a st take by (simp add: lively_def ms maker_inv_def mk'_def x)
    then have "lively T (mk', s)" using l by (simp add: lively_def ms batch_ok_def mk'_def)
    then show ?thesis using a st x by (auto simp: maker_order_def maker_measure_def ms mk'_def)
  next
    case send
    then obtain x rest where x: "mk_sending mk = x # rest" by (cases "mk_sending mk") auto
    define mk' where "mk' = mk\<lparr>mk_ch := [x], mk_sending := rest\<rparr>"
    have st: "step T ev ms = Some (Inr (mk', s))" using send x by (simp add: ms send_row_def mk'_def)
    have a: "allowed ev ms" by (simp add: send maker_allowed_def)
    have "inv T (mk', s)" using l send by (simp add: lively_def ms maker_inv_def mk'_def x)
    then have "lively T (mk', s)" using l by (simp add: lively_def ms batch_ok_def mk'_def)
    then show ?thesis using a st x by (auto simp: maker_order_def maker_measure_def ms mk'_def)
  next
    case read
    then obtain off lg ms1 where m: "filter (\<lambda>m. mk_pos mk \<le> fst m) T = (off, lg) # ms1"
      by (cases "filter (\<lambda>m. mk_pos mk \<le> fst m) T") auto
    have T: "offsets_ok T" by (rule offs)
    have rest: "filter (\<lambda>m. off + 1 \<le> fst m) T = ms1" using filter_ge_Cons(1) [OF _ m] T by (simp add: offsets_ok_def)
    have a: "allowed ev ms" by (simp add: read maker_allowed_def)
    have "\<exists>mk' s'. read_log T obs mk s = Some (Inr (mk', s')) \<and> mk_pos mk' = off + 1 \<and> batch_ok mk' \<and>
        stored s' = stored s \<and> (\<forall>n. space n s \<longrightarrow> space n s')"
    proof (cases "GetSeq lg \<le> mk_lastSeq mk")
      case True
      then show ?thesis using l m read by (auto simp: read_log_def lively_def ms batch_ok_def)
    next
      case False
      then have gap: "\<not> (0 < mk_lastSeq mk \<and> GetSeq lg \<noteq> mk_lastSeq mk + 1)" using i(2) r m by (auto split: if_splits)
      obtain rows loc s1 where o: "obs (off, lg) (mk_state mk) s = ((rows, loc), s1)" by (metis prod.exhaust)
      then show ?thesis using False gap m read l observes [OF o i(4)] space_kept [OF o]
        by (auto simp: read_log_def lively_def ms batch_ok_def)
    qed
    then obtain mk' s' where st: "read_log T obs mk s = Some (Inr (mk', s'))" and p: "mk_pos mk' = off + 1"
        and b: "batch_ok mk'" "stored s' = stored s" "\<forall>n. space n s \<longrightarrow> space n s'" by blast
    have "inv T (mk', s')" using read_keeps [OF T _ st] l by (simp add: lively_def ms)
    then have "lively T (mk', s')" using l b by (auto simp: lively_def ms)
    moreover have "step T ev ms = Some (Inr (mk', s'))" using st by (simp add: read ms)
    moreover have "((mk', s'), ms) \<in> maker_order T" by (simp add: maker_order_def maker_measure_def ms p rest m)
    ultimately show ?thesis using a by blast
  qed
qed

lemma catches_up:
  assumes "offsets_ok T" and l: "lively T ms" and "snd (snd (run_reader 0 T)) = None"
    and "good (rows_from rows_of (fst (run_reader 0 T)))"
  shows "\<exists>ms'. reaches (step T) allowed ms ms' \<and> stored (snd ms') = rows_from rows_of (fst (run_reader 0 T))"
proof -
  note R = scheduled_runs [OF assms(1) _ assms(3,4)]
  have "scheduled_machine (step T) (\<lambda>ev ms. allowed ev ms \<and> maker_schedule T ms = Some ev) (lively T)
      (maker_schedule T) (maker_order T)" (is "scheduled_machine _ ?al _ _ _")
  proof
    show "wf (maker_order T)" by (rule wf_maker_order)
  next
    fix ms ev ms' assume "lively T ms" "?al ev ms" "step T ev ms = Some (Inr ms')"
    then show "lively T ms'" using R [of ms ev] by auto
  next
    fix ms ev assume "lively T ms" "maker_schedule T ms = Some ev"
    then show "?al ev ms \<and> (\<exists>ms'. step T ev ms = Some (Inr ms') \<and> (ms', ms) \<in> maker_order T)"
      using R [of ms ev] by blast
  qed
  from scheduled_machine.comes_to_rest [OF this l] obtain ms' where ms':
    "reaches (step T) ?al ms ms'" "maker_schedule T ms' = None" "lively T ms'" by blast
  obtain mk s where e: "ms' = (mk, s)" by (cases ms')
  have rest: "mk_ch mk = []" "mk_sending mk = []" "filter (\<lambda>m. mk_pos mk \<le> fst m) T = []" "mk_buffer mk = []"
    using ms'(2,3) by (auto simp: maker_schedule_def e lively_def batch_ok_def split: if_splits)
  obtain D1 D2 m m' r where i: "run_reader 0 T = (D1 @ D2, m, r)"
      "run_reader (mk_lastSeq mk) (filter (\<lambda>m. mk_pos mk \<le> fst m) T) = (D2, m', r)"
      "stored s @ mk_buffer mk @ mk_ch mk @ mk_sending mk = rows_from rows_of D1"
    using lively_inv [OF ms'(3) [unfolded e]] by metis
  have "stored s = rows_from rows_of (fst (run_reader 0 T))" using i rest by simp
  moreover have "reaches (step T) allowed ms ms'" using ms'(1) by (rule reaches_mono) simp
  ultimately show ?thesis using e by auto
qed

end

end
