(* ===== verification/Fill_Maker.thy ===== *)
theory Fill_Maker
  imports Makers
begin

text \<open>
  The fill maker (\<open>worker/fill_maker.go\<close>): a match log becomes two fills, the taker's and the maker's, a
  done log one fill that closes its order, and an open log moves the order from new to open. The
  fills go to the fill table in batches. The product is the one of the log reader.
\<close>

subsection \<open>The operations\<close>

definition NewFillMaker :: "faults \<Rightarrow> string \<Rightarrow> ('d, int \<times> int \<times> unit) dbop" where
  "NewFillMaker F productId =
     bindS (GetLastFillByProductId F productId) (\<lambda>lastFill.
       returnS (case lastFill of None \<Rightarrow> (0, 0, ()) | Some f \<Rightarrow> (fil_LogOffset f, fil_LogSeq f, ())))"

definition FillMaker_OnMatchLog :: "'d::zero match_log \<Rightarrow> int \<Rightarrow> 'd fill list" where
  "FillMaker_OnMatchLog l offset =
     [\<lparr>fil_Id = 0, fil_TradeSeq = ml_TradeSeq l, fil_OrderId = ml_TakerOrderId l, fil_MessageSeq = bs_Sequence l,
       fil_ProductId = bs_ProductId l, fil_Size = ml_Size l, fil_Price = ml_Price l, fil_Funds = 0, fil_Fee = 0,
       fil_Liquidity = ''T'', fil_Settled = False, fil_Side = ml_Side l, fil_Done = False, fil_DoneReason = [],
       fil_LogOffset = offset, fil_LogSeq = bs_Sequence l\<rparr>,
      \<lparr>fil_Id = 0, fil_TradeSeq = ml_TradeSeq l, fil_OrderId = ml_MakerOrderId l, fil_MessageSeq = bs_Sequence l,
       fil_ProductId = bs_ProductId l, fil_Size = ml_Size l, fil_Price = ml_Price l, fil_Funds = 0, fil_Fee = 0,
       fil_Liquidity = ''M'', fil_Settled = False, fil_Side = Opposite (ml_Side l), fil_Done = False, fil_DoneReason = [],
       fil_LogOffset = offset, fil_LogSeq = bs_Sequence l\<rparr>]"

definition FillMaker_OnOpenLog :: "faults \<Rightarrow> 'd open_log \<Rightarrow> 'd db \<Rightarrow> 'd db" where
  "FillMaker_OnOpenLog F l s = snd (UpdateOrderStatus F (ol_OrderId l) OrderStatusNew OrderStatusOpen s)"

definition FillMaker_OnDoneLog :: "'d::zero done_log \<Rightarrow> int \<Rightarrow> 'd fill" where
  "FillMaker_OnDoneLog l offset =
     \<lparr>fil_Id = 0, fil_TradeSeq = 0, fil_OrderId = dl_OrderId l, fil_MessageSeq = bs_Sequence l,
      fil_ProductId = bs_ProductId l, fil_Size = dl_RemainingSize l, fil_Price = 0, fil_Funds = 0, fil_Fee = 0,
      fil_Liquidity = [], fil_Settled = False, fil_Side = [], fil_Done = True, fil_DoneReason = dl_Reason l,
      fil_LogOffset = offset, fil_LogSeq = bs_Sequence l\<rparr>"

fun fill_rows :: "'d::zero msg \<Rightarrow> 'd fill list" where
  "fill_rows (offset, MatchLog l) = FillMaker_OnMatchLog l offset"
| "fill_rows (offset, OpenLog l) = []"
| "fill_rows (offset, DoneLog l) = [FillMaker_OnDoneLog l offset]"

definition fill_observer :: "faults \<Rightarrow> ('d::zero, 'd fill, unit, 'd db) observer" where
  "fill_observer F m loc s =
     ((fill_rows m, loc), case snd m of OpenLog l \<Rightarrow> FillMaker_OnOpenLog F l s | _ \<Rightarrow> s)"

definition fill_step :: "faults \<Rightarrow> string \<Rightarrow> 'd::zero msg list \<Rightarrow> 'd db maker_event \<Rightarrow>
    ('d fill, unit) maker \<times> 'd db \<Rightarrow> (('d fill, unit) maker \<times> 'd db) res option" where
  "fill_step F productId T = maker_step T (fill_observer F) (AddFills F) (NewFillMaker F productId)"

subsection \<open>The fills of a product\<close>

text \<open>A stored fill as the maker wrote it: settlement changes its fee and its settled flag.\<close>

definition as_made :: "'d::zero fill \<Rightarrow> 'd fill" where
  "as_made f = f\<lparr>fil_Id := 0, fil_Fee := 0, fil_Settled := False\<rparr>"

definition fills_of :: "string \<Rightarrow> 'd::zero db \<Rightarrow> 'd fill list" where
  "fills_of productId s = map as_made (filter (\<lambda>f. fil_ProductId f = productId) (db_fills s))"

definition fill_key :: "'d fill \<Rightarrow> u64 \<times> int" where
  "fill_key f = (fil_OrderId f, fil_MessageSeq f)"

text \<open>\<open>ids\<close>: the orders of the product.\<close>

definition fills_ok :: "string \<Rightarrow> u64 set \<Rightarrow> 'd db \<Rightarrow> bool" where
  "fills_ok productId ids s \<longleftrightarrow> numbered fil_Id (db_fills s) \<and>
     (\<forall>f\<in>set (db_fills s). fil_ProductId f \<noteq> productId \<longrightarrow> fil_OrderId f \<notin> ids)"

definition good_fills :: "string \<Rightarrow> u64 set \<Rightarrow> 'd::zero fill list \<Rightarrow> bool" where
  "good_fills productId ids fs \<longleftrightarrow> distinct (map fill_key fs) \<and>
     (\<forall>f\<in>set fs. as_made f = f \<and> fil_ProductId f = productId \<and> fil_OrderId f \<in> ids)"

definition room_fills :: "nat \<Rightarrow> 'd db \<Rightarrow> bool" where
  "room_fills n s \<longleftrightarrow> length (db_fills s) + n < 2 ^ 64"

text \<open>The last fill is not a taker's: the maker's fill of the same match is there.\<close>

definition whole_fills :: "'d fill list \<Rightarrow> bool" where
  "whole_fills fs \<longleftrightarrow> fs = [] \<or> fil_Liquidity (last fs) \<noteq> ''T''"

lemma as_made_simps [simp]:
  "as_made (as_made f) = as_made f" "as_made (f\<lparr>fil_Id := i\<rparr>) = as_made f"
  "fil_ProductId (as_made f) = fil_ProductId f" "fil_OrderId (as_made f) = fil_OrderId f"
  "fil_MessageSeq (as_made f) = fil_MessageSeq f" "fil_LogOffset (as_made f) = fil_LogOffset f"
  "fil_LogSeq (as_made f) = fil_LogSeq f" "fil_Liquidity (as_made f) = fil_Liquidity f"
  by (simp_all add: as_made_def)

lemma fill_key_made [simp]: "fill_key (as_made f) = fill_key f" "fill_key (f\<lparr>fil_Id := i\<rparr>) = fill_key f"
  by (simp_all add: fill_key_def)

lemma same_fill_key: "same_fill a b \<longleftrightarrow> fill_key a = fill_key b"
  by (auto simp: same_fill_def fill_key_def)

lemma good_fills_mid:
  assumes "good_fills P ids (xs @ f # fs)"
  shows "as_made f = f" "fil_ProductId f = P" "fil_OrderId f \<in> ids" "fill_key f \<notin> fill_key ` set xs"
  using assms by (auto simp: good_fills_def)

lemma good_fills_fresh:
  assumes "\<forall>f\<in>set rows. fil_ProductId f \<noteq> P \<longrightarrow> fil_OrderId f \<notin> ids"
    and "good_fills P ids (map as_made (filter (\<lambda>f. fil_ProductId f = P) rows) @ f # fs)" and "r \<in> set rows"
  shows "\<not> same_fill r f"
proof
  assume eq: "same_fill r f"
  note f = good_fills_mid [OF assms(2)]
  have P: "fil_ProductId r = P" using assms(1,3) f(3) eq by (auto simp: same_fill_def)
  have "as_made r \<in> set (map as_made (filter (\<lambda>f. fil_ProductId f = P) rows))" using assms(3) P by auto
  then have "fill_key (as_made r) \<in> fill_key ` set (map as_made (filter (\<lambda>f. fil_ProductId f = P) rows))" by (rule imageI)
  then show False using f(4) eq by (simp add: same_fill_key del: set_map set_filter)
qed

lemma insert_fills_made:
  assumes "numbered fil_Id rows" and "length rows + length fs < 2 ^ 64"
    and "\<forall>f\<in>set rows. fil_ProductId f \<noteq> P \<longrightarrow> fil_OrderId f \<notin> ids"
    and "good_fills P ids (map as_made (filter (\<lambda>f. fil_ProductId f = P) rows) @ fs)"
  shows "numbered fil_Id (insert_fills rows fs) \<and>
    (\<forall>f\<in>set (insert_fills rows fs). fil_ProductId f \<noteq> P \<longrightarrow> fil_OrderId f \<notin> ids) \<and>
    map as_made (filter (\<lambda>f. fil_ProductId f = P) (insert_fills rows fs)) =
      map as_made (filter (\<lambda>f. fil_ProductId f = P) rows) @ fs"
  using assms
proof (induction fs arbitrary: rows)
  case (Cons f fs)
  let ?of = "\<lambda>rows. map as_made (filter (\<lambda>f. fil_ProductId f = P) rows)"
  note f = good_fills_mid [OF Cons.prems(4)]
  define r where "r = f\<lparr>fil_Id := of_nat (length rows) + 1\<rparr>"
  have ins: "insert_fills rows (f # fs) = insert_fills (rows @ [r]) fs"
    using good_fills_fresh [OF Cons.prems(3,4)] by (auto simp: r_def)
  have r: "?of (rows @ [r]) = ?of rows @ [f]" using f(1,2) by (simp add: r_def)
  have n: "numbered fil_Id (rows @ [r])"
    by (rule numbered_append) (use Cons.prems(1,2) in \<open>simp_all add: r_def\<close>)
  have l: "length (rows @ [r]) + length fs < 2 ^ 64" using Cons.prems(2) by simp
  have o: "\<forall>f\<in>set (rows @ [r]). fil_ProductId f \<noteq> P \<longrightarrow> fil_OrderId f \<notin> ids"
    using Cons.prems(3) f(2) by (simp add: r_def)
  have g: "good_fills P ids (?of (rows @ [r]) @ fs)" unfolding r append_assoc append.simps by (rule Cons.prems(4))
  show ?case using Cons.IH [OF n l o g] unfolding ins r append_assoc append.simps .
qed simp

lemma fills_ok_same: "same_tables s s' \<Longrightarrow> fills_ok P ids s' = fills_ok P ids s \<and> fills_of P s' = fills_of P s"
  by (simp add: fills_ok_def fills_of_def same_tables_simps)

lemma fill_status_fills: "UpdateOrderStatus F i a b s = (r, s') \<Longrightarrow> db_fills s' = db_fills s"
  by (auto simp: UpdateOrderStatus_def stmt_def Let_def split: option.splits prod.splits sum.splits)

lemma fill_rows_split:
  assumes "xs @ ys = rows_from fill_rows D" and "whole_fills xs"
  shows "\<exists>D1 D2. D = D1 @ D2 \<and> xs = rows_from fill_rows D1"
proof (rule rows_from_split [where whole = whole_fills])
  fix m and xs ys zs :: "'a fill list"
  assume a: "xs @ ys = fill_rows m @ zs" "xs \<noteq> []" "whole_fills xs"
  have "\<exists>us. xs = fill_rows m @ us"
    using a by (cases m rule: fill_rows.cases)
      (auto simp: FillMaker_OnMatchLog_def whole_fills_def Cons_eq_append_conv append_eq_Cons_conv split: if_splits)
  then obtain us where us: "xs = fill_rows m @ us" ..
  moreover have "whole_fills us" using a(3) by (auto simp: us whole_fills_def split: if_splits)
  ultimately show "\<exists>us. xs = fill_rows m @ us \<and> whole_fills us" by blast
qed (use assms in blast)+

interpretation fill_maker: log_maker "fill_observer F" "AddFills F" "NewFillMaker F P" fill_rows "fills_of P"
  "good_fills P ids" "fills_ok P ids" room_fills whole_fills "\<lambda>f. (fil_LogOffset f, fil_LogSeq f)"
proof
  fix m loc rows loc' and s s' :: "'d::zero db"
  assume "fill_observer F m loc s = ((rows, loc'), s')" "fills_ok P ids s"
  then show "rows = fill_rows m \<and> fills_of P s' = fills_of P s \<and> fills_ok P ids s'"
    by (auto simp: fill_observer_def FillMaker_OnOpenLog_def fills_of_def fills_ok_def fill_status_fills [OF surjective_pairing]
        split: log.splits)
next
  fix s s' :: "'d::zero db" and rows res
  assume a: "fills_ok P ids s" "good_fills P ids (fills_of P s @ rows)" "room_fills (length rows) s" "AddFills F rows s = (res, s')"
  show "fills_ok P ids s' \<and> (case res of Inr u \<Rightarrow> fills_of P s' = fills_of P s @ rows
      | Inl (Err e) \<Rightarrow> fills_of P s' = fills_of P s | Inl (Crash f) \<Rightarrow> True)"
  proof (cases "F (db_stmt s) = None \<and> rows \<noteq> []")
    case True
    then have "res = Inr ()" "db_fills s' = insert_fills (db_fills s) rows"
      using a(4) by (auto simp: AddFills_def exec_def stmt_def Let_def)
    then show ?thesis using a insert_fills_made [of "db_fills s" rows P ids]
      by (simp add: fills_ok_def fills_of_def room_fills_def)
  next
    case False
    then have "(res = Inr () \<and> rows = [] \<or> (\<exists>e. res = Inl (Err e))) \<and> same_tables s s'"
      using a(4) by (auto simp: AddFills_def exec_def stmt_def Let_def returnS_def split: if_splits)
    then show ?thesis using a(1) by (auto simp: fills_ok_same)
  qed
next
  fix s s' :: "'d::zero db" and off seq loc
  assume a: "fills_ok P ids s" "NewFillMaker F P s = (Inr (off, seq, loc), s')"
  then obtain s1 f where f: "GetLastFillByProductId F P s = (Inr f, s1)" "s' = s1"
      "(off, seq, loc) = (case f of None \<Rightarrow> (0, 0, ()) | Some f \<Rightarrow> (fil_LogOffset f, fil_LogSeq f, ()))"
    by (auto simp: NewFillMaker_def bindS_Inr)
  then have "f = last_by fil_Id (filter (\<lambda>f. fil_ProductId f = P) (db_fills s)) \<and> same_tables s s'"
    unfolding GetLastFillByProductId_def by (auto dest: query_Inr)
  then have "same_tables s s'" "f = last_by fil_Id (filter (\<lambda>f. fil_ProductId f = P) (db_fills s))" by simp_all
  then show "fills_ok P ids s' \<and> fills_of P s' = fills_of P s \<and>
      (off, seq) = (if fills_of P s = [] then (0, 0) else (fil_LogOffset (last (fills_of P s)), fil_LogSeq (last (fills_of P s))))"
    using f(3) a(1) fills_ok_same [of s s' P ids] last_by_filter [of fil_Id "db_fills s" "\<lambda>f. fil_ProductId f = P"]
    by (simp add: fills_ok_def fills_of_def last_map split: if_splits)
next
  fix row :: "'d::zero fill" and off l
  assume "row \<in> set (fill_rows (off, l))"
  then show "(fil_LogOffset row, fil_LogSeq row) = (off, GetSeq l)"
    by (cases l) (auto simp: FillMaker_OnMatchLog_def FillMaker_OnDoneLog_def)
qed (use fill_rows_split in \<open>auto simp: good_fills_def\<close>)

text \<open>When MySQL does not fail, a batch is stored.\<close>

lemma length_insert_fills: "length (insert_fills rows fs) \<le> length rows + length fs"
proof (induction fs arbitrary: rows)
  case (Cons f fs)
  then show ?case using Cons.IH [of "rows @ [f\<lparr>fil_Id := of_nat (length rows) + 1\<rparr>]"] by (auto intro: le_SucI)
qed simp

lemma observer_fills: "fill_observer F m loc s = (x, s') \<Longrightarrow> db_fills s' = db_fills s"
  by (auto simp: fill_observer_def FillMaker_OnOpenLog_def fill_status_fills [OF surjective_pairing] split: log.splits)

interpretation fill_maker_live: live_log_maker "fill_observer (\<lambda>_. None)" "AddFills (\<lambda>_. None)" "NewFillMaker (\<lambda>_. None) P"
  fill_rows "fills_of P" "good_fills P ids" "fills_ok P ids" room_fills whole_fills "\<lambda>f. (fil_LogOffset f, fil_LogSeq f)"
proof
  fix rows :: "'d::zero fill list" and s s' n
  assume "AddFills (\<lambda>_. None) rows s = (Inr (), s')" "room_fills (length rows + n) s"
  then show "room_fills n s'"
    using length_insert_fills [of "db_fills s" rows]
    by (auto simp: AddFills_def exec_def stmt_def returnS_def room_fills_def split: if_splits)
qed (auto simp: AddFills_def exec_def stmt_def returnS_def room_fills_def observer_fills split: if_splits)

subsection \<open>Runs\<close>

text \<open>Restarts happen after whole matches, batches find room in the table, and whatever else happens to
  the database leaves the product's fills as made (settling a fill does).\<close>

definition fill_allowed :: "string \<Rightarrow> u64 set \<Rightarrow> 'd::zero db maker_event \<Rightarrow> ('d fill, unit) maker \<times> 'd db \<Rightarrow> bool" where
  "fill_allowed P ids = maker_allowed (fills_of P) (fills_ok P ids) room_fills whole_fills"

definition fill_reaches :: "faults \<Rightarrow> string \<Rightarrow> u64 set \<Rightarrow> 'd::zero msg list \<Rightarrow>
    ('d fill, unit) maker \<times> 'd db \<Rightarrow> ('d fill, unit) maker \<times> 'd db \<Rightarrow> bool" where
  "fill_reaches F P ids T = reaches (fill_step F P T) (fill_allowed P ids)"

text \<open>A log topic of one product: the orders of its match and done logs are the product's, and no order
  matches itself.\<close>

fun log_of_product :: "string \<Rightarrow> u64 set \<Rightarrow> 'd log \<Rightarrow> bool" where
  "log_of_product P ids (OpenLog l) = (bs_ProductId l = P)"
| "log_of_product P ids (DoneLog l) = (bs_ProductId l = P \<and> dl_OrderId l \<in> ids)"
| "log_of_product P ids (MatchLog l) = (bs_ProductId l = P \<and> ml_TakerOrderId l \<in> ids \<and> ml_MakerOrderId l \<in> ids \<and>
     ml_TakerOrderId l \<noteq> ml_MakerOrderId l)"

lemma fill_rows_key: "f \<in> set (fill_rows (off, l)) \<Longrightarrow> snd (fill_key f) = GetSeq l"
  by (cases l) (auto simp: FillMaker_OnMatchLog_def FillMaker_OnDoneLog_def fill_key_def)

lemma good_fill_rows:
  assumes "sorted_wrt (<) (map (GetSeq \<circ> snd) D)" and "\<forall>m\<in>set D. log_of_product P ids (snd m)"
  shows "good_fills P ids (rows_from fill_rows D)"
  using assms
proof (induction D)
  case (Cons m D)
  obtain off l where m: "m = (off, l)" by (cases m)
  have "good_fills P ids (fill_rows m)"
    using Cons.prems(2) by (cases l)
      (auto simp: m good_fills_def as_made_def FillMaker_OnMatchLog_def FillMaker_OnDoneLog_def fill_key_def)
  moreover have "good_fills P ids (rows_from fill_rows D)" using Cons by simp
  moreover have "snd (fill_key f) = GetSeq l" if "f \<in> set (fill_rows m)" for f
    using that by (auto simp: m dest: fill_rows_key)
  moreover have "GetSeq l < snd (fill_key f)" if f: "f \<in> set (rows_from fill_rows D)" for f
  proof -
    obtain m' where m': "m' \<in> set D" "f \<in> set (fill_rows m')" using f by (auto simp: rows_from_def)
    then have "snd (fill_key f) = GetSeq (snd m')" using fill_rows_key [of f "fst m'" "snd m'"] by simp
    then show ?thesis using Cons.prems(1) m'(1) by (simp add: m)
  qed
  ultimately show ?case unfolding good_fills_def by force
qed (simp add: good_fills_def)

end
