(* ===== verification/Trade_Maker.thy ===== *)
theory Trade_Maker
  imports Makers
begin

text \<open>
  The trade maker (\<open>worker/trade_maker.go\<close>): a match log becomes a row of the trade table, other logs
  nothing. The trade table has no unique key, so what the restart position does is all that keeps a
  trade from being stored twice.
\<close>

subsection \<open>The operations\<close>

definition NewTradeMaker :: "faults \<Rightarrow> string \<Rightarrow> ('d, int \<times> int \<times> unit) dbop" where
  "NewTradeMaker F productId =
     bindS (GetLastTradeByProductId F productId) (\<lambda>lastTrade.
       returnS (case lastTrade of None \<Rightarrow> (0, 0, ()) | Some t \<Rightarrow> (trd_LogOffset t, trd_LogSeq t, ())))"

definition TradeMaker_OnMatchLog :: "'d match_log \<Rightarrow> int \<Rightarrow> 'd trade" where
  "TradeMaker_OnMatchLog l offset =
     \<lparr>trd_Id = 0, trd_ProductId = bs_ProductId l, trd_TradeSeq = ml_TradeSeq l, trd_TakerOrderId = ml_TakerOrderId l,
      trd_TakerUserId = ml_TakerUserId l, trd_MakerOrderId = ml_MakerOrderId l, trd_MakerUserId = ml_MakerUserId l,
      trd_Price = ml_Price l, trd_Size = ml_Size l, trd_Side = ml_Side l, trd_Time = bs_Time l,
      trd_LogOffset = offset, trd_LogSeq = bs_Sequence l\<rparr>"

fun trade_rows :: "'d msg \<Rightarrow> 'd trade list" where
  "trade_rows (offset, MatchLog l) = [TradeMaker_OnMatchLog l offset]"
| "trade_rows (offset, OpenLog l) = []"
| "trade_rows (offset, DoneLog l) = []"

definition trade_observer :: "('d, 'd trade, unit, 'd db) observer" where
  "trade_observer m loc s = ((trade_rows m, loc), s)"

definition trade_step :: "faults \<Rightarrow> string \<Rightarrow> 'd msg list \<Rightarrow> 'd db maker_event \<Rightarrow>
    ('d trade, unit) maker \<times> 'd db \<Rightarrow> (('d trade, unit) maker \<times> 'd db) res option" where
  "trade_step F productId T = maker_step T trade_observer (AddTrades F) (NewTradeMaker F productId)"

subsection \<open>The trades of a product\<close>

definition new_trade :: "'d trade \<Rightarrow> 'd trade" where
  "new_trade t = t\<lparr>trd_Id := 0\<rparr>"

definition trades_of :: "string \<Rightarrow> 'd db \<Rightarrow> 'd trade list" where
  "trades_of productId s = map new_trade (filter (\<lambda>t. trd_ProductId t = productId) (db_trades s))"

definition trades_ok :: "'d db \<Rightarrow> bool" where
  "trades_ok s \<longleftrightarrow> numbered trd_Id (db_trades s)"

definition good_trades :: "string \<Rightarrow> 'd trade list \<Rightarrow> bool" where
  "good_trades productId ts \<longleftrightarrow> (\<forall>t\<in>set ts. new_trade t = t \<and> trd_ProductId t = productId)"

definition room_trades :: "nat \<Rightarrow> 'd db \<Rightarrow> bool" where
  "room_trades n s \<longleftrightarrow> length (db_trades s) + n < 2 ^ 64"

lemma new_trade_simps [simp]:
  "new_trade (t\<lparr>trd_Id := i\<rparr>) = new_trade t" "trd_ProductId (new_trade t) = trd_ProductId t"
  "trd_LogOffset (new_trade t) = trd_LogOffset t" "trd_LogSeq (new_trade t) = trd_LogSeq t"
  by (simp_all add: new_trade_def)

lemma insert_trades_new:
  assumes "numbered trd_Id rows" and "length rows + length ts < 2 ^ 64" and "good_trades P ts"
  shows "numbered trd_Id (insert_trades rows ts) \<and>
    map new_trade (filter (\<lambda>t. trd_ProductId t = P) (insert_trades rows ts)) =
      map new_trade (filter (\<lambda>t. trd_ProductId t = P) rows) @ ts"
  using assms
proof (induction ts arbitrary: rows)
  case (Cons t ts)
  have t: "new_trade t = t" "trd_ProductId t = P" "good_trades P ts" using Cons.prems(3) by (simp_all add: good_trades_def)
  define r where "r = t\<lparr>trd_Id := of_nat (length rows) + 1\<rparr>"
  have n: "numbered trd_Id (rows @ [r])"
    by (rule numbered_append) (use Cons.prems(1,2) in \<open>simp_all add: r_def\<close>)
  have l: "length (rows @ [r]) + length ts < 2 ^ 64" using Cons.prems(2) by simp
  have r: "map new_trade (filter (\<lambda>t. trd_ProductId t = P) (rows @ [r])) =
      map new_trade (filter (\<lambda>t. trd_ProductId t = P) rows) @ [t]" using t(1,2) by (simp add: r_def)
  have "insert_trades rows (t # ts) = insert_trades (rows @ [r]) ts" by (simp add: r_def)
  then show ?case using Cons.IH [OF n l t(3)] unfolding r by simp
qed simp

lemma trades_ok_same: "same_tables s s' \<Longrightarrow> trades_ok s' = trades_ok s \<and> trades_of P s' = trades_of P s"
  by (simp add: trades_ok_def trades_of_def same_tables_simps)

text \<open>A log gives one trade at most, so every cut of the trades is a cut of the logs.\<close>

lemma trade_rows_split:
  assumes "xs @ ys = rows_from trade_rows D"
  shows "\<exists>D1 D2. D = D1 @ D2 \<and> xs = rows_from trade_rows D1"
proof (rule rows_from_split [OF _ assms])
  fix m and xs ys zs :: "'a trade list"
  assume "xs @ ys = trade_rows m @ zs" "xs \<noteq> []"
  then show "\<exists>us. xs = trade_rows m @ us \<and> True"
    by (cases m rule: trade_rows.cases) (auto simp: Cons_eq_append_conv append_eq_Cons_conv)
qed simp

interpretation trade_maker: log_maker trade_observer "AddTrades F" "NewTradeMaker F P" trade_rows "trades_of P"
  "good_trades P" trades_ok room_trades "\<lambda>_. True" "\<lambda>t. (trd_LogOffset t, trd_LogSeq t)"
proof
  fix s s' :: "'d db" and rows res
  assume a: "trades_ok s" "good_trades P (trades_of P s @ rows)" "room_trades (length rows) s" "AddTrades F rows s = (res, s')"
  show "trades_ok s' \<and> (case res of Inr u \<Rightarrow> trades_of P s' = trades_of P s @ rows
      | Inl (Err e) \<Rightarrow> trades_of P s' = trades_of P s | Inl (Crash f) \<Rightarrow> True)"
  proof (cases "F (db_stmt s) = None \<and> rows \<noteq> []")
    case True
    have "good_trades P rows" using a(2) by (simp add: good_trades_def)
    moreover have "res = Inr ()" "db_trades s' = insert_trades (db_trades s) rows"
      using a(4) True by (auto simp: AddTrades_def exec_def stmt_def Let_def)
    ultimately show ?thesis using a(1,3) insert_trades_new [of "db_trades s" rows P]
      by (simp add: trades_ok_def trades_of_def room_trades_def)
  next
    case False
    then have "(res = Inr () \<and> rows = [] \<or> (\<exists>e. res = Inl (Err e))) \<and> same_tables s s'"
      using a(4) by (auto simp: AddTrades_def exec_def stmt_def Let_def returnS_def split: if_splits)
    then show ?thesis using a(1) by (auto simp: trades_ok_same)
  qed
next
  fix s s' :: "'d db" and off seq loc
  assume a: "trades_ok s" "NewTradeMaker F P s = (Inr (off, seq, loc), s')"
  then obtain s1 t where t: "GetLastTradeByProductId F P s = (Inr t, s1)" "s' = s1"
      "(off, seq, loc) = (case t of None \<Rightarrow> (0, 0, ()) | Some t \<Rightarrow> (trd_LogOffset t, trd_LogSeq t, ()))"
    by (auto simp: NewTradeMaker_def bindS_Inr)
  then have "t = last_by trd_Id (filter (\<lambda>t. trd_ProductId t = P) (db_trades s)) \<and> same_tables s s'"
    unfolding GetLastTradeByProductId_def by (auto dest: query_Inr)
  then have "same_tables s s'" "t = last_by trd_Id (filter (\<lambda>t. trd_ProductId t = P) (db_trades s))" by simp_all
  then show "trades_ok s' \<and> trades_of P s' = trades_of P s \<and>
      (off, seq) = (if trades_of P s = [] then (0, 0) else (trd_LogOffset (last (trades_of P s)), trd_LogSeq (last (trades_of P s))))"
    using t(3) a(1) trades_ok_same [of s s' P] last_by_filter [of trd_Id "db_trades s" "\<lambda>t. trd_ProductId t = P"]
    by (simp add: trades_ok_def trades_of_def last_map split: if_splits)
next
  fix row :: "'d trade" and off l
  assume "row \<in> set (trade_rows (off, l))"
  then show "(trd_LogOffset row, trd_LogSeq row) = (off, GetSeq l)"
    by (cases l) (auto simp: TradeMaker_OnMatchLog_def)
qed (use trade_rows_split in \<open>auto simp: good_trades_def trade_observer_def\<close>)

text \<open>When MySQL does not fail, a batch is stored.\<close>

lemma length_insert_trades: "length (insert_trades rows ts) = length rows + length ts"
  by (induction ts arbitrary: rows) auto

interpretation trade_maker_live: live_log_maker trade_observer "AddTrades (\<lambda>_. None)" "NewTradeMaker (\<lambda>_. None) P" trade_rows
  "trades_of P" "good_trades P" trades_ok room_trades "\<lambda>_. True" "\<lambda>t. (trd_LogOffset t, trd_LogSeq t)"
  by unfold_locales
    (auto simp: AddTrades_def exec_def stmt_def returnS_def room_trades_def length_insert_trades trade_observer_def
      split: if_splits)

end
