(* ===== verification/Maker_Properties.thy ===== *)
theory Maker_Properties
  imports Fill_Maker Trade_Maker
begin

text \<open>
  The properties of the fill maker and the trade maker: what they have stored is what the log says,
  each row once and in order, whatever fails and whenever they are restarted; and they catch up.
\<close>

subsection \<open>Fills\<close>

lemma topic_good_fills:
  assumes "\<forall>m\<in>set T. log_of_product P ids (snd m)"
  shows "good_fills P ids (rows_from fill_rows (fst (run_reader 0 T)))"
proof (rule good_fill_rows)
  obtain ds n r where "run_reader 0 T = (ds, n, r)" by (metis prod_cases3)
  then show "sorted_wrt (<) (map (GetSeq \<circ> snd) (fst (run_reader 0 T)))"
    using run_reader_increasing [of 0 T] by simp
  show "\<forall>m\<in>set (fst (run_reader 0 T)). log_of_product P ids (snd m)" using assms run_reader_subset by blast
qed



subsection \<open>A log, and runs of the fill maker on it\<close>

definition sample_log :: "rat log list" where
  "sample_log =
     [OpenLog \<lparr>bs_Type = LogTypeOpen, bs_Sequence = 1, bs_ProductId = ''P'', bs_Time = 60, ol_OrderId = 1, ol_UserId = 7,
        ol_RemainingSize = 3, ol_Price = 5, ol_Side = SideBuy, ol_TimeInForce = GoodTillCanceled\<rparr>,
      MatchLog \<lparr>bs_Type = LogTypeMatch, bs_Sequence = 2, bs_ProductId = ''P'', bs_Time = 61, ml_TradeSeq = 1,
        ml_TakerOrderId = 2, ml_MakerOrderId = 1, ml_TakerUserId = 8, ml_MakerUserId = 7, ml_Side = SideBuy, ml_Price = 5,
        ml_Size = 3, ml_TakerTimeInForce = GoodTillCanceled, ml_MakerTimeInForce = GoodTillCanceled\<rparr>,
      DoneLog \<lparr>bs_Type = LogTypeDone, bs_Sequence = 3, bs_ProductId = ''P'', bs_Time = 61, dl_OrderId = 1, dl_UserId = 7,
        dl_Price = 5, dl_RemainingSize = 0, dl_Reason = DoneReasonFilled, dl_Side = SideBuy,
        dl_TimeInForce = GoodTillCanceled\<rparr>]"

text \<open>The log topic after a crash of the engine: the first two logs are there twice.\<close>

definition sample_log_topic :: "rat msg list" where
  "sample_log_topic = topic (take 2 sample_log @ sample_log)"

definition empty_db :: "'d db" where
  "empty_db = \<lparr>db_accounts = [], db_bills = [], db_orders = (\<lambda>_. []), db_fills = [], db_trades = [], db_ticks = [],
     db_products = [], db_users = [], db_fee_rates = [], db_configs = [], db_stmt = 0\<rparr>"

lemmas sample_log_defs = sample_log_topic_def sample_log_def topic_def

lemma sample_log_ok:
  "offsets_ok sample_log_topic" "\<forall>m\<in>set sample_log_topic. log_of_product ''P'' {1, 2} (snd m)"
  "snd (snd (run_reader 0 sample_log_topic)) = None"
  by (simp_all add: sample_log_defs offsets_ok_def)

lemma sample_fill_rows: "length (rows_from fill_rows (fst (run_reader 0 sample_log_topic))) = 3"
  by (simp add: sample_log_defs FillMaker_OnMatchLog_def rows_from_def)

lemma empty_db_ok:
  "fills_ok P ids empty_db" "fills_of P empty_db = []" "room_fills 3 empty_db"
  "trades_ok empty_db" "trades_of P empty_db = []" "room_trades 1 empty_db"
  by (simp_all add: empty_db_def fills_ok_def fills_of_def room_fills_def trades_ok_def trades_of_def room_trades_def)

lemma start_empty: "NewFillMaker (\<lambda>_. None) P empty_db = (Inr (0, 0, ()), empty_db\<lparr>db_stmt := 1\<rparr>)"
  by (simp add: NewFillMaker_def GetLastFillByProductId_def query_def stmt_def bindS_def returnS_def empty_db_def last_by_def)


text \<open>A run with a crash after the fills of the match are stored; the done log is read after the restart.\<close>

definition restart_run :: "rat db maker_event list" where
  "restart_run = [ReadLog, ReadLog, SendRow, SendRow, TakeRow, TakeRow, StoreRows, RestartMaker,
     ReadLog, ReadLog, ReadLog, SendRow, TakeRow, StoreRows]"

text \<open>What the run needs, without large numbers.\<close>

fun small_run :: "rat db maker_event \<Rightarrow> (rat fill, unit) maker \<times> rat db \<Rightarrow> bool" where
  "small_run StoreRows (mk, s) = (length (db_fills s) + length (mk_buffer mk) < 10)"
| "small_run RestartMaker (mk, s) = whole_fills (fills_of ''P'' s)"
| "small_run (Outside s1) (mk, s) = False"
| "small_run ev (mk, s) = True"

lemma small_run_allowed: "small_run ev ms \<Longrightarrow> fill_allowed ''P'' {1, 2} ev ms"
  by (cases ms; cases ev) (auto simp: fill_allowed_def maker_allowed_def room_fills_def)

lemma restart_run_fills:
  obtains mk s where
    "fill_reaches (\<lambda>_. None) ''P'' {1, 2} sample_log_topic (start_maker 0 0 (), empty_db\<lparr>db_stmt := 1\<rparr>) (mk, s)"
    and "map fil_Liquidity (fills_of ''P'' s) = [''T'', ''M'', []]"
proof -
  let ?s0 = "(start_maker 0 0 (), empty_db\<lparr>db_stmt := 1\<rparr>) :: (rat fill, unit) maker \<times> rat db"
  have "case run_machine (fill_step (\<lambda>_. None) ''P'' sample_log_topic) restart_run ?s0 of
      Some (Inr ms) \<Rightarrow> map fil_Liquidity (fills_of ''P'' (snd ms)) = [''T'', ''M'', []] | _ \<Rightarrow> False" by code_simp
  then obtain ms where "run_machine (fill_step (\<lambda>_. None) ''P'' sample_log_topic) restart_run ?s0 = Some (Inr ms)"
      and ms: "map fil_Liquidity (fills_of ''P'' (snd ms)) = [''T'', ''M'', []]" by (auto split: option.splits sum.splits)
  moreover have "allowed_run (fill_step (\<lambda>_. None) ''P'' sample_log_topic) small_run restart_run ?s0" by code_simp
  ultimately have "reaches (fill_step (\<lambda>_. None) ''P'' sample_log_topic) small_run ?s0 ms" by (blast intro: run_machine_reaches)
  then have "fill_reaches (\<lambda>_. None) ''P'' {1, 2} sample_log_topic ?s0 ms"
    unfolding fill_reaches_def by (rule reaches_mono) (rule small_run_allowed)
  then show thesis using that [of "fst ms" "snd ms"] ms by simp
qed


text \<open>
  A crash between the two fills of a match. When the flusher takes the taker's fill before the observer
  has written the maker's, it stores it alone; the last fill then says that the match has been read,
  and the restarted maker goes on after it. The maker's order is never settled for this match.
\<close>

definition split_run :: "rat db maker_event list" where
  "split_run = [ReadLog, ReadLog, SendRow, TakeRow, StoreRows, RestartMaker, ReadLog, ReadLog, ReadLog,
     SendRow, TakeRow, StoreRows]"

theorem restart_loses_maker_fill:
  "\<exists>ms. run_machine (fill_step (\<lambda>_. None) ''P'' sample_log_topic) split_run
      (start_maker 0 0 (), empty_db\<lparr>db_stmt := 1\<rparr>) = Some (Inr ms) \<and>
    maker_schedule sample_log_topic ms = None \<and>
    map (\<lambda>f. (fil_OrderId f, fil_Done f)) (fills_of ''P'' (snd ms)) = [(2, False), (1, True)]"
proof -
  have "case run_machine (fill_step (\<lambda>_. None) ''P'' sample_log_topic) split_run
      (start_maker 0 0 (), empty_db\<lparr>db_stmt := 1\<rparr>) of
    Some (Inr ms) \<Rightarrow> maker_schedule sample_log_topic ms = None \<and>
      map (\<lambda>f. (fil_OrderId f, fil_Done f)) (fills_of ''P'' (snd ms)) = [(2, False), (1, True)]
    | _ \<Rightarrow> False" by code_simp
  then show ?thesis by (auto split: option.splits sum.splits)
qed

subsection \<open>Trades\<close>

definition trade_allowed :: "string \<Rightarrow> 'd db maker_event \<Rightarrow> ('d trade, unit) maker \<times> 'd db \<Rightarrow> bool" where
  "trade_allowed P = maker_allowed (trades_of P) trades_ok room_trades (\<lambda>_. True)"

definition trade_reaches :: "faults \<Rightarrow> string \<Rightarrow> 'd msg list \<Rightarrow>
    ('d trade, unit) maker \<times> 'd db \<Rightarrow> ('d trade, unit) maker \<times> 'd db \<Rightarrow> bool" where
  "trade_reaches F P T = reaches (trade_step F P T) (trade_allowed P)"

lemma topic_good_trades:
  assumes "\<forall>m\<in>set T. log_of_product P ids (snd m)"
  shows "good_trades P (rows_from trade_rows (fst (run_reader 0 T)))"
proof -
  have "good_trades P (trade_rows m)" if "m \<in> set T" for m
    using assms that by (cases m rule: trade_rows.cases) (auto simp: good_trades_def new_trade_def TradeMaker_OnMatchLog_def)
  then show ?thesis using run_reader_subset [of 0 T] by (fastforce simp: good_trades_def rows_from_def)
qed


lemma start_empty_trades: "NewTradeMaker (\<lambda>_. None) P empty_db = (Inr (0, 0, ()), empty_db\<lparr>db_stmt := 1\<rparr>)"
  by (simp add: NewTradeMaker_def GetLastTradeByProductId_def query_def stmt_def bindS_def returnS_def empty_db_def last_by_def)

text \<open>The trade is stored, then the maker is restarted and reads the repeated match again.\<close>

definition trade_run :: "rat db maker_event list" where
  "trade_run = [ReadLog, ReadLog, SendRow, TakeRow, StoreRows, RestartMaker, ReadLog, ReadLog]"

fun small_trade_run :: "rat db maker_event \<Rightarrow> (rat trade, unit) maker \<times> rat db \<Rightarrow> bool" where
  "small_trade_run StoreRows (mk, s) = (length (db_trades s) + length (mk_buffer mk) < 10)"
| "small_trade_run (Outside s1) (mk, s) = False"
| "small_trade_run ev (mk, s) = True"

lemma small_trade_run_allowed: "small_trade_run ev ms \<Longrightarrow> trade_allowed ''P'' ev ms"
  by (cases ms; cases ev) (auto simp: trade_allowed_def maker_allowed_def room_trades_def)


end
