(* ===== verification/Tick_Maker.thy ===== *)
theory Tick_Maker
  imports Makers
begin

text \<open>
  The tick maker (\<open>worker/tick_maker.go\<close>): for each of eleven granularities it keeps the candle of the
  current period, and every match changes them all and sends a copy of each to the tick table.
  \<open>utils.StartPosOfTime\<close>, the older way to compute the start of a period, is here too.
\<close>

subsection \<open>Time\<close>

text \<open>Times are Unix nanoseconds. \<open>Truncate\<close> counts from year 1, \<open>Unix\<close> rounds down to seconds.\<close>

definition year_one :: int where
  "year_one = 62135596800 * 10 ^ 9"

definition Truncate :: "int \<Rightarrow> int \<Rightarrow> int" where
  "Truncate d t = t - (t + year_one) mod d"

definition Unix :: "int \<Rightarrow> int" where
  "Unix t = t div 10 ^ 9"

definition minute :: int where
  "minute = 60 * 10 ^ 9"

definition tick_time :: "int \<Rightarrow> int \<Rightarrow> int" where
  "tick_time granularity t = Unix (Truncate (granularity * minute) t)"

text \<open>Go divides towards zero; the times it is called with are not negative.\<close>

definition go_div :: "int \<Rightarrow> int \<Rightarrow> int" where
  "go_div a b = sgn a * sgn b * (\<bar>a\<bar> div \<bar>b\<bar>)"

definition StartPosOfTime :: "int \<Rightarrow> int \<Rightarrow> int" where
  "StartPosOfTime unixTime granularity = go_div unixTime (granularity * 60) * (granularity * 60)"

definition minutes :: "int list" where
  "minutes = [1, 3, 5, 15, 30, 60, 120, 240, 360, 720, 1440]"

subsection \<open>The observer\<close>

type_synonym 'd ticks = "int \<rightharpoonup> 'd tick"

definition new_tick :: "'d::times match_log \<Rightarrow> int \<Rightarrow> int \<Rightarrow> 'd tick" where
  "new_tick l offset granularity =
     \<lparr>tck_ProductId = bs_ProductId l, tck_Granularity = granularity, tck_Time = tick_time granularity (bs_Time l),
      tck_Open = ml_Price l, tck_High = ml_Price l, tck_Low = ml_Price l, tck_Close = ml_Price l,
      tck_Volume = ml_Size l, tck_QuoteVolume = ml_Price l * ml_Size l,
      tck_LogOffset = offset, tck_LogSeq = bs_Sequence l\<rparr>"

definition add_to_tick :: "'d::linordered_idom match_log \<Rightarrow> int \<Rightarrow> 'd tick \<Rightarrow> 'd tick" where
  "add_to_tick l offset t = t\<lparr>tck_Close := ml_Price l, tck_Low := min (tck_Low t) (ml_Price l),
     tck_High := max (tck_High t) (ml_Price l), tck_Volume := tck_Volume t + ml_Size l,
     tck_QuoteVolume := tck_QuoteVolume t + ml_Price l * ml_Size l,
     tck_LogOffset := offset, tck_LogSeq := bs_Sequence l\<rparr>"

text \<open>One turn of the loop over the granularities, and the loop: the ticks sent, and the map.\<close>

definition make_tick :: "'d::linordered_idom match_log \<Rightarrow> int \<Rightarrow> int \<Rightarrow> 'd ticks \<Rightarrow> 'd tick" where
  "make_tick l offset granularity ticks =
     (case ticks granularity of
        None \<Rightarrow> new_tick l offset granularity
      | Some t \<Rightarrow> if tck_Time t \<noteq> tick_time granularity (bs_Time l) then new_tick l offset granularity
          else add_to_tick l offset t)"

fun make_ticks :: "'d::linordered_idom match_log \<Rightarrow> int \<Rightarrow> int list \<Rightarrow> 'd ticks \<Rightarrow> 'd tick list \<times> 'd ticks" where
  "make_ticks l offset [] ticks = ([], ticks)"
| "make_ticks l offset (g # gs) ticks =
     (let t = make_tick l offset g ticks in
      case make_ticks l offset gs (ticks(g \<mapsto> t)) of (ts, ticks') \<Rightarrow> (t # ts, ticks'))"

definition TickMaker_OnMatchLog :: "'d::linordered_idom match_log \<Rightarrow> int \<Rightarrow> 'd ticks \<Rightarrow> 'd tick list \<times> 'd ticks" where
  "TickMaker_OnMatchLog l offset ticks = make_ticks l offset minutes ticks"

definition tick_observer :: "('d::linordered_idom, 'd tick, 'd ticks, 'd db) observer" where
  "tick_observer m ticks s =
     (case m of (offset, l) \<Rightarrow> (case l of MatchLog x \<Rightarrow> TickMaker_OnMatchLog x offset ticks | _ \<Rightarrow> ([], ticks), s))"

subsection \<open>Starting\<close>

text \<open>The last tick of each granularity is loaded; the position in the log is that of the last one loaded.\<close>

fun load_ticks :: "faults \<Rightarrow> string \<Rightarrow> int list \<Rightarrow> int \<times> int \<times> 'd ticks \<Rightarrow> ('d, int \<times> int \<times> 'd ticks) dbop" where
  "load_ticks F productId [] pos = returnS pos"
| "load_ticks F productId (g # gs) pos =
     bindS (GetLastTickByProductId F productId g) (\<lambda>r.
     load_ticks F productId gs (case r of None \<Rightarrow> pos
       | Some t \<Rightarrow> (case pos of (_, _, ticks) \<Rightarrow> (tck_LogOffset t, tck_LogSeq t, ticks(g \<mapsto> t)))))"

definition NewTickMaker :: "faults \<Rightarrow> string \<Rightarrow> ('d, int \<times> int \<times> 'd ticks) dbop" where
  "NewTickMaker F productId = load_ticks F productId minutes (0, 0, Map.empty)"

definition tick_step :: "faults \<Rightarrow> string \<Rightarrow> 'd::linordered_idom msg list \<Rightarrow> 'd db maker_event \<Rightarrow>
    ('d tick, 'd ticks) maker \<times> 'd db \<Rightarrow> (('d tick, 'd ticks) maker \<times> 'd db) res option" where
  "tick_step F productId T =
     maker_step T tick_observer (\<lambda>ticks. AddTicks F (map Some ticks)) (NewTickMaker F productId)"

subsection \<open>Periods\<close>

lemma year_one_periods: "g \<in> set minutes \<Longrightarrow> year_one mod (g * minute) = 0"
  by (auto simp: minutes_def year_one_def minute_def)

text \<open>A period starts at a multiple of its length, in Unix time, and contains its times.\<close>

lemma tick_time_div:
  assumes "g \<in> set minutes"
  shows "tick_time g t = Unix t div (g * 60) * (g * 60)"
proof -
  have g: "0 < g" using assms by (auto simp: minutes_def)
  have "(t + year_one) mod (g * minute) = t mod (g * minute)"
    using year_one_periods [OF assms] by (metis add.right_neutral mod_add_right_eq)
  then have "Truncate (g * minute) t = g * minute * (t div (g * minute))"
    by (simp add: Truncate_def minus_mod_eq_mult_div)
  then have "tick_time g t = g * 60 * (t div (g * minute))"
    by (simp add: tick_time_def Unix_def minute_def mult.assoc)
  moreover have "t div (10 ^ 9 * (g * 60)) = t div 10 ^ 9 div (g * 60)"
    by (rule zdiv_zmult2_eq) (use g in simp)
  then have "t div (g * minute) = Unix t div (g * 60)"
    by (simp add: Unix_def minute_def mult.commute mult.left_commute)
  ultimately show ?thesis by (simp add: mult.commute)
qed

subsection \<open>Candles\<close>

text \<open>The candle of a sequence of matches.\<close>

definition candle :: "int \<Rightarrow> (int \<times> 'd::linordered_idom match_log) list \<Rightarrow> 'd tick" where
  "candle g ms =
     \<lparr>tck_ProductId = bs_ProductId (snd (hd ms)), tck_Granularity = g, tck_Time = tick_time g (bs_Time (snd (hd ms))),
      tck_Open = ml_Price (snd (hd ms)), tck_High = Max (set (map (ml_Price \<circ> snd) ms)),
      tck_Low = Min (set (map (ml_Price \<circ> snd) ms)), tck_Close = ml_Price (snd (last ms)),
      tck_Volume = (\<Sum>m\<leftarrow>ms. ml_Size (snd m)), tck_QuoteVolume = (\<Sum>m\<leftarrow>ms. ml_Price (snd m) * ml_Size (snd m)),
      tck_LogOffset = fst (last ms), tck_LogSeq = bs_Sequence (snd (last ms))\<rparr>"

text \<open>The matches since the last change of period.\<close>

definition last_period :: "int \<Rightarrow> (int \<times> 'd match_log) list \<Rightarrow> (int \<times> 'd match_log) list" where
  "last_period g ms = rev (takeWhile (\<lambda>m. tick_time g (bs_Time (snd m)) = tick_time g (bs_Time (snd (last ms)))) (rev ms))"

lemma last_period_snoc:
  "last_period g (ms @ [m]) =
     (if ms \<noteq> [] \<and> tick_time g (bs_Time (snd (last ms))) = tick_time g (bs_Time (snd m)) then last_period g ms @ [m] else [m])"
  by (cases ms rule: rev_cases) (auto simp: last_period_def)

lemma last_period_nonempty: "ms \<noteq> [] \<Longrightarrow> last_period g ms \<noteq> []"
  by (cases ms rule: rev_cases) (auto simp: last_period_snoc)

lemma last_period_time:
  assumes "m \<in> set (last_period g ms)"
  shows "tick_time g (bs_Time (snd m)) = tick_time g (bs_Time (snd (last ms)))"
proof -
  from assms have "m \<in> set (takeWhile (\<lambda>m. tick_time g (bs_Time (snd m)) = tick_time g (bs_Time (snd (last ms)))) (rev ms))"
    by (simp add: last_period_def)
  then show ?thesis by (auto dest: set_takeWhileD)
qed

lemma candle_one: "candle g [(off, l)] = new_tick l off g"
  by (simp add: candle_def new_tick_def)

lemma candle_snoc:
  assumes "ms \<noteq> []"
  shows "candle g (ms @ [(off, l)]) = add_to_tick l off (candle g ms)"
proof -
  have "Max (insert (ml_Price l) (set (map (ml_Price \<circ> snd) ms))) = max (Max (set (map (ml_Price \<circ> snd) ms))) (ml_Price l)"
    "Min (insert (ml_Price l) (set (map (ml_Price \<circ> snd) ms))) = min (Min (set (map (ml_Price \<circ> snd) ms))) (ml_Price l)"
    using assms by (simp_all add: max.commute min.commute)
  then show ?thesis using assms by (simp add: candle_def add_to_tick_def)
qed

text \<open>The loop touches the granularities it is given, each once.\<close>

lemma make_ticks_eq:
  assumes "distinct gs"
  shows "make_ticks l off gs ticks = (map (\<lambda>g. make_tick l off g ticks) gs,
    \<lambda>g. if g \<in> set gs then Some (make_tick l off g ticks) else ticks g)"
  using assms
proof (induction gs arbitrary: ticks)
  case (Cons g gs)
  have "make_tick l off h (ticks(g \<mapsto> t)) = make_tick l off h ticks" if "h \<in> set gs" for h t
    using that Cons.prems by (auto simp: make_tick_def)
  with Cons show ?case by (auto simp: Let_def fun_eq_iff)
qed auto

definition run_ticks :: "(int \<times> 'd::linordered_idom match_log) list \<Rightarrow> 'd ticks \<Rightarrow> 'd ticks" where
  "run_ticks ms ticks = fold (\<lambda>(off, l) ticks. snd (TickMaker_OnMatchLog l off ticks)) ms ticks"

lemma distinct_minutes: "distinct minutes"
  by (simp add: minutes_def)

lemma run_ticks_candle:
  assumes "g \<in> set minutes" and "ms \<noteq> []"
  shows "run_ticks ms Map.empty g = Some (candle g (last_period g ms))"
  using assms(2)
proof (induction ms rule: rev_induct)
  case (snoc m ms)
  obtain off l where m: "m = (off, l)" by (cases m)
  have step: "run_ticks (ms @ [m]) Map.empty g = Some (make_tick l off g (run_ticks ms Map.empty))"
    using assms(1) by (simp add: run_ticks_def m TickMaker_OnMatchLog_def make_ticks_eq [OF distinct_minutes])
  show ?case
  proof (cases "ms = []")
    case True
    then show ?thesis unfolding step by (simp add: run_ticks_def make_tick_def m last_period_def candle_one)
  next
    case False
    note IH = snoc.IH [OF False]
    have "tck_Time (candle g (last_period g ms)) = tick_time g (bs_Time (snd (last ms)))"
      using last_period_time [of "hd (last_period g ms)" g ms] last_period_nonempty [OF False]
      by (simp add: candle_def)
    then show ?thesis
      unfolding step make_tick_def IH
      using False by (simp add: last_period_snoc m candle_one candle_snoc [OF last_period_nonempty])
  qed
qed simp

lemma StartPosOfTime_eq: "0 \<le> u \<Longrightarrow> 0 < g \<Longrightarrow> StartPosOfTime u g = u div (g * 60) * (g * 60)"
  by (cases "u = 0") (simp_all add: StartPosOfTime_def go_div_def abs_mult)

subsection \<open>What the ticks are\<close>

text \<open>C28. After the matches \<open>ms\<close>, the next match sends, for each granularity, the candle of the matches since its
  last change of period, computed from scratch: its first price, its last, the highest and the lowest, and
  the sums of the sizes and of the amounts. The period of a match is the one that \<open>StartPosOfTime\<close> computes
  from the Unix time, for times after the epoch.\<close>

theorem ticks_are_candles:
  assumes "0 \<le> Unix (bs_Time l)"
  shows "fst (TickMaker_OnMatchLog l off (run_ticks ms Map.empty)) =
      map (\<lambda>g. (candle g (last_period g (ms @ [(off, l)])))\<lparr>tck_Time := StartPosOfTime (Unix (bs_Time l)) g\<rparr>) minutes"
proof -
  have "make_tick l off g (run_ticks ms Map.empty) =
      (candle g (last_period g (ms @ [(off, l)])))\<lparr>tck_Time := StartPosOfTime (Unix (bs_Time l)) g\<rparr>" if g: "g \<in> set minutes" for g
  proof -
    have pos: "0 < g" using g by (auto simp: minutes_def)
    have "run_ticks (ms @ [(off, l)]) Map.empty g = Some (make_tick l off g (run_ticks ms Map.empty))"
      using g by (simp add: run_ticks_def TickMaker_OnMatchLog_def make_ticks_eq [OF distinct_minutes])
    then have eq: "make_tick l off g (run_ticks ms Map.empty) = candle g (last_period g (ms @ [(off, l)]))"
      using run_ticks_candle [OF g, of "ms @ [(off, l)]"] by simp
    have "hd (last_period g (ms @ [(off, l)])) \<in> set (last_period g (ms @ [(off, l)]))"
      using last_period_nonempty [of "ms @ [(off, l)]" g] by simp
    from last_period_time [OF this] have "tck_Time (candle g (last_period g (ms @ [(off, l)]))) = tick_time g (bs_Time l)"
      by (simp add: candle_def)
    then have "tck_Time (candle g (last_period g (ms @ [(off, l)]))) = StartPosOfTime (Unix (bs_Time l)) g"
      using tick_time_div [OF g] StartPosOfTime_eq [OF assms pos] by simp
    then have "(candle g (last_period g (ms @ [(off, l)])))\<lparr>tck_Time := StartPosOfTime (Unix (bs_Time l)) g\<rparr> =
        candle g (last_period g (ms @ [(off, l)]))" by (metis tick.surjective tick.update_convs(3))
    then show ?thesis using eq by simp
  qed
  then show ?thesis by (simp add: TickMaker_OnMatchLog_def make_ticks_eq [OF distinct_minutes])
qed

text \<open>Two matches in the same minute, of sizes 2 and 3, at 10 and at 8.\<close>

definition some_match :: "int \<Rightarrow> int \<Rightarrow> rat \<Rightarrow> rat \<Rightarrow> rat match_log" where
  "some_match q t z p = \<lparr>bs_Type = [], bs_Sequence = q, bs_ProductId = ''P'', bs_Time = t, ml_TradeSeq = q, ml_TakerOrderId = 1,
     ml_MakerOrderId = 2, ml_TakerUserId = 1, ml_MakerUserId = 2, ml_Side = SideBuy, ml_Price = p, ml_Size = z,
     ml_TakerTimeInForce = [], ml_MakerTimeInForce = []\<rparr>"

theorem ticks_are_candles_witness:
  "hd (fst (TickMaker_OnMatchLog (some_match 2 (90 * 10 ^ 9) 3 8) 7 (run_ticks [(5, some_match 1 (60 * 10 ^ 9) 2 10)] Map.empty))) =
    \<lparr>tck_ProductId = ''P'', tck_Granularity = 1, tck_Time = 60, tck_Open = 10, tck_High = 10, tck_Low = 8, tck_Close = 8,
     tck_Volume = 5, tck_QuoteVolume = 44, tck_LogOffset = 7, tck_LogSeq = 2\<rparr>"
proof -
  have "0 \<le> Unix (bs_Time (some_match 2 (90 * 10 ^ 9) 3 8))" by (simp add: some_match_def Unix_def)
  note eq = ticks_are_candles [OF this, of 7 "[(5, some_match 1 (60 * 10 ^ 9) 2 10)]"]
  have "last_period 1 ([(5, some_match 1 (60 * 10 ^ 9) 2 10)] @ [(7, some_match 2 (90 * 10 ^ 9) 3 8)]) =
      [(5, some_match 1 (60 * 10 ^ 9) 2 10), (7, some_match 2 (90 * 10 ^ 9) 3 8)]"
    by (simp add: last_period_def some_match_def tick_time_def Unix_def Truncate_def year_one_def minute_def)
  then show ?thesis
    unfolding eq by (simp add: minutes_def candle_def some_match_def StartPosOfTime_def go_div_def Unix_def tick_time_def)
qed

end
