(* ===== verification/Worker_Pool.thy ===== *)
theory Worker_Pool
  imports Store Machines
begin

text \<open>
  What the fill executor and the bill executor share (\<open>worker/fill_executor.go\<close>,
  \<open>worker/bill_executor.go\<close>): ten workers with a channel each, a listener that passes on what a queue
  notifies, and an inspector that reads the table of open items again and again. An item goes to the
  channel of its key modulo ten. What differs is the capacity, the key, the query and the work; they
  are parameters here.
\<close>

definition workerNum :: nat where
  "workerNum = 10"

record ('t, 'c) pool =
  pl_chs :: "'t list list"       \<comment> \<open>\<open>workerChs\<close>\<close>
  pl_local :: "'c list"          \<comment> \<open>what each worker keeps\<close>
  pl_found :: "'t list"          \<comment> \<open>the inspector: items still to be written to a channel\<close>
  pl_notified :: "'t option"     \<comment> \<open>the listener: the item to be written to a channel\<close>

definition new_pool :: "'c \<Rightarrow> ('t, 'c) pool" where
  "new_pool c = \<lparr>pl_chs = replicate workerNum [], pl_local = replicate workerNum c, pl_found = [], pl_notified = None\<rparr>"

definition worker_of :: "('t \<Rightarrow> u64) \<Rightarrow> 't \<Rightarrow> nat" where
  "worker_of key t = unat (key t mod of_nat workerNum)"

text \<open>Writing to a channel blocks when it is full.\<close>

definition dispatch :: "nat \<Rightarrow> ('t \<Rightarrow> u64) \<Rightarrow> 't \<Rightarrow> ('t, 'c) pool \<Rightarrow> ('t, 'c) pool option" where
  "dispatch cap key t p =
     (let i = worker_of key t in
      if length (pl_chs p ! i) < cap then Some (p\<lparr>pl_chs := (pl_chs p)[i := pl_chs p ! i @ [t]]\<rparr>) else None)"

datatype ('t, 's) pool_event = Inspect | SendFound | Listen 't | SendNotified | Work nat | Elsewhere 's

fun pool_step :: "nat \<Rightarrow> ('t \<Rightarrow> u64) \<Rightarrow> ('s \<Rightarrow> (failure + 't list) \<times> 's) \<Rightarrow> ('t \<Rightarrow> 'c \<Rightarrow> 's \<Rightarrow> 'c res \<times> 's) \<Rightarrow>
    ('t, 's) pool_event \<Rightarrow> ('t, 'c) pool \<times> 's \<Rightarrow> (('t, 'c) pool \<times> 's) res option" where
  "pool_step cap key inspect work Inspect (p, s) =
     (if pl_found p \<noteq> [] then None
      else case inspect s of
        (Inr ts, s1) \<Rightarrow> Some (Inr (p\<lparr>pl_found := ts\<rparr>, s1))
      | (Inl (Err e), s1) \<Rightarrow> Some (Inr (p, s1))
      | (Inl (Crash f), s1) \<Rightarrow> Some (Inl f))"
| "pool_step cap key inspect work SendFound (p, s) =
     (case pl_found p of [] \<Rightarrow> None
      | t # ts \<Rightarrow> map_option (\<lambda>p. Inr (p\<lparr>pl_found := ts\<rparr>, s)) (dispatch cap key t p))"
| "pool_step cap key inspect work (Listen t) (p, s) =
     (if pl_notified p \<noteq> None then None else Some (Inr (p\<lparr>pl_notified := Some t\<rparr>, s)))"
| "pool_step cap key inspect work SendNotified (p, s) =
     (case pl_notified p of None \<Rightarrow> None
      | Some t \<Rightarrow> map_option (\<lambda>p. Inr (p\<lparr>pl_notified := None\<rparr>, s)) (dispatch cap key t p))"
| "pool_step cap key inspect work (Work i) (p, s) =
     (if workerNum \<le> i then None
      else case pl_chs p ! i of [] \<Rightarrow> None
      | t # ts \<Rightarrow> (case work t (pl_local p ! i) s of
          (Inr c, s1) \<Rightarrow> Some (Inr (p\<lparr>pl_chs := (pl_chs p)[i := ts], pl_local := (pl_local p)[i := c]\<rparr>, s1))
        | (Inl f, s1) \<Rightarrow> Some (Inl f)))"
| "pool_step cap key inspect work (Elsewhere s1) (p, s) = Some (Inr (p, s1))"

definition pool_ok :: "('t \<Rightarrow> u64) \<Rightarrow> ('t, 'c) pool \<Rightarrow> bool" where
  "pool_ok key p \<longleftrightarrow> length (pl_chs p) = workerNum \<and> length (pl_local p) = workerNum \<and>
     (\<forall>i<workerNum. \<forall>t\<in>set (pl_chs p ! i). worker_of key t = i)"

lemma worker_of_less: "worker_of key t < workerNum"
proof -
  have "unat (key t mod (10 :: u64)) = unat (key t) mod 10" by (simp add: unat_mod_distrib)
  then show ?thesis by (simp add: worker_of_def workerNum_def)
qed

lemma pool_ok_new: "pool_ok key (new_pool c)"
  by (simp add: pool_ok_def new_pool_def)

lemma dispatch_ok:
  assumes "dispatch cap key t p = Some p'" and "pool_ok key p"
  shows "pool_ok key p'"
  using assms worker_of_less [of key t]
  by (auto simp: dispatch_def pool_ok_def Let_def nth_list_update split: if_splits)

text \<open>Items stay with the worker of their key.\<close>

lemma pool_step_ok:
  assumes "pool_step cap key inspect work ev (p, s) = Some (Inr (p', s'))" and "pool_ok key p"
  shows "pool_ok key p'"
proof (cases ev)
  case SendFound
  then obtain t ts p1 where "dispatch cap key t p = Some p1" "p' = p1\<lparr>pl_found := ts\<rparr>"
    using assms(1) by (auto split: list.splits)
  then show ?thesis using dispatch_ok [OF _ assms(2), of cap t p1] by (simp add: pool_ok_def)
next
  case SendNotified
  then obtain t p1 where "dispatch cap key t p = Some p1" "p' = p1\<lparr>pl_notified := None\<rparr>"
    using assms(1) by (auto split: option.splits)
  then show ?thesis using dispatch_ok [OF _ assms(2), of cap t p1] by (simp add: pool_ok_def)
next
  case (Work i)
  then obtain t ts c where i: "i < workerNum" "pl_chs p ! i = t # ts"
      "p' = p\<lparr>pl_chs := (pl_chs p)[i := ts], pl_local := (pl_local p)[i := c]\<rparr>"
    using assms(1) by (auto split: if_splits list.splits prod.splits sum.splits)
  have "set ts \<subseteq> set (pl_chs p ! i)" using i(2) by auto
  then show ?thesis using assms(2) i(1,3) by (auto simp: pool_ok_def nth_list_update)
qed (use assms in \<open>auto simp: pool_ok_def split: if_splits prod.splits sum.splits failure.splits\<close>)

subsection \<open>Draining\<close>

definition drained :: "('t, 'c) pool \<Rightarrow> bool" where
  "drained p \<longleftrightarrow> (\<forall>i<workerNum. pl_chs p ! i = []) \<and> pl_found p = [] \<and> pl_notified p = None"

text \<open>What the goroutines of the pool do by themselves.\<close>

fun pool_own :: "('t, 's) pool_event \<Rightarrow> ('t, 'c) pool \<times> 's \<Rightarrow> bool" where
  "pool_own (Listen t) ps = False"
| "pool_own (Elsewhere s1) ps = False"
| "pool_own ev ps = True"

definition pool_left :: "('t, 'c) pool \<Rightarrow> nat" where
  "pool_left p = sum_list (map length (pl_chs p)) + 2 * length (pl_found p) + (case pl_notified p of None \<Rightarrow> 0 | Some t \<Rightarrow> 2)"

lemma items_update:
  assumes "i < length xss"
  shows "sum_list (map length (xss[i := ys])) + length (xss ! i) = sum_list (map length xss) + length ys"
  using assms by (induction xss arbitrary: i) (auto simp: nth_Cons split: nat.splits)

lemma dispatch_empty:
  assumes "pl_chs p ! worker_of key t = []" and "0 < cap"
  shows "dispatch cap key t p = Some (p\<lparr>pl_chs := (pl_chs p)[worker_of key t := [t]]\<rparr>)"
  using assms by (simp add: dispatch_def)

text \<open>
  Work that may go on for ever is here work on a store that does not fail: \<open>remaining\<close> counts what is
  still to be done, and working on an item that is pending does some of it.
\<close>

locale worker_pool =
  fixes cap :: nat
    and key :: "'t \<Rightarrow> u64"
    and inspect :: "'s \<Rightarrow> (failure + 't list) \<times> 's"
    and work :: "'t \<Rightarrow> 'c \<Rightarrow> 's \<Rightarrow> 'c res \<times> 's"
    and sound :: "'s \<Rightarrow> bool"
    and pending :: "'t \<Rightarrow> 's \<Rightarrow> bool"
    and remaining :: "'s \<Rightarrow> nat"
  assumes cap: "0 < cap"
    and works: "sound s \<Longrightarrow> \<exists>c' s'. work t c s = (Inr c', s') \<and> sound s' \<and> remaining s' \<le> remaining s \<and>
      (pending t s \<longrightarrow> remaining s' < remaining s)"
    and inspects: "sound s \<Longrightarrow> \<exists>ts s'. inspect s = (Inr ts, s') \<and> sound s' \<and> remaining s' = remaining s \<and>
      (remaining s \<noteq> 0 \<longrightarrow> ts \<noteq> []) \<and> (\<forall>t\<in>set ts. pending t s')"
begin

abbreviation step where "step \<equiv> pool_step cap key inspect work"

lemma pool_drains:
  "pool_ok key p \<Longrightarrow> sound s \<Longrightarrow>
    \<exists>p' s'. reaches step pool_own (p, s) (p', s') \<and> pool_ok key p' \<and> sound s' \<and> drained p' \<and> remaining s' \<le> remaining s"
proof (induction "pool_left p" arbitrary: p s rule: less_induct)
  case less
  have go: ?case if ev: "pool_own ev (p, s)" "step ev (p, s) = Some (Inr (p1, s1))" "pool_left p1 < pool_left p" "sound s1"
      "remaining s1 \<le> remaining s" for ev p1 s1
  proof -
    have "pool_ok key p1" using pool_step_ok [OF ev(2) less.prems(1)] .
    from less.hyps [OF ev(3) this ev(4)] obtain p' s' where r: "reaches step pool_own (p1, s1) (p', s')"
      "pool_ok key p'" "sound s'" "drained p'" "remaining s' \<le> remaining s1" by blast
    have "reaches step pool_own (p, s) (p1, s1)" using ev(1,2) by (rule reaches_one)
    with r(1) have "reaches step pool_own (p, s) (p', s')" by (rule reaches_trans)
    with r ev(5) show ?thesis by (meson order_trans)
  qed
  show ?case
  proof (cases "\<exists>i<workerNum. pl_chs p ! i \<noteq> []")
    case True
    then obtain i t ts where i: "i < workerNum" "pl_chs p ! i = t # ts" by (metis list.exhaust)
    obtain c' s1 where w: "work t (pl_local p ! i) s = (Inr c', s1)" "sound s1" "remaining s1 \<le> remaining s"
      using works [OF less.prems(2)] by blast
    show ?thesis
    proof (rule go [of "Work i"])
      show "step (Work i) (p, s) = Some (Inr (p\<lparr>pl_chs := (pl_chs p)[i := ts], pl_local := (pl_local p)[i := c']\<rparr>, s1))"
        using i w by simp
      show "pool_left (p\<lparr>pl_chs := (pl_chs p)[i := ts], pl_local := (pl_local p)[i := c']\<rparr>) < pool_left p"
        using items_update [of i "pl_chs p" ts] i less.prems(1) by (simp add: pool_left_def pool_ok_def)
    qed (use w in simp_all)
  next
    case idle: False
    show ?thesis
    proof (cases "pl_notified p")
      case (Some t)
      let ?i = "worker_of key t"
      have e: "pl_chs p ! ?i = []" using idle worker_of_less [of key t] by blast
      show ?thesis
      proof (rule go [of SendNotified])
        show "step SendNotified (p, s) = Some (Inr (p\<lparr>pl_chs := (pl_chs p)[?i := [t]], pl_notified := None\<rparr>, s))"
          by (simp add: Some dispatch_empty [where key = key, OF e cap])
        show "pool_left (p\<lparr>pl_chs := (pl_chs p)[?i := [t]], pl_notified := None\<rparr>) < pool_left p"
          using items_update [of ?i "pl_chs p" "[t]"] e worker_of_less [of key t] less.prems(1)
          by (simp add: pool_left_def pool_ok_def Some)
      qed (use less.prems in simp_all)
    next
      case None
      show ?thesis
      proof (cases "pl_found p")
        case (Cons t ts)
        let ?i = "worker_of key t"
        have e: "pl_chs p ! ?i = []" using idle worker_of_less [of key t] by blast
        show ?thesis
        proof (rule go [of SendFound])
          show "step SendFound (p, s) = Some (Inr (p\<lparr>pl_chs := (pl_chs p)[?i := [t]], pl_found := ts\<rparr>, s))"
            by (simp add: Cons dispatch_empty [where key = key, OF e cap])
          show "pool_left (p\<lparr>pl_chs := (pl_chs p)[?i := [t]], pl_found := ts\<rparr>) < pool_left p"
            using items_update [of ?i "pl_chs p" "[t]"] e worker_of_less [of key t] less.prems(1)
            by (simp add: pool_left_def pool_ok_def Cons)
        qed (use less.prems in simp_all)
      next
        case Nil
        then have "drained p" using idle None by (auto simp: drained_def)
        then show ?thesis using less.prems reaches.start by fastforce
      qed
    qed
  qed
qed

text \<open>Every item that the inspector finds is worked on, so in the end there is none left to find.\<close>

lemma pool_finishes:
  "pool_ok key p \<Longrightarrow> sound s \<Longrightarrow>
    \<exists>p' s'. reaches step pool_own (p, s) (p', s') \<and> pool_ok key p' \<and> sound s' \<and> drained p' \<and> remaining s' = 0"
proof (induction "remaining s" arbitrary: p s rule: less_induct)
  case less
  obtain p1 s1 where d: "reaches step pool_own (p, s) (p1, s1)" "pool_ok key p1" "sound s1" "drained p1"
      "remaining s1 \<le> remaining s" using pool_drains [OF less.prems] by blast
  show ?case
  proof (cases "remaining s1 = 0")
    case False
    obtain ts s2 where i: "inspect s1 = (Inr ts, s2)" "sound s2" "remaining s2 = remaining s1" "ts \<noteq> []" "\<forall>t\<in>set ts. pending t s2"
      using inspects [OF d(3)] False by blast
    obtain t ts' where t: "ts = t # ts'" using i(4) by (cases ts) auto
    let ?i = "worker_of key t"
    have e: "pl_chs p1 ! ?i = []" using d(4) worker_of_less [of key t] by (simp add: drained_def)
    define p2 where "p2 = p1\<lparr>pl_found := ts\<rparr>"
    define p3 where "p3 = p2\<lparr>pl_chs := (pl_chs p2)[?i := [t]], pl_found := ts'\<rparr>"
    have "step Inspect (p1, s1) = Some (Inr (p2, s2))" using d(4) i(1) by (simp add: drained_def p2_def)
    then have r2: "reaches step pool_own (p1, s1) (p2, s2)" by (intro reaches_one [of _ Inspect]) simp_all
    have "dispatch cap key t p2 = Some (p2\<lparr>pl_chs := (pl_chs p2)[?i := [t]]\<rparr>)"
      by (rule dispatch_empty [OF _ cap]) (use e in \<open>simp add: p2_def\<close>)
    then have s3: "step SendFound (p2, s2) = Some (Inr (p3, s2))" by (simp add: p2_def p3_def t)
    then have r3: "reaches step pool_own (p2, s2) (p3, s2)" by (intro reaches_one [of _ SendFound]) simp_all
    have c3: "pl_chs p3 ! ?i = [t]" using d(2) worker_of_less [of key t] by (simp add: p3_def p2_def pool_ok_def)
    have "pending t s2" using i(5) t by simp
    then obtain c' s4 where w: "work t (pl_local p3 ! ?i) s2 = (Inr c', s4)" "sound s4" "remaining s4 < remaining s2"
      using works [OF i(2)] by blast
    define p4 where "p4 = p3\<lparr>pl_chs := (pl_chs p3)[?i := []], pl_local := (pl_local p3)[?i := c']\<rparr>"
    have s4: "step (Work ?i) (p3, s2) = Some (Inr (p4, s4))"
      using w c3 worker_of_less [of key t] by (simp add: p4_def)
    then have r4: "reaches step pool_own (p3, s2) (p4, s4)" by (intro reaches_one [of _ "Work ?i"]) simp_all
    have "pool_ok key p2" using d(2) by (simp add: p2_def pool_ok_def)
    then have "pool_ok key p4" using pool_step_ok [OF s4] pool_step_ok [OF s3] by blast
    moreover have "remaining s4 < remaining s" using w(3) i(3) d(5) by simp
    ultimately obtain p' s' where r: "reaches step pool_own (p4, s4) (p', s')" "pool_ok key p'" "sound s'" "drained p'"
        "remaining s' = 0" using less.hyps w(2) by blast
    have "reaches step pool_own (p, s) (p', s')"
      using r(1) r4 r3 r2 d(1) by (meson reaches_trans)
    with r show ?thesis by blast
  qed (use d in blast)
qed

end

end
