(* ===== verification/Bill_Executor.thy ===== *)
theory Bill_Executor
  imports Accounts Worker_Pool
begin

text \<open>
  The bill executor (\<open>worker/bill_executor.go\<close>): workers that settle the bills of the users they are
  given, told of bills by the queue and by an inspector that reads the unsettled bills every second.
\<close>

subsection \<open>The operations\<close>

definition BillExecutor_work :: "faults \<Rightarrow> 'd::linordered_idom bill \<Rightarrow> unit \<Rightarrow> 'd db \<Rightarrow> unit res \<times> 'd db" where
  "BillExecutor_work F bill c s = (case ExecuteBill F (bil_UserId bill) (bil_Currency bill) s of
       (Inl (Crash f), s1) \<Rightarrow> (Inl f, s1)
     | (_, s1) \<Rightarrow> (Inr c, s1))"

definition bill_step :: "faults \<Rightarrow> ('d::linordered_idom bill, 'd db) pool_event \<Rightarrow> ('d bill, unit) pool \<times> 'd db \<Rightarrow>
    (('d bill, unit) pool \<times> 'd db) res option" where
  "bill_step F = pool_step 256 bil_UserId (GetUnsettledBills F) (BillExecutor_work F)"

definition NewBillExecutor :: "('d bill, unit) pool" where
  "NewBillExecutor = new_pool ()"

subsection \<open>What settling a user's bills does to the tables\<close>

definition open_bills :: "'d db \<Rightarrow> 'd bill list" where
  "open_bills s = filter (\<lambda>b. \<not> bil_Settled b) (db_bills s)"

lemma lock_account_length:
  assumes "lock_account F uid c s = (Inr account, s')"
  shows "length (db_accounts s') \<le> length (db_accounts s) + 1" and "db_bills s' = db_bills s"
  using assms
  by (auto simp: lock_account_def bindS_Inr GetAccountForUpdate_def query_def stmt_Inr AddAccount_def returnS_def
      split: option.splits if_splits)

lemma settle_bills_accounts: "settle_bills F bs av h s = (Inr r, s') \<Longrightarrow> db_accounts s' = db_accounts s"
  by (induction bs arbitrary: av h s) (auto simp: bindS_Inr UpdateBill_def exec_def stmt_Inr)

lemma ExecuteBill_tx_bills:
  assumes "ExecuteBill_tx F uid c s = (Inr (u, True), s')" and "books_wf (s :: 'd::linordered_idom db)"
  shows "\<exists>bs. bs \<noteq> [] \<and> set bs \<subseteq> set (unsettled_of uid c s) \<and>
      db_bills s' = upd_where (\<lambda>b. b \<in> set bs) settled (db_bills s) \<and> length (db_accounts s') \<le> length (db_accounts s) + 1"
proof -
  obtain account s1 bills s2 av h s3 a u2 where
      l: "lock_account F uid c s = (Inr account, s1)"
      and g: "GetUnsettledBillsByUserId F uid c s1 = (Inr bills, s2)" and ne: "bills \<noteq> []"
      and st: "settle_bills F bills 0 0 s2 = (Inr (av, h), s3)"
      and up: "UpdateAccount F (a\<lparr>acc_Available := acc_Available a + av, acc_Hold := acc_Hold a + h\<rparr>) s3 = (Inr u2, s')"
    using assms(1) by (auto simp: ExecuteBill_tx_def bindS_Inr split: if_splits option.splits)
  note L = lock_account_length [OF l]
  note q = query_Inr [OF g [unfolded GetUnsettledBillsByUserId_def]]
  have t2: "same_tables s1 s2" and bills: "bills = take 100 (sort_key bil_Id (unsettled_of uid c s))"
    using q L(2) by (simp_all add: unsettled_of_def)
  have b2: "db_bills s2 = db_bills s" "db_accounts s2 = db_accounts s1" using same_tables_simps [OF t2] L(2) by simp_all
  have ids: "distinct (map bil_Id (db_bills s2))" using assms(2) by (simp add: books_wf_def ids_ok_def b2)
  have sub: "set bills \<subseteq> set (unsettled_of uid c s)" unfolding bills by (metis set_sort set_take_subset)
  have "set bills \<subseteq> set (db_bills s2)" using sub by (auto simp: unsettled_of_def b2)
  moreover have "distinct bills"
    using ids unfolding bills by (simp add: unsettled_of_def distinct_take distinct_map b2)
  moreover have "\<not> bil_Settled b" if "b \<in> set bills" for b using sub that by (auto simp: unsettled_of_def)
  ultimately have "db_bills s3 = upd_where (\<lambda>b. b \<in> set bills) settled (db_bills s)"
    using settle_bills_Inr [OF st ids] by (auto dest: same_tables_simps simp: b2)
  moreover have "db_bills s' = db_bills s3" "length (db_accounts s') = length (db_accounts s3)"
    using up by (auto simp: UpdateAccount_def exec_def stmt_Inr upd_where_def)
  moreover have "db_accounts s3 = db_accounts s1" using settle_bills_accounts [OF st] b2 by simp
  ultimately show ?thesis using ne sub L(1) by (intro exI [of _ bills]) simp
qed

lemma settled_count:
  "length (filter (\<lambda>b. \<not> bil_Settled b) (upd_where (\<lambda>b. b \<in> B) settled rows)) \<le> length (filter (\<lambda>b. \<not> bil_Settled b) rows)"
  "b \<in> set rows \<Longrightarrow> b \<in> B \<Longrightarrow> \<not> bil_Settled b \<Longrightarrow>
    length (filter (\<lambda>b. \<not> bil_Settled b) (upd_where (\<lambda>b. b \<in> B) settled rows)) < length (filter (\<lambda>b. \<not> bil_Settled b) rows)"
proof -
  show le: "length (filter (\<lambda>b. \<not> bil_Settled b) (upd_where (\<lambda>b. b \<in> B) settled rows)) \<le> length (filter (\<lambda>b. \<not> bil_Settled b) rows)"
    for rows by (induction rows) (auto simp: upd_where_def settled_def)
  show "b \<in> set rows \<Longrightarrow> b \<in> B \<Longrightarrow> \<not> bil_Settled b \<Longrightarrow>
    length (filter (\<lambda>b. \<not> bil_Settled b) (upd_where (\<lambda>b. b \<in> B) settled rows)) < length (filter (\<lambda>b. \<not> bil_Settled b) rows)"
  proof (induction rows)
    case (Cons r rows)
    then show ?case using le [of rows, unfolded upd_where_def settled_def]
      by (cases "r = b") (auto simp: upd_where_def settled_def)
  qed simp
qed

text \<open>Either the user has no open bill in the currency and nothing changes, or there are fewer open bills.\<close>

lemma ExecuteBill_progress:
  assumes "ExecuteBill F uid c s = (Inr u, s')" and "books_wf (s :: 'd::linordered_idom db)" and "room s 1"
  shows "unsettled_of uid c s = [] \<and> same_tables s s' \<or>
    length (open_bills s') < length (open_bills s) \<and> length (db_accounts s') \<le> length (db_accounts s) + 1 \<and>
    length (db_bills s') = length (db_bills s)"
  using assms(1) unfolding ExecuteBill_def
proof (cases rule: with_tx_Inr)
  case (rolled_back s0 s1)
  have "books_wf s0" "room s0 1"
    using assms(2,3) same_tables_balances(3) [OF rolled_back(1)] same_room [OF rolled_back(1)] by simp_all
  with no_unsettled rolled_back(2) have "unsettled_of uid c s0 = []" by blast
  then show ?thesis using same_unsettled [OF rolled_back(1)] rolled_back(3) by simp
next
  case (commit s0 s1)
  note e = same_tables_simps [OF commit(1)] and e' = same_tables_simps [OF commit(3)]
  have "books_wf s0" using assms(2) same_tables_balances(3) [OF commit(1)] by simp
  then obtain bs where bs: "bs \<noteq> []" "set bs \<subseteq> set (unsettled_of uid c s0)"
      "db_bills s1 = upd_where (\<lambda>b. b \<in> set bs) settled (db_bills s0)" "length (db_accounts s1) \<le> length (db_accounts s0) + 1"
    using ExecuteBill_tx_bills [OF commit(2)] by blast
  obtain b where "b \<in> set bs" using bs(1) by (cases bs) auto
  moreover from this have "b \<in> set (db_bills s0)" "\<not> bil_Settled b" using bs(2) by (auto simp: unsettled_of_def)
  ultimately have "length (filter (\<lambda>b. \<not> bil_Settled b) (db_bills s1)) < length (filter (\<lambda>b. \<not> bil_Settled b) (db_bills s0))"
    unfolding bs(3) by (intro settled_count(2))
  then show ?thesis using bs(3,4) by (simp add: open_bills_def e e' upd_where_def)
qed

text \<open>A database that does not fail settles.\<close>

lemma settle_bills_ok: "\<exists>r s'. settle_bills (\<lambda>_. None) bs av h s = (Inr r, s')"
  by (induction bs arbitrary: av h s) (auto simp: bindS_def UpdateBill_def exec_def stmt_def returnS_def)

lemma lock_account_ok: "\<exists>a s'. lock_account (\<lambda>_. None) uid c s = (Inr (Some a), s')"
proof (cases "find (\<lambda>a. acc_UserId a = uid \<and> acc_Currency a = c) (db_accounts s)")
  case None
  then have "\<not> (\<exists>a\<in>set (db_accounts s). acc_UserId a = uid \<and> acc_Currency a = c)" by (auto simp: find_None_iff)
  moreover have "\<exists>a. find (\<lambda>a. acc_UserId a = uid \<and> acc_Currency a = c) (db_accounts s @ [x]) = Some a"
    if "acc_UserId x = uid" "acc_Currency x = c" for x
    using that None by (auto simp: find_None_iff find_Some_iff2 simp flip: not_None_eq)
  ultimately show ?thesis
    using None by (auto simp: lock_account_def bindS_def GetAccountForUpdate_def query_def stmt_def AddAccount_def returnS_def)
qed (auto simp: lock_account_def bindS_def GetAccountForUpdate_def query_def stmt_def returnS_def)

lemma ExecuteBill_ok: "\<exists>s'. ExecuteBill (\<lambda>_. None) uid c (s :: 'd::linordered_idom db) = (Inr (), s')"
proof -
  obtain s0 :: "'d db" where q: "query (\<lambda>_. None) (\<lambda>_. ()) s = (Inr (), s0)" by (simp add: query_def stmt_def)
  obtain a s1 where l: "lock_account (\<lambda>_. None) uid c s0 = (Inr (Some a), s1)" using lock_account_ok by blast
  obtain bills s2 where g: "GetUnsettledBillsByUserId (\<lambda>_. None) uid c s1 = (Inr bills, s2)"
    by (simp add: GetUnsettledBillsByUserId_def query_def stmt_def)
  show ?thesis
  proof (cases "bills = []")
    case True
    then show ?thesis using q l g by (simp add: ExecuteBill_def with_tx_def ExecuteBill_tx_def bindS_def returnS_def)
  next
    case False
    obtain av h s3 where st: "settle_bills (\<lambda>_. None) bills 0 0 s2 = (Inr (av, h), s3)"
      using settle_bills_ok [of bills 0 0 s2] by auto
    obtain s4 where u: "UpdateAccount (\<lambda>_. None) (a\<lparr>acc_Available := acc_Available a + av, acc_Hold := acc_Hold a + h\<rparr>) s3 = (Inr (), s4)"
      by (simp add: UpdateAccount_def exec_def stmt_def)
    have "ExecuteBill_tx (\<lambda>_. None) uid c s0 = (Inr ((), True), s4)"
      using l g st u False by (simp add: ExecuteBill_tx_def bindS_def returnS_def)
    moreover obtain s5 :: "'d db" where "query (\<lambda>_. None) (\<lambda>_. ()) s4 = (Inr (), s5)" by (simp add: query_def stmt_def)
    ultimately show ?thesis using q by (simp add: ExecuteBill_def with_tx_def)
  qed
qed

text \<open>Every open bill has an id to be settled by, and the accounts that settling adds have ids.\<close>

definition bills_sound :: "'d::linordered_idom db \<Rightarrow> bool" where
  "bills_sound s \<longleftrightarrow> books_wf s \<and> room s (length (open_bills s) + 1)"

definition bill_open :: "'d bill \<Rightarrow> 'd db \<Rightarrow> bool" where
  "bill_open b s \<longleftrightarrow> b \<in> set (open_bills s)"

lemma same_open: "same_tables s s' \<Longrightarrow> open_bills s' = open_bills s"
  by (simp add: open_bills_def same_tables_simps)

lemma bills_sound_same: "same_tables s s' \<Longrightarrow> bills_sound s' = bills_sound s"
  by (simp add: bills_sound_def same_open same_tables_balances(3) same_room)

lemma bill_work_progress:
  assumes "bills_sound (s :: 'd::linordered_idom db)"
  shows "\<exists>c' s'. BillExecutor_work (\<lambda>_. None) b c s = (Inr c', s') \<and> bills_sound s' \<and>
    length (open_bills s') \<le> length (open_bills s) \<and> (bill_open b s \<longrightarrow> length (open_bills s') < length (open_bills s))"
proof -
  obtain s' where s': "ExecuteBill (\<lambda>_. None) (bil_UserId b) (bil_Currency b) s = (Inr (), s')" using ExecuteBill_ok by blast
  have wf: "books_wf s" and r: "room s 1" using assms by (simp_all add: bills_sound_def room_def)
  have wf': "books_wf s'" using ExecuteBill_conserves [where F = "\<lambda>_. None", OF wf r] s' by (metis (no_types, lifting) case_prod_conv sum.case(2))
  have w: "BillExecutor_work (\<lambda>_. None) b c s = (Inr c, s')" by (simp add: BillExecutor_work_def s')
  consider (idle) "unsettled_of (bil_UserId b) (bil_Currency b) s = []" "same_tables s s'"
    | (less) "length (open_bills s') < length (open_bills s)" "length (db_accounts s') \<le> length (db_accounts s) + 1"
        "length (db_bills s') = length (db_bills s)"
    using ExecuteBill_progress [OF s' wf r] by blast
  then show ?thesis
  proof cases
    case idle
    have "\<not> bill_open b s"
      using idle(1) by (auto simp: bill_open_def open_bills_def unsettled_of_def filter_empty_conv)
    then show ?thesis using w idle(2) assms by (auto simp: bills_sound_same same_open)
  next
    case less
    then have "bills_sound s'" using assms wf' by (simp add: bills_sound_def room_def)
    then show ?thesis using w less(1) by auto
  qed
qed

lemma inspect_open:
  "GetUnsettledBills F s = (Inr ts, s') \<Longrightarrow> ts = take 100 (sort_key bil_Id (open_bills s)) \<and> same_tables s s'"
  unfolding GetUnsettledBills_def open_bills_def by (rule query_Inr)

interpretation bill_executor: worker_pool 256 bil_UserId "GetUnsettledBills (\<lambda>_. None)" "BillExecutor_work (\<lambda>_. None)"
  "bills_sound :: 'd::linordered_idom db \<Rightarrow> bool" bill_open "\<lambda>s. length (open_bills s)"
proof
  fix s :: "'d db"
  assume snd: "bills_sound s"
  obtain ts s' where i: "GetUnsettledBills (\<lambda>_. None) s = (Inr ts, s')"
    by (simp add: GetUnsettledBills_def query_def stmt_def)
  note I = inspect_open [OF i]
  have "set ts \<subseteq> set (open_bills s')" using I by (metis same_open set_sort set_take_subset)
  moreover have "length (open_bills s) \<noteq> 0 \<longrightarrow> ts \<noteq> []" using I by auto (metis length_0_conv length_sort)
  ultimately show "\<exists>ts s'. GetUnsettledBills (\<lambda>_. None) s = (Inr ts, s') \<and> bills_sound s' \<and>
      length (open_bills s') = length (open_bills s) \<and> (length (open_bills s) \<noteq> 0 \<longrightarrow> ts \<noteq> []) \<and> (\<forall>t\<in>set ts. bill_open t s')"
    using i I snd by (auto simp: bills_sound_same same_open bill_open_def)
qed (use bill_work_progress in simp_all)

subsection \<open>Properties\<close>

definition bill_reaches :: "faults \<Rightarrow> (('d::linordered_idom bill, 'd db) pool_event \<Rightarrow> ('d bill, unit) pool \<times> 'd db \<Rightarrow> bool) \<Rightarrow>
    ('d bill, unit) pool \<times> 'd db \<Rightarrow> ('d bill, unit) pool \<times> 'd db \<Rightarrow> bool" where
  "bill_reaches F allowed = reaches (bill_step F) allowed"

text \<open>C25. Unsettled bills do not wait for ever: with a database that does not fail, the executor's own
  goroutines have a run, from any state of its channels, after which every bill of every user is
  settled, all channels are empty and the tables are still well formed.\<close>

theorem bill_executor_settles_all:
  assumes "pool_ok bil_UserId p" and "bills_sound (s :: 'd::linordered_idom db)"
  shows "\<exists>p' s'. bill_reaches (\<lambda>_. None) pool_own (p, s) (p', s') \<and> open_bills s' = [] \<and> drained p' \<and> books_wf s'"
proof -
  obtain p' s' where "reaches (bill_step (\<lambda>_. None)) pool_own (p, s) (p', s')" "drained p'" "bills_sound s'"
      "length (open_bills s') = 0"
    using bill_executor.pool_finishes [OF assms] unfolding bill_step_def by blast
  then show ?thesis unfolding bill_reaches_def bills_sound_def by auto
qed

text \<open>The executor at work while statements fail, bills are notified and inspected in any order: a step
  allowed leaves ids for the next account.\<close>

definition bill_room :: "('d::linordered_idom bill, 'd db) pool_event \<Rightarrow> ('d bill, unit) pool \<times> 'd db \<Rightarrow> bool" where
  "bill_room ev ps \<longleftrightarrow> room (snd ps) 1 \<and> (\<forall>s1. ev \<noteq> Elsewhere s1)"

definition same_money :: "'d::linordered_idom db \<Rightarrow> 'd db \<Rightarrow> bool" where
  "same_money s s' \<longleftrightarrow> books_wf s' \<and> (\<forall>P. avail_of P s' = avail_of P s \<and> hold_of P s' = hold_of P s)"

lemma same_money_tables: "same_tables s s' \<Longrightarrow> books_wf s \<Longrightarrow> same_money s (s' :: 'd::linordered_idom db)"
  by (simp add: same_money_def same_tables_balances)

lemma bill_step_money:
  assumes "books_wf s" and "bill_room ev (p, s)" and st: "bill_step F ev (p, s) = Some (Inr (p', s'))"
  shows "same_money s (s' :: 'd::linordered_idom db)"
proof (cases ev)
  case Inspect
  then obtain r where "GetUnsettledBills F s = (r, s')"
    using st by (auto simp: bill_step_def split: if_splits prod.splits sum.splits failure.splits)
  then have "same_tables s s'" unfolding GetUnsettledBills_def by (rule query_same)
  then show ?thesis using assms(1) by (rule same_money_tables)
next
  case (Work i)
  then obtain b ts where b: "pl_chs p ! i = b # ts" using st by (auto simp: bill_step_def split: if_splits list.splits)
  then have "snd (BillExecutor_work F b (pl_local p ! i) s) = s'"
    using st Work by (auto simp: bill_step_def split: if_splits prod.splits sum.splits)
  then obtain r where e: "ExecuteBill F (bil_UserId b) (bil_Currency b) s = (r, s')"
    by (auto simp: BillExecutor_work_def split: prod.splits sum.splits failure.splits)
  have "room s 1" using assms(2) by (simp add: bill_room_def)
  from ExecuteBill_conserves [where F = F and uid = "bil_UserId b" and c = "bil_Currency b", OF assms(1) this] e assms(1)
  show ?thesis by (cases r) (auto simp: same_money_def dest: same_money_tables)
next
  case (Elsewhere s1)
  then show ?thesis using assms(2) by (simp add: bill_room_def)
qed (use st assms(1) in \<open>auto simp: bill_step_def same_money_def split: list.splits option.splits if_splits\<close>)

text \<open>C26. Whatever the executor does and whatever fails, no money appears or disappears: in every reachable
  state, the available and the held amount of every user in every currency, accounts and open bills
  together, is what it was at the start.\<close>

theorem bill_executor_conserves:
  assumes "books_wf s" and "bill_reaches F bill_room (p, s) (p', s')"
  shows "books_wf s' \<and> (\<forall>P. avail_of P s' = avail_of P s \<and> hold_of P s' = hold_of P (s :: 'd::linordered_idom db))"
proof -
  have "machine (bill_step F) bill_room (\<lambda>ps. same_money s (snd ps))"
  proof
    fix ps ev ps' assume "same_money s (snd ps)" "bill_room ev ps" "bill_step F ev ps = Some (Inr ps')"
    then show "same_money s (snd ps')"
      using bill_step_money [of "snd ps" ev "fst ps" F "fst ps'" "snd ps'"] by (auto simp: same_money_def)
  qed
  from machine.reaches_good [OF this assms(2) [unfolded bill_reaches_def]] assms(1)
  show ?thesis by (simp add: same_money_def)
qed

subsection \<open>A database with two open bills\<close>

definition bills_db :: "rat db" where
  "bills_db = \<lparr>db_accounts = [], db_bills =
     [\<lparr>bil_Id = 1, bil_UserId = 7, bil_Currency = ''BTC'', bil_Available = 2, bil_Hold = 0, bil_Type = BillTypeTrade,
       bil_Settled = False, bil_Notes = []\<rparr>,
      \<lparr>bil_Id = 2, bil_UserId = 18, bil_Currency = ''USD'', bil_Available = 1, bil_Hold = -1, bil_Type = BillTypeTrade,
       bil_Settled = False, bil_Notes = []\<rparr>],
     db_orders = (\<lambda>_. []), db_fills = [], db_trades = [], db_ticks = [], db_products = [], db_users = [],
     db_fee_rates = [], db_configs = [], db_stmt = 0\<rparr>"

lemma bills_db_sound: "bills_sound bills_db" "books_wf bills_db" "length (open_bills bills_db) = 2"
  by (simp_all add: bills_sound_def bills_db_def books_wf_def ids_ok_def room_def open_bills_def)

theorem bill_executor_settles_all_witness:
  "\<exists>p' s'. bill_reaches (\<lambda>_. None) pool_own (NewBillExecutor, bills_db) (p', s') \<and> open_bills s' = [] \<and> drained p' \<and>
    books_wf s' \<and> length (open_bills bills_db) = 2"
  using bill_executor_settles_all [OF pool_ok_new bills_db_sound(1)] bills_db_sound(3)
  by (auto simp: NewBillExecutor_def)

text \<open>The second statement of the run fails, the inspector tries again, and a worker settles the bill.\<close>

definition bill_faults :: faults where
  "bill_faults n = (if n = 1 then Some ''connection lost'' else None)"

definition bill_run :: "(rat bill, rat db) pool_event list" where
  "bill_run = [Inspect, SendFound, Work 7, SendFound, Work 8, Inspect, SendFound, Work 7]"

fun small_bill_run :: "(rat bill, rat db) pool_event \<Rightarrow> (rat bill, unit) pool \<times> rat db \<Rightarrow> bool" where
  "small_bill_run (Elsewhere s1) ps = False"
| "small_bill_run ev (p, s) = (length (db_accounts s) < 10 \<and> length (db_bills s) < 10)"

lemma small_bill_run_room: "small_bill_run ev ps \<Longrightarrow> bill_room ev ps"
  by (cases ps; cases ev) (auto simp: bill_room_def room_def)

theorem bill_executor_conserves_witness:
  "\<exists>ps. bill_reaches bill_faults bill_room (NewBillExecutor, bills_db) ps \<and> length (open_bills (snd ps)) = 0 \<and>
    avail_of (\<lambda>k. k = (7, ''BTC'')) (snd ps) = 2 \<and> hold_of (\<lambda>k. k = (18, ''USD'')) (snd ps) = -1"
proof -
  have "case run_machine (bill_step bill_faults) bill_run (NewBillExecutor, bills_db) of
      Some (Inr ps) \<Rightarrow> length (open_bills (snd ps)) = 0 | _ \<Rightarrow> False" by code_simp
  then obtain ps where run: "run_machine (bill_step bill_faults) bill_run (NewBillExecutor, bills_db) = Some (Inr ps)"
      and ps: "length (open_bills (snd ps)) = 0" by (auto split: option.splits sum.splits)
  have "allowed_run (bill_step bill_faults) small_bill_run bill_run (NewBillExecutor, bills_db)" by code_simp
  with run have "reaches (bill_step bill_faults) small_bill_run (NewBillExecutor, bills_db) ps"
    by (rule run_machine_reaches)
  then have r: "bill_reaches bill_faults bill_room (NewBillExecutor, bills_db) ps"
    unfolding bill_reaches_def by (rule reaches_mono) (rule small_bill_run_room)
  have "avail_of (\<lambda>k. k = (7, ''BTC'')) bills_db = 2" "hold_of (\<lambda>k. k = (18, ''USD'')) bills_db = -1"
    by (simp_all add: avail_of_def hold_of_def bills_db_def)
  moreover have "\<forall>P. avail_of P (snd ps) = avail_of P bills_db \<and> hold_of P (snd ps) = hold_of P bills_db"
    using bill_executor_conserves [OF bills_db_sound(2), of bill_faults NewBillExecutor "fst ps" "snd ps"] r by simp
  ultimately show ?thesis using r ps by (intro exI [of _ ps] conjI) simp_all
qed

end
