(* ===== verification/Fill_Executor.thy ===== *)
theory Fill_Executor
  imports Settlement Worker_Pool
begin

text \<open>
  The fill executor (\<open>worker/fill_executor.go\<close>): workers that settle the orders of the fills they are
  given. Each keeps an LRU cache of orders it has found to be final and skips their fills. The cache is
  the \<open>hashicorp/golang-lru\<close> package, a parameter.
\<close>

subsection \<open>The cache\<close>

record 'c lru =
  lru_new :: "nat \<Rightarrow> 'c"
  lru_contains :: "'c \<Rightarrow> u64 \<Rightarrow> bool"
  lru_add :: "'c \<Rightarrow> u64 \<Rightarrow> 'c"

text \<open>A cache may forget, but it has only what was added.\<close>

definition lru_laws :: "'c lru \<Rightarrow> bool" where
  "lru_laws L \<longleftrightarrow> (\<forall>n k. \<not> lru_contains L (lru_new L n) k) \<and>
     (\<forall>c k k'. lru_contains L (lru_add L c k) k' \<longrightarrow> k' = k \<or> lru_contains L c k')"

text \<open>A cache of one key.\<close>

definition one_key_lru :: "u64 option lru" where
  "one_key_lru = \<lparr>lru_new = (\<lambda>_. None), lru_contains = (\<lambda>c k. c = Some k), lru_add = (\<lambda>c k. Some k)\<rparr>"

lemma one_key_lru_laws: "lru_laws one_key_lru"
  by (simp add: lru_laws_def one_key_lru_def)

subsection \<open>The operations\<close>

text \<open>\<open>GetOrderById\<close> returns a pointer to a zero order with its error, so a failing read is logged and the
  fills are executed all the same.\<close>

definition FillExecutor_execute :: "faults \<Rightarrow> 'd::linordered_idom fill \<Rightarrow> 'c \<Rightarrow> 'd db \<Rightarrow> 'c res \<times> 'd db" where
  "FillExecutor_execute F fill cache s = (case ExecuteFill F (fil_OrderId fill) s of
       (Inl (Crash f), s1) \<Rightarrow> (Inl f, s1)
     | (_, s1) \<Rightarrow> (Inr cache, s1))"

definition FillExecutor_work :: "'c lru \<Rightarrow> faults \<Rightarrow> 'd::linordered_idom fill \<Rightarrow> 'c \<Rightarrow> 'd db \<Rightarrow> 'c res \<times> 'd db" where
  "FillExecutor_work L F fill cache s =
     (if lru_contains L cache (fil_OrderId fill) then (Inr cache, s)
      else case GetOrderById F (fil_OrderId fill) s of
        (Inl (Crash f), s1) \<Rightarrow> (Inl f, s1)
      | (Inl (Err e), s1) \<Rightarrow> FillExecutor_execute F fill cache s1
      | (Inr None, s1) \<Rightarrow> (Inr cache, s1)
      | (Inr (Some order), s1) \<Rightarrow>
          if final_status (ord_Status order) then (Inr (lru_add L cache (ord_Id order)), s1)
          else FillExecutor_execute F fill cache s1)"

definition fillexec_step :: "'c lru \<Rightarrow> faults \<Rightarrow> ('d::linordered_idom fill, 'd db) pool_event \<Rightarrow> ('d fill, 'c) pool \<times> 'd db \<Rightarrow>
    (('d fill, 'c) pool \<times> 'd db) res option" where
  "fillexec_step L F = pool_step 512 fil_OrderId (GetUnsettledFills F 1000) (FillExecutor_work L F)"

definition NewFillExecutor :: "'c lru \<Rightarrow> ('d fill, 'c) pool" where
  "NewFillExecutor L = new_pool (lru_new L 1000)"

subsection \<open>Settling leaves other orders alone\<close>

definition keeps_orders :: "('d, 'a) dbop \<Rightarrow> bool" where
  "keeps_orders m \<longleftrightarrow> (\<forall>s r s'. m s = (r, s') \<longrightarrow> db_orders s' = db_orders s)"

lemma keeps_ordersD: "keeps_orders m \<Longrightarrow> m s = (r, s') \<Longrightarrow> db_orders s' = db_orders s"
  by (simp add: keeps_orders_def)

lemma keeps_bind: "keeps_orders m \<Longrightarrow> (\<And>x. keeps_orders (f x)) \<Longrightarrow> keeps_orders (bindS m f)"
  unfolding keeps_orders_def bindS_def by (auto split: prod.splits sum.splits)

lemma keeps_basic:
  "keeps_orders (returnS x)" "keeps_orders (failS e)" "keeps_orders (liftS r)" "keeps_orders (query F g)"
  "keeps_orders (AddDelayBill F uid c av h ty notes)" "keeps_orders (UpdateFill F fill)"
  by (auto simp: keeps_orders_def returnS_def failS_def liftS_def query_def stmt_def AddDelayBill_def AddBills_def exec_def
      UpdateFill_def Let_def split: option.splits sum.splits)

lemma keeps_update_fills: "keeps_orders (update_fills F fs)"
  by (induction fs) (auto intro!: keeps_bind keeps_basic)

lemma settle_trade_keeps:
  "keeps_orders (settle_trade F product order fill)"
  "settle_trade F product order fill s = (Inr (order', fill'), s') \<Longrightarrow> ord_Id order' = ord_Id order"
  unfolding settle_trade_def Let_def
  by (auto intro!: keeps_bind keeps_basic simp: bindS_Inr split: if_splits)

lemma close_order_keeps:
  "keeps_orders (close_order F product order fill)"
  "close_order F product order fill s = (Inr order', s') \<Longrightarrow> ord_Id order' = ord_Id order"
  unfolding close_order_def Let_def
  by (auto intro!: keeps_bind keeps_basic) (auto simp: bindS_Inr split: if_splits)

lemma execute_fills_keeps:
  "execute_fills F product order fs s = (Inr (order', fs'), s') \<Longrightarrow> db_orders s' = db_orders s \<and> ord_Id order' = ord_Id order"
proof (induction fs arbitrary: order order' fs' s)
  case (Cons f fs)
  show ?case
  proof (cases "fil_Done f")
    case True
    then show ?thesis using Cons.prems close_order_keeps(2) keeps_ordersD [OF close_order_keeps(1)]
      by (fastforce simp: bindS_Inr)
  next
    case False
    then obtain o1 f1 s1 fs1 where "settle_trade F product order f s = (Inr (o1, f1), s1)"
        "execute_fills F product o1 fs s1 = (Inr (order', fs1), s')"
      using Cons.prems by (auto simp: bindS_Inr)
    then show ?thesis using Cons.IH settle_trade_keeps(2) keeps_ordersD [OF settle_trade_keeps(1)] by metis
  qed
qed simp

definition final_order :: "'d db \<Rightarrow> u64 \<Rightarrow> bool" where
  "final_order s i \<longleftrightarrow> (\<exists>order. the_order s i = Some order \<and> final_status (ord_Status order))"

lemma final_order_cong: "db_orders s' = db_orders s \<Longrightarrow> final_order s' i = final_order s i"
  by (simp add: final_order_def the_order_def)

lemma find_upd_other:
  "ord_Id order \<noteq> i \<Longrightarrow> find (\<lambda>r. ord_Id r = i) (upd_where (\<lambda>r. ord_Id r = ord_Id order) (\<lambda>_. order) rows) =
    find (\<lambda>r. ord_Id r = i) rows"
  by (induction rows) (auto simp: upd_where_def)

text \<open>An order that is final stays as it is, whatever order is settled.\<close>

lemma ExecuteFill_keeps_final:
  assumes "ExecuteFill F oid s = (r, s')" and fin: "final_order s i"
  shows "final_order s' i"
proof (cases r)
  case (Inl e)
  then have "same_tables s s'" using assms(1) with_tx_Inl by (fastforce simp: ExecuteFill_def)
  then show ?thesis using fin final_order_cong same_tables_simps(3) by metis
next
  case (Inr u)
  with assms(1) have "with_tx F (ExecuteFill_tx F oid) s = (Inr u, s')" by (simp add: ExecuteFill_def)
  then show ?thesis
  proof (cases rule: with_tx_Inr)
    case (rolled_back s0 s1)
    then show ?thesis using fin final_order_cong same_tables_simps(3) by metis
  next
    case (commit s0 s1)
    obtain order s2 where o: "GetOrderByIdForUpdate F oid s0 = (Inr (Some order), s2)"
        and nf: "\<not> final_status (ord_Status order)"
        and rest: "bindS (GetProductById F (ord_ProductId order)) (\<lambda>p.
         case p of None \<Rightarrow> failS (Err ''product not found'')
         | Some product \<Rightarrow> bindS (GetUnsettledFillsByOrderId F oid) (\<lambda>fills.
           if fills = [] then returnS ((), False)
           else bindS (execute_fills F product order fills) (\<lambda>(order', fills').
             bindS (UpdateOrder F order') (\<lambda>_.
             bindS (update_fills F fills') (\<lambda>_. returnS ((), True)))))) s2 = (Inr (u, True), s1)"
      using commit(2) unfolding ExecuteFill_tx_def bind_found_Inr if_fail_Inr by blast
    obtain product s3 where p: "GetProductById F (ord_ProductId order) s2 = (Inr (Some product), s3)"
        and rest': "bindS (GetUnsettledFillsByOrderId F oid) (\<lambda>fills.
           if fills = [] then returnS ((), False)
           else bindS (execute_fills F product order fills) (\<lambda>(order', fills').
             bindS (UpdateOrder F order') (\<lambda>_.
             bindS (update_fills F fills') (\<lambda>_. returnS ((), True))))) s3 = (Inr (u, True), s1)"
      using rest unfolding bind_found_Inr by blast
    obtain fills s4 order' fills' s5 s6 u1 u2 where
        g: "GetUnsettledFillsByOrderId F oid s3 = (Inr fills, s4)"
        and ex: "execute_fills F product order fills s4 = (Inr (order', fills'), s5)"
        and up: "UpdateOrder F order' s5 = (Inr u1, s6)" and uf: "update_fills F fills' s6 = (Inr u2, s1)"
      using rest' by (auto simp: bindS_Inr split: if_splits)
    have oq: "the_order s0 oid = Some order" "db_orders s2 = db_orders s0"
      using query_Inr [OF o [unfolded GetOrderByIdForUpdate_def]] by (simp_all add: the_order_def same_tables_simps)
    have id: "ord_Id order' = oid" using execute_fills_keeps [OF ex] the_order_mem [OF oq(1)] by simp
    have "db_orders s3 = db_orders s2" "db_orders s4 = db_orders s3"
      using keeps_ordersD keeps_basic(4) p g unfolding GetProductById_def GetUnsettledFillsByOrderId_def by blast+
    then have o5: "db_orders s5 = db_orders s" using execute_fills_keeps [OF ex] oq(2) same_tables_simps(3) [OF commit(1)] by simp
    have "i \<noteq> oid"
    proof
      assume "i = oid"
      then show False using fin oq(1) nf same_tables_simps(3) [OF commit(1)] by (auto simp: final_order_def the_order_def)
    qed
    then have "the_order s6 i = the_order s5 i"
      using up id by (auto simp: UpdateOrder_def exec_def stmt_Inr Let_def the_order_def find_upd_other)
    moreover have "db_orders s' = db_orders s6"
      using same_tables_simps(3) [OF commit(3)] keeps_ordersD [OF keeps_update_fills uf] by simp
    ultimately show ?thesis using fin o5 by (simp add: final_order_def the_order_def)
  qed
qed

text \<open>On a final order settling does nothing.\<close>

lemma ExecuteFill_final:
  assumes "final_order s i"
  shows "\<exists>e s'. ExecuteFill F i s = (Inl e, s') \<and> same_tables s s'"
proof (cases "ExecuteFill F i s")
  case (Pair r s')
  show ?thesis
  proof (cases r)
    case (Inl e)
    then show ?thesis using Pair with_tx_Inl by (fastforce simp: ExecuteFill_def)
  next
    case (Inr u)
    have no: False if tx: "ExecuteFill_tx F i s0 = (Inr x, s1)" and same: "same_tables s s0" for s0 x s1
    proof -
      obtain order s2 where o: "GetOrderByIdForUpdate F i s0 = (Inr (Some order), s2)" and "\<not> final_status (ord_Status order)"
        using tx [unfolded ExecuteFill_tx_def bind_found_Inr if_fail_Inr] by blast
      then show False
        using query_Inr [OF o [unfolded GetOrderByIdForUpdate_def]] assms same
        by (auto simp: final_order_def the_order_def same_tables_simps)
    qed
    from Pair Inr have "with_tx F (ExecuteFill_tx F i) s = (Inr u, s')" by (simp add: ExecuteFill_def)
    then show ?thesis using no by (cases rule: with_tx_Inr) blast+
  qed
qed

subsection \<open>The executor at work\<close>

text \<open>Other processes may do what they like, as long as final orders stay final (the column \<open>settled\<close> aside,
  nothing in the repository changes an order after that).\<close>

definition fillexec_allowed :: "('d::linordered_idom fill, 'd db) pool_event \<Rightarrow> ('d fill, 'c) pool \<times> 'd db \<Rightarrow> bool" where
  "fillexec_allowed ev ps \<longleftrightarrow> (\<forall>s1. ev = Elsewhere s1 \<longrightarrow> (\<forall>i. final_order (snd ps) i \<longrightarrow> final_order s1 i))"

definition fillexec_reaches :: "'c lru \<Rightarrow> faults \<Rightarrow> ('d::linordered_idom fill, 'c) pool \<times> 'd db \<Rightarrow>
    ('d fill, 'c) pool \<times> 'd db \<Rightarrow> bool" where
  "fillexec_reaches L F = reaches (fillexec_step L F) fillexec_allowed"

text \<open>Every worker's cache has final orders only, and its channel has its own orders only.\<close>

definition caches_final :: "'c lru \<Rightarrow> ('d fill, 'c) pool \<times> 'd db \<Rightarrow> bool" where
  "caches_final L ps \<longleftrightarrow> pool_ok fil_OrderId (fst ps) \<and>
     (\<forall>j<workerNum. \<forall>i. lru_contains L (pl_local (fst ps) ! j) i \<longrightarrow> final_order (snd ps) i)"

lemma same_final: "same_tables s s' \<Longrightarrow> final_order s' i = final_order s i"
  by (rule final_order_cong) (simp add: same_tables_simps)

text \<open>One fill.\<close>

lemma execute_final:
  "FillExecutor_execute F fill c s = (r, s') \<Longrightarrow> (r = Inr c \<or> (\<exists>f. r = Inl f)) \<and> (final_order s i \<longrightarrow> final_order s' i)"
  using ExecuteFill_keeps_final [of F "fil_OrderId fill" s]
  by (auto simp: FillExecutor_execute_def split: prod.splits sum.splits failure.splits)

lemma work_final:
  assumes "lru_laws L" and w: "FillExecutor_work L F fill c s = (Inr c', s')"
    and cache: "\<forall>i. lru_contains L c i \<longrightarrow> final_order s i"
  shows "(\<forall>i. final_order s i \<longrightarrow> final_order s' i) \<and> (\<forall>i. lru_contains L c' i \<longrightarrow> final_order s' i)"
proof (cases "lru_contains L c (fil_OrderId fill)")
  case True
  then show ?thesis using w cache by (simp add: FillExecutor_work_def)
next
  case False
  obtain r s1 where g: "GetOrderById F (fil_OrderId fill) s = (r, s1)" by (cases "GetOrderById F (fil_OrderId fill) s")
  have t: "same_tables s s1" using g unfolding GetOrderById_def by (rule query_same)
  consider (exec) "FillExecutor_execute F fill c s1 = (Inr c', s')"
    | (skip) "c' = c" "s' = s1"
    | (final) order where "r = Inr (Some order)" "final_status (ord_Status order)" "c' = lru_add L c (ord_Id order)" "s' = s1"
  proof (cases r)
    case (Inl e)
    then show ?thesis using w False g exec by (cases e) (simp_all add: FillExecutor_work_def)
  next
    case (Inr found)
    show ?thesis
    proof (cases found)
      case None
      then show ?thesis using w False g skip Inr by (simp add: FillExecutor_work_def)
    next
      case (Some order)
      show ?thesis
      proof (cases "final_status (ord_Status order)")
        case True
        then show ?thesis using w False g Inr Some by (intro final [of order]) (simp_all add: FillExecutor_work_def)
      next
        case not_final: False
        then show ?thesis using w False g exec Inr Some by (simp add: FillExecutor_work_def)
      qed
    qed
  qed
  then show ?thesis
  proof cases
    case exec
    then have "c' = c" "\<forall>i. final_order s1 i \<longrightarrow> final_order s' i" using execute_final [OF exec] by auto
    then show ?thesis using cache same_final [OF t] by auto
  next
    case skip
    then show ?thesis using cache same_final [OF t] by auto
  next
    case final
    have "the_order s (fil_OrderId fill) = Some order"
      using g final(1) query_Inr unfolding GetOrderById_def by (fastforce simp: the_order_def)
    then have "ord_Id order = fil_OrderId fill" "final_order s (fil_OrderId fill)"
      using the_order_mem final(2) by (auto simp: final_order_def)
    moreover have "i = ord_Id order \<or> lru_contains L c i" if "lru_contains L c' i" for i
      using assms(1) that unfolding lru_laws_def final(3) by blast
    ultimately show ?thesis using cache final(4) same_final [OF t] by metis
  qed
qed

lemma step_caches_final:
  assumes L: "lru_laws L" and inv: "caches_final L (p, s)" and a: "fillexec_allowed ev (p, s)"
    and st: "fillexec_step L F ev (p, s) = Some (Inr (p', s'))"
  shows "caches_final L (p', s')"
proof -
  have ok: "pool_ok fil_OrderId p'" using pool_step_ok [OF st [unfolded fillexec_step_def]] inv by (simp add: caches_final_def)
  have c: "\<forall>j<workerNum. \<forall>i. lru_contains L (pl_local p ! j) i \<longrightarrow> final_order s i" using inv by (simp add: caches_final_def)
  have "\<forall>j<workerNum. \<forall>i. lru_contains L (pl_local p' ! j) i \<longrightarrow> final_order s' i"
  proof (cases ev)
    case Inspect
    then obtain r where "GetUnsettledFills F 1000 s = (r, s')" "pl_local p' = pl_local p"
      using st by (auto simp: fillexec_step_def split: if_splits prod.splits sum.splits failure.splits)
    moreover from this have "same_tables s s'" unfolding GetUnsettledFills_def by (intro query_same)
    ultimately show ?thesis using c same_final by metis
  next
    case (Work k)
    then obtain t ts where k: "k < workerNum" "pl_chs p ! k = t # ts"
      using st by (auto simp: fillexec_step_def split: if_splits list.splits)
    then obtain c' where w: "FillExecutor_work L F t (pl_local p ! k) s = (Inr c', s')" "pl_local p' = (pl_local p)[k := c']"
      using st Work by (auto simp: fillexec_step_def split: prod.splits sum.splits)
    have "\<forall>i. lru_contains L (pl_local p ! k) i \<longrightarrow> final_order s i" using c k(1) by blast
    note W = work_final [OF L w(1) this]
    have len: "length (pl_local p) = workerNum" using inv by (simp add: caches_final_def pool_ok_def)
    show ?thesis
    proof (intro allI impI)
      fix j i assume "j < workerNum" "lru_contains L (pl_local p' ! j) i"
      then show "final_order s' i" using W c len by (cases "j = k") (auto simp: w(2))
    qed
  next
    case (Elsewhere s1)
    then show ?thesis using st a c by (auto simp: fillexec_step_def fillexec_allowed_def)
  qed (use st c in \<open>auto simp: fillexec_step_def dispatch_def Let_def split: list.splits option.splits if_splits\<close>)
  with ok show ?thesis by (simp add: caches_final_def)
qed

text \<open>C27. The cache never holds back a fill that could be settled: in every reachable state, with any
  statements failing and any other process at work, the fills of an order come to one worker only, an
  order in a worker's cache is final, and settling it would return an error and change nothing.\<close>

theorem fill_executor_skips_settled:
  assumes "lru_laws L" and "fillexec_reaches L F (NewFillExecutor L, s0) (p, s)"
    and "j < workerNum" and "lru_contains L (pl_local p ! j) i"
  shows "pool_ok fil_OrderId p \<and> final_order s i \<and>
    (\<exists>e s'. ExecuteFill F i (s :: 'd::linordered_idom db) = (Inl e, s') \<and> same_tables s s')"
proof -
  have "machine (fillexec_step L F) fillexec_allowed (caches_final L)"
  proof
    fix ps ev ps' assume "caches_final L ps" "fillexec_allowed ev ps" "fillexec_step L F ev ps = Some (Inr ps')"
    then show "caches_final L ps'" using step_caches_final [OF assms(1)] by (metis prod.collapse)
  qed
  note reach = machine.reaches_good [OF this assms(2) [unfolded fillexec_reaches_def]]
  have "\<not> lru_contains L (lru_new L 1000) k" for k using assms(1) unfolding lru_laws_def by blast
  then have "caches_final L (NewFillExecutor L, s0)"
    by (simp add: caches_final_def NewFillExecutor_def pool_ok_new) (simp add: new_pool_def)
  then have c: "caches_final L (p, s)" by (rule reach)
  then have fin: "final_order s i" using assms(3,4) unfolding caches_final_def by simp
  from c have "pool_ok fil_OrderId p" unfolding caches_final_def by simp
  with fin ExecuteFill_final [OF fin, of F] show ?thesis by simp
qed

text \<open>A fill of an order that is filled already.\<close>

definition late_fill_db :: "rat db" where
  "late_fill_db = \<lparr>db_accounts = [], db_bills = [], db_orders = (\<lambda>i. if i = 0 then
       [\<lparr>ord_Id = 5, ord_ProductId = ''P'', ord_UserId = 128, ord_ClientOid = [], ord_Size = 1, ord_Funds = 1,
         ord_FilledSize = 1, ord_ExecutedValue = 1, ord_Price = 1, ord_FillFees = 0, ord_Type = OrderTypeLimit,
         ord_Side = SideBuy, ord_TimeInForce = GoodTillCanceled, ord_TakerFeeRatio = 0, ord_MakerFeeRatio = 0,
         ord_Status = OrderStatusFilled, ord_Settled = False\<rparr>] else []),
     db_fills = [\<lparr>fil_Id = 1, fil_TradeSeq = 0, fil_OrderId = 5, fil_MessageSeq = 9, fil_ProductId = ''P'', fil_Size = 0,
         fil_Price = 0, fil_Funds = 0, fil_Fee = 0, fil_Liquidity = [], fil_Settled = False, fil_Side = [],
         fil_Done = True, fil_DoneReason = DoneReasonCancelled, fil_LogOffset = 9, fil_LogSeq = 9\<rparr>],
     db_trades = [], db_ticks = [], db_products = [], db_users = [], db_fee_rates = [], db_configs = [], db_stmt = 0\<rparr>"

definition late_fill_run :: "(rat fill, rat db) pool_event list" where
  "late_fill_run = [Inspect, SendFound, Work 5]"

theorem fill_executor_skips_settled_witness:
  "\<exists>p s e s'. fillexec_reaches one_key_lru (\<lambda>_. None) (NewFillExecutor one_key_lru, late_fill_db) (p, s) \<and>
    lru_contains one_key_lru (pl_local p ! 5) 5 \<and> ExecuteFill (\<lambda>_. None) 5 s = (Inl e, s') \<and> same_tables s s'"
proof -
  have "case run_machine (fillexec_step one_key_lru (\<lambda>_. None)) late_fill_run (NewFillExecutor one_key_lru, late_fill_db) of
      Some (Inr ps) \<Rightarrow> lru_contains one_key_lru (pl_local (fst ps) ! 5) 5 | _ \<Rightarrow> False" by code_simp
  then obtain p s where
      run: "run_machine (fillexec_step one_key_lru (\<lambda>_. None)) late_fill_run (NewFillExecutor one_key_lru, late_fill_db) = Some (Inr (p, s))"
      and c: "lru_contains one_key_lru (pl_local p ! 5) 5" by (auto split: option.splits sum.splits)
  have "allowed_run (fillexec_step one_key_lru (\<lambda>_. None)) fillexec_allowed late_fill_run (NewFillExecutor one_key_lru, late_fill_db)"
    by (rule allowed_runI) (auto simp: late_fill_run_def fillexec_allowed_def)
  with run have r: "fillexec_reaches one_key_lru (\<lambda>_. None) (NewFillExecutor one_key_lru, late_fill_db) (p, s)"
    unfolding fillexec_reaches_def by (rule run_machine_reaches)
  have "5 < workerNum" by (simp add: workerNum_def)
  from fill_executor_skips_settled [OF one_key_lru_laws r this c] obtain e s' where
    "ExecuteFill (\<lambda>_. None) 5 s = (Inl e, s')" "same_tables s s'" by blast
  with r c show ?thesis by (intro exI conjI)
qed

end
