(* ===== verification/Services.thy ===== *)
theory Services
  imports Orders Settlement
begin

text \<open>
  The rest of the package \<open>service\<close>: the functions that only call the store, and the user service
  (\<open>service/user_service.go\<close>). Password hashing (\<open>x/crypto/bcrypt\<close>) and tokens (\<open>golang-jwt\<close>) are packages,
  parameters here.
\<close>

subsection \<open>Reads and writes that pass through\<close>

definition service_GetAccount :: "faults \<Rightarrow> u64 \<Rightarrow> string \<Rightarrow> ('d, 'd account option) dbop" where
  "service_GetAccount F userId currency = GetAccount F userId currency"

definition service_GetAccountsByUserId :: "faults \<Rightarrow> u64 \<Rightarrow> ('d, 'd account list) dbop" where
  "service_GetAccountsByUserId F userId = GetAccountsByUserId F userId"

definition service_GetUnsettledBills :: "faults \<Rightarrow> ('d, 'd bill list) dbop" where
  "service_GetUnsettledBills F = GetUnsettledBills F"

definition service_GetOrderById :: "faults \<Rightarrow> u64 \<Rightarrow> ('d, 'd order option) dbop" where
  "service_GetOrderById F orderId = GetOrderById F orderId"

definition service_GetOrderByClientOid :: "faults \<Rightarrow> u64 \<Rightarrow> string \<Rightarrow> ('d, 'd order option) dbop" where
  "service_GetOrderByClientOid F userId clientOid = GetOrderByClientOid F userId clientOid"

definition service_GetOrdersByUserId :: "faults \<Rightarrow> u64 \<Rightarrow> order_status list \<Rightarrow> side option \<Rightarrow> string \<Rightarrow>
    int \<Rightarrow> int \<Rightarrow> int \<Rightarrow> ('d, 'd order list) dbop" where
  "service_GetOrdersByUserId F userId statuses s productId beforeId afterId lmt =
     GetOrdersByUserId F userId statuses s productId beforeId afterId lmt"

definition service_UpdateOrderStatus :: "faults \<Rightarrow> u64 \<Rightarrow> order_status \<Rightarrow> order_status \<Rightarrow> ('d, bool) dbop" where
  "service_UpdateOrderStatus F orderId oldStatus newStatus = UpdateOrderStatus F orderId oldStatus newStatus"

definition service_GetProductById :: "faults \<Rightarrow> string \<Rightarrow> ('d, 'd product option) dbop" where
  "service_GetProductById F i = GetProductById F i"

definition service_GetProducts :: "faults \<Rightarrow> ('d, 'd product list) dbop" where
  "service_GetProducts F = GetProducts F"

definition service_GetConfigs :: "faults \<Rightarrow> ('d, config list) dbop" where
  "service_GetConfigs F = GetConfigs F"

definition service_GetFeeRateByUserLevel :: "faults \<Rightarrow> string \<Rightarrow> ('d, 'd fee_rate option) dbop" where
  "service_GetFeeRateByUserLevel F userLevel = GetFeeRateByUserLevel F userLevel"

definition service_GetUnsettledFills :: "faults \<Rightarrow> int \<Rightarrow> ('d, 'd fill list) dbop" where
  "service_GetUnsettledFills F count = GetUnsettledFills F count"

definition service_AddFills :: "faults \<Rightarrow> 'd fill list \<Rightarrow> ('d, unit) dbop" where
  "service_AddFills F fills = (if fills = [] then returnS () else AddFills F fills)"

definition service_GetTradesByProductId :: "faults \<Rightarrow> string \<Rightarrow> int \<Rightarrow> ('d, 'd trade list) dbop" where
  "service_GetTradesByProductId F productId count = GetTradesByProductId F productId count"

definition service_AddTrades :: "faults \<Rightarrow> 'd trade list \<Rightarrow> ('d, unit) dbop" where
  "service_AddTrades F trades = (if trades = [] then returnS () else AddTrades F trades)"

definition service_GetLastTickByProductId :: "faults \<Rightarrow> string \<Rightarrow> int \<Rightarrow> ('d, 'd tick option) dbop" where
  "service_GetLastTickByProductId F productId granularity = GetLastTickByProductId F productId granularity"

definition service_GetTicksByProductId :: "faults \<Rightarrow> string \<Rightarrow> int \<Rightarrow> int \<Rightarrow> int \<Rightarrow> int \<Rightarrow> ('d, 'd tick list) dbop" where
  "service_GetTicksByProductId F productId granularity beforeTime afterTime lmt =
     GetTicksByProductId F productId granularity beforeTime afterTime lmt"

definition service_GetLastTicksAllByProductId :: "faults \<Rightarrow> string \<Rightarrow> ('d, 'd tick list) dbop" where
  "service_GetLastTicksAllByProductId F productId = GetLastTicksAllByProductId F productId"

definition service_AddTicks :: "faults \<Rightarrow> 'd tick option list \<Rightarrow> ('d, unit) dbop" where
  "service_AddTicks F ticks = (if ticks = [] then returnS () else AddTicks F ticks)"

definition service_AddOrUpdateTick :: "faults \<Rightarrow> 'd tick option \<Rightarrow> ('d, unit) dbop" where
  "service_AddOrUpdateTick F tick = (case tick of None \<Rightarrow> returnS () | Some t \<Rightarrow> AddOrUpdateTick F (Some t))"

definition service_GetUserByEmail :: "faults \<Rightarrow> string \<Rightarrow> ('d, user option) dbop" where
  "service_GetUserByEmail F email = GetUserByEmail F email"

definition service_GetUserById :: "faults \<Rightarrow> u64 \<Rightarrow> ('d, user option) dbop" where
  "service_GetUserById F i = GetUserById F i"

text \<open>The checks for empty slices are made twice, here and in the store.\<close>

lemma service_adds:
  "service_AddFills F fills = AddFills F fills" "service_AddTrades F trades = AddTrades F trades"
  "service_AddTicks F ticks = AddTicks F ticks" "service_AddOrUpdateTick F tick = AddOrUpdateTick F tick"
  by (auto simp: service_AddFills_def AddFills_def service_AddTrades_def AddTrades_def service_AddTicks_def AddTicks_def
      service_AddOrUpdateTick_def AddOrUpdateTick_def split: option.splits)

subsection \<open>Passwords and tokens\<close>

text \<open>
  \<open>bcrypt\<close>: a hash from a salt and a password (\<open>None\<close> is its error, for a password of more than 72 bytes),
  and the comparison. \<open>jwt\<close>: signing the claims \<open>userId\<close> and \<open>exp\<close>, and parsing a token at a time;
  a claim is a number or something else.
\<close>

datatype claim = Number u64 | Other string

record 'salt auth_pkg =
  generate_password :: "'salt \<Rightarrow> string \<Rightarrow> string option"
  compare_password :: "string \<Rightarrow> string \<Rightarrow> bool"
  jwt_sign :: "string \<Rightarrow> u64 \<Rightarrow> int \<Rightarrow> string + string"
  jwt_parse :: "int \<Rightarrow> string \<Rightarrow> string \<Rightarrow> string + bool \<times> (string \<rightharpoonup> claim)"

text \<open>A password matches its own hash. A signed token is valid until it expires and carries its claims; a
  number passes through a \<open>float64\<close>, which keeps integers up to \<open>2 ^ 53\<close>.\<close>

definition auth_laws :: "'salt auth_pkg \<Rightarrow> bool" where
  "auth_laws A \<longleftrightarrow>
     (\<forall>salt p h. generate_password A salt p = Some h \<longrightarrow> compare_password A h p) \<and>
     (\<forall>secret uid expiry token now. jwt_sign A secret uid expiry = Inr token \<longrightarrow> now < expiry \<longrightarrow> uid \<le> 2 ^ 53 \<longrightarrow>
        (\<exists>claims. jwt_parse A now secret token = Inr (True, claims) \<and> claims ''userId'' = Some (Number uid)))"

definition hashPassword :: "'salt auth_pkg \<Rightarrow> 'salt \<Rightarrow> string \<Rightarrow> failure + string" where
  "hashPassword A salt password = (case generate_password A salt password of
       None \<Rightarrow> Inl (Crash (Panic ''bcrypt: password length exceeds 72 bytes''))
     | Some h \<Rightarrow> Inr h)"

definition checkPassword :: "'salt auth_pkg \<Rightarrow> string \<Rightarrow> string \<Rightarrow> bool" where
  "checkPassword A password hash = compare_password A hash password"

definition CreateUser :: "faults \<Rightarrow> 'salt auth_pkg \<Rightarrow> 'salt \<Rightarrow> string \<Rightarrow> string \<Rightarrow> ('d, user) dbop" where
  "CreateUser F A salt email password =
     (if length password < 6 then failS (Err ''password must be of minimum 6 characters length'')
      else bindS (service_GetUserByEmail F email) (\<lambda>found.
        case found of
          Some u \<Rightarrow> failS (Err ''email address is already registered'')
        | None \<Rightarrow> bindS (liftS (hashPassword A salt password)) (\<lambda>h.
            let user = \<lparr>usr_Id = 0, usr_UserId = [], usr_Email = email, usr_PasswordHash = h, usr_UserLevel = ''v1''\<rparr> in
            bindS (AddUser F user) (\<lambda>_. returnS user))))"

definition GetUserByPassword :: "faults \<Rightarrow> 'salt auth_pkg \<Rightarrow> string \<Rightarrow> string \<Rightarrow> ('d, user) dbop" where
  "GetUserByPassword F A email password =
     bindS (service_GetUserByEmail F email) (\<lambda>found.
       case found of None \<Rightarrow> failS (Err ''user not found or password incorrect'')
       | Some u \<Rightarrow> if \<not> checkPassword A password (usr_PasswordHash u)
           then failS (Err ''user not found or password incorrect'') else returnS u)"

definition ChangePassword :: "faults \<Rightarrow> 'salt auth_pkg \<Rightarrow> 'salt \<Rightarrow> string \<Rightarrow> string \<Rightarrow> ('d, unit) dbop" where
  "ChangePassword F A salt email newPassword =
     bindS (service_GetUserByEmail F email) (\<lambda>found.
       case found of None \<Rightarrow> failS (Err ''user not found'')
       | Some u \<Rightarrow> bindS (liftS (hashPassword A salt newPassword)) (\<lambda>h.
           UpdateUser F (u\<lparr>usr_PasswordHash := h\<rparr>)))"

text \<open>A token is good for seven days; \<open>now\<close> is the time.\<close>

definition RefreshAccessToken :: "faults \<Rightarrow> 'salt auth_pkg \<Rightarrow> string \<Rightarrow> int \<Rightarrow> string \<Rightarrow> string \<Rightarrow> ('d, string) dbop" where
  "RefreshAccessToken F A secret now email password =
     bindS (service_GetUserByEmail F email) (\<lambda>found.
       case found of None \<Rightarrow> failS (Err ''email not found or password error'')
       | Some u \<Rightarrow> if \<not> checkPassword A password (usr_PasswordHash u)
           then failS (Err ''email not found or password error'')
           else (case jwt_sign A secret (usr_Id u) (now + 7 * 24 * 3600) of
               Inl e \<Rightarrow> failS (Err e) | Inr token \<Rightarrow> returnS token))"

definition CheckToken :: "faults \<Rightarrow> 'salt auth_pkg \<Rightarrow> string \<Rightarrow> int \<Rightarrow> string \<Rightarrow> ('d, user option) dbop" where
  "CheckToken F A secret now tokenStr =
     (case jwt_parse A now secret tokenStr of
        Inl e \<Rightarrow> failS (Err e)
      | Inr (valid, claims) \<Rightarrow>
          if \<not> valid then failS (Err ''token is invalid'')
          else (case claims ''userId'' of
              None \<Rightarrow> failS (Err ''bad token'')
            | Some (Number i) \<Rightarrow> service_GetUserById F i
            | Some (Other v) \<Rightarrow> failS (Err ''bad token'')))"

subsection \<open>Users\<close>

text \<open>Ids and emails identify users.\<close>

definition users_wf :: "'d db \<Rightarrow> bool" where
  "users_wf s \<longleftrightarrow> ids_ok usr_Id (db_users s) \<and> distinct (map usr_Email (db_users s))"

definition user_by_email :: "'d db \<Rightarrow> string \<Rightarrow> user option" where
  "user_by_email s email = find (\<lambda>u. usr_Email u = email) (db_users s)"

lemma find_id_mem: "distinct (map k rows) \<Longrightarrow> r \<in> set rows \<Longrightarrow> find (\<lambda>x. k x = k r) rows = Some r"
  by (induction rows) auto

lemma GetUserByEmail_ok:
  "service_GetUserByEmail F email s = (Inr found, s') \<longleftrightarrow>
    F (db_stmt s) = None \<and> user_by_email s email = found \<and> s' = s\<lparr>db_stmt := Suc (db_stmt s)\<rparr>"
  by (auto simp: service_GetUserByEmail_def GetUserByEmail_def query_def stmt_Inr user_by_email_def)

lemma hashPassword_Inr: "hashPassword A salt p = Inr h \<longleftrightarrow> generate_password A salt p = Some h"
  by (auto simp: hashPassword_def split: option.splits)

lemma CreateUser_Inr:
  assumes "CreateUser F A salt email password s = (Inr user, s')" and "users_wf s" and "length (db_users s) + 1 < 2 ^ 64"
  obtains h i where "generate_password A salt password = Some h" and "6 \<le> length password"
    and "user_by_email s email = None" and "unat i = length (db_users s) + 1"
    and "db_users s' = db_users s @ [\<lparr>usr_Id = i, usr_UserId = [], usr_Email = email, usr_PasswordHash = h, usr_UserLevel = ''v1''\<rparr>]"
    and "users_wf s'"
proof -
  have len: "6 \<le> length password" using assms(1) by (auto simp: CreateUser_def split: if_splits)
  have b: "bindS (service_GetUserByEmail F email) (\<lambda>found.
        case found of
          Some u \<Rightarrow> failS (Err ''email address is already registered'')
        | None \<Rightarrow> bindS (liftS (hashPassword A salt password)) (\<lambda>h.
            let user = \<lparr>usr_Id = 0, usr_UserId = [], usr_Email = email, usr_PasswordHash = h, usr_UserLevel = ''v1''\<rparr> in
            bindS (AddUser F user) (\<lambda>_. returnS user))) s = (Inr user, s')"
    using assms(1) len by (simp add: CreateUser_def)
  then obtain s1 where none: "user_by_email s email = None" and s1: "s1 = s\<lparr>db_stmt := Suc (db_stmt s)\<rparr>"
    and r: "bindS (liftS (hashPassword A salt password)) (\<lambda>h.
            let user = \<lparr>usr_Id = 0, usr_UserId = [], usr_Email = email, usr_PasswordHash = h, usr_UserLevel = ''v1''\<rparr> in
            bindS (AddUser F user) (\<lambda>_. returnS user)) s1 = (Inr user, s')"
    by (auto simp: bindS_Inr [of "service_GetUserByEmail F email"] GetUserByEmail_ok split: option.splits)
  then obtain h u1 where h: "generate_password A salt password = Some h"
    and a: "AddUser F \<lparr>usr_Id = 0, usr_UserId = [], usr_Email = email, usr_PasswordHash = h, usr_UserLevel = ''v1''\<rparr> s1 = (Inr u1, s')"
    by (auto simp: bindS_Inr liftS_Inr hashPassword_Inr Let_def)
  define i :: u64 where "i = of_nat (length (db_users s)) + 1"
  define row where "row = \<lparr>usr_Id = i, usr_UserId = [], usr_Email = email, usr_PasswordHash = h, usr_UserLevel = ''v1''\<rparr>"
  have i: "unat i = length (db_users s) + 1" unfolding i_def by (rule next_id [OF assms(3)])
  have us: "db_users s' = db_users s @ [row]"
    using a by (auto simp: AddUser_def stmt_Inr s1 row_def i_def split: if_splits)
  have "email \<notin> usr_Email ` set (db_users s)" using none by (auto simp: user_by_email_def find_None_iff)
  moreover have "ids_ok usr_Id (db_users s @ [row])"
    using assms(2,3) by (intro ids_ok_append) (simp_all add: users_wf_def row_def i_def)
  ultimately have "users_wf s'" using assms(2) by (simp add: users_wf_def us row_def)
  then show thesis using that h len none i us unfolding row_def by blast
qed

text \<open>Changing the password of a user changes one row.\<close>

lemma ChangePassword_Inr:
  assumes "ChangePassword F A salt email p s = (Inr u, s')" and "users_wf s"
  obtains usr h where "user_by_email s email = Some usr" and "generate_password A salt p = Some h"
    and "\<forall>e. user_by_email s' e = (if e = email then Some (usr\<lparr>usr_PasswordHash := h\<rparr>) else user_by_email s e)"
    and "users_wf s'"
proof -
  have b: "bindS (service_GetUserByEmail F email) (\<lambda>found.
       case found of None \<Rightarrow> failS (Err ''user not found'')
       | Some u \<Rightarrow> bindS (liftS (hashPassword A salt p)) (\<lambda>h. UpdateUser F (u\<lparr>usr_PasswordHash := h\<rparr>))) s = (Inr u, s')"
    using assms(1) by (simp add: ChangePassword_def)
  then obtain usr h where usr: "user_by_email s email = Some usr" and h: "generate_password A salt p = Some h"
    and us: "db_users s' = upd_where (\<lambda>r. usr_Id r = usr_Id usr) (\<lambda>_. usr\<lparr>usr_PasswordHash := h\<rparr>) (db_users s)"
    unfolding bind_found_Inr
    by (auto simp: GetUserByEmail_ok bindS_Inr liftS_Inr hashPassword_Inr UpdateUser_def exec_def stmt_Inr)
  have mem: "usr \<in> set (db_users s)" "usr_Email usr = email" using usr by (auto simp: user_by_email_def find_Some_iff)
  have ids: "distinct (map usr_Id (db_users s))" "distinct (map usr_Email (db_users s))"
    using assms(2) by (simp_all add: users_wf_def ids_ok_def)
  have same: "r = usr" if "r \<in> set (db_users s)" "usr_Id r = usr_Id usr" for r
    using that mem(1) ids(1) by (auto simp: distinct_map dest: inj_onD)
  then have us': "db_users s' = map (\<lambda>r. if r = usr then usr\<lparr>usr_PasswordHash := h\<rparr> else r) (db_users s)"
    unfolding us upd_where_def by (auto intro!: map_cong)
  have cols: "map usr_Email (db_users s') = map usr_Email (db_users s)" "map usr_Id (db_users s') = map usr_Id (db_users s)"
    by (simp_all add: us')
  have "distinct (map usr_Id (db_users s'))" using ids(1) by (simp only: cols(2))
  moreover have "\<forall>r\<in>set (db_users s'). unat (usr_Id r) \<le> length (db_users s')"
    using assms(2) mem(1) by (simp add: users_wf_def ids_ok_def us')
  ultimately have "ids_ok usr_Id (db_users s')" by (simp add: ids_ok_def)
  then have wf: "users_wf s'" using ids(2) by (simp add: users_wf_def cols)
  have "user_by_email s' e = (if e = email then Some (usr\<lparr>usr_PasswordHash := h\<rparr>) else user_by_email s e)" for e
  proof (cases "e = email")
    case True
    have "usr\<lparr>usr_PasswordHash := h\<rparr> \<in> set (db_users s')" using mem(1) by (auto simp: us')
    then show ?thesis
      using find_id_mem [of usr_Email "db_users s'" "usr\<lparr>usr_PasswordHash := h\<rparr>"] ids(2) mem(2) True
      by (simp add: user_by_email_def cols)
  next
    case False
    have "find (\<lambda>u. usr_Email u = e) (map (\<lambda>r. if r = usr then usr\<lparr>usr_PasswordHash := h\<rparr> else r) rows) =
        find (\<lambda>u. usr_Email u = e) rows" for rows
      using False mem(2) by (induction rows) auto
    then show ?thesis using False by (simp add: user_by_email_def us')
  qed
  then show thesis using that usr h wf by blast
qed

text \<open>The token that a user is given stands for the user until it expires.\<close>

lemma token_stands_for:
  assumes "auth_laws A" and by_email: "user_by_email s1 email = Some u"
    and by_id: "find (\<lambda>x. usr_Id x = usr_Id u) (db_users s1) = Some u" and small: "usr_Id u \<le> 2 ^ 53"
    and pw: "checkPassword A password (usr_PasswordHash u)"
    and run: "RefreshAccessToken G A secret now email password s1 = (r, s2)"
  shows "case r of
       Inl e \<Rightarrow> G (db_stmt s1) \<noteq> None \<or> (\<exists>m. jwt_sign A secret (usr_Id u) (now + 604800) = Inl m)
     | Inr token \<Rightarrow> (\<forall>H later. H (db_stmt s2) = None \<longrightarrow> later < now + 604800 \<longrightarrow>
         fst (CheckToken H A secret later token s2) = Inr (Some u))"
proof (cases "G (db_stmt s1)")
  case None
  then have g: "service_GetUserByEmail G email s1 = (Inr (Some u), s1\<lparr>db_stmt := Suc (db_stmt s1)\<rparr>)"
    by (simp add: GetUserByEmail_ok by_email)
  show ?thesis
  proof (cases "jwt_sign A secret (usr_Id u) (now + 604800)")
    case (Inl m)
    then show ?thesis using run g pw by (auto simp: RefreshAccessToken_def bindS_def failS_def split: prod.splits)
  next
    case (Inr token)
    then have r: "r = Inr token" "s2 = s1\<lparr>db_stmt := Suc (db_stmt s1)\<rparr>"
      using run g pw by (auto simp: RefreshAccessToken_def bindS_def returnS_def split: prod.splits)
    have "fst (CheckToken H A secret later token s2) = Inr (Some u)"
      if H: "H (db_stmt s2) = None" and later: "later < now + 604800" for H later
    proof -
      obtain claims where "jwt_parse A later secret token = Inr (True, claims)" "claims ''userId'' = Some (Number (usr_Id u))"
        using assms(1) Inr later small unfolding auth_laws_def by blast
      then show ?thesis
        using H by_id by (simp add: CheckToken_def service_GetUserById_def GetUserById_def query_def stmt_def r(2))
    qed
    then show ?thesis by (simp add: r(1))
  qed
next
  case (Some e)
  then show ?thesis using run
    by (auto simp: RefreshAccessToken_def bindS_def service_GetUserByEmail_def GetUserByEmail_def query_def stmt_def
        split: prod.splits)
qed

subsection \<open>Properties\<close>

text \<open>C34. Signing up, signing in and presenting the token: when creating a user succeeds, the email is
  registered once, the ids and emails still identify users, signing in with the same password can
  only fail in the database or the signing, and the token it gives is accepted until it expires and
  stands for the very user that was created.\<close>

theorem sign_up_sign_in:
  assumes "auth_laws A" and "users_wf s" and "length (db_users s) + 1 < 2 ^ 53"
    and "CreateUser F A salt email password s = (Inr user, s1)"
    and "RefreshAccessToken G A secret now email password s1 = (r, s2)"
  shows "users_wf s1 \<and> (\<exists>u. user_by_email s1 email = Some u \<and> usr_PasswordHash u = usr_PasswordHash user \<and>
    (case r of
       Inl e \<Rightarrow> G (db_stmt s1) \<noteq> None \<or> (\<exists>m. jwt_sign A secret (usr_Id u) (now + 604800) = Inl m)
     | Inr token \<Rightarrow> (\<forall>H later. H (db_stmt s2) = None \<longrightarrow> later < now + 604800 \<longrightarrow>
         fst (CheckToken H A secret later token s2) = Inr (Some u))))"
proof -
  have "length (db_users s) + 1 < 2 ^ 64" using assms(3) by simp
  from CreateUser_Inr [OF assms(4,2) this] obtain h i where c: "generate_password A salt password = Some h"
    "user_by_email s email = None" "unat i = length (db_users s) + 1" "users_wf s1"
    "db_users s1 = db_users s @ [\<lparr>usr_Id = i, usr_UserId = [], usr_Email = email, usr_PasswordHash = h, usr_UserLevel = ''v1''\<rparr>]"
    by metis
  define u where "u = \<lparr>usr_Id = i, usr_UserId = [], usr_Email = email, usr_PasswordHash = h, usr_UserLevel = ''v1''\<rparr>"
  have u: "u \<in> set (db_users s1)" "usr_Email u = email" "usr_Id u = i" "usr_PasswordHash u = h" by (simp_all add: c(5) u_def)
  have ids: "distinct (map usr_Id (db_users s1))" "distinct (map usr_Email (db_users s1))"
    using c(4) by (simp_all add: users_wf_def ids_ok_def)
  have by_email: "user_by_email s1 email = Some u" using find_id_mem [OF ids(2) u(1)] u(2) by (simp add: user_by_email_def)
  have by_id: "find (\<lambda>x. usr_Id x = i) (db_users s1) = Some u" using find_id_mem [OF ids(1) u(1)] u(3) by simp
  have "i \<le> 2 ^ 53"
  proof -
    have "unat i \<le> unat (2 ^ 53 :: u64)" using assms(3) c(3) by simp
    then show ?thesis by (simp add: word_le_nat_alt)
  qed
  have user: "usr_PasswordHash user = h"
    using assms(4) c(1) by (auto simp: CreateUser_def bindS_Inr liftS_Inr hashPassword_Inr Let_def split: if_splits option.splits)
  have pw: "checkPassword A password h" using assms(1) c(1) by (auto simp: auth_laws_def checkPassword_def)
  have "usr_Id u \<le> 2 ^ 53" "checkPassword A password (usr_PasswordHash u)" using \<open>i \<le> 2 ^ 53\<close> pw u(3,4) by simp_all
  from token_stands_for [OF assms(1) by_email _ this assms(5)] have "case r of
       Inl e \<Rightarrow> G (db_stmt s1) \<noteq> None \<or> (\<exists>m. jwt_sign A secret (usr_Id u) (now + 604800) = Inl m)
     | Inr token \<Rightarrow> (\<forall>H later. H (db_stmt s2) = None \<longrightarrow> later < now + 604800 \<longrightarrow>
         fst (CheckToken H A secret later token s2) = Inr (Some u))" using by_id u(3) by blast
  then show ?thesis using c(4) by_email user u(4) by blast
qed

text \<open>A package in which a password is its own hash and a token is a string as long as the user's id.\<close>

definition plain_auth :: "unit auth_pkg" where
  "plain_auth = \<lparr>generate_password = (\<lambda>_ p. Some p), compare_password = (\<lambda>h p. h = p),
     jwt_sign = (\<lambda>secret uid expiry. Inr (replicate (unat uid) CHR ''x'')),
     jwt_parse = (\<lambda>now secret token. Inr (True, [''userId'' \<mapsto> Number (of_nat (length token))]))\<rparr>"

lemma plain_auth_laws: "auth_laws plain_auth"
  by (simp add: auth_laws_def plain_auth_def)

definition no_users :: "rat db" where
  "no_users = \<lparr>db_accounts = [], db_bills = [], db_orders = (\<lambda>_. []), db_fills = [], db_trades = [], db_ticks = [],
     db_products = [], db_users = [], db_fee_rates = [], db_configs = [], db_stmt = 0\<rparr>"

theorem sign_up_sign_in_witness:
  "\<exists>user s1 token s2 u. CreateUser (\<lambda>_. None) plain_auth () ''a@b.c'' ''secret'' no_users = (Inr user, s1) \<and>
    RefreshAccessToken (\<lambda>_. None) plain_auth ''key'' 1000 ''a@b.c'' ''secret'' s1 = (Inr token, s2) \<and>
    fst (CheckToken (\<lambda>_. None) plain_auth ''key'' 2000 token s2) = Inr (Some u) \<and> usr_PasswordHash u = usr_PasswordHash user"
proof -
  have "\<not> isl (fst (CreateUser (\<lambda>_. None) plain_auth () ''a@b.c'' ''secret'' no_users))"
    "\<not> isl (fst (RefreshAccessToken (\<lambda>_. None) plain_auth ''key'' 1000 ''a@b.c'' ''secret''
      (snd (CreateUser (\<lambda>_. None) plain_auth () ''a@b.c'' ''secret'' no_users))))"
    by code_simp+
  then obtain user s1 token s2 where
      c: "CreateUser (\<lambda>_. None) plain_auth () ''a@b.c'' ''secret'' no_users = (Inr user, s1)"
      and t: "RefreshAccessToken (\<lambda>_. None) plain_auth ''key'' 1000 ''a@b.c'' ''secret'' s1 = (Inr token, s2)"
    by (metis isl_def prod.collapse snd_conv sum.exhaust_sel)
  have "users_wf no_users" "length (db_users no_users) + 1 < 2 ^ 53" by (simp_all add: no_users_def users_wf_def ids_ok_def)
  from sign_up_sign_in [OF plain_auth_laws this c t] obtain u where
    "fst (CheckToken (\<lambda>_. None) plain_auth ''key'' 2000 token s2) = Inr (Some u)" "usr_PasswordHash u = usr_PasswordHash user"
    by auto
  with c t show ?thesis by (intro exI conjI)
qed

end
