(* ===== verification/Push_Book.thy ===== *)
theory Push_Book
  imports Log_Reader
begin

text \<open>
  The order book of the push server (\<open>pushing/order_book.go\<close>), which follows the matching log: every
  open order with its remaining size, and for each side the price levels, with the total size and the
  number of their orders, in an ordered map from prices to levels (a parameter, as in the matching
  book). A level is a pointer that the code changes in place; here it is put back.
\<close>

subsection \<open>State\<close>

record 'd price_level =
  lv_Price :: 'd
  lv_Size :: 'd
  lv_OrderCount :: int

record ('d, 'l) push_book =
  pb_productId :: string
  pb_seq :: int
  pb_logOffset :: int
  pb_logSeq :: int
  pb_depths :: "side \<rightharpoonup> 'l"
  pb_orders :: "u64 \<rightharpoonup> 'd book_order"

record l2_change =
  lc_Seq :: int
  lc_ProductId :: string
  lc_Side :: string
  lc_Price :: string
  lc_Size :: string

record l2_snapshot =
  l2_ProductId :: string
  l2_Seq :: int
  l2_Asks :: "(string \<times> string \<times> int) list"
  l2_Bids :: "(string \<times> string \<times> int) list"

record 'd full_snapshot =
  fs_ProductId :: string
  fs_Seq :: int
  fs_LogOffset :: int
  fs_LogSeq :: int
  fs_Orders :: "'d book_order list"

text \<open>The packages: decimals, and ordered maps from prices to levels.\<close>

record ('d, 'l) push_env =
  pdec :: "'d decimal_pkg"
  lmap :: "('l, 'd, 'd price_level) treemap"

definition DecimalAscComparator :: "'d::linordered_idom \<Rightarrow> 'd \<Rightarrow> int" where
  "DecimalAscComparator a b = dec_cmp a b"

definition DecimalDescComparator :: "'d::linordered_idom \<Rightarrow> 'd \<Rightarrow> int" where
  "DecimalDescComparator a b = dec_cmp b a"

definition newOrderBook :: "('d::linordered_idom, 'l) push_env \<Rightarrow> string \<Rightarrow> ('d, 'l) push_book" where
  "newOrderBook E productId =
     \<lparr>pb_productId = productId, pb_seq = 0, pb_logOffset = 0, pb_logSeq = 0,
      pb_depths = [SideBuy \<mapsto> tm_new (lmap E) DecimalDescComparator, SideSell \<mapsto> tm_new (lmap E) DecimalAscComparator],
      pb_orders = Map.empty\<rparr>"

subsection \<open>Saving an order\<close>

text \<open>The last lines of \<open>saveOrder\<close>: the position in the log, and the change to publish.\<close>

definition save_done :: "('d, 'l) push_env \<Rightarrow> int \<Rightarrow> int \<Rightarrow> side \<Rightarrow> 'd price_level \<Rightarrow> ('d, 'l) push_book \<Rightarrow>
    l2_change option \<times> ('d, 'l) push_book" where
  "save_done E logOffset logSeq sd changedLevel b =
     (Some \<lparr>lc_Seq = pb_seq b + 1, lc_ProductId = pb_productId b, lc_Side = sd,
            lc_Price = dec_string (pdec E) (lv_Price changedLevel), lc_Size = dec_string (pdec E) (lv_Size changedLevel)\<rparr>,
      b\<lparr>pb_logOffset := logOffset, pb_logSeq := logSeq, pb_seq := pb_seq b + 1\<rparr>)"

definition saved_order :: "u64 \<Rightarrow> 'd::zero \<Rightarrow> side \<Rightarrow> 'd \<Rightarrow> 'd book_order" where
  "saved_order orderId newSize sd price =
     \<lparr>bo_OrderId = orderId, bo_UserId = 0, bo_Size = newSize, bo_Funds = 0, bo_Price = price, bo_Side = sd,
      bo_Type = [], bo_TimeInForce = []\<rparr>"

text \<open>An order that is not in the book yet.\<close>

definition save_new :: "('d::linordered_idom, 'l) push_env \<Rightarrow> int \<Rightarrow> int \<Rightarrow> u64 \<Rightarrow> 'd \<Rightarrow> 'd \<Rightarrow> side \<Rightarrow>
    ('d, 'l) push_book \<Rightarrow> (l2_change option \<times> ('d, 'l) push_book) res" where
  "save_new E logOffset logSeq orderId newSize price sd b =
     (if newSize = 0 then Inr (None, b)
      else bindR (deref (pb_depths b sd)) (\<lambda>priceLevels.
        let changedLevel = (case tm_get (lmap E) priceLevels price of
              None \<Rightarrow> \<lparr>lv_Price = price, lv_Size = newSize, lv_OrderCount = 1\<rparr>
            | Some l \<Rightarrow> l\<lparr>lv_Size := lv_Size l + newSize, lv_OrderCount := lv_OrderCount l + 1\<rparr>)
        in Inr (save_done E logOffset logSeq sd changedLevel
             (b\<lparr>pb_orders := (pb_orders b)(orderId \<mapsto> saved_order orderId newSize sd price),
                pb_depths := (pb_depths b)(sd \<mapsto> tm_put (lmap E) priceLevels price changedLevel)\<rparr>))))"

text \<open>An order that is in the book.\<close>

definition save_old :: "('d::linordered_idom, 'l) push_env \<Rightarrow> int \<Rightarrow> int \<Rightarrow> 'd book_order \<Rightarrow> u64 \<Rightarrow> 'd \<Rightarrow> 'd \<Rightarrow> side \<Rightarrow>
    ('d, 'l) push_book \<Rightarrow> (l2_change option \<times> ('d, 'l) push_book) res" where
  "save_old E logOffset logSeq order orderId newSize price sd b =
     (let decrSize = bo_Size order - newSize;
          removed = newSize = 0;
          orders = (if removed then (pb_orders b)(bo_OrderId order := None)
                    else (pb_orders b)(orderId \<mapsto> order\<lparr>bo_Size := newSize\<rparr>))
      in bindR (deref (pb_depths b sd)) (\<lambda>priceLevels.
        case tm_get (lmap E) priceLevels price of
          None \<Rightarrow> Inl (Panic ''price level not found'')
        | Some l \<Rightarrow>
            let changedLevel = l\<lparr>lv_Size := lv_Size l - decrSize\<rparr>;
                changedLevel = (if lv_Size changedLevel \<noteq> 0 \<and> removed
                    then changedLevel\<lparr>lv_OrderCount := lv_OrderCount changedLevel - 1\<rparr> else changedLevel);
                priceLevels' = (if lv_Size changedLevel = 0 then tm_remove (lmap E) priceLevels price
                    else tm_put (lmap E) priceLevels price changedLevel)
            in Inr (save_done E logOffset logSeq sd changedLevel
                 (b\<lparr>pb_orders := orders, pb_depths := (pb_depths b)(sd \<mapsto> priceLevels')\<rparr>))))"

definition saveOrder :: "('d::linordered_idom, 'l) push_env \<Rightarrow> int \<Rightarrow> int \<Rightarrow> u64 \<Rightarrow> 'd \<Rightarrow> 'd \<Rightarrow> side \<Rightarrow>
    ('d, 'l) push_book \<Rightarrow> (l2_change option \<times> ('d, 'l) push_book) res" where
  "saveOrder E logOffset logSeq orderId newSize price sd b =
     (if newSize < 0 then Inl (Panic (dec_string (pdec E) newSize))
      else case pb_orders b orderId of
        None \<Rightarrow> save_new E logOffset logSeq orderId newSize price sd b
      | Some order \<Rightarrow> save_old E logOffset logSeq order orderId newSize price sd b)"

subsection \<open>Snapshots\<close>

definition level_rows :: "('d, 'l) push_env \<Rightarrow> int \<Rightarrow> 'l \<Rightarrow> (string \<times> string \<times> int) list" where
  "level_rows E levels q = map (\<lambda>(p, v). (dec_string (pdec E) (lv_Price v), dec_string (pdec E) (lv_Size v), lv_OrderCount v))
     (take (nat levels) (tm_iter (lmap E) q))"

definition SnapshotLevel2 :: "('d, 'l) push_env \<Rightarrow> int \<Rightarrow> ('d, 'l) push_book \<Rightarrow> l2_snapshot res" where
  "SnapshotLevel2 E levels b =
     bindR (deref (pb_depths b SideSell)) (\<lambda>asks.
     bindR (deref (pb_depths b SideBuy)) (\<lambda>bids.
       if levels < 0 then Inl (Panic ''makeslice: len out of range'')
       else Inr \<lparr>l2_ProductId = pb_productId b, l2_Seq = pb_seq b,
                 l2_Asks = level_rows E levels asks, l2_Bids = level_rows E levels bids\<rparr>))"

text \<open>Go visits the map in any order; \<open>ids\<close> is the order.\<close>

definition SnapshotFull :: "u64 list \<Rightarrow> ('d, 'l) push_book \<Rightarrow> 'd full_snapshot" where
  "SnapshotFull ids b =
     \<lparr>fs_ProductId = pb_productId b, fs_Seq = pb_seq b, fs_LogOffset = pb_logOffset b, fs_LogSeq = pb_logSeq b,
      fs_Orders = map (\<lambda>i. the (pb_orders b i)) ids\<rparr>"

fun save_orders :: "('d::linordered_idom, 'l) push_env \<Rightarrow> 'd book_order list \<Rightarrow> ('d, 'l) push_book \<Rightarrow> ('d, 'l) push_book res" where
  "save_orders E [] b = Inr b"
| "save_orders E (o1 # os) b =
     bindR (saveOrder E 0 0 (bo_OrderId o1) (bo_Size o1) (bo_Price o1) (bo_Side o1) b) (\<lambda>(_, b'). save_orders E os b')"

definition push_Restore :: "('d::linordered_idom, 'l) push_env \<Rightarrow> 'd full_snapshot \<Rightarrow> ('d, 'l) push_book \<Rightarrow> ('d, 'l) push_book res" where
  "push_Restore E snap b = bindR (save_orders E (fs_Orders snap) b) (\<lambda>b.
     Inr (b\<lparr>pb_productId := fs_ProductId snap, pb_seq := fs_Seq snap, pb_logOffset := fs_LogOffset snap,
            pb_logSeq := fs_LogSeq snap\<rparr>))"

subsection \<open>Following the log\<close>

text \<open>The switch of \<open>runApplier\<close> (\<open>pushing/order_book_stream.go\<close>); \<open>None\<close> in place of a change: the log
  closes an order that is not in the book, and the loop goes on to the next log at once.\<close>

fun follow_log :: "('d::linordered_idom, 'l) push_env \<Rightarrow> int \<Rightarrow> 'd log \<Rightarrow> ('d, 'l) push_book \<Rightarrow>
    (l2_change option option \<times> ('d, 'l) push_book) res" where
  "follow_log E offset (DoneLog l) b =
     (case pb_orders b (dl_OrderId l) of
        None \<Rightarrow> Inr (None, b)
      | Some order \<Rightarrow> bindR (saveOrder E offset (bs_Sequence l) (dl_OrderId l) (bo_Size order - dl_RemainingSize l)
            (dl_Price l) (dl_Side l) b) (\<lambda>(c, b). Inr (Some c, b)))"
| "follow_log E offset (OpenLog l) b =
     bindR (saveOrder E offset (bs_Sequence l) (ol_OrderId l) (ol_RemainingSize l) (ol_Price l) (ol_Side l) b)
       (\<lambda>(c, b). Inr (Some c, b))"
| "follow_log E offset (MatchLog l) b =
     (case pb_orders b (ml_MakerOrderId l) of
        None \<Rightarrow> Inl (Panic ''should not happen'')
      | Some order \<Rightarrow> bindR (saveOrder E offset (bs_Sequence l) (ml_MakerOrderId l) (bo_Size order - ml_Size l)
            (ml_Price l) (ml_Side l) b) (\<lambda>(c, b). Inr (Some c, b)))"

fun follow_logs :: "('d::linordered_idom, 'l) push_env \<Rightarrow> 'd msg list \<Rightarrow> ('d, 'l) push_book \<Rightarrow> ('d, 'l) push_book res" where
  "follow_logs E [] b = Inr b"
| "follow_logs E ((offset, l) # ms) b = bindR (follow_log E offset l b) (\<lambda>(_, b'). follow_logs E ms b')"

lemma follow_logs_append: "follow_logs E (xs @ ys) b = bindR (follow_logs E xs b) (follow_logs E ys)"
proof (induction E xs b rule: follow_logs.induct)
  case (2 E offset l ms b)
  then show ?case by (cases "follow_log E offset l b") auto
qed simp

subsection \<open>Levels are sums\<close>

definition ids_at :: "(u64 \<rightharpoonup> 'd book_order) \<Rightarrow> side \<Rightarrow> 'd \<Rightarrow> u64 set" where
  "ids_at m s p = {i. \<exists>o1. m i = Some o1 \<and> bo_Side o1 = s \<and> bo_Price o1 = p}"

definition level_of :: "(u64 \<rightharpoonup> 'd::linordered_idom book_order) \<Rightarrow> side \<Rightarrow> 'd \<Rightarrow> 'd price_level option" where
  "level_of m s p = (if ids_at m s p = {} then None
     else Some \<lparr>lv_Price = p, lv_Size = (\<Sum>i\<in>ids_at m s p. bo_Size (the (m i))), lv_OrderCount = int (card (ids_at m s p))\<rparr>)"

definition level_cmp :: "side \<Rightarrow> 'd::linordered_idom \<Rightarrow> 'd \<Rightarrow> int" where
  "level_cmp s = (if s = SideBuy then DecimalDescComparator else DecimalAscComparator)"

definition orders_fit :: "(u64 \<rightharpoonup> 'd::linordered_idom book_order) \<Rightarrow> bool" where
  "orders_fit m \<longleftrightarrow> finite (dom m) \<and>
     (\<forall>i o1. m i = Some o1 \<longrightarrow> o1 = saved_order i (bo_Size o1) (bo_Side o1) (bo_Price o1) \<and> 0 < bo_Size o1 \<and> valid_side (bo_Side o1))"

definition push_inv :: "('d::linordered_idom, 'l) push_env \<Rightarrow> ('d, 'l) push_book \<Rightarrow> bool" where
  "push_inv E b \<longleftrightarrow> orders_fit (pb_orders b) \<and> dom (pb_depths b) = {SideBuy, SideSell} \<and>
     (\<forall>s q. pb_depths b s = Some q \<longrightarrow> tm_made (lmap E) (level_cmp s) q \<and>
        (\<forall>p. map_of (tm_iter (lmap E) q) p = level_of (pb_orders b) s p))"

lemma level_cmp_ok: "cmp_ok (level_cmp s)"
  by (auto simp: cmp_ok_def level_cmp_def DecimalAscComparator_def DecimalDescComparator_def)

lemma map_of_sl_ins: "cmp_ok c \<Longrightarrow> map_of (sl_ins c k v xs) = (map_of xs)(k \<mapsto> v)"
  by (induction c k v xs rule: sl_ins.induct) (auto simp: cmp_ok_eq fun_upd_twist)

lemma map_of_sl_del: "cmp_ok c \<Longrightarrow> map_of (sl_del c k xs) = (map_of xs)(k := None)"
  by (induction xs) (auto simp: sl_del_def cmp_ok_eq fun_upd_twist)

lemma ids_at_finite: "finite (dom m) \<Longrightarrow> finite (ids_at m s p)"
  by (rule finite_subset [of _ "dom m"]) (auto simp: ids_at_def)

text \<open>What adding, resizing and removing an order does to the levels.\<close>

lemma level_of_add:
  assumes "finite (dom m)" and "m i = None"
  shows "level_of (m(i \<mapsto> o1)) s p =
    (if s = bo_Side o1 \<and> p = bo_Price o1
     then Some (case level_of m s p of
         None \<Rightarrow> \<lparr>lv_Price = p, lv_Size = bo_Size o1, lv_OrderCount = 1\<rparr>
       | Some l \<Rightarrow> l\<lparr>lv_Size := lv_Size l + bo_Size o1, lv_OrderCount := lv_OrderCount l + 1\<rparr>)
     else level_of m s p)"
proof (cases "s = bo_Side o1 \<and> p = bo_Price o1")
  case True
  have i: "i \<notin> ids_at m s p" using assms(2) by (simp add: ids_at_def)
  have "ids_at (m(i \<mapsto> o1)) s p = insert i (ids_at m s p)" using True assms(2) by (auto simp: ids_at_def)
  moreover have "(\<Sum>j\<in>ids_at m s p. bo_Size (the ((m(i \<mapsto> o1)) j))) = (\<Sum>j\<in>ids_at m s p. bo_Size (the (m j)))"
    using i by (intro sum.cong) auto
  ultimately show ?thesis
    using i ids_at_finite [OF assms(1), of s p] unfolding if_P [OF True] by (simp add: level_of_def add.commute)
next
  case False
  have ids: "ids_at (m(i \<mapsto> o1)) s p = ids_at m s p" using False assms(2) by (auto simp: ids_at_def)
  have "(\<Sum>j\<in>ids_at m s p. bo_Size (the ((m(i \<mapsto> o1)) j))) = (\<Sum>j\<in>ids_at m s p. bo_Size (the (m j)))"
    using assms(2) by (intro sum.cong) (auto simp: ids_at_def)
  then show ?thesis unfolding if_not_P [OF False] by (simp add: level_of_def ids)
qed

lemma level_of_resize:
  assumes "finite (dom m)" and "m i = Some o1"
  shows "level_of (m(i \<mapsto> o1\<lparr>bo_Size := n\<rparr>)) s p =
    (if s = bo_Side o1 \<and> p = bo_Price o1
     then map_option (\<lambda>l. l\<lparr>lv_Size := lv_Size l - (bo_Size o1 - n)\<rparr>) (level_of m s p) else level_of m s p)"
proof -
  have ids: "ids_at (m(i \<mapsto> o1\<lparr>bo_Size := n\<rparr>)) s p = ids_at m s p" using assms(2) by (auto simp: ids_at_def)
  show ?thesis
  proof (cases "s = bo_Side o1 \<and> p = bo_Price o1")
    case True
    then have i: "i \<in> ids_at m s p" using assms(2) by (simp add: ids_at_def)
    have "(\<Sum>j\<in>ids_at m s p - {i}. bo_Size (the ((m(i \<mapsto> o1\<lparr>bo_Size := n\<rparr>)) j))) =
        (\<Sum>j\<in>ids_at m s p - {i}. bo_Size (the (m j)))" by (intro sum.cong) auto
    then have "(\<Sum>j\<in>ids_at m s p. bo_Size (the ((m(i \<mapsto> o1\<lparr>bo_Size := n\<rparr>)) j))) =
        (\<Sum>j\<in>ids_at m s p. bo_Size (the (m j))) - (bo_Size o1 - n)"
      using sum.remove [OF ids_at_finite [OF assms(1)] i, of "\<lambda>j. bo_Size (the ((m(i \<mapsto> o1\<lparr>bo_Size := n\<rparr>)) j))"]
        sum.remove [OF ids_at_finite [OF assms(1)] i, of "\<lambda>j. bo_Size (the (m j))"] assms(2) by simp
    moreover have "ids_at m s p \<noteq> {}" using i by auto
    ultimately show ?thesis unfolding if_P [OF True] by (simp add: level_of_def ids)
  next
    case False
    have "(\<Sum>j\<in>ids_at m s p. bo_Size (the ((m(i \<mapsto> o1\<lparr>bo_Size := n\<rparr>)) j))) = (\<Sum>j\<in>ids_at m s p. bo_Size (the (m j)))"
      using False assms(2) by (intro sum.cong) (auto simp: ids_at_def)
    then show ?thesis unfolding if_not_P [OF False] by (simp add: level_of_def ids)
  qed
qed

lemma level_of_remove:
  assumes fit: "orders_fit m" and "m i = Some o1"
  shows "level_of (m(i := None)) s p =
    (if s = bo_Side o1 \<and> p = bo_Price o1
     then (case level_of m s p of None \<Rightarrow> None
       | Some l \<Rightarrow> if lv_Size l - bo_Size o1 = 0 then None
           else Some (l\<lparr>lv_Size := lv_Size l - bo_Size o1, lv_OrderCount := lv_OrderCount l - 1\<rparr>))
     else level_of m s p)"
proof -
  have fin: "finite (dom m)" and pos: "\<And>j. j \<in> ids_at m s p \<Longrightarrow> 0 < bo_Size (the (m j))"
    using fit by (auto simp: orders_fit_def ids_at_def)
  have ids: "ids_at (m(i := None)) s p = ids_at m s p - {i}" by (auto simp: ids_at_def)
  have same: "(\<Sum>j\<in>ids_at m s p - {i}. bo_Size (the ((m(i := None)) j))) = (\<Sum>j\<in>ids_at m s p - {i}. bo_Size (the (m j)))"
    by (intro sum.cong) auto
  show ?thesis
  proof (cases "s = bo_Side o1 \<and> p = bo_Price o1")
    case True
    then have i: "i \<in> ids_at m s p" using assms(2) by (simp add: ids_at_def)
    note rem = sum.remove [OF ids_at_finite [OF fin] i, of "\<lambda>j. bo_Size (the (m j))"]
    have "ids_at m s p - {i} \<noteq> {} \<Longrightarrow> 0 < (\<Sum>j\<in>ids_at m s p - {i}. bo_Size (the (m j)))"
      using pos ids_at_finite [OF fin, of s p] by (intro sum_pos) auto
    moreover have "card (ids_at m s p - {i}) = card (ids_at m s p) - 1" "0 < card (ids_at m s p)"
      using i ids_at_finite [OF fin, of s p] by (auto simp: card_gt_0_iff)
    moreover have "ids_at m s p \<noteq> {}" using i by auto
    ultimately show ?thesis using rem assms(2) unfolding if_P [OF True]
      by (cases "ids_at m s p - {i} = {}") (simp_all add: level_of_def ids same)
  next
    case False
    then have "i \<notin> ids_at m s p" using assms(2) by (auto simp: ids_at_def)
    then have "ids_at m s p - {i} = ids_at m s p" by simp
    then show ?thesis using same unfolding if_not_P [OF False] by (simp add: level_of_def ids)
  qed
qed

end
