(* ===== verification/Utils.thy ===== *)
theory Utils
  imports Models
begin

text \<open>
  \<open>utils/utils.go\<close>: printing and reading numbers, and names in snake case. \<open>strconv\<close> is Go's standard
  library: the loops over the digits and the bounds of the types are written out.
\<close>

subsection \<open>Numbers\<close>

definition U64ToA :: "u64 \<Rightarrow> string" where
  "U64ToA i = u64_string i"

definition I64ToA :: "int \<Rightarrow> string" where
  "I64ToA i = int_string i"

text \<open>\<open>ParseUint\<close> in base 10: an error when the string is empty or has anything but digits, or when the number does
  not fit; the value of the digits is computed first here.\<close>

definition is_digit :: "char \<Rightarrow> bool" where
  "is_digit c \<longleftrightarrow> 48 \<le> (of_char c :: nat) \<and> (of_char c :: nat) \<le> 57"

definition read_digits :: "string \<Rightarrow> nat" where
  "read_digits s = fold (\<lambda>c n. 10 * n + (of_char c - 48)) s 0"

definition AToUint64 :: "string \<Rightarrow> u64 option" where
  "AToUint64 s = (if s = [] \<or> \<not> list_all is_digit s \<or> 2 ^ 64 \<le> read_digits s then None else Some (of_nat (read_digits s)))"

text \<open>\<open>ParseInt\<close>, for callers that ignore its error: zero for what is not a number, and the nearest bound for
  a number that does not fit.\<close>

definition parse_int64 :: "string \<Rightarrow> int" where
  "parse_int64 s =
     (let (neg, ds) = (case s of CHR ''-'' # ds \<Rightarrow> (True, ds) | CHR ''+'' # ds \<Rightarrow> (False, ds) | _ \<Rightarrow> (False, s)) in
      if ds = [] \<or> \<not> list_all is_digit ds then 0
      else if neg then - int (min (2 ^ 63) (read_digits ds))
      else int (min (2 ^ 63 - 1) (read_digits ds)))"

definition MinInt :: "int \<Rightarrow> int \<Rightarrow> int" where
  "MinInt a b = (if a \<le> b then a else b)"

subsection \<open>Printing and reading\<close>

lemma read_digits_snoc: "read_digits (s @ [c]) = 10 * read_digits s + (of_char c - 48)"
  by (simp add: read_digits_def)

lemma digit_char: "k < 10 \<Longrightarrow> of_char (char_of (48 + k :: nat) :: char) = 48 + k"
  by simp

lemma read_digits_nat_string: "read_digits (nat_string n) = n"
proof (induction n rule: nat_string.induct)
  case (1 n)
  have d: "of_char (char_of (48 + n mod 10) :: char) - 48 = n mod 10" by (subst digit_char) simp_all
  show ?case
  proof (cases "n < 10")
    case True
    then show ?thesis using d by (subst nat_string.simps) (simp add: read_digits_def)
  next
    case False
    have "read_digits (nat_string n) = 10 * read_digits (nat_string (n div 10)) + n mod 10"
      using False by (subst nat_string.simps) (simp only: if_False read_digits_snoc d)
    then show ?thesis using 1 [OF False] by simp
  qed
qed

lemma nat_string_inj: "nat_string m = nat_string n \<longleftrightarrow> m = n"
  by (metis read_digits_nat_string)

lemma U64ToA_inj: "U64ToA i = U64ToA j \<longleftrightarrow> i = j"
  by (simp add: U64ToA_def u64_string_def nat_string_inj word_unat_eq_iff)

lemma nat_string_chars: "c \<in> set (nat_string n) \<Longrightarrow> 48 \<le> (of_char c :: nat) \<and> (of_char c :: nat) \<le> 57"
proof (induction n rule: nat_string.induct)
  case (1 n)
  have "48 \<le> (of_char (char_of (48 + n mod 10) :: char) :: nat) \<and> (of_char (char_of (48 + n mod 10) :: char) :: nat) \<le> 57"
    by (subst (1 2) digit_char) simp_all
  moreover have "n < 10 \<Longrightarrow> n mod 10 = n" by simp
  ultimately show ?case using 1 by (subst (asm) nat_string.simps) (auto simp del: of_char_of split: if_splits)
qed

lemma nat_string_nonempty: "nat_string n \<noteq> []"
  by (subst nat_string.simps) simp

text \<open>A printed number reads back.\<close>

lemma AToUint64_U64ToA: "AToUint64 (U64ToA i) = Some i"
  using nat_string_nonempty nat_string_chars u64_bound [of i]
  by (auto simp: AToUint64_def U64ToA_def u64_string_def read_digits_nat_string list_all_iff is_digit_def)

subsection \<open>Snake case\<close>

text \<open>Names of fields, which are ASCII.\<close>

definition is_upper :: "char \<Rightarrow> bool" where
  "is_upper c \<longleftrightarrow> 65 \<le> (of_char c :: nat) \<and> (of_char c :: nat) \<le> 90"

definition is_lower :: "char \<Rightarrow> bool" where
  "is_lower c \<longleftrightarrow> 97 \<le> (of_char c :: nat) \<and> (of_char c :: nat) \<le> 122"

definition to_lower :: "char \<Rightarrow> char" where
  "to_lower c = (if is_upper c then char_of (of_char c + 32 :: nat) else c)"

text \<open>One turn of the loop: the runes that it appends.\<close>

definition snake_rune :: "string \<Rightarrow> nat \<Rightarrow> string" where
  "snake_rune s i = (let r = s ! i; lower = (\<lambda>k. 0 \<le> k \<and> k < int (length s) \<and> is_lower (s ! nat k)) in
     if is_upper r
     then (if 0 < i \<and> s ! (i - 1) \<noteq> CHR ''_'' \<and> (lower (int i - 1) \<or> lower (int i + 1)) then ''_'' else []) @ [to_lower r]
     else [r])"

definition SnakeCase :: "string \<Rightarrow> string" where
  "SnakeCase s = concat (map (snake_rune s) [0..<length s])"

end
