(* ===== verification/Push_Messages.thy ===== *)
theory Push_Messages
  imports Push_Book Utils
begin

text \<open>
  The messages of the push server and the names of its channels (\<open>pushing/message.go\<close>). A channel of a
  product is its name, a colon and the product.
\<close>

subsection \<open>Channels\<close>

type_synonym channel = string

definition Format :: "channel \<Rightarrow> string \<Rightarrow> u64 \<Rightarrow> string" where
  "Format t productId userId = t @ '':'' @ productId @ '':'' @ U64ToA userId"

definition FormatWithUserId :: "channel \<Rightarrow> u64 \<Rightarrow> string" where
  "FormatWithUserId t userId = t @ '':'' @ U64ToA userId"

definition FormatWithProductId :: "channel \<Rightarrow> string \<Rightarrow> string" where
  "FormatWithProductId t productId = t @ '':'' @ productId"

definition CandlesFormatWithGranularityProductId :: "int \<Rightarrow> string \<Rightarrow> string" where
  "CandlesFormatWithGranularityProductId granularity productId = ''candles_'' @ I64ToA granularity @ ''m:'' @ productId"

definition ChannelTicker :: channel where "ChannelTicker = ''ticker''"
definition ChannelMatch :: channel where "ChannelMatch = ''match''"
definition ChannelTrade :: channel where "ChannelTrade = ''trade''"
definition ChannelLevel2 :: channel where "ChannelLevel2 = ''level2''"
definition ChannelFunds :: channel where "ChannelFunds = ''funds''"
definition ChannelOrder :: channel where "ChannelOrder = ''order''"

text \<open>\<open>ChannelCandles1m\<close> to \<open>ChannelCandles1440m\<close>, in the order of the code.\<close>

definition ChannelCandles :: "channel list" where
  "ChannelCandles = [''candles_1m'', ''candles_3m'', ''candles_5m'', ''candles_15m'', ''candles_30m'', ''candles_60m'',
     ''candles_120m'', ''candles_240m'', ''candles_360m'', ''candles_720m'', ''candles_1440m'']"

definition Level2TypeSnapshot :: string where "Level2TypeSnapshot = ''snapshot''"
definition Level2TypeUpdate :: string where "Level2TypeUpdate = ''l2update''"

subsection \<open>Messages\<close>

record match_message =
  mm_Type :: string
  mm_TradeSeq :: int
  mm_Sequence :: int
  mm_Time :: int
  mm_ProductId :: string
  mm_Price :: string
  mm_Size :: string
  mm_MakerOrderId :: string
  mm_TakerOrderId :: string
  mm_Side :: string

record ticker_message =
  tk_Type :: string
  tk_TradeSeq :: int
  tk_Sequence :: int
  tk_Time :: int
  tk_ProductId :: string
  tk_Price :: string
  tk_Side :: string
  tk_LastSize :: string
  tk_BestBid :: string
  tk_BestAsk :: string
  tk_Volume24h :: string
  tk_Volume30d :: string
  tk_QuoteVolume24h :: string
  tk_QuoteVolume30d :: string
  tk_Low24h :: string
  tk_High24h :: string
  tk_Open24h :: string
  tk_Close24h :: string

record candles_message =
  cm_Type :: string
  cm_ProductId :: string
  cm_Time :: int
  cm_Open :: string
  cm_Close :: string
  cm_Low :: string
  cm_High :: string
  cm_Volume :: string

record funds_message =
  fm_Type :: string
  fm_Sequence :: int
  fm_UserId :: string
  fm_Currency :: string
  fm_Available :: string
  fm_Hold :: string

record order_message =
  om_UserId :: u64
  om_Type :: string
  om_Sequence :: int
  om_Id :: string
  om_Price :: string
  om_Size :: string
  om_Funds :: string
  om_ProductId :: string
  om_Side :: string
  om_OrderType :: string
  om_CreatedAt :: string
  om_FillFees :: string
  om_FilledSize :: string
  om_ExecutedValue :: string
  om_Status :: string
  om_Settled :: bool

record trade_message =
  tm_Type :: string
  tm_Time :: string
  tm_ProductId :: string
  tm_Price :: string
  tm_Size :: string
  tm_MakerOrderId :: string
  tm_TakerOrderId :: string
  tm_Side :: string

text \<open>What a client's connection is given.\<close>

datatype push_message =
    SnapshotMessage string "(string \<times> string \<times> int) list" "(string \<times> string \<times> int) list" \<comment> \<open>product, bids, asks\<close>
  | UpdateMessage string "(string \<times> string \<times> string) list"                              \<comment> \<open>product, changes\<close>
  | ChangeMessage l2_change
  | MatchMessage match_message
  | TickerMessage ticker_message
  | CandlesMessage candles_message
  | FundsMessage funds_message
  | OrderMessage order_message
  | TradeMessage trade_message

record push_request =
  rq_Type :: string
  rq_ProductIds :: "string list"
  rq_CurrencyIds :: "string list"
  rq_Channels :: "string list"
  rq_Token :: string

end
