(* ===== verification/Push_Client.thy ===== *)
theory Push_Client
  imports Push_Messages Machines
begin

text \<open>
  The clients of the push server (\<open>pushing/client.go\<close>) and their subscriptions
  (\<open>pushing/subscription.go\<close>). A client has three goroutines: the reader carries out requests, the writer
  takes messages from \<open>writeCh\<close>, writing them to the connection but passing level 2 changes on to
  \<open>l2ChangeCh\<close>, and the level 2 writer turns these into snapshots and batches of updates, which it sends
  back through \<open>writeCh\<close>. One step is one channel operation or one locked section. Keeping connections
  alive (deadlines, pings) is not modelled; that reading from or writing to a connection fails is an event.
\<close>

subsection \<open>The level 2 writer\<close>

record l2_state =
  ls_resendSnapshot :: bool
  ls_changes :: "l2_change list"
  ls_lastSeq :: int

definition stateOf :: "(string \<rightharpoonup> l2_state) \<Rightarrow> string \<Rightarrow> l2_state" where
  "stateOf states productId = (case states productId of Some s \<Rightarrow> s
     | None \<Rightarrow> \<lparr>ls_resendSnapshot = True, ls_changes = [], ls_lastSeq = 0\<rparr>)"

text \<open>The change that only asks for a snapshot.\<close>

definition ask_snapshot :: "string \<Rightarrow> l2_change" where
  "ask_snapshot productId = \<lparr>lc_Seq = 0, lc_ProductId = productId, lc_Side = [], lc_Price = [], lc_Size = []\<rparr>"

definition change_row :: "l2_change \<Rightarrow> string \<times> string \<times> string" where
  "change_row c = (lc_Side c, lc_Price c, lc_Size c)"

text \<open>One turn of the loop of \<open>runL2ChangeWriter\<close>, with \<open>waiting\<close> changes left in the channel: what it sends,
  what it puts back into the channel, and the states of the products.\<close>

definition l2_take :: "(string \<rightharpoonup> l2_snapshot) \<Rightarrow> nat \<Rightarrow> l2_change \<Rightarrow> (string \<rightharpoonup> l2_state) \<Rightarrow>
    push_message list \<times> l2_change list \<times> (string \<rightharpoonup> l2_state)" where
  "l2_take lasts waiting c states =
     (let p = lc_ProductId c; st = stateOf states p in
      if ls_resendSnapshot st \<or> lc_Seq c = 0 then
        (case lasts p of
           None \<Rightarrow> ([], [], states(p \<mapsto> st))
         | Some snapshot \<Rightarrow>
             if l2_Seq snapshot < ls_lastSeq st then ([], [], states(p \<mapsto> st))
             else ([SnapshotMessage p (l2_Bids snapshot) (l2_Asks snapshot)], [],
                   states(p \<mapsto> st\<lparr>ls_lastSeq := l2_Seq snapshot, ls_resendSnapshot := False\<rparr>)))
      else if lc_Seq c \<le> ls_lastSeq st then ([], [], states(p \<mapsto> st))
      else if lc_Seq c \<noteq> ls_lastSeq st + 1 then
        ([], if waiting = 0 then [ask_snapshot p] else [],
         states(p \<mapsto> st\<lparr>ls_resendSnapshot := True, ls_changes := [], ls_lastSeq := lc_Seq c\<rparr>))
      else
        let st1 = st\<lparr>ls_lastSeq := lc_Seq c, ls_changes := ls_changes st @ [c]\<rparr> in
        if 0 < waiting \<and> length (ls_changes st1) < 10 then ([], [], states(p \<mapsto> st1))
        else ([UpdateMessage p (map change_row (ls_changes st1))], [], states(p \<mapsto> st1\<lparr>ls_changes := []\<rparr>)))"

subsection \<open>Subscriptions\<close>

type_synonym subscribers = "string \<rightharpoonup> int set"

definition sub_subscribe :: "string \<Rightarrow> int \<Rightarrow> subscribers \<Rightarrow> bool \<times> subscribers" where
  "sub_subscribe ch i subs =
     (let subs1 = (case subs ch of None \<Rightarrow> subs(ch \<mapsto> {}) | Some _ \<Rightarrow> subs) in
      case subs1 ch of None \<Rightarrow> (False, subs1)
      | Some members \<Rightarrow> if i \<in> members then (False, subs1) else (True, subs1(ch \<mapsto> insert i members)))"

definition sub_unsubscribe :: "string \<Rightarrow> int \<Rightarrow> subscribers \<Rightarrow> bool \<times> subscribers" where
  "sub_unsubscribe ch i subs =
     (case subs ch of None \<Rightarrow> (False, subs)
      | Some members \<Rightarrow> if i \<notin> members then (False, subs) else (True, subs(ch \<mapsto> members - {i})))"

subsection \<open>Clients\<close>

text \<open>What is left of a request: the loops over products and channels, unrolled. \<open>NilUser\<close> is the access to
  the id of a user that was not found.\<close>

datatype sub_task = Join string | JoinLevel2 string | JoinTicker string | SendLevel2 string | SendTicker string
  | Leave string | NilUser

record push_client =
  cl_writeCh :: "push_message list"
  cl_l2ChangeCh :: "l2_change list"
  cl_channels :: "string set"
  cl_tasks :: "sub_task list"                \<comment> \<open>the reader: the rest of the request\<close>
  cl_forward :: "l2_change option"           \<comment> \<open>the writer: writing to \<open>l2ChangeCh\<close>\<close>
  cl_states :: "string \<rightharpoonup> l2_state"           \<comment> \<open>the level 2 writer: \<open>states\<close>\<close>
  cl_l2out :: "push_message list"            \<comment> \<open>the level 2 writer: writing to \<open>writeCh\<close>\<close>
  cl_conn :: "push_message list"             \<comment> \<open>what the connection was given\<close>
  cl_reading :: bool                         \<comment> \<open>the reader has not returned\<close>
  cl_writing :: bool                         \<comment> \<open>the writer has not returned\<close>

definition NewClient :: push_client where
  "NewClient = \<lparr>cl_writeCh = [], cl_l2ChangeCh = [], cl_channels = {}, cl_tasks = [], cl_forward = None,
     cl_states = Map.empty, cl_l2out = [], cl_conn = [], cl_reading = True, cl_writing = True\<rparr>"

definition writeChannelSize :: nat where "writeChannelSize = 256"
definition l2ChangeChannelSize :: nat where "l2ChangeChannelSize = 512"

text \<open>All clients by id, who is subscribed to what, and the two tables that the streams keep.\<close>

record push_hub =
  hb_clients :: "int \<rightharpoonup> push_client"
  hb_subscribers :: subscribers
  hb_level2 :: "string \<rightharpoonup> l2_snapshot"
  hb_tickers :: "string \<rightharpoonup> ticker_message"

definition newSubscription :: push_hub where
  "newSubscription = \<lparr>hb_clients = Map.empty, hb_subscribers = Map.empty, hb_level2 = Map.empty, hb_tickers = Map.empty\<rparr>"

text \<open>Publishing drops the message for a client whose channel is full.\<close>

definition give :: "push_message \<Rightarrow> push_client \<Rightarrow> push_client" where
  "give m c = (if length (cl_writeCh c) < writeChannelSize then c\<lparr>cl_writeCh := cl_writeCh c @ [m]\<rparr> else c)"

definition publish :: "string \<Rightarrow> push_message \<Rightarrow> push_hub \<Rightarrow> push_hub" where
  "publish ch m h = (case hb_subscribers h ch of None \<Rightarrow> h
     | Some members \<Rightarrow> h\<lparr>hb_clients := (\<lambda>i. if i \<in> members then map_option (give m) (hb_clients h i) else hb_clients h i)\<rparr>)"

definition client_subscribe :: "string \<Rightarrow> int \<Rightarrow> push_client \<Rightarrow> subscribers \<Rightarrow> bool \<times> push_client \<times> subscribers" where
  "client_subscribe ch i c subs =
     (if ch \<in> cl_channels c then (False, c, subs)
      else case sub_subscribe ch i subs of
        (True, subs1) \<Rightarrow> (True, c\<lparr>cl_channels := insert ch (cl_channels c)\<rparr>, subs1)
      | (False, subs1) \<Rightarrow> (False, c, subs1))"

definition client_unsubscribe :: "string \<Rightarrow> int \<Rightarrow> push_client \<Rightarrow> subscribers \<Rightarrow> push_client \<times> subscribers" where
  "client_unsubscribe ch i c subs =
     (case sub_unsubscribe ch i subs of
        (True, subs1) \<Rightarrow> (c\<lparr>cl_channels := cl_channels c - {ch}\<rparr>, subs1)
      | (False, subs1) \<Rightarrow> (c, subs1))"

text \<open>Closing visits the channels of the client, in any order \<open>chs\<close>.\<close>

fun leave_all :: "int \<Rightarrow> string list \<Rightarrow> subscribers \<Rightarrow> subscribers" where
  "leave_all i [] subs = subs"
| "leave_all i (ch # chs) subs = leave_all i chs (snd (sub_unsubscribe ch i subs))"

definition client_close :: "string list \<Rightarrow> int \<Rightarrow> push_client \<Rightarrow> push_hub \<Rightarrow> push_hub" where
  "client_close chs i c h = h\<lparr>hb_clients := (hb_clients h)(i \<mapsto> c),
     hb_subscribers := leave_all i chs (hb_subscribers h)\<rparr>"

subsection \<open>Requests\<close>

definition sub_tasks :: "u64 \<Rightarrow> user option \<Rightarrow> string \<Rightarrow> channel \<Rightarrow> sub_task list" where
  "sub_tasks userId user p ch =
     (if ch = ChannelLevel2 then [JoinLevel2 p]
      else if ch = ChannelMatch then [Join (FormatWithProductId ch p)]
      else if ch = ChannelTrade then (case user of None \<Rightarrow> [NilUser] | Some u \<Rightarrow> [Join (Format ch p (usr_Id u))])
      else if ch = ChannelTicker then [JoinTicker p]
      else if ch = ChannelOrder then [Join (Format ch p userId)]
      else if ch \<in> set ChannelCandles then [Join (FormatWithProductId ch p)]
      else [])"

definition unsub_tasks :: "u64 \<Rightarrow> user option \<Rightarrow> string \<Rightarrow> channel \<Rightarrow> sub_task list" where
  "unsub_tasks userId user p ch =
     (if ch \<in> {ChannelLevel2, ChannelMatch, ChannelTicker} \<union> set ChannelCandles then [Leave (FormatWithProductId ch p)]
      else if ch = ChannelTrade then (case user of None \<Rightarrow> [NilUser] | Some u \<Rightarrow> [Leave (Format ch p (usr_Id u))])
      else if ch = ChannelOrder then [Leave (Format ch p userId)]
      else [])"

definition user_id :: "user option \<Rightarrow> u64" where
  "user_id user = (case user of None \<Rightarrow> 0 | Some u \<Rightarrow> usr_Id u)"

definition onSub :: "user option \<Rightarrow> push_request \<Rightarrow> sub_task list" where
  "onSub user req = concat (map (\<lambda>_. concat (map (\<lambda>ch.
       if ch = ChannelFunds then [Join (FormatWithUserId ch (user_id user))] else []) (rq_Channels req))) (rq_CurrencyIds req))
     @ concat (map (\<lambda>p. concat (map (sub_tasks (user_id user) user p) (rq_Channels req))) (rq_ProductIds req))"

definition onUnSub :: "user option \<Rightarrow> push_request \<Rightarrow> sub_task list" where
  "onUnSub user req = concat (map (\<lambda>_. concat (map (\<lambda>ch.
       if ch = ChannelFunds then [Leave (FormatWithUserId ch (user_id user))] else []) (rq_Channels req))) (rq_CurrencyIds req))
     @ concat (map (\<lambda>p. concat (map (unsub_tasks (user_id user) user p) (rq_Channels req))) (rq_ProductIds req))"

text \<open>\<open>checked\<close> is what \<open>CheckToken\<close> says of the token: an error, or a user if there is one.\<close>

definition onMessage :: "string + user option \<Rightarrow> push_request \<Rightarrow> sub_task list" where
  "onMessage checked req =
     (case checked of Inl e \<Rightarrow> []
      | Inr user \<Rightarrow> if rq_Type req = ''subscribe'' then onSub user req
          else if rq_Type req = ''unsubscribe'' then onUnSub user req else [])"

text \<open>The reader: one task. Sending a snapshot request or a ticker follows a subscription that is new.\<close>

definition run_task :: "int \<Rightarrow> push_client \<Rightarrow> push_hub \<Rightarrow> push_hub res option" where
  "run_task i c h =
     (let put = (\<lambda>c subs. Some (Inr (h\<lparr>hb_clients := (hb_clients h)(i \<mapsto> c), hb_subscribers := subs\<rparr>)));
          join = (\<lambda>ch ts next. case client_subscribe ch i c (hb_subscribers h) of
            (new, c1, subs) \<Rightarrow> put (c1\<lparr>cl_tasks := (if new then next @ ts else ts)\<rparr>) subs)
      in case cl_tasks c of
        [] \<Rightarrow> None
      | Join ch # ts \<Rightarrow> join ch ts []
      | JoinLevel2 p # ts \<Rightarrow> join (FormatWithProductId ChannelLevel2 p) ts [SendLevel2 p]
      | JoinTicker p # ts \<Rightarrow> join (FormatWithProductId ChannelTicker p) ts [SendTicker p]
      | SendLevel2 p # ts \<Rightarrow>
          if length (cl_l2ChangeCh c) < l2ChangeChannelSize
          then put (c\<lparr>cl_tasks := ts, cl_l2ChangeCh := cl_l2ChangeCh c @ [ask_snapshot p]\<rparr>) (hb_subscribers h) else None
      | SendTicker p # ts \<Rightarrow>
          (case hb_tickers h p of
             None \<Rightarrow> put (c\<lparr>cl_tasks := ts\<rparr>) (hb_subscribers h)
           | Some t \<Rightarrow> if length (cl_writeCh c) < writeChannelSize
               then put (c\<lparr>cl_tasks := ts, cl_writeCh := cl_writeCh c @ [TickerMessage t]\<rparr>) (hb_subscribers h) else None)
      | Leave ch # ts \<Rightarrow> (case client_unsubscribe ch i c (hb_subscribers h) of
            (c1, subs) \<Rightarrow> put (c1\<lparr>cl_tasks := ts\<rparr>) subs)
      | NilUser # ts \<Rightarrow> Some (Inl (Panic ''nil pointer dereference'')))"

subsection \<open>The other goroutines\<close>

definition writer_take :: "push_client \<Rightarrow> push_client option" where
  "writer_take c = (if \<not> cl_writing c \<or> cl_forward c \<noteq> None then None
     else case cl_writeCh c of [] \<Rightarrow> None
     | ChangeMessage l # rest \<Rightarrow> Some (c\<lparr>cl_writeCh := rest, cl_forward := Some l\<rparr>)
     | m # rest \<Rightarrow> if cl_reading c then Some (c\<lparr>cl_writeCh := rest, cl_conn := cl_conn c @ [m]\<rparr>) else None)"

definition writer_forward :: "push_client \<Rightarrow> push_client option" where
  "writer_forward c = (case cl_forward c of None \<Rightarrow> None
     | Some l \<Rightarrow> if length (cl_l2ChangeCh c) < l2ChangeChannelSize
         then Some (c\<lparr>cl_l2ChangeCh := cl_l2ChangeCh c @ [l], cl_forward := None\<rparr>) else None)"

definition l2_turn :: "(string \<rightharpoonup> l2_snapshot) \<Rightarrow> push_client \<Rightarrow> push_client option" where
  "l2_turn lasts c = (if cl_l2out c \<noteq> [] then None
     else case cl_l2ChangeCh c of [] \<Rightarrow> None
     | l # rest \<Rightarrow> (case l2_take lasts (length rest) l (cl_states c) of
         (out, back, states) \<Rightarrow> Some (c\<lparr>cl_l2ChangeCh := rest @ back, cl_l2out := out, cl_states := states\<rparr>)))"

definition l2_send :: "push_client \<Rightarrow> push_client option" where
  "l2_send c = (case cl_l2out c of [] \<Rightarrow> None
     | m # ms \<Rightarrow> if length (cl_writeCh c) < writeChannelSize
         then Some (c\<lparr>cl_writeCh := cl_writeCh c @ [m], cl_l2out := ms\<rparr>) else None)"

text \<open>Both the reader and the writer close the client, and the connection, when they return: the reader when
  it cannot read a request, the writer when it cannot write, which is all it can do once the connection is
  closed. A reader in the middle of a request carries it out before it notices.\<close>

definition reader_stops :: "string list \<Rightarrow> int \<Rightarrow> push_client \<Rightarrow> push_hub \<Rightarrow> push_hub option" where
  "reader_stops chs i c h = (if cl_reading c \<and> cl_tasks c = [] then Some (client_close chs i (c\<lparr>cl_reading := False\<rparr>) h) else None)"

definition writer_stops :: "string list \<Rightarrow> int \<Rightarrow> push_client \<Rightarrow> push_hub \<Rightarrow> push_hub option" where
  "writer_stops chs i c h = (if cl_writing c \<and> cl_forward c = None then Some (client_close chs i (c\<lparr>cl_writing := False\<rparr>) h) else None)"

datatype hub_event = Connect int | Publish string push_message | Receive int "string + user option" push_request
  | Task int | WriterTake int | WriterForward int | L2Turn int | L2Send int
  | ReaderStops int "string list" | WriterStops int "string list"
  | NewLevel2 string l2_snapshot | NewTicker string ticker_message

definition on_client :: "(push_client \<Rightarrow> push_client option) \<Rightarrow> int \<Rightarrow> push_hub \<Rightarrow> push_hub res option" where
  "on_client f i h = (case hb_clients h i of None \<Rightarrow> None
     | Some c \<Rightarrow> map_option (\<lambda>c. Inr (h\<lparr>hb_clients := (hb_clients h)(i \<mapsto> c)\<rparr>)) (f c))"

definition receive :: "string + user option \<Rightarrow> push_request \<Rightarrow> push_client \<Rightarrow> push_client option" where
  "receive checked req c = (if cl_reading c \<and> cl_tasks c = [] then Some (c\<lparr>cl_tasks := onMessage checked req\<rparr>) else None)"

fun hub_step :: "hub_event \<Rightarrow> push_hub \<Rightarrow> push_hub res option" where
  "hub_step (Connect i) h = (case hb_clients h i of Some c \<Rightarrow> None
     | None \<Rightarrow> Some (Inr (h\<lparr>hb_clients := (hb_clients h)(i \<mapsto> NewClient)\<rparr>)))"
| "hub_step (Publish ch m) h = Some (Inr (publish ch m h))"
| "hub_step (Receive i checked req) h = on_client (receive checked req) i h"
| "hub_step (Task i) h = (case hb_clients h i of None \<Rightarrow> None | Some c \<Rightarrow> run_task i c h)"
| "hub_step (WriterTake i) h = on_client writer_take i h"
| "hub_step (WriterForward i) h = on_client writer_forward i h"
| "hub_step (L2Turn i) h = on_client (l2_turn (hb_level2 h)) i h"
| "hub_step (L2Send i) h = on_client l2_send i h"
| "hub_step (ReaderStops i chs) h = (case hb_clients h i of None \<Rightarrow> None | Some c \<Rightarrow> map_option Inr (reader_stops chs i c h))"
| "hub_step (WriterStops i chs) h = (case hb_clients h i of None \<Rightarrow> None | Some c \<Rightarrow> map_option Inr (writer_stops chs i c h))"
| "hub_step (NewLevel2 p l) h = Some (Inr (h\<lparr>hb_level2 := (hb_level2 h)(p \<mapsto> l)\<rparr>))"
| "hub_step (NewTicker p t) h = Some (Inr (h\<lparr>hb_tickers := (hb_tickers h)(p \<mapsto> t)\<rparr>))"

end
