(* ===== verification/Push_Client_Safe.thy ===== *)
theory Push_Client_Safe
  imports Push_Client
begin

text \<open>
  Subscriptions are sound: the server's table of subscribers and the clients' own sets of channels
  agree, channels stay within their capacities, and nobody is subscribed to another user's channel.
\<close>

subsection \<open>Channel names\<close>

lemma last_part:
  assumes "c \<notin> set d" and "c \<notin> set d'" and "p @ c # d = p' @ c # d'"
  shows "d = d'"
proof -
  have "takeWhile (\<lambda>x. x \<noteq> c) (rev (q @ c # e)) = rev e" if "c \<notin> set e" for q e
    using that by (induction e rule: rev_induct) auto
  from this [OF assms(1), of p] this [OF assms(2), of p'] show ?thesis using assms(3) by simp
qed

lemma U64ToA_part: "CHR '':'' \<notin> set (U64ToA u)"
  using nat_string_chars [of "CHR '':''"] by (auto simp: U64ToA_def u64_string_def)

text \<open>The private channels of a user.\<close>

definition private_of :: "u64 \<Rightarrow> string \<Rightarrow> bool" where
  "private_of u ch \<longleftrightarrow> (\<exists>p. ch = Format ChannelOrder p u \<or> ch = Format ChannelTrade p u) \<or> ch = FormatWithUserId ChannelFunds u"

lemma Format_same: "Format t p u = Format t p' u' \<Longrightarrow> u = u'"
  using last_part [of "CHR '':''" "U64ToA u" "U64ToA u'" p p'] U64ToA_part [of u] U64ToA_part [of u'] U64ToA_inj
  by (auto simp: Format_def)

lemmas channel_names = Format_def FormatWithProductId_def FormatWithUserId_def ChannelTicker_def ChannelMatch_def
  ChannelTrade_def ChannelLevel2_def ChannelFunds_def ChannelOrder_def ChannelCandles_def

lemma private_Format:
  "t \<in> {ChannelOrder, ChannelTrade} \<Longrightarrow> private_of u (Format t p v) \<longleftrightarrow> u = v"
  using Format_same by (auto simp: private_of_def) (auto simp: channel_names)

lemma private_funds: "private_of u (FormatWithUserId ChannelFunds v) \<longleftrightarrow> u = v"
  by (auto simp: private_of_def channel_names U64ToA_inj)

lemma private_product:
  "t \<in> {ChannelLevel2, ChannelMatch, ChannelTicker} \<union> set ChannelCandles \<Longrightarrow> \<not> private_of u (FormatWithProductId t p)"
  by (auto simp: private_of_def channel_names)

text \<open>The channels that a request joins.\<close>

fun joins :: "sub_task \<Rightarrow> string set" where
  "joins (Join ch) = {ch}"
| "joins (JoinLevel2 p) = {FormatWithProductId ChannelLevel2 p}"
| "joins (JoinTicker p) = {FormatWithProductId ChannelTicker p}"
| "joins t = {}"

lemma sub_tasks_private:
  assumes "t \<in> set (sub_tasks (user_id user) user p ch)" and "x \<in> joins t" and "private_of u x"
  shows "u = user_id user"
  using assms
  by (auto simp: sub_tasks_def private_product private_Format user_id_def split: if_splits option.splits)

lemma onMessage_private:
  assumes "t \<in> set (onMessage (Inr user) req)" and "x \<in> joins t" and "private_of u x"
  shows "u = user_id user"
proof -
  have "\<exists>ch. t = Leave ch \<or> t = NilUser" if "t \<in> set (onUnSub user req)"
    using that by (auto simp: onUnSub_def unsub_tasks_def split: if_splits option.splits)
  then have "t \<in> set (onSub user req)" using assms(1,2) by (auto simp: onMessage_def split: if_splits)
  then show ?thesis
    using assms(2,3) sub_tasks_private by (auto simp: onSub_def private_funds split: if_splits)
qed

lemma onMessage_users: "NilUser \<in> set (onMessage (Inr user) req) \<Longrightarrow> user = None"
  by (auto simp: onMessage_def onSub_def onUnSub_def sub_tasks_def unsub_tasks_def split: if_splits option.splits)

subsection \<open>The invariant\<close>

definition member :: "subscribers \<Rightarrow> string \<Rightarrow> int \<Rightarrow> bool" where
  "member subs ch i \<longleftrightarrow> (\<exists>M. subs ch = Some M \<and> i \<in> M)"

text \<open>\<open>U i\<close>: the users whose tokens connection \<open>i\<close> has presented. While both its goroutines run, the channels of a
  client are those it is subscribed to; one that is being closed may have lost subscriptions.\<close>

definition client_ok :: "u64 set \<Rightarrow> push_client \<Rightarrow> bool" where
  "client_ok us c \<longleftrightarrow> length (cl_writeCh c) \<le> writeChannelSize \<and> length (cl_l2ChangeCh c) \<le> l2ChangeChannelSize \<and>
     length (cl_l2out c) \<le> 1 \<and> (\<forall>ch\<in>cl_channels c. \<forall>u. private_of u ch \<longrightarrow> u \<in> us) \<and> (\<not> cl_reading c \<longrightarrow> cl_tasks c = []) \<and>
     (\<forall>t\<in>set (cl_tasks c). t \<noteq> NilUser \<and> (\<forall>ch\<in>joins t. \<forall>u. private_of u ch \<longrightarrow> u \<in> us))"

definition agrees :: "subscribers \<Rightarrow> int \<Rightarrow> push_client \<Rightarrow> bool" where
  "agrees subs i c \<longleftrightarrow> (\<forall>ch. member subs ch i \<longrightarrow> cl_reading c \<and> ch \<in> cl_channels c) \<and>
     (cl_reading c \<and> cl_writing c \<longrightarrow> (\<forall>ch\<in>cl_channels c. member subs ch i))"

definition hub_ok :: "(int \<Rightarrow> u64 set) \<Rightarrow> push_hub \<Rightarrow> bool" where
  "hub_ok U h \<longleftrightarrow> (\<forall>ch i. member (hb_subscribers h) ch i \<longrightarrow> hb_clients h i \<noteq> None) \<and>
     (\<forall>i c. hb_clients h i = Some c \<longrightarrow> client_ok (U i) c \<and> agrees (hb_subscribers h) i c)"

definition hub_allowed :: "(int \<Rightarrow> u64 set) \<Rightarrow> hub_event \<Rightarrow> push_hub \<Rightarrow> bool" where
  "hub_allowed U ev h \<longleftrightarrow> (case ev of
       Receive i (Inr user) req \<Rightarrow> user \<noteq> None \<and> user_id user \<in> U i
     | ReaderStops i chs \<Rightarrow> (\<forall>c. hb_clients h i = Some c \<longrightarrow> set chs = cl_channels c)
     | WriterStops i chs \<Rightarrow> (\<forall>c. hb_clients h i = Some c \<longrightarrow> set chs = cl_channels c)
     | _ \<Rightarrow> True)"

lemma member_subscribe:
  "member (snd (sub_subscribe ch i subs)) ch' j \<longleftrightarrow> member subs ch' j \<or> (ch' = ch \<and> j = i)"
  "fst (sub_subscribe ch i subs) \<longleftrightarrow> \<not> member subs ch i"
  by (auto simp: sub_subscribe_def member_def Let_def split: option.splits if_splits)

lemma member_unsubscribe:
  "member (snd (sub_unsubscribe ch i subs)) ch' j \<longleftrightarrow> member subs ch' j \<and> \<not> (ch' = ch \<and> j = i)"
  "fst (sub_unsubscribe ch i subs) \<longleftrightarrow> member subs ch i"
  by (auto simp: sub_unsubscribe_def member_def split: option.splits if_splits)

lemma member_leave_all: "member (leave_all i chs subs) ch j \<longleftrightarrow> member subs ch j \<and> \<not> (ch \<in> set chs \<and> j = i)"
  by (induction i chs subs rule: leave_all.induct) (auto simp: member_unsubscribe)

lemma hub_ok_known: "hub_ok U h \<Longrightarrow> member (hb_subscribers h) ch i \<Longrightarrow> \<exists>c. hb_clients h i = Some c"
  unfolding hub_ok_def by (metis not_None_eq)

lemma hub_okD:
  assumes "hub_ok U h" and "hb_clients h i = Some c"
  shows "client_ok (U i) c" and "agrees (hb_subscribers h) i c"
  using assms unfolding hub_ok_def by blast+

text \<open>Changing one client, and its subscriptions with it.\<close>

lemma hub_ok_upd:
  assumes ok: "hub_ok U h" and "client_ok (U i) c'" and "agrees subs i c'"
    and other: "\<And>ch j. j \<noteq> i \<Longrightarrow> member subs ch j \<longleftrightarrow> member (hb_subscribers h) ch j"
  shows "hub_ok U (h\<lparr>hb_clients := (hb_clients h)(i \<mapsto> c'), hb_subscribers := subs\<rparr>)"
proof -
  have "agrees subs j c" if "j \<noteq> i" "hb_clients h j = Some c" for j c
    using hub_okD(2) [OF ok that(2)] other [OF that(1)] by (simp add: agrees_def)
  with assms show ?thesis unfolding hub_ok_def by auto
qed

lemma hub_ok_client:
  assumes ok: "hub_ok U h" and "client_ok (U i) c'" and "agrees (hb_subscribers h) i c'"
  shows "hub_ok U (h\<lparr>hb_clients := (hb_clients h)(i \<mapsto> c')\<rparr>)"
  using hub_ok_upd [OF assms] by simp

lemma publish_ok:
  assumes ok: "hub_ok U h"
  shows "hub_ok U (publish ch m h)"
proof (cases "hb_subscribers h ch")
  case (Some M)
  define cs where "cs = (\<lambda>i. if i \<in> M then map_option (give m) (hb_clients h i) else hb_clients h i)"
  have g: "client_ok us c \<Longrightarrow> client_ok us (give m c)" "agrees subs i c \<Longrightarrow> agrees subs i (give m c)" for c us subs i
    by (simp_all add: give_def client_ok_def agrees_def)
  have cs: "\<exists>c. hb_clients h i = Some c \<and> (c' = give m c \<or> c' = c)" if "cs i = Some c'" for i c'
    using that by (auto simp: cs_def split: if_splits)
  have none: "cs i = None \<longleftrightarrow> hb_clients h i = None" for i by (simp add: cs_def)
  have "client_ok (U i) c' \<and> agrees (hb_subscribers h) i c'" if "cs i = Some c'" for i c'
    using cs [OF that] hub_okD [OF ok] g by blast
  then have "hub_ok U (h\<lparr>hb_clients := cs\<rparr>)" using ok unfolding hub_ok_def by (simp add: none)
  then show ?thesis using Some by (simp add: publish_def cs_def)
qed (simp add: publish_def ok)

lemma l2_take_out:
  "l2_take lasts waiting l states = (out, asked, states') \<Longrightarrow> length out \<le> 1 \<and> length asked \<le> 1"
  by (auto simp: l2_take_def Let_def split: if_splits option.splits)

text \<open>The steps of a client on its own.\<close>

definition kept :: "push_client \<Rightarrow> push_client \<Rightarrow> bool" where
  "kept c c' \<longleftrightarrow> cl_reading c' = cl_reading c \<and> cl_writing c' = cl_writing c \<and> cl_channels c' = cl_channels c"

lemma kept_agrees: "kept c c' \<Longrightarrow> agrees subs i c \<Longrightarrow> agrees subs i c'"
  by (simp add: kept_def agrees_def)

lemma writer_take_ok: "client_ok us c \<Longrightarrow> writer_take c = Some c' \<Longrightarrow> client_ok us c' \<and> kept c c'"
  by (auto simp: writer_take_def client_ok_def kept_def split: if_splits list.splits push_message.splits)

lemma writer_forward_ok: "client_ok us c \<Longrightarrow> writer_forward c = Some c' \<Longrightarrow> client_ok us c' \<and> kept c c'"
  by (auto simp: writer_forward_def client_ok_def kept_def split: if_splits option.splits)

lemma l2_send_ok: "client_ok us c \<Longrightarrow> l2_send c = Some c' \<Longrightarrow> client_ok us c' \<and> kept c c'"
  by (auto simp: l2_send_def client_ok_def kept_def split: if_splits list.splits)

lemma l2_turn_ok: "client_ok us c \<Longrightarrow> l2_turn lasts c = Some c' \<Longrightarrow> client_ok us c' \<and> kept c c'"
  using l2_take_out by (fastforce simp: l2_turn_def client_ok_def kept_def split: if_splits list.splits prod.splits)

lemma receive_ok:
  assumes "client_ok us c" and "receive checked req c = Some c'" and "\<And>user. checked = Inr user \<Longrightarrow> user \<noteq> None \<and> user_id user \<in> us"
  shows "client_ok us c' \<and> kept c c'"
proof -
  have "t \<noteq> NilUser \<and> (\<forall>ch\<in>joins t. \<forall>u. private_of u ch \<longrightarrow> u \<in> us)" if "t \<in> set (onMessage checked req)" for t
  proof (cases checked)
    case (Inl e)
    then show ?thesis using that by (simp add: onMessage_def)
  next
    case (Inr user)
    then show ?thesis using that assms(3) [OF Inr] onMessage_users onMessage_private by metis
  qed
  then have "\<forall>t\<in>set (onMessage checked req). t \<noteq> NilUser \<and> (\<forall>ch\<in>joins t. \<forall>u. private_of u ch \<longrightarrow> u \<in> us)" by blast
  then show ?thesis using assms(1,2) by (auto simp: receive_def client_ok_def kept_def split: if_splits)
qed

lemma on_client_ok:
  assumes ok: "hub_ok U h" and st: "on_client f i h = Some r"
    and f: "\<And>c c'. client_ok (U i) c \<Longrightarrow> f c = Some c' \<Longrightarrow> client_ok (U i) c' \<and> kept c c'"
  shows "\<exists>h'. r = Inr h' \<and> hub_ok U h'"
proof -
  obtain c c' where c: "hb_clients h i = Some c" "f c = Some c'" "r = Inr (h\<lparr>hb_clients := (hb_clients h)(i \<mapsto> c')\<rparr>)"
    using st by (auto simp: on_client_def split: option.splits)
  note ok' = hub_okD [OF ok c(1)]
  show ?thesis using c(3) hub_ok_client [OF ok] f [OF ok'(1) c(2)] kept_agrees [OF _ ok'(2)] by blast
qed

text \<open>Joining and leaving a channel.\<close>

lemma join_ok:
  assumes ok: "hub_ok U h" and c: "hb_clients h i = Some c" "cl_reading c" and ts: "client_ok (U i) (c\<lparr>cl_tasks := ts\<rparr>)"
    and priv: "\<And>u. private_of u ch \<Longrightarrow> u \<in> U i" and sub: "client_subscribe ch i c (hb_subscribers h) = (new, c1, subs)"
  shows "hub_ok U (h\<lparr>hb_clients := (hb_clients h)(i \<mapsto> c1\<lparr>cl_tasks := ts\<rparr>), hb_subscribers := subs\<rparr>)"
proof -
  note ag = hub_okD(2) [OF ok c(1)] and M = member_subscribe [of ch i "hb_subscribers h"]
  consider "ch \<in> cl_channels c" "c1 = c" "subs = hb_subscribers h"
    | "ch \<notin> cl_channels c" "c1 = c\<lparr>cl_channels := insert ch (cl_channels c)\<rparr>" "subs = snd (sub_subscribe ch i (hb_subscribers h))"
    using sub M(2) ag by (auto simp: client_subscribe_def agrees_def split: if_splits prod.splits bool.splits)
  then show ?thesis
  proof cases
    case 1
    then show ?thesis using ag ts by (intro hub_ok_upd [OF ok]) (auto simp: agrees_def)
  next
    case 2
    have "client_ok (U i) (c1\<lparr>cl_tasks := ts\<rparr>)" using ts priv unfolding 2(2) by (auto simp: client_ok_def)
    moreover have "agrees subs i (c1\<lparr>cl_tasks := ts\<rparr>)" using ag c(2) unfolding 2(2,3) by (auto simp: agrees_def M(1))
    moreover have "member subs x j \<longleftrightarrow> member (hb_subscribers h) x j" if "j \<noteq> i" for x j
      using that unfolding 2(3) by (simp add: M(1))
    ultimately show ?thesis by (rule hub_ok_upd [OF ok])
  qed
qed

lemma leave_ok:
  assumes ok: "hub_ok U h" and c: "hb_clients h i = Some c" and ts: "client_ok (U i) (c\<lparr>cl_tasks := ts\<rparr>)"
    and sub: "client_unsubscribe ch i c (hb_subscribers h) = (c1, subs)"
  shows "hub_ok U (h\<lparr>hb_clients := (hb_clients h)(i \<mapsto> c1\<lparr>cl_tasks := ts\<rparr>), hb_subscribers := subs\<rparr>)"
proof -
  note ag = hub_okD(2) [OF ok c(1)] and M = member_unsubscribe [of ch i "hb_subscribers h"]
  have un: "sub_unsubscribe ch i (hb_subscribers h) = (False, hb_subscribers h)" if "\<not> member (hb_subscribers h) ch i"
    using that by (auto simp: sub_unsubscribe_def member_def split: option.splits)
  show ?thesis
  proof (cases "member (hb_subscribers h) ch i")
    case False
    with sub un have "c1 = c" "subs = hb_subscribers h" by (auto simp: client_unsubscribe_def)
    then show ?thesis using ag ts by (intro hub_ok_upd [OF ok]) (auto simp: agrees_def)
  next
    case True
    with sub M(2) have eq: "c1 = c\<lparr>cl_channels := cl_channels c - {ch}\<rparr>" "subs = snd (sub_unsubscribe ch i (hb_subscribers h))"
      by (auto simp: client_unsubscribe_def split: prod.splits bool.splits)
    have "client_ok (U i) (c1\<lparr>cl_tasks := ts\<rparr>)" using ts unfolding eq(1) by (auto simp: client_ok_def)
    moreover have "agrees subs i (c1\<lparr>cl_tasks := ts\<rparr>)" using ag unfolding eq by (auto simp: agrees_def M(1))
    moreover have "member subs x j \<longleftrightarrow> member (hb_subscribers h) x j" if "j \<noteq> i" for x j
      using that unfolding eq(2) by (simp add: M(1))
    ultimately show ?thesis by (rule hub_ok_upd [OF ok])
  qed
qed

text \<open>Closing leaves every channel.\<close>

lemma close_ok:
  assumes ok: "hub_ok U h" and c: "hb_clients h i = Some c" and "set chs = cl_channels c" and "client_ok (U i) c'"
    and "\<not> (cl_reading c' \<and> cl_writing c')"
  shows "hub_ok U (client_close chs i c' h)"
  unfolding client_close_def
proof (rule hub_ok_upd [OF ok assms(4)])
  show "agrees (leave_all i chs (hb_subscribers h)) i c'"
    using hub_okD(2) [OF ok c] assms(3,5) by (auto simp: agrees_def member_leave_all)
qed (simp add: member_leave_all)

text \<open>The reader.\<close>

lemma run_task_ok:
  assumes ok: "hub_ok U h" and c: "hb_clients h i = Some c" and st: "run_task i c h = Some r"
  shows "\<exists>h'. r = Inr h' \<and> hub_ok U h'"
proof (cases "cl_tasks c")
  case Nil
  then show ?thesis using st by (simp add: run_task_def)
next
  case (Cons t ts)
  note cok = hub_okD(1) [OF ok c] and ag = hub_okD(2) [OF ok c]
  have rd: "cl_reading c" using cok Cons by (auto simp: client_ok_def)
  have rest: "client_ok (U i) (c\<lparr>cl_tasks := ts\<rparr>)" using cok Cons by (auto simp: client_ok_def)
  have priv: "private_of u ch \<Longrightarrow> u \<in> U i" if "ch \<in> joins t" for ch u
    using cok Cons that unfolding client_ok_def by auto
  have own: "hub_ok U (h\<lparr>hb_clients := (hb_clients h)(i \<mapsto> c')\<rparr>)" if "client_ok (U i) c'" "kept c c'" for c'
    using that kept_agrees [OF _ ag] by (auto intro: hub_ok_client [OF ok])
  have joined: ?thesis
    if r: "r = Inr (h\<lparr>hb_clients := (hb_clients h)(i \<mapsto> c1\<lparr>cl_tasks := ts'\<rparr>), hb_subscribers := subs\<rparr>)"
      and sub: "client_subscribe ch i c (hb_subscribers h) = (new, c1, subs)" and "ch \<in> joins t"
      and ts': "ts' = ts \<or> ts' = SendLevel2 p # ts \<or> ts' = SendTicker p # ts" for ch new c1 subs ts' p
  proof -
    have "client_ok (U i) (c\<lparr>cl_tasks := ts'\<rparr>)" using rest ts' rd by (auto simp: client_ok_def)
    from join_ok [OF ok c rd this priv [OF that(3)] sub] show ?thesis using r by blast
  qed
  show ?thesis
  proof (cases t)
    case (Leave ch)
    then show ?thesis using st Cons leave_ok [OF ok c rest] by (auto simp: run_task_def Let_def split: prod.splits)
  next
    case (SendLevel2 p)
    then show ?thesis using st Cons own rest by (auto simp: run_task_def Let_def client_ok_def kept_def split: if_splits)
  next
    case (SendTicker p)
    then show ?thesis using st Cons own rest
      by (auto simp: run_task_def Let_def client_ok_def kept_def split: if_splits option.splits)
  next
    case NilUser
    then show ?thesis using cok Cons by (auto simp: client_ok_def)
  next
    case (Join ch)
    then show ?thesis using st Cons joined by (auto simp: run_task_def Let_def split: prod.splits if_splits)
  next
    case (JoinLevel2 p)
    then show ?thesis using st Cons joined [of _ "[SendLevel2 p] @ ts"] joined [of _ ts]
      by (auto simp: run_task_def Let_def split: prod.splits if_splits)
  next
    case (JoinTicker p)
    then show ?thesis using st Cons joined [of _ "[SendTicker p] @ ts"] joined [of _ ts]
      by (auto simp: run_task_def Let_def split: prod.splits if_splits)
  qed
qed

lemma hub_step_ok:
  assumes ok: "hub_ok U h" and al: "hub_allowed U ev h" and st: "hub_step ev h = Some r"
  shows "\<exists>h'. r = Inr h' \<and> hub_ok U h'"
proof (cases ev)
  case (Connect i)
  then have new: "hb_clients h i = None" "r = Inr (h\<lparr>hb_clients := (hb_clients h)(i \<mapsto> NewClient)\<rparr>)"
    using st by (auto split: option.splits)
  have "agrees (hb_subscribers h) i NewClient" using hub_ok_known [OF ok] new(1) by (fastforce simp: agrees_def NewClient_def)
  then show ?thesis using new(2) hub_ok_client [OF ok, of i NewClient] by (simp add: client_ok_def NewClient_def)
next
  case (Publish ch m)
  then show ?thesis using st publish_ok [OF ok] by auto
next
  case (Receive i checked req)
  have "user \<noteq> None \<and> user_id user \<in> U i" if "checked = Inr user" for user
    using al that Receive by (simp add: hub_allowed_def)
  then show ?thesis using st Receive receive_ok by (intro on_client_ok [OF ok]) auto
next
  case (Task i)
  then show ?thesis using st run_task_ok [OF ok] by (auto split: option.splits)
next
  case (WriterTake i)
  then show ?thesis using st writer_take_ok by (intro on_client_ok [OF ok]) auto
next
  case (WriterForward i)
  then show ?thesis using st writer_forward_ok by (intro on_client_ok [OF ok]) auto
next
  case (L2Turn i)
  then show ?thesis using st l2_turn_ok by (intro on_client_ok [OF ok]) auto
next
  case (L2Send i)
  then show ?thesis using st l2_send_ok by (intro on_client_ok [OF ok]) auto
next
  case (ReaderStops i chs)
  then obtain c where c: "hb_clients h i = Some c" "cl_reading c" "cl_tasks c = []"
      "r = Inr (client_close chs i (c\<lparr>cl_reading := False\<rparr>) h)"
    using st by (auto simp: reader_stops_def split: option.splits if_splits)
  have "set chs = cl_channels c" using al c(1) ReaderStops by (simp add: hub_allowed_def)
  with close_ok [OF ok c(1), of chs "c\<lparr>cl_reading := False\<rparr>"] hub_okD(1) [OF ok c(1)] c(3,4)
  show ?thesis by (simp add: client_ok_def)
next
  case (WriterStops i chs)
  then obtain c where c: "hb_clients h i = Some c" "r = Inr (client_close chs i (c\<lparr>cl_writing := False\<rparr>) h)"
    using st by (auto simp: writer_stops_def split: option.splits if_splits)
  have "set chs = cl_channels c" using al c(1) WriterStops by (simp add: hub_allowed_def)
  with close_ok [OF ok c(1), of chs "c\<lparr>cl_writing := False\<rparr>"] hub_okD(1) [OF ok c(1)] c(2)
  show ?thesis by (simp add: client_ok_def)
next
  case (NewLevel2 p l)
  then show ?thesis using st ok by (auto simp: hub_ok_def)
next
  case (NewTicker p t)
  then show ?thesis using st ok by (auto simp: hub_ok_def)
qed

interpretation push_server: machine hub_step "hub_allowed U" "hub_ok U"
  for U
  by unfold_locales (use hub_step_ok in blast)

lemma newSubscription_ok: "hub_ok U newSubscription"
  by (simp add: hub_ok_def newSubscription_def member_def)

lemma reached_ok: "reaches hub_step (hub_allowed U) newSubscription h \<Longrightarrow> hub_ok U h"
  by (rule push_server.reaches_good [OF _ newSubscription_ok])

subsection \<open>What the server guarantees\<close>


text \<open>A user subscribes to its orders and to the level 2 channel, and is sent an order.\<close>

definition some_token :: "string + user option" where
  "some_token = Inr (Some \<lparr>usr_Id = 7, usr_UserId = [], usr_Email = [], usr_PasswordHash = [], usr_UserLevel = []\<rparr>)"

definition some_request :: push_request where
  "some_request = \<lparr>rq_Type = ''subscribe'', rq_ProductIds = [''BTC''], rq_CurrencyIds = [], rq_Channels = [ChannelOrder, ChannelLevel2], rq_Token = []\<rparr>"

definition some_events :: "hub_event list" where
  "some_events = [Connect 1, Receive 1 some_token some_request, Task 1, Task 1, Task 1]"


text \<open>Without users for all accepted tokens it is different: a token that outlives its user panics the server.\<close>

lemma token_without_user_panics:
  "\<exists>h. reaches hub_step (\<lambda>ev h. True) newSubscription h \<and> hub_step (Task 1) h = Some (Inl (Panic ''nil pointer dereference''))"
proof -
  let ?evs = "[Connect 1, Receive 1 (Inr None) (some_request\<lparr>rq_Channels := [ChannelTrade]\<rparr>)]"
  obtain h where h: "run_machine hub_step ?evs newSubscription = Some (Inr h)"
    "hub_step (Task 1) h = Some (Inl (Panic ''nil pointer dereference''))"
    by (simp add: some_request_def newSubscription_def on_client_def NewClient_def receive_def
        onMessage_def onSub_def sub_tasks_def ChannelOrder_def ChannelLevel2_def ChannelFunds_def ChannelMatch_def ChannelTrade_def
        user_id_def run_task_def Let_def)
  have "reaches hub_step (\<lambda>ev h. True) newSubscription h"
    by (rule run_machine_reaches [OF h(1)]) (rule allowed_runI, simp)
  with h(2) show ?thesis by blast
qed

end
