(* ===== verification/Push_Correct.thy ===== *)
theory Push_Correct
  imports Push_Book Applier
begin

text \<open>
  The push server's book is right: its levels are the sums of its orders, whatever it is told to save,
  and after it has followed the logs of any run of the matching engine its orders are the orders that
  rest in the engine's book.
\<close>

subsection \<open>Saving an order keeps the levels\<close>

definition saved_orders :: "(u64 \<rightharpoonup> 'd::linordered_idom book_order) \<Rightarrow> u64 \<Rightarrow> 'd \<Rightarrow> side \<Rightarrow> 'd \<Rightarrow> (u64 \<rightharpoonup> 'd book_order)" where
  "saved_orders m i n s p = (if n = 0 then m(i := None) else m(i \<mapsto> saved_order i n s p))"

definition level_size :: "(u64 \<rightharpoonup> 'd::linordered_idom book_order) \<Rightarrow> side \<Rightarrow> 'd \<Rightarrow> 'd" where
  "level_size m s p = (case level_of m s p of None \<Rightarrow> 0 | Some l \<Rightarrow> lv_Size l)"

text \<open>The change that the subscribers are told: the new size of the level where the order is.\<close>

definition change_at :: "('d::linordered_idom, 'l) push_env \<Rightarrow> ('d, 'l) push_book \<Rightarrow> (u64 \<rightharpoonup> 'd book_order) \<Rightarrow>
    side \<Rightarrow> 'd \<Rightarrow> l2_change" where
  "change_at E b m s p = \<lparr>lc_Seq = pb_seq b + 1, lc_ProductId = pb_productId b, lc_Side = s,
     lc_Price = dec_string (pdec E) p, lc_Size = dec_string (pdec E) (level_size m s p)\<rparr>"

definition save_ok :: "('d::linordered_idom, 'l) push_env \<Rightarrow> int \<Rightarrow> int \<Rightarrow> u64 \<Rightarrow> 'd \<Rightarrow> side \<Rightarrow> 'd \<Rightarrow> ('d, 'l) push_book \<Rightarrow>
    l2_change option \<Rightarrow> ('d, 'l) push_book \<Rightarrow> bool" where
  "save_ok E off sq i n s p b c b' \<longleftrightarrow> push_inv E b' \<and> pb_orders b' = saved_orders (pb_orders b) i n s p \<and>
     pb_productId b' = pb_productId b \<and>
     (\<forall>s' p'. s' \<noteq> s \<or> p' \<noteq> p \<longrightarrow> level_of (pb_orders b') s' p' = level_of (pb_orders b) s' p') \<and>
     (if pb_orders b i = None \<and> n = 0 then c = None \<and> b' = b
      else c = Some (change_at E b (pb_orders b') s p) \<and> valid_side s \<and>
        pb_seq b' = pb_seq b + 1 \<and> pb_logSeq b' = sq \<and> pb_logOffset b' = off)"

lemma level_of_price: "level_of m s p = Some l \<Longrightarrow> lv_Price l = p"
  by (auto simp: level_of_def split: if_splits)

lemma push_inv_levels:
  assumes "push_inv E b" and "valid_side s"
  obtains q where "pb_depths b s = Some q" and "tm_made (lmap E) (level_cmp s) q"
    and "\<And>p. map_of (tm_iter (lmap E) q) p = level_of (pb_orders b) s p"
proof -
  have "s \<in> dom (pb_depths b)" using assms by (auto simp: push_inv_def valid_side_def)
  then obtain q where "pb_depths b s = Some q" by blast
  then show thesis using that [of q] assms(1) by (simp add: push_inv_def)
qed

text \<open>Putting or removing one level.\<close>

lemma push_inv_upd:
  assumes laws: "treemap_laws (lmap E)" and inv: "push_inv E b" and vs: "valid_side s" and fit: "orders_fit m"
    and q: "pb_depths b s = Some q"
    and q': "q' = (case l of None \<Rightarrow> tm_remove (lmap E) q p | Some v \<Rightarrow> tm_put (lmap E) q p v)"
    and lv: "\<And>s' p'. level_of m s' p' = (if s' = s \<and> p' = p then l else level_of (pb_orders b) s' p')"
    and b': "pb_depths b' = (pb_depths b)(s \<mapsto> q')" "pb_orders b' = m"
  shows "push_inv E b'"
proof -
  have made: "tm_made (lmap E) (level_cmp s) q" and it: "\<And>p. map_of (tm_iter (lmap E) q) p = level_of (pb_orders b) s p"
    using inv q by (auto simp: push_inv_def)
  note L = treemap_lawsD [OF laws level_cmp_ok [of s]]
  have "tm_made (lmap E) (level_cmp s) q'" unfolding q' using made by (auto intro: tm_made.intros split: option.splits)
  moreover have "map_of (tm_iter (lmap E) q') p' = level_of m s p'" for p'
    unfolding q' lv by (auto simp: L(2,3) [OF made] map_of_sl_ins [OF level_cmp_ok] map_of_sl_del [OF level_cmp_ok] it
        split: option.splits)
  moreover have "map_of (tm_iter (lmap E) qq) p' = level_of m s' p'" if "s' \<noteq> s" "pb_depths b s' = Some qq" for s' qq p'
    using inv that by (simp add: push_inv_def lv)
  moreover have "dom (pb_depths b') = {SideBuy, SideSell}" using inv vs by (auto simp: push_inv_def b' valid_side_def)
  ultimately show ?thesis using inv fit by (auto simp: push_inv_def b' split: if_splits)
qed

lemma save_new_ok:
  assumes laws: "treemap_laws (lmap E)" and inv: "push_inv E b" and "0 \<le> n" and vs: "n \<noteq> 0 \<Longrightarrow> valid_side s"
    and none: "pb_orders b i = None"
  shows "\<exists>c b'. save_new E off sq i n p s b = Inr (c, b') \<and> save_ok E off sq i n s p b c b'"
proof (cases "n = 0")
  case True
  then show ?thesis using inv none by (simp add: save_new_def save_ok_def saved_orders_def fun_upd_idem)
next
  case False
  obtain q where q: "pb_depths b s = Some q" "tm_made (lmap E) (level_cmp s) q"
      "\<And>p. map_of (tm_iter (lmap E) q) p = level_of (pb_orders b) s p"
    using push_inv_levels [OF inv vs [OF False]] by blast
  have get: "tm_get (lmap E) q p = level_of (pb_orders b) s p"
    using tm_get_eq [OF laws level_cmp_ok q(2)] q(3) by simp
  define lv where "lv = (case level_of (pb_orders b) s p of
        None \<Rightarrow> \<lparr>lv_Price = p, lv_Size = n, lv_OrderCount = 1\<rparr>
      | Some l \<Rightarrow> l\<lparr>lv_Size := lv_Size l + n, lv_OrderCount := lv_OrderCount l + 1\<rparr>)"
  define b1 where "b1 = b\<lparr>pb_orders := (pb_orders b)(i \<mapsto> saved_order i n s p),
      pb_depths := (pb_depths b)(s \<mapsto> tm_put (lmap E) q p lv)\<rparr>"
  have r: "save_new E off sq i n p s b = Inr (save_done E off sq s lv b1)"
    using False by (simp add: save_new_def q(1) get lv_def b1_def Let_def)
  have fit: "orders_fit (pb_orders b)" "finite (dom (pb_orders b))" using inv by (simp_all add: push_inv_def orders_fit_def)
  have lev: "level_of ((pb_orders b)(i \<mapsto> saved_order i n s p)) s' p' =
      (if s' = s \<and> p' = p then Some lv else level_of (pb_orders b) s' p')" for s' p'
    unfolding level_of_add [OF fit(2) none] by (simp add: saved_order_def lv_def cong: option.case_cong)
  have "push_inv E b1"
  proof (rule push_inv_upd [OF laws inv vs [OF False] _ q(1), where l = "Some lv" and p = p])
    show "orders_fit ((pb_orders b)(i \<mapsto> saved_order i n s p))"
      using fit(1) assms(3) False vs by (auto simp: orders_fit_def saved_order_def)
  qed (simp_all add: b1_def lev)
  moreover have "lv_Price lv = p" by (auto simp: lv_def level_of_price split: option.splits)
  ultimately have "save_ok E off sq i n s p b (fst (save_done E off sq s lv b1)) (snd (save_done E off sq s lv b1))"
    using False none vs lev by (simp add: save_ok_def save_done_def b1_def saved_orders_def push_inv_def change_at_def level_size_def)
  then show ?thesis using r by (metis prod.collapse)
qed

lemma save_old_ok:
  assumes laws: "treemap_laws (lmap E)" and inv: "push_inv E b" and "0 \<le> n"
    and o1: "pb_orders b i = Some o1" and at: "bo_Price o1 = p" "bo_Side o1 = s"
  shows "\<exists>c b'. save_old E off sq o1 i n p s b = Inr (c, b') \<and> save_ok E off sq i n s p b c b'"
proof -
  have fit: "orders_fit (pb_orders b)" "finite (dom (pb_orders b))" using inv by (simp_all add: push_inv_def orders_fit_def)
  then have o1_eq: "o1 = saved_order i (bo_Size o1) s p" and vs: "valid_side s" and pos: "0 < bo_Size o1"
    using o1 at by (auto simp: orders_fit_def)
  have id: "bo_OrderId o1 = i" "o1\<lparr>bo_Size := n\<rparr> = saved_order i n s p"
    by (subst o1_eq, simp add: saved_order_def)+
  obtain q where q: "pb_depths b s = Some q" "tm_made (lmap E) (level_cmp s) q"
      "\<And>p. map_of (tm_iter (lmap E) q) p = level_of (pb_orders b) s p"
    using push_inv_levels [OF inv vs] by blast
  have get: "tm_get (lmap E) q p = level_of (pb_orders b) s p"
    using tm_get_eq [OF laws level_cmp_ok q(2)] q(3) by simp
  have "i \<in> ids_at (pb_orders b) s p" using o1 at by (simp add: ids_at_def)
  then have "level_of (pb_orders b) s p \<noteq> None" by (auto simp: level_of_def)
  then obtain l where l: "level_of (pb_orders b) s p = Some l" by blast
  define m where "m = saved_orders (pb_orders b) i n s p"
  define l1 where "l1 = l\<lparr>lv_Size := lv_Size l - (bo_Size o1 - n)\<rparr>"
  define lv where "lv = (if lv_Size l1 \<noteq> 0 \<and> n = 0 then l1\<lparr>lv_OrderCount := lv_OrderCount l1 - 1\<rparr> else l1)"
  define q' where "q' = (if lv_Size lv = 0 then tm_remove (lmap E) q p else tm_put (lmap E) q p lv)"
  define b1 where "b1 = b\<lparr>pb_orders := m, pb_depths := (pb_depths b)(s \<mapsto> q')\<rparr>"
  have r: "save_old E off sq o1 i n p s b = Inr (save_done E off sq s lv b1)"
    by (simp add: save_old_def q(1) get l lv_def l1_def b1_def q'_def m_def saved_orders_def id Let_def)
  have fit': "orders_fit m"
    using fit(1) assms(3) vs by (auto simp: m_def saved_orders_def orders_fit_def saved_order_def)
  have zero: "n \<noteq> 0 \<Longrightarrow> lv_Size lv \<noteq> 0"
  proof -
    assume n: "n \<noteq> 0"
    then have "level_of m s p = Some lv"
      using level_of_resize [OF fit(2) o1, of n s p] at l by (simp add: m_def saved_orders_def id lv_def l1_def)
    moreover have "\<And>j. j \<in> ids_at m s p \<Longrightarrow> 0 < bo_Size (the (m j))" "finite (ids_at m s p)"
      using fit' ids_at_finite by (auto simp: orders_fit_def ids_at_def)
    ultimately show "lv_Size lv \<noteq> 0"
      using sum_pos [of "ids_at m s p" "\<lambda>j. bo_Size (the (m j))"] by (auto simp: level_of_def split: if_splits)
  qed
  have lev: "level_of m s' p' = (if s' = s \<and> p' = p then (if lv_Size lv = 0 then None else Some lv) else level_of (pb_orders b) s' p')"
    for s' p'
  proof (cases "n = 0")
    case True
    then show ?thesis
      using level_of_remove [OF fit(1) o1, of s' p'] at l by (auto simp: m_def saved_orders_def lv_def l1_def)
  next
    case False
    then show ?thesis
      using level_of_resize [OF fit(2) o1, of n s' p'] at l zero by (auto simp: m_def saved_orders_def id lv_def l1_def)
  qed
  have "push_inv E b1"
    by (rule push_inv_upd [OF laws inv vs fit' q(1), where l = "if lv_Size lv = 0 then None else Some lv" and p = p])
      (simp_all add: b1_def q'_def lev)
  moreover have "lv_Price lv = p" using level_of_price [OF l] by (simp add: lv_def l1_def)
  ultimately have "save_ok E off sq i n s p b (fst (save_done E off sq s lv b1)) (snd (save_done E off sq s lv b1))"
    using lev vs by (simp add: save_ok_def save_done_def b1_def push_inv_def m_def change_at_def level_size_def o1)
  then show ?thesis using r by (metis prod.collapse)
qed

lemma saveOrder_ok:
  assumes "treemap_laws (lmap E)" and "push_inv E b" and "0 \<le> n"
    and "pb_orders b i = None \<Longrightarrow> n \<noteq> 0 \<Longrightarrow> valid_side s"
    and "\<And>o1. pb_orders b i = Some o1 \<Longrightarrow> bo_Price o1 = p \<and> bo_Side o1 = s"
  obtains c b' where "saveOrder E off sq i n p s b = Inr (c, b')"
    and "save_ok E off sq i n s p b c b'"
proof (cases "pb_orders b i")
  case None
  then show thesis using that save_new_ok [OF assms(1-3) assms(4) None, where off = off and sq = sq and p = p] None assms(3) by (auto simp: saveOrder_def)
next
  case (Some o1)
  then show thesis using that save_old_ok [OF assms(1-3) Some, where off = off and sq = sq and p = p and s = s] Some assms(3,5) by (auto simp: saveOrder_def)
qed

end
