(* ===== verification/Push_Follow.thy ===== *)
theory Push_Follow
  imports Push_Correct
begin

text \<open>
  The push server's book follows the engine's book. A map from ids to saved orders stands between the
  two: \<open>follow_map\<close> is what a log does to it, \<open>follow_log_ok\<close> shows that the push book does this, and
  \<open>apply_order_holds\<close> that the map keeps holding exactly the orders that rest in the engine's book.
\<close>

subsection \<open>What a log does to the orders\<close>

fun follow_map :: "'d::linordered_idom log \<Rightarrow> (u64 \<rightharpoonup> 'd book_order) \<Rightarrow> (u64 \<rightharpoonup> 'd book_order)" where
  "follow_map (DoneLog l) m = (case m (dl_OrderId l) of None \<Rightarrow> m
     | Some o1 \<Rightarrow> saved_orders m (dl_OrderId l) (bo_Size o1 - dl_RemainingSize l) (dl_Side l) (dl_Price l))"
| "follow_map (OpenLog l) m = saved_orders m (ol_OrderId l) (ol_RemainingSize l) (ol_Side l) (ol_Price l)"
| "follow_map (MatchLog l) m = (case m (ml_MakerOrderId l) of None \<Rightarrow> m
     | Some o1 \<Rightarrow> saved_orders m (ml_MakerOrderId l) (bo_Size o1 - ml_Size l) (ml_Side l) (ml_Price l))"

definition at_level :: "'d book_order \<Rightarrow> side \<Rightarrow> 'd \<Rightarrow> bool" where
  "at_level o1 s p \<longleftrightarrow> bo_Side o1 = s \<and> bo_Price o1 = p"

text \<open>A log that the push book can follow: its sizes do not become negative, and it names the side
  and price under which the order was saved.\<close>

fun log_fits :: "'d::linordered_idom log \<Rightarrow> (u64 \<rightharpoonup> 'd book_order) \<Rightarrow> bool" where
  "log_fits (DoneLog l) m = (case m (dl_OrderId l) of None \<Rightarrow> True
     | Some o1 \<Rightarrow> dl_RemainingSize l \<le> bo_Size o1 \<and> at_level o1 (dl_Side l) (dl_Price l))"
| "log_fits (OpenLog l) m = (0 \<le> ol_RemainingSize l \<and> valid_side (ol_Side l) \<and>
     (case m (ol_OrderId l) of None \<Rightarrow> True | Some o1 \<Rightarrow> at_level o1 (ol_Side l) (ol_Price l)))"
| "log_fits (MatchLog l) m = (case m (ml_MakerOrderId l) of None \<Rightarrow> False
     | Some o1 \<Rightarrow> ml_Size l \<le> bo_Size o1 \<and> at_level o1 (ml_Side l) (ml_Price l))"

fun follow_maps :: "'d::linordered_idom log list \<Rightarrow> (u64 \<rightharpoonup> 'd book_order) \<Rightarrow> (u64 \<rightharpoonup> 'd book_order)" where
  "follow_maps [] m = m"
| "follow_maps (l # ls) m = follow_maps ls (follow_map l m)"

fun logs_fit :: "'d::linordered_idom log list \<Rightarrow> (u64 \<rightharpoonup> 'd book_order) \<Rightarrow> bool" where
  "logs_fit [] m \<longleftrightarrow> True"
| "logs_fit (l # ls) m \<longleftrightarrow> log_fits l m \<and> logs_fit ls (follow_map l m)"

lemma follow_maps_append [simp]: "follow_maps (xs @ ys) m = follow_maps ys (follow_maps xs m)"
  by (induction xs arbitrary: m) auto

lemma logs_fit_append [simp]: "logs_fit (xs @ ys) m \<longleftrightarrow> logs_fit xs m \<and> logs_fit ys (follow_maps xs m)"
  by (induction xs arbitrary: m) auto

text \<open>A log that changes the book (the closing of an order that is not in it does not), and the level
  that it changes.\<close>

fun effective :: "'d::linordered_idom log \<Rightarrow> (u64 \<rightharpoonup> 'd book_order) \<Rightarrow> bool" where
  "effective (DoneLog l) m \<longleftrightarrow> m (dl_OrderId l) \<noteq> None"
| "effective (OpenLog l) m \<longleftrightarrow> m (ol_OrderId l) \<noteq> None \<or> ol_RemainingSize l \<noteq> 0"
| "effective (MatchLog l) m \<longleftrightarrow> True"

fun log_level :: "'d log \<Rightarrow> side \<times> 'd" where
  "log_level (DoneLog l) = (dl_Side l, dl_Price l)"
| "log_level (OpenLog l) = (ol_Side l, ol_Price l)"
| "log_level (MatchLog l) = (ml_Side l, ml_Price l)"

definition followed :: "('d::linordered_idom, 'l) push_env \<Rightarrow> int \<Rightarrow> 'd log \<Rightarrow> ('d, 'l) push_book \<Rightarrow>
    l2_change option option \<Rightarrow> ('d, 'l) push_book \<Rightarrow> bool" where
  "followed E off l b c b' \<longleftrightarrow> push_inv E b' \<and> pb_orders b' = follow_map l (pb_orders b) \<and> pb_productId b' = pb_productId b \<and>
     (\<forall>s p. (s, p) \<noteq> log_level l \<longrightarrow> level_of (pb_orders b') s p = level_of (pb_orders b) s p) \<and>
     (if effective l (pb_orders b)
      then c = Some (Some (change_at E b (pb_orders b') (fst (log_level l)) (snd (log_level l)))) \<and> valid_side (fst (log_level l)) \<and>
        pb_seq b' = pb_seq b + 1 \<and> pb_logSeq b' = GetSeq l \<and> pb_logOffset b' = off
      else (c = None \<or> c = Some None) \<and> b' = b)"

lemma save_known:
  assumes laws: "treemap_laws (lmap E)" and inv: "push_inv E b" and o1: "pb_orders b i = Some o1"
    and "at_level o1 s p" and "d \<le> bo_Size o1"
  shows "\<exists>c b'. saveOrder E off sq i (bo_Size o1 - d) p s b = Inr (c, b') \<and> save_ok E off sq i (bo_Size o1 - d) s p b c b'"
  by (rule saveOrder_ok [OF laws inv, where n = "bo_Size o1 - d" and i = i and s = s and p = p and off = off and sq = sq])
    (use assms(3-5) in \<open>auto simp: at_level_def\<close>)

lemma follow_log_ok:
  assumes laws: "treemap_laws (lmap E)" and inv: "push_inv E b" and fits: "log_fits l (pb_orders b)"
  shows "\<exists>c b'. follow_log E off l b = Inr (c, b') \<and> followed E off l b c b'"
proof (cases l)
  case (OpenLog x)
  have "\<exists>c b'. saveOrder E off (bs_Sequence x) (ol_OrderId x) (ol_RemainingSize x) (ol_Price x) (ol_Side x) b = Inr (c, b') \<and>
      save_ok E off (bs_Sequence x) (ol_OrderId x) (ol_RemainingSize x) (ol_Side x) (ol_Price x) b c b'"
    by (rule saveOrder_ok [OF laws inv, where n = "ol_RemainingSize x" and i = "ol_OrderId x" and s = "ol_Side x"
        and p = "ol_Price x" and off = off and sq = "bs_Sequence x"])
      (use fits OpenLog in \<open>auto simp: at_level_def\<close>)
  then show ?thesis by (fastforce simp: OpenLog followed_def save_ok_def)
next
  case (MatchLog x)
  then obtain o1 where o1: "pb_orders b (ml_MakerOrderId x) = Some o1" using fits by (auto split: option.splits)
  show ?thesis
    using save_known [OF laws inv o1, of "ml_Side x" "ml_Price x" "ml_Size x" off "bs_Sequence x"] fits
    by (fastforce simp: MatchLog o1 followed_def save_ok_def)
next
  case (DoneLog x)
  show ?thesis
  proof (cases "pb_orders b (dl_OrderId x)")
    case None
    then show ?thesis using inv by (simp add: DoneLog followed_def)
  next
    case o1: (Some o1)
    show ?thesis
      using save_known [OF laws inv o1, of "dl_Side x" "dl_Price x" "dl_RemainingSize x" off "bs_Sequence x"] fits
      by (fastforce simp: DoneLog o1 followed_def save_ok_def)
  qed
qed

lemma follow_logs_ok:
  assumes "treemap_laws (lmap E)" and "push_inv E b" and "logs_fit (map snd ms) (pb_orders b)"
  shows "\<exists>b'. follow_logs E ms b = Inr b' \<and> push_inv E b' \<and> pb_orders b' = follow_maps (map snd ms) (pb_orders b) \<and>
    pb_productId b' = pb_productId b"
  using assms(2,3)
proof (induction ms arbitrary: b)
  case (Cons m ms)
  obtain off l where m: "m = (off, l)" by (cases m)
  obtain c b1 where b1: "follow_log E off l b = Inr (c, b1)" "push_inv E b1"
      "pb_orders b1 = follow_map l (pb_orders b)" "pb_productId b1 = pb_productId b"
    using follow_log_ok [OF assms(1) Cons.prems(1), of l off] Cons.prems(2) by (auto simp: m followed_def)
  then show ?case using Cons.IH [OF b1(2)] Cons.prems(2) by (simp add: m)
qed simp

subsection \<open>A map that holds a set of orders\<close>

definition saved_of :: "'d::zero book_order \<Rightarrow> 'd book_order" where
  "saved_of o1 = saved_order (bo_OrderId o1) (bo_Size o1) (bo_Side o1) (bo_Price o1)"

definition holds :: "(u64 \<rightharpoonup> 'd::zero book_order) \<Rightarrow> 'd book_order set \<Rightarrow> bool" where
  "holds m S \<longleftrightarrow> (\<forall>i o1. m i = Some o1 \<longleftrightarrow> (\<exists>x\<in>S. bo_OrderId x = i \<and> o1 = saved_of x))"

lemma saved_of_simps [simp]:
  "bo_Size (saved_of x) = bo_Size x" "bo_Side (saved_of x) = bo_Side x" "bo_Price (saved_of x) = bo_Price x"
  by (simp_all add: saved_of_def saved_order_def)

lemma holds_mem: "holds m S \<Longrightarrow> x \<in> S \<Longrightarrow> m (bo_OrderId x) = Some (saved_of x)"
  unfolding holds_def by blast

lemma holds_none: "holds m S \<Longrightarrow> i \<notin> bo_OrderId ` S \<Longrightarrow> m i = None"
  unfolding holds_def by (metis image_eqI not_Some_eq)

lemma holds_one_side: "holds m S \<Longrightarrow> x \<in> S \<Longrightarrow> y \<in> S \<Longrightarrow> bo_OrderId x = bo_OrderId y \<Longrightarrow> bo_Side x = bo_Side y"
  by (metis holds_mem option.inject saved_of_simps(2))

text \<open>Saving an order puts it into the set, in place of the one that had its id.\<close>

lemma holds_saved:
  assumes "holds m S" and "bo_OrderId x = i" and "at_level x s p" and "bo_Size x = n"
  shows "holds (saved_orders m i n s p) ({y \<in> S. bo_OrderId y \<noteq> i} \<union> (if n = 0 then {} else {x}))"
proof -
  have x: "saved_order i n s p = saved_of x" using assms(2-4) by (simp add: saved_of_def at_level_def)
  have "(saved_orders m i n s p) j = Some o1 \<longleftrightarrow>
      (\<exists>y\<in>{y \<in> S. bo_OrderId y \<noteq> i} \<union> (if n = 0 then {} else {x}). bo_OrderId y = j \<and> o1 = saved_of y)" for j o1
  proof (cases "j = i")
    case True
    then show ?thesis using assms(2) by (auto simp: saved_orders_def x)
  next
    case False
    then have "(saved_orders m i n s p) j = m j" by (simp add: saved_orders_def)
    then show ?thesis using assms(1,2) False unfolding holds_def by auto
  qed
  then show ?thesis unfolding holds_def by blast
qed

lemma without_id: "i \<notin> bo_OrderId ` S \<Longrightarrow> {y \<in> S. bo_OrderId y \<noteq> i} = S"
  by auto

subsection \<open>Trades\<close>

lemma match_list_left_nonneg:
  assumes "match_list E product taker makers = Inr (taker', makers', trades)" and "(m, sz) \<in> set trades"
  shows "0 \<le> bo_Size m"
  using assms
proof (induction rule: match_list_induct)
  case (last taker taker' maker makers sz' fc ex maker')
  then show ?case using calcTradeSize_le [OF last(2,3)] by auto
next
  case (more taker taker1 taker' maker makers sz' fc ex maker' makers' trades)
  then show ?case using calcTradeSize_le [OF more(2,3)] by auto
qed auto

lemma left_of_ids: "bo_OrderId ` set (left_of trades) \<subseteq> bo_OrderId ` set (before trades)"
  by (induction trades) auto

lemma trades_follow:
  assumes "holds m (set (before trades) \<union> R)" and "distinct (map bo_OrderId (before trades))"
    and "bo_OrderId ` set (before trades) \<inter> bo_OrderId ` R = {}" and "\<And>x sz. (x, sz) \<in> set trades \<Longrightarrow> 0 \<le> bo_Size x"
  shows "logs_fit (trade_logs E pid taker ls ts trades) m \<and>
    holds (follow_maps (trade_logs E pid taker ls ts trades) m) (set (left_of trades) \<union> R)"
  using assms
proof (induction trades arbitrary: m R ls ts)
  case Nil
  then show ?case by simp
next
  case (Cons t trades)
  obtain x sz where t: "t = (x, sz)" by (cases t)
  define i where "i = bo_OrderId x"
  define x0 where "x0 = x\<lparr>bo_Size := bo_Size x + sz\<rparr>"
  define R' where "R' = R \<union> (if bo_Size x = 0 then {} else {x})"
  define m1 where "m1 = saved_orders m i (bo_Size x) (bo_Side x) (bo_Price x)"
  have S: "set (before (t # trades)) \<union> R = insert x0 (set (before trades) \<union> R)" by (simp add: t x0_def)
  have i: "i \<notin> bo_OrderId ` (set (before trades) \<union> R)" using Cons.prems(2,3) by (auto simp: t i_def)
  have x0: "m i = Some (saved_of x0)"
    using holds_mem [OF Cons.prems(1), of x0] by (simp add: S x0_def i_def)
  have "bo_OrderId x0 = i" by (simp add: x0_def i_def)
  then have "{y \<in> insert x0 (set (before trades) \<union> R). bo_OrderId y \<noteq> i} = set (before trades) \<union> R"
    using without_id [OF i] by auto
  then have m1: "holds m1 (set (before trades) \<union> R')"
    using holds_saved [OF Cons.prems(1), of x i "bo_Side x" "bo_Price x" "bo_Size x"]
    by (simp add: m1_def S R'_def at_level_def i_def Un_assoc)
  have none: "bo_Size x = 0 \<Longrightarrow> m1 i = None" by (simp add: m1_def saved_orders_def)
  have IH: "logs_fit (trade_logs E pid taker l1 t1 trades) m1 \<and>
      holds (follow_maps (trade_logs E pid taker l1 t1 trades) m1) (set (left_of trades) \<union> R')" for l1 t1
  proof (rule Cons.IH [OF m1])
    show "bo_OrderId ` set (before trades) \<inter> bo_OrderId ` R' = {}"
      using Cons.prems(2,3) by (auto simp: R'_def t)
  qed (use Cons.prems in \<open>auto simp: t\<close>)
  have match: "log_fits (newMatchLog E l1 pid t1 taker x (bo_Price x) sz) m"
      "follow_map (newMatchLog E l1 pid t1 taker x (bo_Price x) sz) m = m1" for l1 t1
    using Cons.prems(4) x0 by (auto simp: newMatchLog_def at_level_def m1_def i_def x0_def t)
  have closed: "log_fits (newDoneLog E l1 pid x 0 DoneReasonFilled) m1"
      "follow_map (newDoneLog E l1 pid x 0 DoneReasonFilled) m1 = m1" if "bo_Size x = 0" for l1
    using none that by (simp_all add: newDoneLog_def i_def)
  show ?case
  proof (cases "bo_Size x = 0")
    case True
    then show ?thesis using IH closed match by (simp add: t R'_def)
  next
    case False
    then show ?thesis using IH match by (simp add: t R'_def)
  qed
qed

subsection \<open>The operations of the engine's book\<close>

definition book_orders :: "('d, 'q) env \<Rightarrow> ('d, 'q) order_book \<Rightarrow> 'd book_order set" where
  "book_orders E b = (\<Union>s. set (book_view E b s))"

definition resting_ids :: "('d, 'q) env \<Rightarrow> ('d, 'q) order_book \<Rightarrow> u64 set" where
  "resting_ids E b = bo_OrderId ` book_orders E b"

definition follows :: "('d::linordered_idom, 'q) env \<Rightarrow> (u64 \<rightharpoonup> 'd book_order) \<Rightarrow> 'd log list \<Rightarrow> ('d, 'q) order_book \<Rightarrow> bool" where
  "follows E m logs b' \<longleftrightarrow> logs_fit logs m \<and> holds (follow_maps logs m) (book_orders E b')"

lemma follows_append: "follows E m (xs @ ys) b' \<longleftrightarrow> logs_fit xs m \<and> follows E (follow_maps xs m) ys b'"
  by (auto simp: follows_def)

lemma book_orders_sides:
  assumes "book_inv E b" and "valid_side s"
  shows "book_orders E b = set (book_view E b (Opposite s)) \<union> set (book_view E b s)"
proof -
  have "set (book_view E b t) \<subseteq> set (book_view E b (Opposite s)) \<union> set (book_view E b s)" for t
    using book_view_invalid [OF assms(1), of t] assms(2) by (cases "valid_side t") (auto simp: valid_side_def)
  then show ?thesis by (auto simp: book_orders_def)
qed

lemma fresh_not_resting:
  "book_inv E b \<Longrightarrow> \<not> window_refuses (window_of b oid) oid \<Longrightarrow> oid \<notin> resting_ids E b"
  by (auto simp: resting_ids_def book_orders_def dest: book_inv_refuses)

lemma view_distinct:
  assumes "env_laws E" and "book_inv E b"
  shows "distinct (map bo_OrderId (book_view E b s))"
proof (cases "valid_side s")
  case True
  then show ?thesis using book_inv_depth [OF assms(2) True] resting_distinct [OF env_lawsD(1) [OF assms(1)]] by metis
qed (simp add: book_view_invalid [OF assms(2)])

lemma closing_log_follow:
  assumes "m (bo_OrderId x) = None"
  shows "log_fits (closing_log E n pid x) m" and "follow_map (closing_log E n pid x) m = m"
  using assms by (simp_all add: closing_log_def newDoneLog_def)

lemma ApplyOrder_follows:
  assumes laws: "env_laws E" and inv: "book_inv E b" and ok: "order_ok order"
    and app: "ApplyOrder E b order = Inr (b', logs)" and m: "holds m (book_orders E b)"
  shows "follows E m logs b' \<and> resting_ids E b' \<subseteq> insert (ord_Id order) (resting_ids E b)"
proof (cases "window_refuses (window_of b (ord_Id order)) (ord_Id order)")
  case True
  then show ?thesis using ApplyOrder_refused [OF inv ok] app m by (auto simp: follows_def)
next
  case False
  from ApplyOrder_elim [OF laws inv ok False app] obtain taker makers trades n where
    ml: "match_list E (ob_product b) (taker_of E order) (book_view E b (Opposite (ord_Side order))) = Inr (taker, makers, trades)"
    and l: "logs = trade_logs E (prd_Id (ob_product b)) (taker_of E order) (ob_logSeq b) (ob_tradeSeq b) trades @
      [if rests taker then newOpenLog E n (prd_Id (ob_product b)) taker else closing_log E n (prd_Id (ob_product b)) taker]"
    and v: "book_view E b' (Opposite (ord_Side order)) = makers" "book_view E b' (ord_Side order) = (if rests taker
      then rest_ins (ord_Side order) taker (book_view E b (ord_Side order)) else book_view E b (ord_Side order))"
    and id: "same_ident taker (taker_of E order)" and inv': "book_inv E b'" by blast
  define s where "s = ord_Side order"
  define rest where "rest = drop (length trades) (book_view E b (Opposite s))"
  define R where "R = set rest \<union> set (book_view E b s)"
  have s: "valid_side s" using ok by (simp add: order_ok_def s_def)
  have pre: "book_view E b (Opposite s) = before trades @ rest" "makers = left_of trades @ rest"
    using match_list_prefix [OF ml] by (simp_all add: rest_def s_def)
  have S: "book_orders E b = set (before trades) \<union> R" by (auto simp: book_orders_sides [OF inv s] pre(1) R_def)
  have dist: "distinct (map bo_OrderId (before trades @ rest))" using view_distinct [OF laws inv, of "Opposite s"] by (simp add: pre)
  have across: "bo_OrderId x \<noteq> bo_OrderId y" if "x \<in> set (before trades)" "y \<in> set (book_view E b s)" for x y
  proof
    assume "bo_OrderId x = bo_OrderId y"
    then have "bo_Side x = bo_Side y" using holds_one_side [OF m] that by (auto simp: S R_def)
    then show False
      using book_inv_wf [OF inv, of x "Opposite s"] book_inv_wf [OF inv that(2)] that(1) Opposite_neq_self [OF s]
      by (auto simp: pre order_wf_def)
  qed
  define ls where "ls = trade_logs E (prd_Id (ob_product b)) (taker_of E order) (ob_logSeq b) (ob_tradeSeq b) trades"
  have tr: "logs_fit ls m \<and> holds (follow_maps ls m) (set (left_of trades) \<union> R)"
    unfolding ls_def
  proof (rule trades_follow)
    show "bo_OrderId ` set (before trades) \<inter> bo_OrderId ` R = {}" using dist across by (force simp: R_def)
  qed (use m S dist match_list_left_nonneg [OF ml] in auto)
  have ids: "bo_OrderId ` (set (left_of trades) \<union> R) \<subseteq> resting_ids E b"
    using left_of_ids [of trades] by (auto simp: resting_ids_def S)
  have fresh: "bo_OrderId taker \<notin> bo_OrderId ` (set (left_of trades) \<union> R)"
    using fresh_not_resting [OF inv False] ids same_identD(1) [OF id] by auto
  have orders': "book_orders E b' = set (left_of trades) \<union> R \<union> (if rests taker then {taker} else {})"
    using v by (auto simp: book_orders_sides [OF inv' s] s_def [symmetric] pre R_def)
  have "follows E m logs b'"
  proof (cases "rests taker")
    case True
    then have pos: "0 < bo_Size taker" and side: "bo_Side taker = s"
      using same_identD(3) [OF id] by (simp_all add: rests_def s_def)
    have none: "follow_maps ls m (bo_OrderId taker) = None" using holds_none [OF _ fresh] tr by blast
    have "holds (saved_orders (follow_maps ls m) (bo_OrderId taker) (bo_Size taker) s (bo_Price taker)) (book_orders E b')"
      using holds_saved [OF conjunct2 [OF tr], of taker "bo_OrderId taker" s "bo_Price taker" "bo_Size taker"]
        without_id [OF fresh] True pos side by (simp add: orders' at_level_def)
    then show ?thesis
      using tr True pos side s none by (simp add: follows_def l ls_def [symmetric] newOpenLog_def)
  next
    case False
    then show ?thesis
      using tr closing_log_follow [where m = "follow_maps ls m" and x = taker and E = E, OF holds_none [OF conjunct2 [OF tr] fresh]]
      by (simp add: follows_def l ls_def [symmetric] orders')
  qed
  moreover have "resting_ids E b' \<subseteq> insert (ord_Id order) (resting_ids E b)"
    using ids same_identD(1) [OF id] by (auto simp: resting_ids_def [of E b'] orders' split: if_splits)
  ultimately show ?thesis by blast
qed

lemma CancelOrder_follows:
  assumes laws: "env_laws E" and inv: "book_inv E b" and ok: "order_ok order"
    and run: "CancelOrder E b order = Inr (b', logs)" and m: "holds m (book_orders E b)"
  shows "follows E m logs b' \<and> resting_ids E b' \<subseteq> resting_ids E b"
proof -
  define s where "s = ord_Side order"
  have o1: "id_ok (ord_Id order)" "valid_side s" using ok by (simp_all add: order_ok_def s_def)
  from CancelOrder_correct [OF laws inv o1(1), folded s_def, OF o1(2)] run have
    spec: "spec_cancel E (ob_product b) order (abs_book E b) = (abs_book E b', logs)" and inv': "book_inv E b'"
    by (metis Pair_inject sum.inject(2))+
  show ?thesis
  proof (cases "find (\<lambda>x. bo_OrderId x = ord_Id order) (book_view E b s)")
    case None
    then have "book_view E b' = book_view E b" "logs = []"
      using spec by (auto simp: spec_cancel_def abs_book_def s_def [symmetric])
    then show ?thesis using m by (simp add: follows_def book_orders_def resting_ids_def)
  next
    case (Some x)
    then have x: "x \<in> set (book_view E b s)" "bo_OrderId x = ord_Id order" by (auto simp: find_Some_iff)
    have view: "book_view E b' = (book_view E b)(s := rest_del (ord_Id order) (book_view E b s))"
      and l: "logs = [newDoneLog E (ob_logSeq b + 1) (prd_Id (ob_product b)) (x\<lparr>bo_Size := 0\<rparr>) (bo_Size x) DoneReasonCancelled]"
      using spec Some by (auto simp: spec_cancel_def abs_book_def s_def [symmetric])
    have opp: "bo_OrderId y \<noteq> ord_Id order" if y: "y \<in> set (book_view E b (Opposite s))" for y
    proof
      assume "bo_OrderId y = ord_Id order"
      then have "bo_Side y = bo_Side x" using holds_one_side [OF m] x y by (auto simp: book_orders_sides [OF inv o1(2)])
      then show False
        using book_inv_wf [OF inv y] book_inv_wf [OF inv x(1)] Opposite_neq_self [OF o1(2)] by (simp add: order_wf_def)
    qed
    have S: "book_orders E b' = {y \<in> book_orders E b. bo_OrderId y \<noteq> ord_Id order}"
      using opp Opposite_neq_self [OF o1(2)]
      by (auto simp: book_orders_sides [OF inv' o1(2)] book_orders_sides [OF inv o1(2)] view rest_del_def)
    have mx: "m (ord_Id order) = Some (saved_of x)"
      using holds_mem [OF m, of x] x by (auto simp: book_orders_def)
    have "holds (saved_orders m (ord_Id order) 0 (bo_Side x) (bo_Price x)) (book_orders E b')"
      using holds_saved [OF m, of "x\<lparr>bo_Size := 0\<rparr>" "ord_Id order"] x(2) by (simp add: S at_level_def)
    then show ?thesis using x(2) mx by (auto simp: follows_def l newDoneLog_def at_level_def resting_ids_def S)
  qed
qed

text \<open>An order that is closed without being applied must not rest in the book already.\<close>

lemma NullifyOrder_follows:
  assumes inv: "book_inv E b" and ok: "order_ok order" and new: "ord_Id order \<notin> resting_ids E b"
    and run: "NullifyOrder E b order = Inr (b', logs)" and m: "holds m (book_orders E b)"
  shows "follows E m logs b' \<and> resting_ids E b' \<subseteq> resting_ids E b"
proof -
  have "id_ok (ord_Id order)" using ok by (simp add: order_ok_def)
  from NullifyOrder_correct [OF inv this] run have
    l: "logs = [newDoneLog E (ob_logSeq b + 1) (prd_Id (ob_product b)) (newBookOrder order) (ord_Size order) DoneReasonCancelled]"
    and "abs_book E b' = (abs_book E b)\<lparr>ab_logSeq := ob_logSeq b + 1\<rparr>"
    by (metis Pair_inject sum.inject(2))+
  then have S: "book_orders E b' = book_orders E b" by (simp add: abs_book_def book_orders_def)
  have "m (ord_Id order) = None" using holds_none [OF m] new by (simp add: resting_ids_def)
  then show ?thesis using m by (simp add: follows_def l newDoneLog_def S resting_ids_def)
qed

lemma apply_order_follows:
  assumes laws: "env_laws E" and inv: "book_inv E b" and ok: "order_ok order"
    and new: "ord_Status order \<noteq> OrderStatusCancelling \<Longrightarrow> ord_Id order \<notin> resting_ids E b"
    and run: "apply_order E b order = Inr (b', logs)" and m: "holds m (book_orders E b)"
  shows "follows E m logs b' \<and> resting_ids E b' \<subseteq>
    (if ord_Status order = OrderStatusCancelling then {} else {ord_Id order}) \<union> resting_ids E b"
proof (cases "ord_Status order = OrderStatusCancelling")
  case True
  then show ?thesis using CancelOrder_follows [OF laws inv ok _ m] run by (simp add: apply_order_def)
next
  case False
  note A = ApplyOrder_follows [OF laws inv ok _ m] and N = NullifyOrder_follows [OF inv ok new [OF False] _ m]
  note step = run [unfolded apply_order_def if_not_P [OF False]]
  show ?thesis
  proof (cases "ord_TimeInForce order = ImmediateOrCancel")
    case ioc: True
    obtain b1 l1 l2 where a: "ApplyOrder E b order = Inr (b1, l1)" and c: "CancelOrder E b1 order = Inr (b', l2)"
      and l: "logs = l1 @ l2"
      using step unfolding if_P [OF ioc] by (auto simp: bindR_eq_Inr)
    have f1: "follows E m l1 b1" "resting_ids E b1 \<subseteq> insert (ord_Id order) (resting_ids E b)" using A [OF a] by auto
    have "book_inv E b1" using ApplyOrder_step [OF laws inv ok] a by (auto simp: good_step_def)
    then have "follows E (follow_maps l1 m) l2 b' \<and> resting_ids E b' \<subseteq> resting_ids E b1"
      using CancelOrder_follows [OF laws _ ok c, of "follow_maps l1 m"] f1(1) by (simp add: follows_def)
    then show ?thesis using f1 False by (auto simp: l follows_def)
  next
    case False
    then show ?thesis
      using step A N m \<open>ord_Status order \<noteq> OrderStatusCancelling\<close>
      by (auto simp: bindR_eq_Inr follows_def split: if_splits)
  qed
qed

subsection \<open>Runs\<close>

text \<open>No order is sent twice to be applied; cancellations name an order again.\<close>

definition sent_ids :: "'d order list \<Rightarrow> u64 list" where
  "sent_ids orders = map ord_Id (filter (\<lambda>o1. ord_Status o1 \<noteq> OrderStatusCancelling) orders)"

lemma run_orders_follows:
  assumes laws: "env_laws E"
  shows "book_inv E b \<Longrightarrow> list_all order_ok orders \<Longrightarrow> distinct (sent_ids orders) \<Longrightarrow>
    resting_ids E b \<inter> set (sent_ids orders) = {} \<Longrightarrow> run_orders E b orders = Inr (b', logs) \<Longrightarrow>
    holds m (book_orders E b) \<Longrightarrow> follows E m logs b'"
proof (induction orders arbitrary: b m logs)
  case Nil
  then show ?case by (simp add: follows_def)
next
  case (Cons order orders)
  obtain b1 l1 l2 where a: "apply_order E b order = Inr (b1, l1)" and r: "run_orders E b1 orders = Inr (b', l2)"
    and l: "logs = l1 @ l2"
    using Cons.prems(5) by (auto simp: bindR_eq_Inr)
  have ok: "order_ok order" using Cons.prems(2) by simp
  have inv: "book_inv E b1" using apply_order_step [OF laws Cons.prems(1) ok] a by (auto simp: good_step_def)
  have "follows E m l1 b1 \<and> resting_ids E b1 \<subseteq>
      (if ord_Status order = OrderStatusCancelling then {} else {ord_Id order}) \<union> resting_ids E b"
    by (rule apply_order_follows [OF laws Cons.prems(1) ok _ a Cons.prems(6)])
      (use Cons.prems(4) in \<open>auto simp: sent_ids_def\<close>)
  then have step: "follows E m l1 b1" "resting_ids E b1 \<subseteq>
      (if ord_Status order = OrderStatusCancelling then {} else {ord_Id order}) \<union> resting_ids E b" by auto
  have "resting_ids E b1 \<inter> set (sent_ids orders) = {}"
  proof (cases "ord_Status order = OrderStatusCancelling")
    case True
    then have "sent_ids (order # orders) = sent_ids orders" by (simp add: sent_ids_def)
    then show ?thesis using step(2) True Cons.prems(4) by auto
  next
    case False
    then have "sent_ids (order # orders) = ord_Id order # sent_ids orders" by (simp add: sent_ids_def)
    then show ?thesis using step(2) False Cons.prems(3,4) by auto
  qed
  moreover have "distinct (sent_ids orders)" using Cons.prems(3) by (simp add: sent_ids_def split: if_splits)
  ultimately have "follows E (follow_maps l1 m) l2 b'"
    using step(1) Cons.IH [OF inv _ _ _ r, of "follow_maps l1 m"] Cons.prems(2) by (simp add: follows_def)
  then show ?case using step(1) by (simp add: l follows_def)
qed

end
