(* ===== verification/Push_Properties.thy ===== *)
theory Push_Properties
  imports Push_Follow
begin

text \<open>
  What the push server shows is what rests in the engine: the price levels it publishes are the
  levels of the engine's book, and a book restored from its full snapshot is the book that was saved.
\<close>

subsection \<open>The levels of a list of orders\<close>

definition book_level :: "'d::linordered_idom book_order list \<Rightarrow> 'd \<Rightarrow> 'd price_level" where
  "book_level os p = (let xs = filter (\<lambda>o1. bo_Price o1 = p) os in
     \<lparr>lv_Price = p, lv_Size = sum_list (map bo_Size xs), lv_OrderCount = int (length xs)\<rparr>)"

text \<open>The prices of a side, best first, each once, with what rests there.\<close>

definition book_levels :: "'d::linordered_idom book_order list \<Rightarrow> ('d \<times> 'd price_level) list" where
  "book_levels os = map (\<lambda>p. (p, book_level os p)) (remdups_adj (map bo_Price os))"

lemma level_cmp_better: "valid_side s \<Longrightarrow> level_cmp s p p' < 0 \<longleftrightarrow> better s p p'"
  by (auto simp: level_cmp_def DecimalAscComparator_def DecimalDescComparator_def better_def valid_side_def)

lemma remdups_adj_strict:
  assumes "sorted_wrt (\<lambda>p q. better s p q \<or> p = q) ps"
  shows "sorted_wrt (better s) (remdups_adj ps)"
  using assms
proof (induction ps rule: remdups_adj.induct)
  case (3 x y xs)
  have *: "better s x z" if "x \<noteq> y" "z \<in> set (remdups_adj (y # xs))" for z
  proof -
    have "z \<in> set (y # xs)" using that(2) by (simp only: remdups_adj_set)
    then show ?thesis using 3(3) that(1) by (auto simp: better_def split: if_splits)
  qed
  show ?case
  proof (cases "x = y")
    case True
    then show ?thesis using 3 by simp
  next
    case False
    then show ?thesis using 3(2) [OF False] 3(3) * [OF False] by simp
  qed
qed simp_all

lemma book_levels_sorted:
  assumes "prio_sorted s os" and "valid_side s"
  shows "sl_sorted (level_cmp s) (book_levels os)"
proof -
  have "sorted_wrt (\<lambda>p q. better s p q \<or> p = q) (map bo_Price os)"
    unfolding sorted_wrt_map by (rule sorted_wrt_mono_rel [OF _ assms(1) [unfolded prio_sorted_def]]) (auto simp: priority_def)
  from remdups_adj_strict [OF this] show ?thesis
    by (simp add: sl_sorted_def book_levels_def sorted_wrt_map level_cmp_better [OF assms(2)])
qed

lemma map_of_book_levels:
  "map_of (book_levels os) p = (if p \<in> bo_Price ` set os then Some (book_level os p) else None)"
proof -
  have "map_of (map (\<lambda>p. (p, book_level os p)) ps) p = (if p \<in> set ps then Some (book_level os p) else None)" for ps
    by (induction ps) auto
  then show ?thesis by (simp add: book_levels_def)
qed

lemma sl_sorted_fst: "cmp_ok c \<Longrightarrow> sl_sorted c xs \<Longrightarrow> distinct (map fst xs)"
  by (induction xs) (auto simp: sl_sorted_Cons cmp_ok_irrefl)

lemma sl_sorted_map_of:
  assumes "cmp_ok c" and "sl_sorted c xs" and "sl_sorted c ys" and "map_of xs = map_of ys"
  shows "xs = ys"
  using sl_sorted_unique [OF assms(1-3)] map_of_inject_set [of xs ys] sl_sorted_fst [OF assms(1)] assms(2-4) by blast

text \<open>The levels of a map that holds the orders of a book.\<close>

lemma level_of_holds:
  assumes m: "holds m S" and os: "set os \<subseteq> S" "distinct (map bo_OrderId os)"
    and side: "\<And>x. x \<in> S \<Longrightarrow> bo_Side x = s \<longleftrightarrow> x \<in> set os"
  shows "level_of m s p = map_of (book_levels os) p"
proof -
  define xs where "xs = filter (\<lambda>o1. bo_Price o1 = p) os"
  have ids: "ids_at m s p = bo_OrderId ` set xs"
  proof (intro set_eqI iffI)
    fix i assume "i \<in> ids_at m s p"
    then obtain x where "x \<in> S" "bo_OrderId x = i" "bo_Side x = s" "bo_Price x = p"
      using m by (auto simp: ids_at_def holds_def)
    then show "i \<in> bo_OrderId ` set xs" using side by (auto simp: xs_def)
  next
    fix i assume "i \<in> bo_OrderId ` set xs"
    then obtain x where x: "x \<in> set os" "bo_Price x = p" "i = bo_OrderId x" by (auto simp: xs_def)
    then show "i \<in> ids_at m s p" using holds_mem [OF m, of x] os(1) side by (auto simp: ids_at_def)
  qed
  have dist: "distinct (map bo_OrderId xs)" unfolding xs_def using os(2) by (rule distinct_map_filter)
  have inj: "inj_on bo_OrderId (set xs)" using dist by (simp add: distinct_map)
  have "(\<Sum>i\<in>ids_at m s p. bo_Size (the (m i))) = (\<Sum>x\<in>set xs. bo_Size (the (m (bo_OrderId x))))"
    unfolding ids by (rule sum.reindex [OF inj, unfolded o_def])
  also have "\<dots> = (\<Sum>x\<in>set xs. bo_Size x)"
    using holds_mem [OF m] os(1) by (intro sum.cong) (auto simp: xs_def subset_iff)
  also have "\<dots> = sum_list (map bo_Size xs)"
    using dist by (intro sum.distinct_set_conv_list) (simp add: distinct_map)
  finally have size: "(\<Sum>i\<in>ids_at m s p. bo_Size (the (m i))) = sum_list (map bo_Size xs)" .
  have "card (ids_at m s p) = length xs"
    unfolding ids using card_image [OF inj] distinct_card [of xs] dist by (simp add: distinct_map)
  moreover have "ids_at m s p = {} \<longleftrightarrow> p \<notin> bo_Price ` set os" by (auto simp: ids xs_def)
  ultimately show ?thesis
    using size unfolding level_of_def map_of_book_levels book_level_def xs_def [symmetric] Let_def by simp
qed

lemma view_of_side:
  assumes "book_inv E b" and "valid_side s" and "x \<in> book_orders E b"
  shows "bo_Side x = s \<longleftrightarrow> x \<in> set (book_view E b s)"
  using assms(3) book_inv_wf [OF assms(1)] by (auto simp: book_orders_def order_wf_def)

lemma push_levels:
  assumes "env_laws E" and "treemap_laws (lmap P)" and "book_inv E b" and "push_inv P pb"
    and "holds (pb_orders pb) (book_orders E b)" and "valid_side s" and "pb_depths pb s = Some q"
  shows "tm_iter (lmap P) q = book_levels (book_view E b s)"
proof (rule sl_sorted_map_of [OF level_cmp_ok])
  show "sl_sorted (level_cmp s) (tm_iter (lmap P) q)"
    using tm_made_sorted [OF assms(2) level_cmp_ok] assms(4,7) by (auto simp: push_inv_def)
  obtain d where "depth_inv E s d" "book_view E b s = resting E d" by (rule book_inv_depth [OF assms(3,6)])
  then have "prio_sorted s (book_view E b s)" using resting_sorted [OF env_lawsD(1) [OF assms(1)]] by metis
  then show "sl_sorted (level_cmp s) (book_levels (book_view E b s))" by (rule book_levels_sorted [OF _ assms(6)])
  have "level_of (pb_orders pb) s p = map_of (book_levels (book_view E b s)) p" for p
    by (rule level_of_holds [OF assms(5)])
      (use view_distinct [OF assms(1,3)] view_of_side [OF assms(3,6)] in \<open>auto simp: book_orders_def\<close>)
  then show "map_of (tm_iter (lmap P) q) = map_of (book_levels (book_view E b s))"
    using assms(4,7) by (auto simp: push_inv_def)
qed

subsection \<open>Restoring\<close>

lemma comparators_ok: "cmp_ok DecimalAscComparator" "cmp_ok DecimalDescComparator"
  by (auto simp: cmp_ok_def DecimalAscComparator_def DecimalDescComparator_def)

lemma newOrderBook_inv:
  fixes P :: "('d::linordered_idom, 'l) push_env"
  assumes "treemap_laws (lmap P)"
  shows "push_inv P (newOrderBook P pid)" and "holds (pb_orders (newOrderBook P pid)) {}"
    and "pb_productId (newOrderBook P pid) = pid"
proof -
  have "tm_iter (lmap P) (tm_new (lmap P) DecimalAscComparator) = []" "tm_iter (lmap P) (tm_new (lmap P) DecimalDescComparator) = []"
    using tm_iter_new [OF assms] comparators_ok by blast+
  then show "push_inv P (newOrderBook P pid)"
    using comparators_ok
    by (auto simp: push_inv_def newOrderBook_def orders_fit_def level_of_def ids_at_def level_cmp_def
        intro!: tm_made.intros split: if_splits)
qed (simp_all add: newOrderBook_def holds_def)

lemma orders_fitD: "orders_fit m \<Longrightarrow> m i = Some x \<Longrightarrow> saved_order i (bo_Size x) (bo_Side x) (bo_Price x) = x"
  by (simp add: orders_fit_def)

lemma save_orders_ok:
  assumes laws: "treemap_laws (lmap P)" and fit: "orders_fit m"
  shows "push_inv P b \<Longrightarrow> distinct ids \<Longrightarrow> set ids \<subseteq> dom m \<Longrightarrow> dom (pb_orders b) \<inter> set ids = {} \<Longrightarrow>
    \<exists>b'. save_orders P (map (\<lambda>i. the (m i)) ids) b = Inr b' \<and> push_inv P b' \<and> pb_orders b' = pb_orders b ++ (m |` set ids)"
proof (induction ids arbitrary: b)
  case Nil
  then show ?case by simp
next
  case (Cons i ids)
  obtain x where x: "m i = Some x" using Cons.prems(3) by auto
  have fx: "saved_order i (bo_Size x) (bo_Side x) (bo_Price x) = x" "0 < bo_Size x" "valid_side (bo_Side x)"
    using fit x by (auto simp: orders_fit_def)
  have none: "pb_orders b i = None" using Cons.prems(4) by auto
  have id: "bo_OrderId x = i" by (subst fx(1) [symmetric]) (simp add: saved_order_def)
  have "\<exists>c b1. saveOrder P 0 0 i (bo_Size x) (bo_Price x) (bo_Side x) b = Inr (c, b1) \<and>
      save_ok P 0 0 i (bo_Size x) (bo_Side x) (bo_Price x) b c b1"
    by (rule saveOrder_ok [OF laws Cons.prems(1), where n = "bo_Size x" and i = i and s = "bo_Side x" and p = "bo_Price x"
        and off = 0 and sq = 0]) (use fx none in auto)
  then obtain c b1 where b1: "saveOrder P 0 0 i (bo_Size x) (bo_Price x) (bo_Side x) b = Inr (c, b1)"
    and "save_ok P 0 0 i (bo_Size x) (bo_Side x) (bo_Price x) b c b1" by blast
  then have ok: "push_inv P b1" "pb_orders b1 = (pb_orders b)(i \<mapsto> x)"
    using fx by (auto simp: save_ok_def saved_orders_def)
  have "dom (pb_orders b1) \<inter> set ids = {}" using Cons.prems(2,4) by (auto simp: ok(2))
  then obtain b' where b': "save_orders P (map (\<lambda>i. the (m i)) ids) b1 = Inr b'" "push_inv P b'"
      "pb_orders b' = pb_orders b1 ++ (m |` set ids)"
    using Cons.IH [OF ok(1)] Cons.prems(2,3) by auto
  have "pb_orders b1 ++ (m |` set ids) = pb_orders b ++ (m |` set (i # ids))"
    using none x Cons.prems(2) by (auto simp: ok(2) map_add_def restrict_map_def fun_eq_iff split: option.splits)
  then show ?case using b' b1 id x by auto
qed

text \<open>The levels depend only on the orders.\<close>

lemma push_levels_cong:
  assumes laws: "treemap_laws (lmap P)" and a: "push_inv P a" and b: "push_inv P b" and same: "pb_orders a = pb_orders b"
  shows "map_option (tm_iter (lmap P)) (pb_depths a s) = map_option (tm_iter (lmap P)) (pb_depths b s)"
proof (cases "valid_side s")
  case True
  obtain qa where qa: "pb_depths a s = Some qa" "tm_made (lmap P) (level_cmp s) qa"
      "\<And>p. map_of (tm_iter (lmap P) qa) p = level_of (pb_orders a) s p"
    using push_inv_levels [OF a True] by blast
  obtain qb where qb: "pb_depths b s = Some qb" "tm_made (lmap P) (level_cmp s) qb"
      "\<And>p. map_of (tm_iter (lmap P) qb) p = level_of (pb_orders b) s p"
    using push_inv_levels [OF b True] by blast
  have "tm_iter (lmap P) qa = tm_iter (lmap P) qb"
    using tm_made_sorted [OF laws level_cmp_ok qa(2)] tm_made_sorted [OF laws level_cmp_ok qb(2)] qa(3) qb(3) same
    by (intro sl_sorted_map_of [OF level_cmp_ok]) auto
  then show ?thesis by (simp add: qa(1) qb(1))
next
  case False
  have "dom (pb_depths a) = {SideBuy, SideSell}" "dom (pb_depths b) = {SideBuy, SideSell}"
    using a b by (simp_all add: push_inv_def)
  then have "pb_depths a s = None" "pb_depths b s = None" using False by (auto simp: valid_side_def)
  then show ?thesis by simp
qed

text \<open>Restoring a full snapshot.\<close>

lemma push_restore_ok:
  assumes "treemap_laws (lmap P)" and "push_inv P pb" and "range_of (pb_orders pb) ids"
  shows "\<exists>pb'. push_Restore P (SnapshotFull ids pb) (newOrderBook P pid) = Inr pb' \<and> push_inv P pb' \<and>
    pb_productId pb' = pb_productId pb \<and> pb_seq pb' = pb_seq pb \<and> pb_logOffset pb' = pb_logOffset pb \<and>
    pb_logSeq pb' = pb_logSeq pb \<and> pb_orders pb' = pb_orders pb \<and>
    (\<forall>s. map_option (tm_iter (lmap P)) (pb_depths pb' s) = map_option (tm_iter (lmap P)) (pb_depths pb s))"
proof -
  have fit: "orders_fit (pb_orders pb)" using assms(2) by (simp add: push_inv_def)
  have ids: "distinct ids" "set ids = dom (pb_orders pb)" using assms(3) by (simp_all add: range_of_def)
  obtain b1 where b1: "save_orders P (map (\<lambda>i. the (pb_orders pb i)) ids) (newOrderBook P pid) = Inr b1"
      "push_inv P b1" "pb_orders b1 = pb_orders pb |` dom (pb_orders pb)"
    using save_orders_ok [OF assms(1) fit newOrderBook_inv(1) [OF assms(1)], of ids pid] ids
    by (auto simp: newOrderBook_def)
  have same: "pb_orders b1 = pb_orders pb"
    unfolding b1(3) by (rule ext) (auto simp: restrict_map_def domIff)
  define pb' where "pb' = b1\<lparr>pb_productId := pb_productId pb, pb_seq := pb_seq pb, pb_logOffset := pb_logOffset pb,
      pb_logSeq := pb_logSeq pb\<rparr>"
  have inv: "push_inv P pb'" using b1(2) by (simp add: push_inv_def pb'_def)
  have "pb_orders pb' = pb_orders pb" by (simp add: pb'_def same)
  from push_levels_cong [OF assms(1) inv assms(2) this] have
    "map_option (tm_iter (lmap P)) (pb_depths pb' s) = map_option (tm_iter (lmap P)) (pb_depths pb s)" for s .
  then show ?thesis using b1(1) inv
    by (intro exI [of _ pb'] conjI) (simp_all add: push_Restore_def SnapshotFull_def pb'_def same)
qed

subsection \<open>Properties\<close>

text \<open>The two sides of a level 2 snapshot, from price levels.\<close>

definition shown :: "('d::linordered_idom, 'l) push_env \<Rightarrow> nat \<Rightarrow> 'd book_order list \<Rightarrow> (string \<times> string \<times> int) list" where
  "shown P n os = map (\<lambda>(p, l). (dec_string (pdec P) (lv_Price l), dec_string (pdec P) (lv_Size l), lv_OrderCount l))
     (take n (book_levels os))"

text \<open>C35. The push server shows the engine's book. Whatever orders the engine has handled since its
  book was empty (each id sent to be applied at most once, cancellations as often as one likes), a
  push server that follows the logs it wrote, at whatever offsets they are stored, never panics; its
  level 2 snapshot is exactly the engine's book: for each side the best \<open>n\<close> prices, best first, each
  with the total size and the number of the orders resting there.\<close>

theorem push_follows_engine:
  assumes "env_laws E" and "treemap_laws (lmap P)" and "list_all order_ok orders" and "distinct (sent_ids orders)"
    and "run_orders E (NewOrderBook E product) orders = Inr (b, logs)" and "map snd ms = logs"
  shows "\<exists>pb. follow_logs P ms (newOrderBook P pid) = Inr pb \<and>
    SnapshotLevel2 P (int n) pb = Inr \<lparr>l2_ProductId = pid, l2_Seq = pb_seq pb,
      l2_Asks = shown P n (book_view E b SideSell), l2_Bids = shown P n (book_view E b SideBuy)\<rparr>"
proof -
  note new = NewOrderBook_inv [OF env_lawsD(1) [OF assms(1)]]
  have none: "book_orders E (NewOrderBook E product) = {}" using NewOrderBook_view [OF env_lawsD(1) [OF assms(1)]] by (simp add: book_orders_def)
  have f: "follows E (pb_orders (newOrderBook P pid)) logs b"
    by (rule run_orders_follows [OF assms(1) new(1) assms(3,4) _ assms(5)])
      (simp_all add: resting_ids_def none newOrderBook_inv [OF assms(2)])
  have inv: "book_inv E b" using run_orders_step [OF assms(1) new(1) assms(3), of product] assms(5) by (auto simp: good_step_def)
  obtain pb where pb: "follow_logs P ms (newOrderBook P pid) = Inr pb" "push_inv P pb" "pb_productId pb = pid"
      "holds (pb_orders pb) (book_orders E b)"
    using follow_logs_ok [OF assms(2) newOrderBook_inv(1) [OF assms(2)], of ms pid] f assms(6) newOrderBook_inv(3) [OF assms(2)]
    by (auto simp: follows_def)
  have level: "\<exists>q. pb_depths pb s = Some q \<and> tm_iter (lmap P) q = book_levels (book_view E b s)" if "valid_side s" for s
    using push_inv_levels [OF pb(2) that] push_levels [OF assms(1,2) inv pb(2,4) that] by metis
  obtain qs qb where "pb_depths pb SideSell = Some qs" "tm_iter (lmap P) qs = book_levels (book_view E b SideSell)"
      "pb_depths pb SideBuy = Some qb" "tm_iter (lmap P) qb = book_levels (book_view E b SideBuy)"
    using level [of SideSell] level [of SideBuy] by auto
  then have "SnapshotLevel2 P (int n) pb = Inr \<lparr>l2_ProductId = pid, l2_Seq = pb_seq pb,
      l2_Asks = shown P n (book_view E b SideSell), l2_Bids = shown P n (book_view E b SideBuy)\<rparr>"
    by (simp add: SnapshotLevel2_def level_rows_def shown_def case_prod_beta pb(3))
  with pb(1) show ?thesis by blast
qed

text \<open>C36. A book saved in full and restored into a new one is the same book: the same orders, sequence
  number and place in the log, and on each side the same price levels; the order in which Go visits
  the map of orders does not matter.\<close>

theorem push_snapshot_restore:
  assumes "treemap_laws (lmap P)" and "push_inv P pb" and "range_of (pb_orders pb) ids"
  shows "\<exists>pb'. push_Restore P (SnapshotFull ids pb) (newOrderBook P pid) = Inr pb' \<and> push_inv P pb' \<and>
    pb_productId pb' = pb_productId pb \<and> pb_seq pb' = pb_seq pb \<and> pb_logOffset pb' = pb_logOffset pb \<and>
    pb_logSeq pb' = pb_logSeq pb \<and> pb_orders pb' = pb_orders pb \<and>
    (\<forall>s. map_option (tm_iter (lmap P)) (pb_depths pb' s) = map_option (tm_iter (lmap P)) (pb_depths pb s))"
  by (rule push_restore_ok [OF assms])

subsection \<open>Witnesses\<close>

definition rat_push :: "(rat, (rat, rat price_level) sl_map) push_env" where
  "rat_push = \<lparr>pdec = rat_decimal\<lparr>dec_string := (\<lambda>x. replicate (nat \<lfloor>x\<rfloor>) CHR ''I'')\<rparr>, lmap = sl_treemap\<rparr>"

lemma rat_push_laws: "treemap_laws (lmap rat_push)"
  by (simp add: rat_push_def sl_treemap_laws)

theorem push_follows_engine_witness:
  "\<exists>b logs pb. run_orders rat_env (NewOrderBook rat_env sample_product) [limit_buy, limit_sell, market_buy] = Inr (b, logs) \<and>
    follow_logs rat_push (map (Pair 7) logs) (newOrderBook rat_push ''BTC-USDT'') = Inr pb \<and>
    SnapshotLevel2 rat_push (int 1000) pb = Inr \<lparr>l2_ProductId = ''BTC-USDT'', l2_Seq = pb_seq pb,
      l2_Asks = shown rat_push 1000 (book_view rat_env b SideSell), l2_Bids = shown rat_push 1000 (book_view rat_env b SideBuy)\<rparr>"
proof -
  have ok: "list_all order_ok [limit_buy, limit_sell, market_buy]" using sample_order_ok by simp
  have new: "book_inv rat_env (NewOrderBook rat_env sample_product)"
    by (rule NewOrderBook_inv(1) [OF env_lawsD(1) [OF rat_env_laws]])
  obtain b logs where r: "run_orders rat_env (NewOrderBook rat_env sample_product) [limit_buy, limit_sell, market_buy] = Inr (b, logs)"
    using run_orders_step [OF rat_env_laws new ok] by blast
  have dist: "distinct (sent_ids [limit_buy, limit_sell, market_buy])" by code_simp
  have ms: "map snd (map (Pair 7) logs) = logs" by (simp add: o_def)
  show ?thesis using push_follows_engine [OF rat_env_laws rat_push_laws ok dist r ms] r by blast
qed

theorem push_snapshot_restore_witness:
  "\<exists>(pb :: (rat, (rat, rat price_level) sl_map) push_book) pb'. pb_orders pb = [1 \<mapsto> saved_order 1 5 SideBuy 90] \<and>
    push_Restore rat_push (SnapshotFull [1] pb) (newOrderBook rat_push ''BTC-USDT'') = Inr pb' \<and> pb_orders pb' = pb_orders pb"
proof -
  note new = newOrderBook_inv [OF rat_push_laws, of "''BTC-USDT''"]
  obtain c pb where "saveOrder rat_push 1 1 1 5 90 SideBuy (newOrderBook rat_push ''BTC-USDT'') = Inr (c, pb)"
    and ok: "save_ok rat_push 1 1 1 5 SideBuy 90 (newOrderBook rat_push ''BTC-USDT'') c pb"
    by (rule saveOrder_ok [OF rat_push_laws new(1), where n = 5 and i = 1 and s = SideBuy and p = 90 and off = 1 and sq = 1])
      (auto simp: newOrderBook_def)
  have pb: "push_inv rat_push pb" "pb_orders pb = [1 \<mapsto> saved_order 1 5 SideBuy 90]"
    using ok by (auto simp: save_ok_def saved_orders_def newOrderBook_def)
  have "range_of (pb_orders pb) [1]" by (simp add: range_of_def pb(2))
  from push_snapshot_restore [OF rat_push_laws pb(1) this, of "''BTC-USDT''"] obtain pb' where
    "push_Restore rat_push (SnapshotFull [1] pb) (newOrderBook rat_push ''BTC-USDT'') = Inr pb'" "pb_orders pb' = pb_orders pb"
    by auto
  then show ?thesis using pb(2) by (intro exI conjI)
qed

end
