(* ===== verification/Push_Stream.thy ===== *)
theory Push_Stream
  imports Push_Properties Push_Messages Makers
begin

text \<open>
  The order book stream of a product (\<open>pushing/order_book_stream.go\<close>): a log reader feeds the applier
  through a channel; the applier keeps the push book, publishes each change, refreshes the level 2
  snapshot that clients ask for, and now and then sends a full snapshot to the goroutine that stores
  it. The process may stop between any two steps; it starts again from the full snapshot stored last.

  One step of the applier waits until the channel of full snapshots has room for what it will send.
\<close>

subsection \<open>State and steps\<close>

record ('d, 'l) book_stream =
  sr_orderBook :: "('d, 'l) push_book"
  sr_logCh :: "'d msg list"
  sr_snapshotCh :: "'d full_snapshot list"
  sr_lastLevel2 :: "l2_snapshot option"       \<comment> \<open>\<open>runApplier\<close>: \<open>lastLevel2Snapshot\<close>\<close>
  sr_lastFull :: "'d full_snapshot option"    \<comment> \<open>\<open>runApplier\<close>: \<open>lastFullSnapshot\<close>\<close>
  sr_pos :: int                               \<comment> \<open>the log reader: next offset\<close>
  sr_lastSeq :: int                           \<comment> \<open>the log reader: \<open>lastSeq\<close>\<close>

text \<open>Outside of the stream: the snapshot store, the table \<open>lastLevel2Snapshots\<close>, and what was published.\<close>

record 'd push_world =
  pw_full :: "'d full_snapshot option"
  pw_level2 :: "string \<rightharpoonup> l2_snapshot"
  pw_published :: "(string \<times> l2_change) list"

definition newOrderBookStream :: "('d::linordered_idom, 'l) push_env \<Rightarrow> string \<Rightarrow> 'd full_snapshot option \<Rightarrow>
    ('d, 'l) book_stream res" where
  "newOrderBookStream P productId latest =
     bindR (case latest of None \<Rightarrow> Inr (newOrderBook P productId)
        | Some snapshot \<Rightarrow> push_Restore P snapshot (newOrderBook P productId)) (\<lambda>b.
       Inr \<lparr>sr_orderBook = b, sr_logCh = [], sr_snapshotCh = [], sr_lastLevel2 = None, sr_lastFull = None,
            sr_pos = 0, sr_lastSeq = 0\<rparr>)"

definition start_stream :: "('d, 'l) book_stream \<Rightarrow> ('d, 'l) book_stream" where
  "start_stream s = (let logOffset = pb_logOffset (sr_orderBook s) in
     s\<lparr>sr_lastSeq := pb_logSeq (sr_orderBook s), sr_pos := (if 0 < logOffset then logOffset + 1 else logOffset)\<rparr>)"

text \<open>The log reader; its observer writes every log to the channel.\<close>

definition stream_read :: "'d msg list \<Rightarrow> ('d, 'l) book_stream \<Rightarrow> ('d, 'l) book_stream res option" where
  "stream_read T s =
     (case filter (\<lambda>m. sr_pos s \<le> fst m) T of
        [] \<Rightarrow> None
      | (offset, l) # ms \<Rightarrow>
          if GetSeq l \<le> sr_lastSeq s then Some (Inr (s\<lparr>sr_pos := offset + 1\<rparr>))
          else if 0 < sr_lastSeq s \<and> GetSeq l \<noteq> sr_lastSeq s + 1 then Some (Inl (Fatal ''non-sequence detected''))
          else if length (sr_logCh s) < 1000
          then Some (Inr (s\<lparr>sr_pos := offset + 1, sr_lastSeq := GetSeq l, sr_logCh := sr_logCh s @ [(offset, l)]\<rparr>))
          else None)"

text \<open>The level 2 snapshot, refreshed when more than \<open>behind\<close> changes old.\<close>

definition refresh_level2 :: "('d, 'l) push_env \<Rightarrow> int \<Rightarrow> ('d, 'l) book_stream \<Rightarrow> 'd push_world \<Rightarrow>
    (('d, 'l) book_stream \<times> 'd push_world) res" where
  "refresh_level2 P behind s w =
     (let b = sr_orderBook s in
      if (case sr_lastLevel2 s of None \<Rightarrow> True | Some l \<Rightarrow> behind < pb_seq b - l2_Seq l) then
        bindR (SnapshotLevel2 P 1000 b) (\<lambda>l.
          Inr (s\<lparr>sr_lastLevel2 := Some l\<rparr>, w\<lparr>pw_level2 := (pw_level2 w)(pb_productId b \<mapsto> l)\<rparr>))
      else Inr (s, w))"

definition full_due :: "('d, 'l) book_stream \<Rightarrow> bool" where
  "full_due s = (case sr_lastFull s of None \<Rightarrow> True | Some f \<Rightarrow> 10000 < pb_seq (sr_orderBook s) - fs_Seq f)"

definition refresh_full :: "u64 list \<Rightarrow> ('d, 'l) book_stream \<Rightarrow> ('d, 'l) book_stream" where
  "refresh_full ids s = (if full_due s then
     let f = SnapshotFull ids (sr_orderBook s) in s\<lparr>sr_lastFull := Some f, sr_snapshotCh := sr_snapshotCh s @ [f]\<rparr> else s)"

definition publish_change :: "string \<Rightarrow> l2_change option \<Rightarrow> 'd push_world \<Rightarrow> 'd push_world" where
  "publish_change productId l2Change w = (case l2Change of None \<Rightarrow> w
     | Some c \<Rightarrow> w\<lparr>pw_published := pw_published w @ [(FormatWithProductId ChannelLevel2 productId, c)]\<rparr>)"

definition apply_log :: "('d::linordered_idom, 'l) push_env \<Rightarrow> string \<Rightarrow> u64 list \<Rightarrow> ('d, 'l) book_stream \<Rightarrow> 'd push_world \<Rightarrow>
    (('d, 'l) book_stream \<times> 'd push_world) res option" where
  "apply_log P productId ids s w =
     (case sr_logCh s of
        [] \<Rightarrow> None
      | (offset, l) # rest \<Rightarrow>
          (case follow_log P offset l (sr_orderBook s) of
             Inl f \<Rightarrow> Some (Inl f)
           | Inr (None, b) \<Rightarrow> Some (Inr (s\<lparr>sr_orderBook := b, sr_logCh := rest\<rparr>, w))
           | Inr (Some l2Change, b) \<Rightarrow>
               let s1 = s\<lparr>sr_orderBook := b, sr_logCh := rest\<rparr> in
               if full_due s1 \<and> 100 \<le> length (sr_snapshotCh s1) then None
               else Some (bindR (refresh_level2 P 10 s1 w) (\<lambda>(s2, w2).
                 Inr (refresh_full ids s2, publish_change productId l2Change w2)))))"

definition store_full :: "bool \<Rightarrow> ('d, 'l) book_stream \<Rightarrow> 'd push_world \<Rightarrow> (('d, 'l) book_stream \<times> 'd push_world) option" where
  "store_full ok s w = (case sr_snapshotCh s of [] \<Rightarrow> None
     | f # rest \<Rightarrow> Some (s\<lparr>sr_snapshotCh := rest\<rparr>, if ok then w\<lparr>pw_full := Some f\<rparr> else w))"

text \<open>\<open>StreamTimer\<close>: no log for 200 milliseconds. \<open>StreamRestart\<close>: the process stops, and starts again
  without the table of snapshots.\<close>

datatype stream_event = StreamRead | StreamApply "u64 list" | StreamTimer | StreamStore bool | StreamRestart

fun stream_step :: "('d::linordered_idom, 'l) push_env \<Rightarrow> string \<Rightarrow> 'd msg list \<Rightarrow> stream_event \<Rightarrow>
    ('d, 'l) book_stream \<times> 'd push_world \<Rightarrow> (('d, 'l) book_stream \<times> 'd push_world) res option" where
  "stream_step P productId T StreamRead (s, w) = map_option (\<lambda>r. bindR r (\<lambda>s. Inr (s, w))) (stream_read T s)"
| "stream_step P productId T (StreamApply ids) (s, w) = apply_log P productId ids s w"
| "stream_step P productId T StreamTimer (s, w) = (if sr_logCh s = [] then Some (refresh_level2 P 0 s w) else None)"
| "stream_step P productId T (StreamStore ok) (s, w) = map_option Inr (store_full ok s w)"
| "stream_step P productId T StreamRestart (s, w) = Some (bindR (newOrderBookStream P productId (pw_full w)) (\<lambda>s.
     Inr (start_stream s, w\<lparr>pw_level2 := Map.empty\<rparr>)))"

text \<open>Go visits the orders of the book in any order, \<open>ids\<close>.\<close>

definition stream_allowed :: "('d::linordered_idom, 'l) push_env \<Rightarrow> stream_event \<Rightarrow> ('d, 'l) book_stream \<times> 'd push_world \<Rightarrow> bool" where
  "stream_allowed P ev sw \<longleftrightarrow> (case (ev, sr_logCh (fst sw)) of
       (StreamApply ids, (offset, l) # rest) \<Rightarrow>
         (case follow_log P offset l (sr_orderBook (fst sw)) of Inr (c, b) \<Rightarrow> range_of (pb_orders b) ids | Inl f \<Rightarrow> True)
     | _ \<Rightarrow> True)"

subsection \<open>The book after each log\<close>

text \<open>\<open>D\<close> is what the log reader delivers from the start of the topic. After its first \<open>n\<close> logs the push
  book holds \<open>orders_at D n\<close>; its sequence number counts the logs that changed it, and its offset and
  log number are those of the last such log.\<close>

definition orders_at :: "'d::linordered_idom msg list \<Rightarrow> nat \<Rightarrow> (u64 \<rightharpoonup> 'd book_order)" where
  "orders_at D n = follow_maps (map snd (take n D)) Map.empty"

fun place :: "'d::linordered_idom msg list \<Rightarrow> nat \<Rightarrow> int \<times> int \<times> int" where
  "place D 0 = (0, 0, 0)"
| "place D (Suc n) = (if effective (snd (D ! n)) (orders_at D n)
     then (fst (place D n) + 1, fst (D ! n), GetSeq (snd (D ! n))) else place D n)"

definition stream_book :: "('d::linordered_idom, 'l) push_env \<Rightarrow> string \<Rightarrow> 'd msg list \<Rightarrow> nat \<Rightarrow> ('d, 'l) push_book \<Rightarrow> bool" where
  "stream_book P pid D n b \<longleftrightarrow> n \<le> length D \<and> push_inv P b \<and> pb_productId b = pid \<and> pb_orders b = orders_at D n \<and>
     (pb_seq b, pb_logOffset b, pb_logSeq b) = place D n"

lemma follow_map_ineffective: "\<not> effective l m \<Longrightarrow> follow_map l m = m"
  by (cases l) (auto simp: saved_orders_def split: option.splits)

lemma orders_at_0 [simp]: "orders_at D 0 = Map.empty"
  by (simp add: orders_at_def)

lemma orders_at_Suc: "n < length D \<Longrightarrow> orders_at D (Suc n) = follow_map (snd (D ! n)) (orders_at D n)"
  by (simp add: orders_at_def take_Suc_conv_app_nth)

lemma logs_fit_nth:
  assumes "logs_fit (map snd D) Map.empty" and "n < length D"
  shows "log_fits (snd (D ! n)) (orders_at D n)"
proof -
  have "map snd D = map snd (take n D) @ snd (D ! n) # map snd (drop (Suc n) D)"
    using id_take_nth_drop [OF assms(2)] by (metis list.simps(9) map_append)
  then show ?thesis using assms(1) by (simp add: orders_at_def)
qed

lemma stream_book_next:
  assumes laws: "treemap_laws (lmap P)" and fit: "logs_fit (map snd D) Map.empty"
    and at: "stream_book P pid D n b" and n: "n < length D" "D ! n = (off, l)"
  shows "\<exists>c b'. follow_log P off l b = Inr (c, b') \<and> followed P off l b c b' \<and> stream_book P pid D (Suc n) b'"
proof -
  have b: "push_inv P b" "pb_orders b = orders_at D n" "pb_productId b = pid"
    "(pb_seq b, pb_logOffset b, pb_logSeq b) = place D n" using at by (simp_all add: stream_book_def)
  have "log_fits l (pb_orders b)" using logs_fit_nth [OF fit n(1)] n(2) b(2) by simp
  from follow_log_ok [OF laws b(1) this, of off] obtain c b' where
    f: "follow_log P off l b = Inr (c, b')" "followed P off l b c b'" by blast
  have "pb_orders b' = orders_at D (Suc n)" using f(2) b(2) orders_at_Suc [OF n(1)] n(2) by (simp add: followed_def)
  moreover have "(pb_seq b', pb_logOffset b', pb_logSeq b') = place D (Suc n)"
    using f(2) b(2,4) n(2) by (cases "place D n") (auto simp: followed_def split: if_splits)
  ultimately have "stream_book P pid D (Suc n) b'" using f(2) b(3) n(1) by (simp add: stream_book_def followed_def)
  then show ?thesis using f by blast
qed

text \<open>The last log that changed the book.\<close>

lemma place_last:
  "n \<le> length D \<Longrightarrow> place D n = (0, 0, 0) \<and> orders_at D n = Map.empty \<or>
    (\<exists>j<n. place D n = place D (Suc j) \<and> orders_at D n = orders_at D (Suc j) \<and>
      snd (place D n) = (fst (D ! j), GetSeq (snd (D ! j))))"
proof (induction n)
  case (Suc n)
  show ?case
  proof (cases "effective (snd (D ! n)) (orders_at D n)")
    case True
    then show ?thesis by (intro disjI2 exI [of _ n]) simp
  next
    case False
    then have "place D (Suc n) = place D n" "orders_at D (Suc n) = orders_at D n"
      using Suc.prems orders_at_Suc [of n D] follow_map_ineffective by auto
    then show ?thesis using Suc by (auto simp del: place.simps intro: less_SucI)
  qed
qed simp

lemma stream_book_start: "treemap_laws (lmap P) \<Longrightarrow> stream_book P pid D 0 (newOrderBook P pid)"
  using newOrderBook_inv [of P pid] by (simp add: stream_book_def newOrderBook_def)

end
