(* ===== verification/Push_Stream_Correct.thy ===== *)
theory Push_Stream_Correct
  imports Push_Stream Engine_Properties
begin

text \<open>
  The order book stream keeps its promises through restarts: at any moment its book is the book after
  some number of the delivered logs; every snapshot it shows or stores, and every change it publishes,
  is that of one of these books.
\<close>

subsection \<open>What the stream may show, store and publish\<close>

definition good_full :: "('d::linordered_idom, 'l) push_env \<Rightarrow> string \<Rightarrow> 'd msg list \<Rightarrow> 'd full_snapshot \<Rightarrow> bool" where
  "good_full P pid D f \<longleftrightarrow> (\<exists>n b ids. stream_book P pid D n b \<and> range_of (pb_orders b) ids \<and> f = SnapshotFull ids b)"

definition good_level2 :: "('d::linordered_idom, 'l) push_env \<Rightarrow> string \<Rightarrow> 'd msg list \<Rightarrow> l2_snapshot \<Rightarrow> bool" where
  "good_level2 P pid D l \<longleftrightarrow> (\<exists>n b. stream_book P pid D n b \<and> SnapshotLevel2 P 1000 b = Inr l)"

definition good_change :: "('d::linordered_idom, 'l) push_env \<Rightarrow> string \<Rightarrow> 'd msg list \<Rightarrow> l2_change \<Rightarrow> bool" where
  "good_change P pid D c \<longleftrightarrow> (\<exists>n b. n < length D \<and> stream_book P pid D n b \<and>
     effective (snd (D ! n)) (orders_at D n) \<and> valid_side (fst (log_level (snd (D ! n)))) \<and>
     (\<forall>s p. (s, p) \<noteq> log_level (snd (D ! n)) \<longrightarrow> level_of (orders_at D (Suc n)) s p = level_of (orders_at D n) s p) \<and>
     c = change_at P b (orders_at D (Suc n)) (fst (log_level (snd (D ! n)))) (snd (log_level (snd (D ! n)))))"

definition good_world :: "('d::linordered_idom, 'l) push_env \<Rightarrow> string \<Rightarrow> 'd msg list \<Rightarrow> 'd push_world \<Rightarrow> bool" where
  "good_world P pid D w \<longleftrightarrow> (\<forall>f. pw_full w = Some f \<longrightarrow> good_full P pid D f) \<and>
     (\<forall>l. pw_level2 w pid = Some l \<longrightarrow> good_level2 P pid D l) \<and>
     (\<forall>(ch, c)\<in>set (pw_published w). ch = FormatWithProductId ChannelLevel2 pid \<and> good_change P pid D c)"

definition reading :: "'d msg list \<Rightarrow> 'd msg list \<Rightarrow> nat \<Rightarrow> ('d, 'l) book_stream \<Rightarrow> bool" where
  "reading T D n s \<longleftrightarrow> n + length (sr_logCh s) \<le> length D \<and> sr_logCh s = take (length (sr_logCh s)) (drop n D) \<and>
     (\<exists>m. run_reader (sr_lastSeq s) (filter (\<lambda>x. sr_pos s \<le> fst x) T) = (drop (n + length (sr_logCh s)) D, m, None))"

definition stream_inv :: "('d::linordered_idom, 'l) push_env \<Rightarrow> string \<Rightarrow> 'd msg list \<Rightarrow>
    ('d, 'l) book_stream \<times> 'd push_world \<Rightarrow> bool" where
  "stream_inv P pid T sw \<longleftrightarrow> (case sw of (s, w) \<Rightarrow> \<exists>D m n. run_reader 0 T = (D, m, None) \<and>
     stream_book P pid D n (sr_orderBook s) \<and> reading T D n s \<and>
     (\<forall>f\<in>set (sr_snapshotCh s). good_full P pid D f) \<and> good_world P pid D w)"

lemma stream_invI:
  "run_reader 0 T = (D, m, None) \<Longrightarrow> stream_book P pid D n (sr_orderBook s) \<Longrightarrow> reading T D n s \<Longrightarrow>
    (\<forall>f\<in>set (sr_snapshotCh s). good_full P pid D f) \<Longrightarrow> good_world P pid D w \<Longrightarrow> stream_inv P pid T (s, w)"
  unfolding stream_inv_def by blast

subsection \<open>Reading\<close>

lemma stream_read_keeps:
  assumes T: "offsets_ok T" and inv: "stream_inv P pid T (s, w)" and st: "stream_read T s = Some r"
  shows "\<exists>s'. r = Inr s' \<and> stream_inv P pid T (s', w)"
proof -
  obtain D m n m' where i: "run_reader 0 T = (D, m, None)" "stream_book P pid D n (sr_orderBook s)"
      "n + length (sr_logCh s) \<le> length D" "sr_logCh s = take (length (sr_logCh s)) (drop n D)"
      "run_reader (sr_lastSeq s) (filter (\<lambda>x. sr_pos s \<le> fst x) T) = (drop (n + length (sr_logCh s)) D, m', None)"
      "\<forall>f\<in>set (sr_snapshotCh s). good_full P pid D f" "good_world P pid D w"
    using inv by (auto simp: stream_inv_def reading_def)
  obtain off l ms where f: "filter (\<lambda>x. sr_pos s \<le> fst x) T = (off, l) # ms"
    using st by (cases "filter (\<lambda>x. sr_pos s \<le> fst x) T") (auto simp: stream_read_def)
  have rest: "filter (\<lambda>x. off + 1 \<le> fst x) T = ms" using filter_ge_Cons(1) [OF _ f] T by (simp add: offsets_ok_def)
  show ?thesis
  proof (cases "GetSeq l \<le> sr_lastSeq s")
    case True
    then have r: "r = Inr (s\<lparr>sr_pos := off + 1\<rparr>)" using st f by (simp add: stream_read_def)
    have "run_reader (sr_lastSeq s) ms = (drop (n + length (sr_logCh s)) D, m', None)" using i(5) f True by simp
    then have "stream_inv P pid T (s\<lparr>sr_pos := off + 1\<rparr>, w)"
      using i by (intro stream_invI [where D = D and n = n]) (auto simp: reading_def rest)
    then show ?thesis unfolding r by blast
  next
    case False
    have gap: "\<not> (0 < sr_lastSeq s \<and> GetSeq l \<noteq> sr_lastSeq s + 1)" using i(5) f False by (auto split: if_splits)
    obtain D3 where D3: "run_reader (GetSeq l) ms = (D3, m', None)" "drop (n + length (sr_logCh s)) D = (off, l) # D3"
      using i(5) f False gap by (auto split: prod.splits)
    have len: "n + length (sr_logCh s) < length D" using D3(2) by (metis drop_all list.distinct(1) not_le)
    have at: "D ! (n + length (sr_logCh s)) = (off, l)" "drop (Suc (n + length (sr_logCh s))) D = D3"
      using D3(2) len by (metis Cons_nth_drop_Suc list.inject)+
    have r: "r = Inr (s\<lparr>sr_pos := off + 1, sr_lastSeq := GetSeq l, sr_logCh := sr_logCh s @ [(off, l)]\<rparr>)"
      using st f False gap by (auto simp: stream_read_def split: if_splits)
    have ch: "sr_logCh s @ [(off, l)] = take (Suc (length (sr_logCh s))) (drop n D)"
      using i(4) at(1) len by (simp add: take_Suc_conv_app_nth)
    have "stream_inv P pid T (s\<lparr>sr_pos := off + 1, sr_lastSeq := GetSeq l, sr_logCh := sr_logCh s @ [(off, l)]\<rparr>, w)"
      using i(1,2,6,7) len D3(1) at(2) ch
      by (intro stream_invI [where D = D and n = n]) (auto simp: reading_def rest)
    then show ?thesis unfolding r by blast
  qed
qed

subsection \<open>Showing\<close>

lemma SnapshotLevel2_total:
  assumes "push_inv P b"
  shows "\<exists>l. SnapshotLevel2 P 1000 b = Inr l"
proof -
  obtain qs qb where "pb_depths b SideSell = Some qs" "pb_depths b SideBuy = Some qb"
    using push_inv_levels [OF assms, of SideSell] push_inv_levels [OF assms, of SideBuy] valid_side_consts by metis
  then show ?thesis by (simp add: SnapshotLevel2_def)
qed

lemma refresh_level2_keeps:
  assumes at: "stream_book P pid D n (sr_orderBook s)" and w: "good_world P pid D w"
  shows "\<exists>s' w'. refresh_level2 P k s w = Inr (s', w') \<and> sr_orderBook s' = sr_orderBook s \<and> sr_logCh s' = sr_logCh s \<and>
    sr_snapshotCh s' = sr_snapshotCh s \<and> sr_pos s' = sr_pos s \<and> sr_lastSeq s' = sr_lastSeq s \<and>
    full_due s' = full_due s \<and> good_world P pid D w'"
proof (cases "case sr_lastLevel2 s of None \<Rightarrow> True | Some l \<Rightarrow> k < pb_seq (sr_orderBook s) - l2_Seq l")
  case True
  have b: "push_inv P (sr_orderBook s)" "pb_productId (sr_orderBook s) = pid" using at by (simp_all add: stream_book_def)
  obtain l where l: "SnapshotLevel2 P 1000 (sr_orderBook s) = Inr l" using SnapshotLevel2_total [OF b(1)] by blast
  have "good_level2 P pid D l" unfolding good_level2_def using at l by blast
  then have "good_world P pid D (w\<lparr>pw_level2 := (pw_level2 w)(pid \<mapsto> l)\<rparr>)" using w by (auto simp: good_world_def)
  then show ?thesis using True l b(2) by (simp add: refresh_level2_def full_due_def cong: option.case_cong)
next
  case False
  then show ?thesis using w by (simp add: refresh_level2_def)
qed

lemma followed_good_change:
  assumes "stream_book P pid D n b" and "n < length D" and "D ! n = (off, l)" and "followed P off l b (Some (Some c)) b'"
  shows "good_change P pid D c"
proof -
  have o: "pb_orders b = orders_at D n" using assms(1) by (simp add: stream_book_def)
  have eff: "effective l (orders_at D n)" using assms(4) o by (auto simp: followed_def split: if_splits)
  have o': "pb_orders b' = orders_at D (Suc n)" using assms(4) o orders_at_Suc [OF assms(2)] assms(3) by (simp add: followed_def)
  show ?thesis unfolding good_change_def
    using assms eff o o' by (intro exI [of _ n] exI [of _ b]) (auto simp: followed_def)
qed

lemma apply_log_keeps:
  fixes P :: "('d::linordered_idom, 'l) push_env"
  assumes laws: "treemap_laws (lmap P)" and fit: "logs_fit (map snd (fst (run_reader 0 T))) Map.empty"
    and inv: "stream_inv P pid T (s, w)" and a: "stream_allowed P (StreamApply ids) (s, w)"
    and st: "apply_log P pid ids s w = Some r"
  shows "\<exists>s' w'. r = Inr (s', w') \<and> stream_inv P pid T (s', w')"
proof -
  obtain D m n m' where i: "run_reader 0 T = (D, m, None)" "stream_book P pid D n (sr_orderBook s)"
      "n + length (sr_logCh s) \<le> length D" "sr_logCh s = take (length (sr_logCh s)) (drop n D)"
      "run_reader (sr_lastSeq s) (filter (\<lambda>x. sr_pos s \<le> fst x) T) = (drop (n + length (sr_logCh s)) D, m', None)"
      "\<forall>f\<in>set (sr_snapshotCh s). good_full P pid D f" "good_world P pid D w"
    using inv by (auto simp: stream_inv_def reading_def)
  obtain off l rest where ch: "sr_logCh s = (off, l) # rest"
    using st by (cases "sr_logCh s") (auto simp: apply_log_def)
  have n: "n < length D" using i(3) ch by simp
  have d: "drop n D = D ! n # drop (Suc n) D" using n by (simp add: Cons_nth_drop_Suc)
  have at: "D ! n = (off, l)" and rest: "rest = take (length rest) (drop (Suc n) D)" using i(4) by (simp_all add: ch d)
  have len: "Suc n + length rest \<le> length D" and rd: "n + length (sr_logCh s) = Suc n + length rest" using i(3) by (simp_all add: ch)
  from stream_book_next [OF laws fit [unfolded i(1) fst_conv] i(2) n at] obtain c b where
    f: "follow_log P off l (sr_orderBook s) = Inr (c, b)" "followed P off l (sr_orderBook s) c b" "stream_book P pid D (Suc n) b"
    by blast
  define s1 where "s1 = s\<lparr>sr_orderBook := b, sr_logCh := rest\<rparr>"
  have s1: "stream_book P pid D (Suc n) (sr_orderBook s1)" using f(3) by (simp add: s1_def)
  have read1: "reading T D (Suc n) s'" if "sr_logCh s' = rest" "sr_pos s' = sr_pos s" "sr_lastSeq s' = sr_lastSeq s"
    for s' :: "('d, 'l) book_stream"
    unfolding reading_def that using i(5) rest len rd by simp
  show ?thesis
  proof (cases c)
    case None
    then have r: "r = Inr (s1, w)" using st ch f(1) by (simp add: apply_log_def s1_def)
    have "stream_inv P pid T (s1, w)"
      by (rule stream_invI [OF i(1) s1 read1 _ i(7)]) (use i(6) in \<open>simp_all add: s1_def\<close>)
    then show ?thesis unfolding r by blast
  next
    case (Some ch2)
    from refresh_level2_keeps [OF s1 i(7), of 10] obtain s2 w2 where
      s2: "refresh_level2 P 10 s1 w = Inr (s2, w2)" "sr_orderBook s2 = sr_orderBook s1" "sr_logCh s2 = sr_logCh s1"
        "sr_snapshotCh s2 = sr_snapshotCh s1" "sr_pos s2 = sr_pos s1" "sr_lastSeq s2 = sr_lastSeq s1"
        "full_due s2 = full_due s1" "good_world P pid D w2" by blast
    have r: "r = Inr (refresh_full ids s2, publish_change pid ch2 w2)"
      using st ch f(1) Some s2(1) by (simp add: apply_log_def s1_def [symmetric] Let_def split: if_splits)
    have ids: "range_of (pb_orders b) ids" using a ch f(1) by (simp add: stream_allowed_def)
    have b2: "stream_book P pid D (Suc n) (sr_orderBook s2)" using s1 s2(2) by simp
    have "good_full P pid D (SnapshotFull ids (sr_orderBook s2))"
      unfolding good_full_def using b2 ids s2(2) by (auto simp: s1_def)
    then have full: "\<forall>g\<in>set (sr_snapshotCh (refresh_full ids s2)). good_full P pid D g"
      using i(6) s2(4) by (auto simp: refresh_full_def s1_def Let_def)
    have "good_change P pid D x" if "ch2 = Some x" for x
      using followed_good_change [OF i(2) n at] f(2) Some that by blast
    then have world: "good_world P pid D (publish_change pid ch2 w2)"
      using s2(8) by (auto simp: publish_change_def good_world_def split: option.splits)
    have "stream_inv P pid T (refresh_full ids s2, publish_change pid ch2 w2)"
      by (rule stream_invI [OF i(1) _ read1 full world]) (use b2 s2 in \<open>simp_all add: refresh_full_def s1_def Let_def\<close>)
    then show ?thesis unfolding r by blast
  qed
qed

subsection \<open>Restarting\<close>

lemma stream_restart_keeps:
  assumes laws: "treemap_laws (lmap P)" and T: "offsets_ok T" and inv: "stream_inv P pid T (s, w)"
  shows "\<exists>s'. newOrderBookStream P pid (pw_full w) = Inr s' \<and> stream_inv P pid T (start_stream s', w\<lparr>pw_level2 := Map.empty\<rparr>)"
proof -
  obtain D m where i: "run_reader 0 T = (D, m, None)" "good_world P pid D w" using inv by (auto simp: stream_inv_def)
  have w: "good_world P pid D (w\<lparr>pw_level2 := Map.empty\<rparr>)" using i(2) by (simp add: good_world_def)
  have all: "filter (\<lambda>x. 0 \<le> fst x) T = T" using T by (simp add: offsets_ok_def filter_id_conv)
  have zero: "stream_inv P pid T (s', w\<lparr>pw_level2 := Map.empty\<rparr>)"
    if "stream_book P pid D 0 (sr_orderBook s')" "sr_logCh s' = []" "sr_snapshotCh s' = []" "sr_pos s' = 0" "sr_lastSeq s' = 0" for s'
    using that i(1) all by (intro stream_invI [OF i(1) that(1) _ _ w]) (auto simp: reading_def)
  show ?thesis
  proof (cases "pw_full w")
    case None
    then show ?thesis
      using stream_book_start [OF laws, of pid D]
      by (auto simp: newOrderBookStream_def start_stream_def newOrderBook_def Let_def intro!: zero)
  next
    case (Some f)
    then have "good_full P pid D f" using i(2) by (simp add: good_world_def)
    then obtain n b ids where f: "stream_book P pid D n b" "range_of (pb_orders b) ids" "f = SnapshotFull ids b"
      unfolding good_full_def by blast
    then have b: "push_inv P b" "n \<le> length D" "pb_orders b = orders_at D n" "pb_productId b = pid"
      "(pb_seq b, pb_logOffset b, pb_logSeq b) = place D n" by (simp_all add: stream_book_def)
    from push_restore_ok [OF laws b(1) f(2), of pid] obtain b' where
      b': "push_Restore P f (newOrderBook P pid) = Inr b'" "push_inv P b'" "pb_productId b' = pid" "pb_orders b' = orders_at D n"
        "(pb_seq b', pb_logOffset b', pb_logSeq b') = place D n"
      using b(3-5) by (auto simp: f(3))
    define s' where "s' = \<lparr>sr_orderBook = b', sr_logCh = [], sr_snapshotCh = [], sr_lastLevel2 = None, sr_lastFull = None,
        sr_pos = 0, sr_lastSeq = 0\<rparr>"
    have new: "newOrderBookStream P pid (pw_full w) = Inr s'" using Some b'(1) by (simp add: newOrderBookStream_def s'_def)
    from place_last [OF b(2)] have "stream_inv P pid T (start_stream s', w\<lparr>pw_level2 := Map.empty\<rparr>)"
    proof (elim disjE exE conjE)
      assume "place D n = (0, 0, 0)" "orders_at D n = Map.empty"
      then show ?thesis
        using b' by (intro zero) (auto simp: stream_book_def start_stream_def s'_def Let_def)
    next
      fix j assume j: "j < n" "place D n = place D (Suc j)" "orders_at D n = orders_at D (Suc j)"
        "snd (place D n) = (fst (D ! j), GetSeq (snd (D ! j)))"
      have pos: "pb_logOffset b' = fst (D ! j)" "pb_logSeq b' = GetSeq (snd (D ! j))"
        using j(4) b'(5) by (metis Pair_inject snd_conv)+
      have "D = take j D @ D ! j # drop (Suc j) D" using j(1) b(2) by (simp add: id_take_nth_drop)
      then have "run_reader 0 T = (take j D @ (fst (D ! j), snd (D ! j)) # drop (Suc j) D, m, None)" using i(1) by simp
      from run_reader_start [OF T this] have rd: "run_reader (pb_logSeq b')
        (filter (\<lambda>x. (if 0 < pb_logOffset b' then pb_logOffset b' + 1 else pb_logOffset b') \<le> fst x) T) = (drop (Suc j) D, m, None)"
        unfolding pos .
      have "stream_book P pid D (Suc j) b'" using b' j b(2) by (simp add: stream_book_def)
      then show ?thesis
        using rd j(1) b(2) w
        by (intro stream_invI [OF i(1), where n = "Suc j"]) (auto simp: start_stream_def s'_def reading_def Let_def)
    qed
    then show ?thesis using new by blast
  qed
qed

subsection \<open>Runs\<close>

lemma stream_step_keeps:
  assumes laws: "treemap_laws (lmap P)" and T: "offsets_ok T"
    and fit: "logs_fit (map snd (fst (run_reader 0 T))) Map.empty"
    and inv: "stream_inv P pid T sw" and a: "stream_allowed P ev sw" and st: "stream_step P pid T ev sw = Some r"
  shows "\<exists>sw'. r = Inr sw' \<and> stream_inv P pid T sw'"
proof -
  obtain s w where sw: "sw = (s, w)" by (cases sw)
  note inv = inv [unfolded sw]
  show ?thesis
  proof (cases ev)
    case StreamRead
    then show ?thesis using stream_read_keeps [OF T inv] st by (fastforce simp: sw)
  next
    case (StreamApply ids)
    then show ?thesis using apply_log_keeps [OF laws fit inv, of ids] a st by (fastforce simp: sw)
  next
    case StreamTimer
    obtain D m n where i: "run_reader 0 T = (D, m, None)" "stream_book P pid D n (sr_orderBook s)" "reading T D n s"
        "\<forall>f\<in>set (sr_snapshotCh s). good_full P pid D f" "good_world P pid D w"
      using inv by (auto simp: stream_inv_def)
    from refresh_level2_keeps [OF i(2,5), of 0] obtain s' w' where
      r: "refresh_level2 P 0 s w = Inr (s', w')" "sr_orderBook s' = sr_orderBook s" "sr_logCh s' = sr_logCh s"
        "sr_snapshotCh s' = sr_snapshotCh s" "sr_pos s' = sr_pos s" "sr_lastSeq s' = sr_lastSeq s" "good_world P pid D w'" by blast
    have "stream_inv P pid T (s', w')" by (rule stream_invI [OF i(1)]) (use i r in \<open>auto simp: reading_def\<close>)
    moreover have "Some (refresh_level2 P 0 s w) = Some r" using st StreamTimer by (simp add: sw split: if_splits)
    ultimately show ?thesis using r(1) by auto
  next
    case (StreamStore ok)
    then obtain f rest where f: "sr_snapshotCh s = f # rest"
        "r = Inr (s\<lparr>sr_snapshotCh := rest\<rparr>, if ok then w\<lparr>pw_full := Some f\<rparr> else w)"
      using st by (auto simp: sw store_full_def split: list.splits)
    then have "stream_inv P pid T (s\<lparr>sr_snapshotCh := rest\<rparr>, if ok then w\<lparr>pw_full := Some f\<rparr> else w)"
      using inv by (fastforce simp: stream_inv_def reading_def good_world_def)
    then show ?thesis using f(2) by blast
  next
    case StreamRestart
    from stream_restart_keeps [OF laws T inv] show ?thesis using st StreamRestart by (auto simp: sw)
  qed
qed

interpretation book_stream: machine "stream_step P pid T" "stream_allowed P"
  "\<lambda>sw. treemap_laws (lmap P) \<and> offsets_ok T \<and> logs_fit (map snd (fst (run_reader 0 T))) Map.empty \<and> stream_inv P pid T sw"
  for P :: "('d::linordered_idom, 'l) push_env" and pid T
  by unfold_locales (use stream_step_keeps in blast)

definition quiet_world :: "'d push_world" where
  "quiet_world = \<lparr>pw_full = None, pw_level2 = Map.empty, pw_published = []\<rparr>"

lemma stream_start:
  assumes "treemap_laws (lmap P)" and "offsets_ok T" and "run_reader 0 T = (D, m, None)"
    and "newOrderBookStream P pid None = Inr s0"
  shows "stream_inv P pid T (start_stream s0, quiet_world)"
proof -
  have "filter (\<lambda>x. 0 \<le> fst x) T = T" using assms(2) by (simp add: offsets_ok_def filter_id_conv)
  then show ?thesis
    using assms(3,4) stream_book_start [OF assms(1), of pid D]
    by (auto simp: newOrderBookStream_def start_stream_def newOrderBook_def Let_def reading_def quiet_world_def good_world_def
        intro!: stream_invI [OF assms(3), where n = 0])
qed

text \<open>The logs of a run of the engine, as far as they have been published, can be followed.\<close>

lemma engine_logs_fit:
  assumes "env_laws E" and "list_all order_ok orders" and "distinct (sent_ids orders)"
    and "run_orders E (NewOrderBook E product) orders = Inr (b, logs)"
  shows "logs_fit (take k logs) Map.empty"
proof -
  note new = NewOrderBook_inv [OF env_lawsD(1) [OF assms(1)]]
  have none: "book_orders E (NewOrderBook E product) = {}"
    using NewOrderBook_view [OF env_lawsD(1) [OF assms(1)]] by (simp add: book_orders_def)
  have "follows E Map.empty logs b"
    by (rule run_orders_follows [OF assms(1) new(1) assms(2,3) _ assms(4)]) (simp_all add: resting_ids_def none holds_def)
  then have "logs_fit (take k logs @ drop k logs) Map.empty" by (simp add: follows_def)
  then show ?thesis unfolding logs_fit_append by simp
qed

text \<open>C37. The order book stream, from its first start and through any restarts. Let the log topic hold
  (with repetitions, as the engine may leave them) logs of a run of the engine. Then in every state
  that the stream can reach, nothing it can do next makes it panic; its book is the book after some
  number \<open>n\<close> of the logs; the level 2 snapshot that clients are given and the full snapshot in the store
  are snapshots of such books; and every change it has published is the change of the one level that
  the next log changed, numbered one more than the book before it.\<close>

theorem push_stream_safe:
  assumes "env_laws E" and "treemap_laws (lmap P)" and "list_all order_ok orders" and "distinct (sent_ids orders)"
    and "run_orders E (NewOrderBook E product) orders = Inr (b, logs)"
    and "offsets_ok T" and "run_reader 0 T = (D, m, None)" and "map snd D = take k logs"
    and "newOrderBookStream P pid None = Inr s0"
    and "reaches (stream_step P pid T) (stream_allowed P) (start_stream s0, quiet_world) (s, w)"
  shows "(\<forall>ev r. stream_allowed P ev (s, w) \<longrightarrow> stream_step P pid T ev (s, w) = Some r \<longrightarrow> (\<exists>sw. r = Inr sw)) \<and>
    (\<exists>n. stream_book P pid D n (sr_orderBook s)) \<and> good_world P pid D w"
proof -
  have fit: "logs_fit (map snd (fst (run_reader 0 T))) Map.empty"
    using engine_logs_fit [OF assms(1,3-5), of k] assms(7,8) by simp
  have "stream_inv P pid T (s, w)"
    using book_stream.reaches_good [OF assms(10)] stream_start [OF assms(2,6,7,9)] assms(2,6) fit by blast
  moreover from this have "\<exists>sw. r = Inr sw"
    if "stream_allowed P ev (s, w)" "stream_step P pid T ev (s, w) = Some r" for ev r
    using stream_step_keeps [OF assms(2,6) fit _ that] by blast
  ultimately show ?thesis using assms(7) by (auto simp: stream_inv_def)
qed

subsection \<open>Witness\<close>

text \<open>The log of one order that rests, read and applied.\<close>

definition one_log :: "rat msg list" where
  "one_log = [(0, newOpenLog rat_env 1 (prd_Id sample_product) (newBookOrder limit_buy))]"

lemma one_log_read: "offsets_ok one_log" "run_reader 0 one_log = (one_log, 1, None)"
  by (simp_all add: one_log_def offsets_ok_def)

lemma one_log_run:
  obtains s0 s w where "newOrderBookStream rat_push ''BTC-USDT'' None = Inr s0" and "pw_published w \<noteq> []"
    and "reaches (stream_step rat_push ''BTC-USDT'' one_log) (stream_allowed rat_push) (start_stream s0, quiet_world) (s, w)"
proof -
  define l where "l = newOpenLog rat_env 1 (prd_Id sample_product) (newBookOrder limit_buy)"
  define b0 where "b0 = newOrderBook rat_push ''BTC-USDT''"
  obtain s0 where s0: "newOrderBookStream rat_push ''BTC-USDT'' None = Inr s0" by (simp add: newOrderBookStream_def)
  then have start: "start_stream s0 = \<lparr>sr_orderBook = b0, sr_logCh = [], sr_snapshotCh = [], sr_lastLevel2 = None,
      sr_lastFull = None, sr_pos = 0, sr_lastSeq = 0\<rparr>"
    by (auto simp: newOrderBookStream_def start_stream_def newOrderBook_def b0_def Let_def)
  define s1 where "s1 = (start_stream s0)\<lparr>sr_pos := 1, sr_lastSeq := 1, sr_logCh := [(0, l)]\<rparr>"
  have r1: "stream_step rat_push ''BTC-USDT'' one_log StreamRead (start_stream s0, quiet_world) = Some (Inr (s1, quiet_world))"
    by (simp add: stream_read_def start one_log_def l_def s1_def)
  have fit: "logs_fit (map snd one_log) Map.empty" and eff: "effective l Map.empty"
    and fm: "follow_map l Map.empty = [5 \<mapsto> saved_order 5 3 SideBuy 100]"
    by (simp_all add: one_log_def l_def newOpenLog_def limit_buy_def newBookOrder_def saved_orders_def)
  have b0: "stream_book rat_push ''BTC-USDT'' one_log 0 b0" unfolding b0_def by (rule stream_book_start [OF rat_push_laws])
  have "0 < length one_log" "one_log ! 0 = (0, l)" by (simp_all add: one_log_def l_def)
  from stream_book_next [OF rat_push_laws fit b0 this] obtain c b where
    f: "follow_log rat_push 0 l b0 = Inr (c, b)" "followed rat_push 0 l b0 c b" by blast
  have o0: "pb_orders b0 = Map.empty" by (simp add: b0_def newOrderBook_def)
  have b: "pb_orders b = [5 \<mapsto> saved_order 5 3 SideBuy 100]" "push_inv rat_push b" using f(2) o0 fm by (simp_all add: followed_def)
  obtain x where c: "c = Some (Some x)" using f(2) o0 eff by (auto simp: followed_def)
  obtain v where v: "SnapshotLevel2 rat_push 1000 b = Inr v" using SnapshotLevel2_total [OF b(2)] by blast
  have "\<exists>s2 w2. apply_log rat_push ''BTC-USDT'' [5] s1 quiet_world = Some (Inr (s2, w2)) \<and> pw_published w2 \<noteq> []"
    using f(1) c v by (simp add: apply_log_def s1_def start Let_def refresh_level2_def publish_change_def)
  then obtain s2 w2 where r2: "stream_step rat_push ''BTC-USDT'' one_log (StreamApply [5]) (s1, quiet_world) = Some (Inr (s2, w2))"
    "pw_published w2 \<noteq> []" by auto
  have "stream_allowed rat_push (StreamApply [5]) (s1, quiet_world)"
    using f(1) b(1) by (simp add: stream_allowed_def s1_def start range_of_def)
  moreover have "stream_allowed rat_push StreamRead (start_stream s0, quiet_world)" by (simp add: stream_allowed_def)
  ultimately have "reaches (stream_step rat_push ''BTC-USDT'' one_log) (stream_allowed rat_push) (start_stream s0, quiet_world) (s2, w2)"
    using r1 r2(1) by (blast intro: reaches.intros)
  then show thesis using that [OF s0 r2(2)] by blast
qed

theorem push_stream_safe_witness:
  "\<exists>(s0 :: (rat, (rat, rat price_level) sl_map) book_stream) s w. newOrderBookStream rat_push ''BTC-USDT'' None = Inr s0 \<and>
    reaches (stream_step rat_push ''BTC-USDT'' one_log) (stream_allowed rat_push) (start_stream s0, quiet_world) (s, w) \<and>
    pw_published w \<noteq> [] \<and> good_world rat_push ''BTC-USDT'' one_log w"
proof -
  obtain b0 where "apply_order rat_env (NewOrderBook rat_env sample_product) limit_buy =
      Inr (b0, [newOpenLog rat_env 1 (prd_Id sample_product) (newBookOrder limit_buy)])" by (rule limit_buy_rests)
  then have run: "run_orders rat_env (NewOrderBook rat_env sample_product) [limit_buy] =
      Inr (b0, [newOpenLog rat_env 1 (prd_Id sample_product) (newBookOrder limit_buy)])" by simp
  have ok: "list_all order_ok [limit_buy]" "distinct (sent_ids [limit_buy])" using sample_order_ok(1) by (simp_all add: sent_ids_def)
  have D: "map snd one_log = take 1 [newOpenLog rat_env 1 (prd_Id sample_product) (newBookOrder limit_buy)]"
    by (simp add: one_log_def)
  obtain s0 s w where s: "newOrderBookStream rat_push ''BTC-USDT'' None = Inr s0" "pw_published w \<noteq> []"
    "reaches (stream_step rat_push ''BTC-USDT'' one_log) (stream_allowed rat_push) (start_stream s0, quiet_world) (s, w)"
    by (rule one_log_run)
  have "good_world rat_push ''BTC-USDT'' one_log w"
    using push_stream_safe [OF rat_env_laws rat_push_laws ok run one_log_read D s(1,3)] by blast
  with s show ?thesis by (intro exI conjI)
qed

end
