(* ===== verification/Push_View.thy ===== *)
theory Push_View
  imports Push_Client_Safe Push_Stream_Correct
begin

text \<open>
  What a client sees of the order book. A client that folds the snapshots and updates it is sent into a
  table of levels has the levels of the book: the level 2 writer relies only on the contract of its feed,
  which the order book stream provides. At the end, the counterexamples: what the writer does to a client
  that subscribes twice, and how its goroutines can block each other.
\<close>

subsection \<open>The table of a client\<close>

text \<open>From side and price to size; a size of zero removes the level.\<close>

type_synonym level_table = "string \<times> string \<rightharpoonup> string"

definition see_row :: "string \<times> string \<times> string \<Rightarrow> level_table \<Rightarrow> level_table" where
  "see_row r t = (case r of (s, p, z) \<Rightarrow> t((s, p) := if z = ''0'' then None else Some z))"

definition side_rows :: "side \<Rightarrow> (string \<times> string \<times> int) list \<Rightarrow> ((string \<times> string) \<times> string) list" where
  "side_rows s rows = map (\<lambda>(p, z, n). ((s, p), z)) rows"

definition snapshot_table :: "(string \<times> string \<times> int) list \<Rightarrow> (string \<times> string \<times> int) list \<Rightarrow> level_table" where
  "snapshot_table bids asks = map_of (side_rows SideBuy bids @ side_rows SideSell asks)"

fun see :: "string \<Rightarrow> push_message \<Rightarrow> level_table \<Rightarrow> level_table" where
  "see pid (SnapshotMessage p bids asks) t = (if p = pid then snapshot_table bids asks else t)"
| "see pid (UpdateMessage p rows) t = (if p = pid then fold see_row rows t else t)"
| "see pid m t = t"

definition client_view :: "string \<Rightarrow> push_message list \<Rightarrow> level_table" where
  "client_view pid ms = fold (see pid) ms Map.empty"

lemma client_view_append: "client_view pid (ms @ ms') = fold (see pid) ms' (client_view pid ms)"
  by (simp add: client_view_def)

text \<open>The changes that the level 2 writer holds back.\<close>

definition with_pending :: "l2_state \<Rightarrow> level_table \<Rightarrow> level_table" where
  "with_pending st t = fold see_row (map change_row (ls_changes st)) t"

definition up_to_date :: "string \<Rightarrow> (int \<Rightarrow> bool) \<Rightarrow> (int \<Rightarrow> level_table) \<Rightarrow> (string \<rightharpoonup> l2_state) \<Rightarrow> push_message list \<Rightarrow> bool" where
  "up_to_date pid known version states ms \<longleftrightarrow> (let st = stateOf states pid in
     if ls_resendSnapshot st then ls_changes st = []
     else known (ls_lastSeq st) \<and> with_pending st (client_view pid ms) = version (ls_lastSeq st))"

text \<open>A request for a snapshot, taken while no changes are held back, or a change of the feed.\<close>

definition proper :: "string \<Rightarrow> (l2_change \<Rightarrow> bool) \<Rightarrow> l2_change \<Rightarrow> bool" where
  "proper pid changes l \<longleftrightarrow> (lc_ProductId l = pid \<longrightarrow> lc_Seq l = 0 \<or> changes l)"

definition client_fed :: "string \<Rightarrow> (int \<Rightarrow> bool) \<Rightarrow> (int \<Rightarrow> level_table) \<Rightarrow> (l2_change \<Rightarrow> bool) \<Rightarrow> push_client \<Rightarrow> bool" where
  "client_fed pid known version changes c \<longleftrightarrow>
     up_to_date pid known version (cl_states c) (cl_conn c @ cl_writeCh c @ cl_l2out c) \<and>
     (\<forall>l. ChangeMessage l \<in> set (cl_writeCh c @ cl_l2out c) \<or> cl_forward c = Some l \<or> l \<in> set (cl_l2ChangeCh c) \<longrightarrow> proper pid changes l)"

definition hub_fed :: "string \<Rightarrow> (int \<Rightarrow> bool) \<Rightarrow> (int \<Rightarrow> level_table) \<Rightarrow> (l2_snapshot \<Rightarrow> bool) \<Rightarrow> (l2_change \<Rightarrow> bool) \<Rightarrow> push_hub \<Rightarrow> bool" where
  "hub_fed pid known version snapshots changes h \<longleftrightarrow> (\<forall>i c. hb_clients h i = Some c \<longrightarrow> client_fed pid known version changes c) \<and>
     (\<forall>l. hb_level2 h pid = Some l \<longrightarrow> snapshots l)"

definition feed_allowed :: "string \<Rightarrow> (l2_snapshot \<Rightarrow> bool) \<Rightarrow> (l2_change \<Rightarrow> bool) \<Rightarrow> hub_event \<Rightarrow> push_hub \<Rightarrow> bool" where
  "feed_allowed pid snapshots changes ev h \<longleftrightarrow> (case ev of
       Publish ch m \<Rightarrow> (case m of ChangeMessage l \<Rightarrow> lc_ProductId l = pid \<longrightarrow> changes l
         | SnapshotMessage p bids asks \<Rightarrow> False | UpdateMessage p rows \<Rightarrow> False | _ \<Rightarrow> True)
     | NewLevel2 p l \<Rightarrow> p = pid \<longrightarrow> snapshots l
     | L2Turn i \<Rightarrow> (\<forall>c l rest. hb_clients h i = Some c \<longrightarrow> cl_l2ChangeCh c = l # rest \<longrightarrow>
         lc_ProductId l = pid \<longrightarrow> lc_Seq l = 0 \<longrightarrow> ls_changes (stateOf (cl_states c) pid) = [])
     | _ \<Rightarrow> True)"

subsection \<open>The contract of a feed\<close>

locale level2_feed =
  fixes pid :: string and known :: "int \<Rightarrow> bool" and version :: "int \<Rightarrow> level_table"
    and snapshots :: "l2_snapshot \<Rightarrow> bool" and changes :: "l2_change \<Rightarrow> bool"
  assumes snapshot_shows: "snapshots l \<Longrightarrow> known (l2_Seq l) \<and> snapshot_table (l2_Bids l) (l2_Asks l) = version (l2_Seq l)"
    and change_leads: "changes c \<Longrightarrow> known (lc_Seq c) \<and> lc_Seq c \<noteq> 0 \<and>
      version (lc_Seq c) = see_row (change_row c) (version (lc_Seq c - 1))"
begin

lemma other_product:
  assumes "l2_take lasts waiting l states = (out, back, states')" and "lc_ProductId l \<noteq> pid"
  shows "stateOf states' pid = stateOf states pid" and "client_view pid (ms @ out) = client_view pid ms"
proof -
  show "stateOf states' pid = stateOf states pid"
    using assms by (auto simp: l2_take_def stateOf_def Let_def split: if_splits option.splits)
  have "\<forall>m\<in>set out. \<forall>t. see pid m t = t"
    using assms by (auto simp: l2_take_def Let_def split: if_splits option.splits)
  then have "fold (see pid) out t = t" for t by (induction out arbitrary: t) auto
  then show "client_view pid (ms @ out) = client_view pid ms" by (simp add: client_view_append)
qed

lemma turn_up_to_date:
  assumes now: "up_to_date pid known version states ms" and t: "l2_take lasts waiting l states = (out, back, states')"
    and snap: "\<And>x. lasts pid = Some x \<Longrightarrow> snapshots x" and l: "proper pid changes l"
    and ask: "lc_ProductId l = pid \<Longrightarrow> lc_Seq l = 0 \<Longrightarrow> ls_changes (stateOf states pid) = []"
  shows "up_to_date pid known version states' (ms @ out)"
proof (cases "lc_ProductId l = pid")
  case False
  then show ?thesis using now other_product [OF t False] by (simp add: up_to_date_def Let_def)
next
  case True
  define st where "st = stateOf states pid"
  have st_of: "stateOf (states(pid \<mapsto> s)) pid = s" for s by (simp add: stateOf_def)
  show ?thesis
  proof (cases "ls_resendSnapshot st \<or> lc_Seq l = 0")
    case again: True
    have none: "ls_changes st = []" using again now ask [OF True] by (auto simp: up_to_date_def st_def Let_def split: if_splits)
    show ?thesis
    proof (cases "\<exists>x. lasts pid = Some x \<and> ls_lastSeq st \<le> l2_Seq x")
      case False
      with t again have "out = []" "states' = states(pid \<mapsto> st)"
        by (auto simp: l2_take_def Let_def True st_def split: option.splits if_splits)
      then show ?thesis using now by (simp add: up_to_date_def st_of st_def Let_def)
    next
      case good: True
      then obtain x where x: "lasts pid = Some x" "ls_lastSeq st \<le> l2_Seq x" by blast
      with t again have "out = [SnapshotMessage pid (l2_Bids x) (l2_Asks x)]"
        "states' = states(pid \<mapsto> st\<lparr>ls_lastSeq := l2_Seq x, ls_resendSnapshot := False\<rparr>)"
        by (auto simp: l2_take_def Let_def True st_def split: option.splits if_splits)
      then show ?thesis using snapshot_shows [OF snap [OF x(1)]] none
        by (simp add: up_to_date_def st_of with_pending_def client_view_append Let_def)
    qed
  next
    case change: False
    then have ver: "known (ls_lastSeq st)" "with_pending st (client_view pid ms) = version (ls_lastSeq st)"
      using now by (auto simp: up_to_date_def st_def Let_def)
    have c: "changes l" using l True change by (simp add: proper_def)
    show ?thesis
    proof (cases "lc_Seq l = ls_lastSeq st + 1")
      case False
      with t change show ?thesis using ver
        by (auto simp: l2_take_def Let_def True st_def [symmetric] up_to_date_def st_of split: if_splits)
    next
      case contig: True
      define st1 where "st1 = st\<lparr>ls_lastSeq := lc_Seq l, ls_changes := ls_changes st @ [l]\<rparr>"
      have st1: "with_pending st1 (client_view pid ms) = version (lc_Seq l)" "known (lc_Seq l)"
        using ver(2) change_leads [OF c] contig by (simp_all add: with_pending_def st1_def)
      consider "out = []" "states' = states(pid \<mapsto> st1)"
        | "out = [UpdateMessage pid (map change_row (ls_changes st1))]" "states' = states(pid \<mapsto> st1\<lparr>ls_changes := []\<rparr>)"
        using t change contig by (auto simp: l2_take_def Let_def True st_def [symmetric] st1_def split: if_splits)
      then show ?thesis
      proof cases
        case 1
        then show ?thesis using st1 change by (simp add: up_to_date_def st_of st1_def Let_def)
      next
        case 2
        then show ?thesis using st1 change
          by (simp add: up_to_date_def st_of st1_def with_pending_def client_view_append Let_def)
      qed
    qed
  qed
qed

text \<open>The steps of the server.\<close>

lemma fed_client:
  assumes "hub_fed pid known version snapshots changes h" and "client_fed pid known version changes c"
  shows "hub_fed pid known version snapshots changes (h\<lparr>hb_clients := (hb_clients h)(i \<mapsto> c), hb_subscribers := subs\<rparr>)"
    and "hub_fed pid known version snapshots changes (h\<lparr>hb_clients := (hb_clients h)(i \<mapsto> c)\<rparr>)"
  using assms by (auto simp: hub_fed_def)

lemma on_client_fed:
  assumes fed: "hub_fed pid known version snapshots changes h" and st: "on_client f i h = Some (Inr h')"
    and f: "\<And>c c'. hb_clients h i = Some c \<Longrightarrow> client_fed pid known version changes c \<Longrightarrow> f c = Some c' \<Longrightarrow>
      client_fed pid known version changes c'"
  shows "hub_fed pid known version snapshots changes h'"
proof -
  obtain c c' where c: "hb_clients h i = Some c" "f c = Some c'" "h' = h\<lparr>hb_clients := (hb_clients h)(i \<mapsto> c')\<rparr>"
    using st by (auto simp: on_client_def split: option.splits)
  have "client_fed pid known version changes c" using fed c(1) by (simp add: hub_fed_def)
  from f [OF c(1) this c(2)] show ?thesis unfolding c(3) by (rule fed_client(2) [OF fed])
qed

text \<open>Only the level 2 writer makes snapshots and updates; elsewhere they are passed on in order.\<close>

lemma fed_moved:
  assumes "client_fed pid known version changes c" and "cl_states c' = cl_states c"
    and "client_view pid (cl_conn c' @ cl_writeCh c' @ cl_l2out c') = client_view pid (cl_conn c @ cl_writeCh c @ cl_l2out c)"
    and "\<And>l. ChangeMessage l \<in> set (cl_writeCh c' @ cl_l2out c') \<or> cl_forward c' = Some l \<or> l \<in> set (cl_l2ChangeCh c') \<Longrightarrow>
      ChangeMessage l \<in> set (cl_writeCh c @ cl_l2out c) \<or> cl_forward c = Some l \<or> l \<in> set (cl_l2ChangeCh c) \<or> proper pid changes l"
  shows "client_fed pid known version changes c'"
  using assms unfolding client_fed_def up_to_date_def Let_def by metis

lemma unseen: "(\<forall>t. see pid m t = t) \<Longrightarrow> client_view pid (a @ (b @ [m]) @ d) = client_view pid (a @ b @ d)"
  by (simp add: client_view_append)

lemma give_fed:
  assumes "client_fed pid known version changes c" and "\<forall>t. see pid m t = t"
    and "\<And>l. m = ChangeMessage l \<Longrightarrow> proper pid changes l"
  shows "client_fed pid known version changes (give m c)"
proof (rule fed_moved [OF assms(1)])
  show "client_view pid (cl_conn (give m c) @ cl_writeCh (give m c) @ cl_l2out (give m c)) =
      client_view pid (cl_conn c @ cl_writeCh c @ cl_l2out c)"
    using unseen [OF assms(2)] by (simp add: give_def)
qed (use assms(3) in \<open>auto simp: give_def split: if_splits\<close>)

lemma writer_take_fed:
  assumes fed: "client_fed pid known version changes c" and st: "writer_take c = Some c'"
  shows "client_fed pid known version changes c'"
proof -
  obtain m rest where m: "cl_writeCh c = m # rest" using st by (auto simp: writer_take_def split: if_splits list.splits)
  show ?thesis
  proof (cases "\<exists>l. m = ChangeMessage l")
    case True
    then obtain l where l: "m = ChangeMessage l" by blast
    with st m have c': "c' = c\<lparr>cl_writeCh := rest, cl_forward := Some l\<rparr>" by (simp add: writer_take_def split: if_splits)
    show ?thesis by (rule fed_moved [OF fed]) (auto simp: c' m l client_view_append)
  next
    case False
    with st m have c': "c' = c\<lparr>cl_writeCh := rest, cl_conn := cl_conn c @ [m]\<rparr>"
      by (cases m) (auto simp: writer_take_def split: if_splits)
    show ?thesis by (rule fed_moved [OF fed]) (auto simp: c' m)
  qed
qed

lemma writer_forward_fed:
  "client_fed pid known version changes c \<Longrightarrow> writer_forward c = Some c' \<Longrightarrow> client_fed pid known version changes c'"
  by (erule fed_moved) (auto simp: writer_forward_def split: if_splits option.splits)

lemma l2_send_fed:
  "client_fed pid known version changes c \<Longrightarrow> l2_send c = Some c' \<Longrightarrow> client_fed pid known version changes c'"
  by (erule fed_moved) (auto simp: l2_send_def split: if_splits list.splits)

lemma l2_turn_fed:
  assumes fed: "client_fed pid known version changes c" and st: "l2_turn lasts c = Some c'"
    and snap: "\<And>x. lasts pid = Some x \<Longrightarrow> snapshots x"
    and ask: "\<And>l rest. cl_l2ChangeCh c = l # rest \<Longrightarrow> lc_ProductId l = pid \<Longrightarrow> lc_Seq l = 0 \<Longrightarrow>
      ls_changes (stateOf (cl_states c) pid) = []"
  shows "client_fed pid known version changes c'"
proof -
  obtain l rest out asked states' where t: "cl_l2out c = []" "cl_l2ChangeCh c = l # rest"
      "l2_take lasts (length rest) l (cl_states c) = (out, asked, states')"
      "c' = c\<lparr>cl_l2ChangeCh := rest @ asked, cl_l2out := out, cl_states := states'\<rparr>"
    using st by (auto simp: l2_turn_def split: if_splits list.splits prod.splits)
  have before: "up_to_date pid known version (cl_states c) (cl_conn c @ cl_writeCh c)" and l: "proper pid changes l"
    using fed t(1,2) by (auto simp: client_fed_def)
  have "up_to_date pid known version states' ((cl_conn c @ cl_writeCh c) @ out)"
    by (rule turn_up_to_date [OF before t(3) snap l ask [OF t(2)]])
  moreover have "ChangeMessage x \<notin> set out" for x
    using t(3) by (auto simp: l2_take_def Let_def split: if_splits option.splits)
  moreover have "proper pid changes x" if "x \<in> set asked" for x
    using t(3) that by (auto simp: l2_take_def Let_def ask_snapshot_def proper_def split: if_splits option.splits)
  ultimately show ?thesis using fed t(2) unfolding client_fed_def t(4) by auto
qed

lemma run_task_fed:
  assumes fed: "hub_fed pid known version snapshots changes h" and c: "hb_clients h i = Some c" and st: "run_task i c h = Some (Inr h')"
  shows "hub_fed pid known version snapshots changes h'"
proof -
  have cf: "client_fed pid known version changes c" using fed c by (simp add: hub_fed_def)
  have same: "hub_fed pid known version snapshots changes (h\<lparr>hb_clients := (hb_clients h)(i \<mapsto> c'), hb_subscribers := subs\<rparr>)"
    if "cl_states c' = cl_states c" "cl_conn c' = cl_conn c" "cl_writeCh c' = cl_writeCh c" "cl_l2out c' = cl_l2out c"
      "cl_forward c' = cl_forward c" "cl_l2ChangeCh c' = cl_l2ChangeCh c" for c' subs
    using cf by (intro fed_client(1) [OF fed]) (simp add: client_fed_def that)
  have joined: "hub_fed pid known version snapshots changes (h\<lparr>hb_clients := (hb_clients h)(i \<mapsto> c1\<lparr>cl_tasks := ts'\<rparr>), hb_subscribers := subs1\<rparr>)"
    if "client_subscribe ch i c subs = (new, c1, subs1)" for ch subs new c1 subs1 ts'
    by (rule same) (use that in \<open>auto simp: client_subscribe_def split: if_splits prod.splits bool.splits\<close>)
  have left: "hub_fed pid known version snapshots changes (h\<lparr>hb_clients := (hb_clients h)(i \<mapsto> c1\<lparr>cl_tasks := ts'\<rparr>), hb_subscribers := subs1\<rparr>)"
    if "client_unsubscribe ch i c subs = (c1, subs1)" for ch subs c1 subs1 ts'
    by (rule same) (use that in \<open>auto simp: client_unsubscribe_def split: prod.splits bool.splits\<close>)
  obtain t ts where ts: "cl_tasks c = t # ts" using st by (cases "cl_tasks c") (auto simp: run_task_def)
  show ?thesis
  proof (cases t)
    case (SendLevel2 p)
    with st ts have h': "h' = h\<lparr>hb_clients := (hb_clients h)(i \<mapsto> c\<lparr>cl_tasks := ts, cl_l2ChangeCh := cl_l2ChangeCh c @ [ask_snapshot p]\<rparr>),
        hb_subscribers := hb_subscribers h\<rparr>" by (auto simp: run_task_def Let_def split: if_splits)
    have "proper pid changes (ask_snapshot p)" by (simp add: proper_def ask_snapshot_def)
    then show ?thesis unfolding h' by (intro fed_client(1) [OF fed] fed_moved [OF cf]) auto
  next
    case (SendTicker p)
    show ?thesis
    proof (cases "hb_tickers h p")
      case None
      then show ?thesis using st ts SendTicker same [of "c\<lparr>cl_tasks := ts\<rparr>" "hb_subscribers h"] by (auto simp: run_task_def Let_def)
    next
      case (Some tk)
      with st ts SendTicker have h': "h' = h\<lparr>hb_clients := (hb_clients h)(i \<mapsto> c\<lparr>cl_tasks := ts, cl_writeCh := cl_writeCh c @ [TickerMessage tk]\<rparr>),
          hb_subscribers := hb_subscribers h\<rparr>" by (auto simp: run_task_def Let_def split: if_splits)
      show ?thesis unfolding h' by (intro fed_client(1) [OF fed] fed_moved [OF cf]) (auto simp: client_view_append)
    qed
  qed (use st ts in \<open>auto simp: run_task_def Let_def intro: joined left split: prod.splits if_splits\<close>)
qed

lemma publish_fed:
  assumes fed: "hub_fed pid known version snapshots changes h" and "\<forall>t. see pid m t = t"
    and "\<And>l. m = ChangeMessage l \<Longrightarrow> proper pid changes l"
  shows "hub_fed pid known version snapshots changes (publish ch m h)"
proof (cases "hb_subscribers h ch")
  case (Some M)
  have "client_fed pid known version changes c'"
    if "(if i \<in> M then map_option (give m) (hb_clients h i) else hb_clients h i) = Some c'" for i c'
    using that fed give_fed [OF _ assms(2,3)] by (auto simp: hub_fed_def split: if_splits)
  then show ?thesis using fed Some by (simp add: publish_def hub_fed_def)
qed (simp add: publish_def fed)

lemma step_fed:
  assumes fed: "hub_fed pid known version snapshots changes h" and al: "feed_allowed pid snapshots changes ev h"
    and st: "hub_step ev h = Some (Inr h')"
  shows "hub_fed pid known version snapshots changes h'"
proof (cases ev)
  case (Connect i)
  have "client_fed pid known version changes NewClient"
    by (simp add: client_fed_def up_to_date_def NewClient_def stateOf_def)
  then show ?thesis using st Connect fed_client(2) [OF fed] by (auto split: option.splits)
next
  case (Publish ch m)
  have "\<forall>t. see pid m t = t" and "proper pid changes l" if "m = ChangeMessage l" for l
    using al Publish that by (auto simp: feed_allowed_def proper_def)
  moreover have "\<forall>t. see pid m t = t" using al Publish by (cases m) (auto simp: feed_allowed_def)
  ultimately show ?thesis using st Publish publish_fed [OF fed] by auto
next
  case (Receive i checked req)
  have "client_fed pid known version changes c'"
    if "client_fed pid known version changes c" "receive checked req c = Some c'" for c c'
    by (rule fed_moved [OF that(1)]) (use that(2) in \<open>auto simp: receive_def split: if_splits\<close>)
  then show ?thesis using st Receive on_client_fed [OF fed] by simp
next
  case (Task i)
  then show ?thesis using st run_task_fed [OF fed] by (auto split: option.splits)
next
  case (WriterTake i)
  then show ?thesis using st on_client_fed [OF fed _ writer_take_fed] by simp
next
  case (WriterForward i)
  then show ?thesis using st on_client_fed [OF fed _ writer_forward_fed] by simp
next
  case (L2Turn i)
  show ?thesis
  proof (rule on_client_fed [OF fed])
    show "on_client (l2_turn (hb_level2 h)) i h = Some (Inr h')" using st L2Turn by simp
    show "client_fed pid known version changes c'"
      if "hb_clients h i = Some c" "client_fed pid known version changes c" "l2_turn (hb_level2 h) c = Some c'" for c c'
      by (rule l2_turn_fed [OF that(2,3)]) (use fed al L2Turn that(1) in \<open>auto simp: hub_fed_def feed_allowed_def\<close>)
  qed
next
  case (L2Send i)
  then show ?thesis using st on_client_fed [OF fed _ l2_send_fed] by simp
next
  case (ReaderStops i chs)
  then obtain c where c: "hb_clients h i = Some c" "h' = client_close chs i (c\<lparr>cl_reading := False\<rparr>) h"
    using st by (auto simp: reader_stops_def split: option.splits if_splits)
  then show ?thesis using fed unfolding client_close_def by (auto intro!: fed_client(1) [OF fed] simp: hub_fed_def client_fed_def)
next
  case (WriterStops i chs)
  then obtain c where c: "hb_clients h i = Some c" "h' = client_close chs i (c\<lparr>cl_writing := False\<rparr>) h"
    using st by (auto simp: writer_stops_def split: option.splits if_splits)
  then show ?thesis using fed unfolding client_close_def by (auto intro!: fed_client(1) [OF fed] simp: hub_fed_def client_fed_def)
next
  case (NewLevel2 p l)
  then show ?thesis using st fed al by (auto simp: hub_fed_def feed_allowed_def split: if_splits)
next
  case (NewTicker p t)
  then show ?thesis using st fed by (auto simp: hub_fed_def)
qed

lemma newSubscription_fed: "hub_fed pid known version snapshots changes newSubscription"
  by (simp add: hub_fed_def newSubscription_def)

end

text \<open>A server that is fed by the contract is a machine that keeps its clients up to date.\<close>

sublocale level2_feed \<subseteq> served: machine hub_step "feed_allowed pid snapshots changes" "hub_fed pid known version snapshots changes"
  by unfold_locales (rule step_fed)

subsection \<open>The order book stream as a feed\<close>

definition book_table :: "('d::linordered_idom, 'l) push_env \<Rightarrow> (u64 \<rightharpoonup> 'd book_order) \<Rightarrow> level_table" where
  "book_table P m = (\<lambda>(s, z). if z \<in> range (dec_string (pdec P))
     then map_option (\<lambda>l. dec_string (pdec P) (lv_Size l)) (level_of m s (inv (dec_string (pdec P)) z)) else None)"

text \<open>The version with a sequence number: the book after the last log that changed it.\<close>

definition known_version :: "'d::linordered_idom msg list \<Rightarrow> int \<Rightarrow> bool" where
  "known_version D q \<longleftrightarrow> (\<exists>n\<le>length D. fst (place D n) = q)"

definition book_version :: "('d::linordered_idom, 'l) push_env \<Rightarrow> 'd msg list \<Rightarrow> int \<Rightarrow> level_table" where
  "book_version P D q = book_table P (orders_at D (LEAST n. fst (place D n) = q))"

text \<open>Decimals print to different strings, zero as it should; the logs can be followed; and no side of the book ever
  has more levels than a snapshot shows.\<close>

definition readable :: "('d::linordered_idom, 'l) push_env \<Rightarrow> 'd msg list \<Rightarrow> bool" where
  "readable P D \<longleftrightarrow> treemap_laws (lmap P) \<and> inj (dec_string (pdec P)) \<and> dec_string (pdec P) 0 = ''0'' \<and>
     logs_fit (map snd D) Map.empty \<and> (\<forall>n\<le>length D. \<forall>s. card {p. level_of (orders_at D n) s p \<noteq> None} \<le> 1000)"

lemma place_mono: "n \<le> n' \<Longrightarrow> fst (place D n) \<le> fst (place D n')"
  by (induction n' rule: dec_induct) auto

lemma place_same:
  assumes "n \<le> n'" and "n' \<le> length D" and "fst (place D n) = fst (place D n')"
  shows "orders_at D n = orders_at D n'"
  using assms
proof (induction n' rule: dec_induct)
  case (step m)
  have "fst (place D m) = fst (place D (Suc m))" "fst (place D n) = fst (place D m)"
    using place_mono [of n m D] place_mono [of m "Suc m" D] step by linarith+
  then have "orders_at D (Suc m) = orders_at D m"
    using step.prems orders_at_Suc [of m D] follow_map_ineffective by (auto split: if_splits)
  then show ?case using step \<open>fst (place D n) = fst (place D m)\<close> by simp
qed simp

lemma book_version_at:
  assumes "n \<le> length D" and "fst (place D n) = q"
  shows "book_version P D q = book_table P (orders_at D n)"
proof -
  define k where "k = (LEAST n. fst (place D n) = q)"
  have "fst (place D k) = q" "k \<le> n" unfolding k_def using assms(2) by (auto intro: LeastI Least_le)
  then show ?thesis using place_same [of k n D] assms by (simp add: book_version_def k_def)
qed

lemma level_size_pos:
  assumes "orders_fit m" and "level_of m s p = Some l"
  shows "0 < lv_Size l" and "valid_side s"
proof -
  have ids: "ids_at m s p \<noteq> {}" "finite (ids_at m s p)" and l: "lv_Size l = (\<Sum>i\<in>ids_at m s p. bo_Size (the (m i)))"
    using assms ids_at_finite [of m s p] by (auto simp: level_of_def orders_fit_def split: if_splits)
  have "0 < bo_Size (the (m i)) \<and> valid_side s" if "i \<in> ids_at m s p" for i
    using that assms(1) by (auto simp: ids_at_def orders_fit_def)
  then show "0 < lv_Size l" "valid_side s" using ids unfolding l by (auto intro: sum_pos)
qed

text \<open>A change is the difference between two tables.\<close>

lemma change_table:
  assumes str: "inj str" "str 0 = ''0''" "str = dec_string (pdec P)" and fit: "orders_fit m'"
    and other: "\<And>s' p'. (s', p') \<noteq> (s, p) \<Longrightarrow> level_of m' s' p' = level_of m s' p'"
  shows "book_table P m' = see_row (s, str p, str (level_size m' s p)) (book_table P m)"
proof (intro ext)
  fix k :: "string \<times> string"
  obtain s' z where k: "k = (s', z)" by (cases k)
  have inv_str: "inv str (str x) = x" for x using str(1) by simp
  show "book_table P m' k = see_row (s, str p, str (level_size m' s p)) (book_table P m) k"
  proof (cases "z \<in> range str")
    case False
    then show ?thesis by (auto simp: k book_table_def see_row_def str(3) [symmetric])
  next
    case True
    then obtain p' where z: "z = str p'" by blast
    have zero: "str x = ''0'' \<longleftrightarrow> x = 0" for x using str(1,2) by (metis injD)
    show ?thesis
    proof (cases "(s', p') = (s, p)")
      case True
      show ?thesis
      proof (cases "level_of m' s p")
        case None
        then show ?thesis using True by (simp add: k z book_table_def see_row_def str(3) [symmetric] inv_str level_size_def zero)
      next
        case (Some l)
        with level_size_pos(1) [OF fit Some] show ?thesis
          using True by (simp add: k z book_table_def see_row_def str(3) [symmetric] inv_str level_size_def zero)
      qed
    next
      case False
      then have "(s', str p') \<noteq> (s, str p)" using str(1) by (auto dest: injD)
      then show ?thesis using other [OF False] by (auto simp: k z book_table_def see_row_def str(3) [symmetric] inv_str)
    qed
  qed
qed

text \<open>A snapshot that is not cut off is a table.\<close>

lemma map_of_rows:
  fixes xs :: "('a \<times> 'a price_level) list"
  assumes "inj str" and "\<And>p l. (p, l) \<in> set xs \<Longrightarrow> lv_Price l = p"
  shows "map_of (side_rows s (map (\<lambda>(p, l). (str (lv_Price l), str (lv_Size l), lv_OrderCount l)) xs)) (s', z) =
    (if s' = s \<and> z \<in> range str then map_option (\<lambda>l. str (lv_Size l)) (map_of xs (inv str z)) else None)"
  using assms(2)
proof (induction xs)
  case (Cons e xs)
  obtain p l where e: "e = (p, l)" by (cases e)
  have lp: "lv_Price l = p" using Cons.prems [of p l] by (simp add: e)
  have row: "side_rows s (map f (e # xs)) = ((s, fst (f e)), fst (snd (f e))) # side_rows s (map f xs)"
    for f :: "'a \<times> 'a price_level \<Rightarrow> string \<times> string \<times> int" by (simp add: side_rows_def case_prod_beta)
  have IH: "map_of (side_rows s (map (\<lambda>(p, l). (str (lv_Price l), str (lv_Size l), lv_OrderCount l)) xs)) (s', z) =
      (if s' = s \<and> z \<in> range str then map_option (\<lambda>l. str (lv_Size l)) (map_of xs (inv str z)) else None)"
    by (rule Cons.IH) (use Cons.prems in auto)
  show ?case
  proof (cases "s' = s \<and> z = str p")
    case True
    then show ?thesis unfolding row by (simp add: e lp inv_f_f [OF assms(1)])
  next
    case False
    then have "z \<in> range str \<Longrightarrow> s' = s \<Longrightarrow> inv str z \<noteq> p" using assms(1) by (auto simp: inv_f_f)
    then show ?thesis using False IH unfolding row by (auto simp: e lp)
  qed
qed (simp add: side_rows_def)

lemma level_rows_all:
  assumes laws: "treemap_laws (lmap P)" and inv: "push_inv P b" and s: "pb_depths b s = Some q"
    and few: "card {p. level_of (pb_orders b) s p \<noteq> None} \<le> 1000" and str: "inj str" "str = dec_string (pdec P)"
  shows "map_of (side_rows s (level_rows P 1000 q)) (s', z) =
    (if s' = s \<and> z \<in> range str then map_option (\<lambda>l. str (lv_Size l)) (level_of (pb_orders b) s (inv str z)) else None)"
proof -
  have made: "tm_made (lmap P) (level_cmp s) q" and it: "map_of (tm_iter (lmap P) q) = level_of (pb_orders b) s"
    using inv s by (auto simp: push_inv_def)
  have dist: "distinct (map fst (tm_iter (lmap P) q))"
    using sl_sorted_fst [OF level_cmp_ok tm_made_sorted [OF laws level_cmp_ok made]] .
  have "length (tm_iter (lmap P) q) = card (dom (level_of (pb_orders b) s))"
    using dist it [symmetric] by (simp add: dom_map_of_conv_image_fst distinct_card flip: set_map)
  then have "take 1000 (tm_iter (lmap P) q) = tm_iter (lmap P) q" using few by (simp add: dom_def)
  moreover have "lv_Price l = p" if "(p, l) \<in> set (tm_iter (lmap P) q)" for p l
    using that dist it level_of_price by (metis map_of_eq_Some_iff)
  ultimately show ?thesis using map_of_rows [OF str(1), of "tm_iter (lmap P) q"] it
    by (simp add: level_rows_def str(2) [symmetric])
qed

lemma snapshot_is_table:
  assumes "readable P D" and at: "stream_book P pid D n b" and l: "SnapshotLevel2 P 1000 b = Inr l"
  shows "l2_Seq l = fst (place D n) \<and> snapshot_table (l2_Bids l) (l2_Asks l) = book_table P (orders_at D n)"
proof -
  define str where "str = dec_string (pdec P)"
  have rd: "treemap_laws (lmap P)" "inj str" "\<And>s. card {p. level_of (orders_at D n) s p \<noteq> None} \<le> 1000"
    using assms(1) at by (simp_all add: readable_def str_def stream_book_def)
  have b: "push_inv P b" "pb_orders b = orders_at D n" "pb_seq b = fst (place D n)"
    using at by (auto simp: stream_book_def dest: arg_cong [of _ _ fst])
  obtain qa where a: "pb_depths b SideSell = Some qa" using push_inv_levels [OF b(1), of SideSell] by (auto simp: valid_side_def)
  obtain qb where qb: "pb_depths b SideBuy = Some qb" using push_inv_levels [OF b(1), of SideBuy] by (auto simp: valid_side_def)
  have few: "card {p. level_of (pb_orders b) s p \<noteq> None} \<le> 1000" for s using rd(3) b(2) by simp
  note asks = level_rows_all [OF rd(1) b(1) a few rd(2) str_def] and bids = level_rows_all [OF rd(1) b(1) qb few rd(2) str_def]
  have other: "level_of (pb_orders b) s p = None" if "\<not> valid_side s" for s p
    using b(1) level_size_pos(2) [of "pb_orders b" s p] that by (cases "level_of (pb_orders b) s p") (auto simp: push_inv_def)
  have "map_of (side_rows SideBuy (level_rows P 1000 qb) @ side_rows SideSell (level_rows P 1000 qa)) (s, z) =
      book_table P (pb_orders b) (s, z)" for s z
    using other [of s "inv str z"]
    by (auto simp: map_of_append map_add_def bids asks book_table_def str_def [symmetric] valid_side_def split: option.splits)
  then have "snapshot_table (level_rows P 1000 qb) (level_rows P 1000 qa) = book_table P (orders_at D n)"
    unfolding snapshot_table_def b(2) [symmetric] by (intro ext) auto
  then show ?thesis using l a qb b(3) by (auto simp: SnapshotLevel2_def)
qed

lemma place_pos: "0 \<le> fst (place D n)"
  using place_mono [of 0 n D] by simp

lemma change_is_difference:
  assumes rd: "readable P D" and c: "good_change P pid D c"
  shows "known_version D (lc_Seq c) \<and> lc_Seq c \<noteq> 0 \<and>
    book_version P D (lc_Seq c) = see_row (change_row c) (book_version P D (lc_Seq c - 1))"
proof -
  obtain n b where n: "n < length D" "stream_book P pid D n b" "effective (snd (D ! n)) (orders_at D n)"
    and other: "\<And>s p. (s, p) \<noteq> log_level (snd (D ! n)) \<Longrightarrow> level_of (orders_at D (Suc n)) s p = level_of (orders_at D n) s p"
    and c_eq: "c = change_at P b (orders_at D (Suc n)) (fst (log_level (snd (D ! n)))) (snd (log_level (snd (D ! n))))"
    using c by (auto simp: good_change_def)
  define s where "s = fst (log_level (snd (D ! n)))"
  define p where "p = snd (log_level (snd (D ! n)))"
  obtain off l where ol: "D ! n = (off, l)" by (cases "D ! n")
  have laws: "treemap_laws (lmap P)" "logs_fit (map snd D) Map.empty" using rd by (simp_all add: readable_def)
  obtain b' where "stream_book P pid D (Suc n) b'"
    using stream_book_next [OF laws n(2,1) ol] by blast
  then have fit: "orders_fit (orders_at D (Suc n))" by (auto simp: stream_book_def push_inv_def)
  have "pb_seq b = fst (place D n)" using n(2) by (auto simp: stream_book_def dest: arg_cong [of _ _ fst])
  then have q: "lc_Seq c = fst (place D (Suc n))" "lc_Seq c - 1 = fst (place D n)"
    using n(3) by (simp_all add: c_eq change_at_def)
  have row: "change_row c = (s, dec_string (pdec P) p, dec_string (pdec P) (level_size (orders_at D (Suc n)) s p))"
    by (simp add: c_eq change_at_def change_row_def s_def p_def)
  have "book_table P (orders_at D (Suc n)) = see_row (change_row c) (book_table P (orders_at D n))"
    unfolding row by (rule change_table [OF _ _ refl fit]) (use rd other in \<open>auto simp: readable_def s_def p_def\<close>)
  moreover have "book_version P D (lc_Seq c) = book_table P (orders_at D (Suc n))"
    by (rule book_version_at) (use n(1) q in auto)
  moreover have "book_version P D (lc_Seq c - 1) = book_table P (orders_at D n)"
    by (rule book_version_at) (use n(1) q in auto)
  moreover have "known_version D (lc_Seq c)" using n(1) q(1) by (auto simp: known_version_def intro!: exI [of _ "Suc n"])
  moreover have "lc_Seq c \<noteq> 0" using q(2) place_pos [of D n] by linarith
  ultimately show ?thesis by simp
qed

interpretation order_book_feed: level2_feed pid "known_version D" "book_version P D"
  "\<lambda>l. readable P D \<and> good_level2 P pid D l" "\<lambda>c. readable P D \<and> good_change P pid D c"
  for P :: "('d::linordered_idom, 'l) push_env" and pid D
proof (unfold_locales, goal_cases)
  case (1 l)
  then obtain n b where n: "stream_book P pid D n b" "SnapshotLevel2 P 1000 b = Inr l" by (auto simp: good_level2_def)
  have "n \<le> length D" using n(1) by (simp add: stream_book_def)
  then show ?case using snapshot_is_table [OF _ n] 1 book_version_at [OF \<open>n \<le> length D\<close> refl, where P = P] by (auto simp: known_version_def)
next
  case (2 c)
  then show ?case using change_is_difference by blast
qed

lemma view_of_book:
  assumes rd: "readable P D" and reached: "reaches hub_step (feed_allowed pid (good_level2 P pid D) (good_change P pid D)) newSubscription h"
    and c: "hb_clients h i = Some c" "\<not> ls_resendSnapshot (stateOf (cl_states c) pid)"
  shows "\<exists>n\<le>length D. fst (place D n) = ls_lastSeq (stateOf (cl_states c) pid) \<and>
    with_pending (stateOf (cl_states c) pid) (client_view pid (cl_conn c @ cl_writeCh c @ cl_l2out c)) = book_table P (orders_at D n)"
proof -
  have "feed_allowed pid (\<lambda>l. readable P D \<and> good_level2 P pid D l) (\<lambda>c. readable P D \<and> good_change P pid D c) =
      feed_allowed pid (good_level2 P pid D) (good_change P pid D)" using rd by simp
  with reached have "reaches hub_step (feed_allowed pid (\<lambda>l. readable P D \<and> good_level2 P pid D l)
      (\<lambda>c. readable P D \<and> good_change P pid D c)) newSubscription h" by simp
  from order_book_feed.served.reaches_good [OF this order_book_feed.newSubscription_fed] c
  have st: "known_version D (ls_lastSeq (stateOf (cl_states c) pid))"
    "with_pending (stateOf (cl_states c) pid) (client_view pid (cl_conn c @ cl_writeCh c @ cl_l2out c)) =
      book_version P D (ls_lastSeq (stateOf (cl_states c) pid))"
    by (auto simp: hub_fed_def client_fed_def up_to_date_def Let_def)
  then obtain n where "n \<le> length D" "fst (place D n) = ls_lastSeq (stateOf (cl_states c) pid)" by (auto simp: known_version_def)
  then show ?thesis using st(2) book_version_at by metis
qed

subsection \<open>Clients see the book\<close>


subsection \<open>Witness\<close>

text \<open>Rationals in print.\<close>

definition rat_string :: "rat \<Rightarrow> string" where
  "rat_string x = (case quotient_of x of (a, b) \<Rightarrow> I64ToA a @ (if b = 1 then [] else CHR ''/'' # I64ToA b))"

lemma I64ToA_part: "CHR ''/'' \<notin> set (I64ToA i)"
  using nat_string_chars [of "CHR ''/''"] by (auto simp: I64ToA_def int_string_def)

lemma I64ToA_inj: "I64ToA i = I64ToA j \<Longrightarrow> i = j"
proof -
  assume eq: "I64ToA i = I64ToA j"
  have "CHR ''-'' \<notin> set (nat_string n)" for n using nat_string_chars [of "CHR ''-''" n] by auto
  then have no: "nat_string n \<noteq> CHR ''-'' # xs" for n xs by (metis list.set_intros(1))
  with eq no [symmetric] have "(i < 0) = (j < 0)" by (auto simp: I64ToA_def int_string_def split: if_splits)
  then show "i = j" using eq by (auto simp: I64ToA_def int_string_def nat_string_inj split: if_splits)
qed

lemma rat_string_inj: "inj rat_string"
proof (rule injI)
  fix x y assume eq: "rat_string x = rat_string y"
  obtain a b a' b' where q: "quotient_of x = (a, b)" "quotient_of y = (a', b')" by fastforce
  have cut: "takeWhile (\<lambda>c. c \<noteq> CHR ''/'') (I64ToA i @ (if d = 1 then [] else CHR ''/'' # I64ToA d)) = I64ToA i" for i d
  proof -
    have "\<And>c. c \<in> set (I64ToA i) \<Longrightarrow> c \<noteq> CHR ''/''" using I64ToA_part [of i] by blast
    then show ?thesis by (subst takeWhile_append2) (auto simp: takeWhile_eq_all_conv)
  qed
  have "I64ToA a = I64ToA a'" using eq cut [of a b] cut [of a' b'] by (simp add: rat_string_def q)
  then have "a = a'" by (rule I64ToA_inj)
  moreover from this have "b = b'" using eq I64ToA_inj by (auto simp: rat_string_def q split: if_splits)
  ultimately show "x = y" using q quotient_of_inject by metis
qed

definition print_push :: "(rat, (rat, rat price_level) sl_map) push_env" where
  "print_push = rat_push\<lparr>pdec := rat_decimal\<lparr>dec_string := rat_string\<rparr>\<rparr>"

lemma print_push_laws: "treemap_laws (lmap print_push)" "dec_string (pdec print_push) = rat_string"
  using rat_push_laws by (simp_all add: print_push_def)

text \<open>One order rests: one level.\<close>

lemma one_log_levels: "card {p. level_of (orders_at one_log n) s p \<noteq> None} \<le> 1000"
proof -
  have at: "orders_at one_log n = Map.empty \<or> orders_at one_log n = [5 \<mapsto> saved_order 5 3 SideBuy 100]"
    by (cases n) (simp_all add: orders_at_def one_log_def newOpenLog_def limit_buy_def newBookOrder_def saved_orders_def)
  have "{p. level_of (orders_at one_log n) s p \<noteq> None} \<subseteq> {100}"
    using at by (auto simp: level_of_def ids_at_def saved_order_def split: if_splits)
  from card_mono [OF _ this] show ?thesis by simp
qed

lemma one_log_change:
  obtains b0 c v where "SnapshotLevel2 print_push 1000 b0 = Inr v" and "good_level2 print_push ''BTC-USDT'' one_log v"
    and "l2_Seq v = 0" and "good_change print_push ''BTC-USDT'' one_log c" and "lc_Seq c = 1" and "lc_ProductId c = ''BTC-USDT''"
proof -
  define b0 where "b0 = newOrderBook print_push ''BTC-USDT''"
  define l where "l = newOpenLog rat_env 1 (prd_Id sample_product) (newBookOrder limit_buy)"
  have at: "stream_book print_push ''BTC-USDT'' one_log 0 b0" unfolding b0_def by (rule stream_book_start [OF print_push_laws(1)])
  then have inv: "push_inv print_push b0" by (simp add: stream_book_def)
  obtain v where v: "SnapshotLevel2 print_push 1000 b0 = Inr v" using SnapshotLevel2_total [OF inv] by blast
  then have "good_level2 print_push ''BTC-USDT'' one_log v" using at by (auto simp: good_level2_def)
  moreover have "l2_Seq v = 0" using v by (auto simp: SnapshotLevel2_def b0_def newOrderBook_def)
  moreover have n: "one_log ! 0 = (0, l)" "length one_log = 1" by (simp_all add: one_log_def l_def)
  have lvl: "log_level l = (SideBuy, 100)" by (simp add: l_def newOpenLog_def limit_buy_def newBookOrder_def)
  define c where "c = change_at print_push b0 (orders_at one_log 1) SideBuy 100"
  have fit: "logs_fit (map snd one_log) Map.empty" and eff: "effective l Map.empty"
    by (simp_all add: one_log_def l_def newOpenLog_def limit_buy_def newBookOrder_def saved_orders_def)
  obtain c' b' where f: "followed print_push 0 l b0 c' b'" "stream_book print_push ''BTC-USDT'' one_log (Suc 0) b'"
    using stream_book_next [OF print_push_laws(1) fit at, of 0 l] n by auto
  have o0: "pb_orders b0 = Map.empty" by (simp add: b0_def newOrderBook_def)
  have o1: "pb_orders b' = orders_at one_log (Suc 0)" using f(2) by (simp add: stream_book_def)
  have "good_change print_push ''BTC-USDT'' one_log c"
    unfolding good_change_def using at n f(1) eff o0 o1
    by (intro exI [of _ 0] exI [of _ b0]) (auto simp: followed_def lvl c_def valid_side_def)
  moreover have "lc_Seq c = 1" "lc_ProductId c = ''BTC-USDT''" by (simp_all add: c_def change_at_def b0_def newOrderBook_def)
  ultimately show thesis using that [OF v] by blast
qed

text \<open>A client subscribes, is sent the snapshot of the empty book, and then the change.\<close>

definition level2_request :: push_request where
  "level2_request = \<lparr>rq_Type = ''subscribe'', rq_ProductIds = [''BTC-USDT''], rq_CurrencyIds = [], rq_Channels = [ChannelLevel2], rq_Token = []\<rparr>"

definition view_events :: "l2_snapshot \<Rightarrow> l2_change \<Rightarrow> hub_event list" where
  "view_events v c = [Connect 1, Receive 1 some_token level2_request, Task 1, Task 1, NewLevel2 ''BTC-USDT'' v, L2Turn 1, L2Send 1,
     WriterTake 1, Publish ''level2:BTC-USDT'' (ChangeMessage c), WriterTake 1, WriterForward 1, L2Turn 1, L2Send 1, WriterTake 1]"

lemma view_run:
  assumes "l2_Seq v = 0" and "lc_Seq c = 1" and "lc_ProductId c = ''BTC-USDT''"
  shows "\<exists>h c'. run_machine hub_step (view_events v c) newSubscription = Some (Inr h) \<and>
    allowed_run hub_step (feed_allowed ''BTC-USDT'' (\<lambda>x. x = v) (\<lambda>x. x = c)) (view_events v c) newSubscription \<and> hb_clients h 1 = Some c' \<and>
    cl_conn c' = [SnapshotMessage ''BTC-USDT'' (l2_Bids v) (l2_Asks v), UpdateMessage ''BTC-USDT'' [change_row c]] \<and>
    cl_writeCh c' = [] \<and> cl_l2out c' = [] \<and> stateOf (cl_states c') ''BTC-USDT'' = \<lparr>ls_resendSnapshot = False, ls_changes = [], ls_lastSeq = 1\<rparr>"
  using assms
  by (simp add: view_events_def feed_allowed_def some_token_def level2_request_def newSubscription_def on_client_def NewClient_def receive_def
      onMessage_def onSub_def sub_tasks_def ChannelLevel2_def ChannelFunds_def user_id_def run_task_def Let_def client_subscribe_def
      sub_subscribe_def FormatWithProductId_def l2ChangeChannelSize_def writeChannelSize_def ask_snapshot_def l2_turn_def l2_take_def
      stateOf_def l2_send_def writer_take_def writer_forward_def publish_def give_def change_row_def)


subsection \<open>Where the writer fails its clients\<close>

text \<open>A sequence of turns of the level 2 writer.\<close>

fun l2_turns :: "(string \<rightharpoonup> l2_snapshot) \<Rightarrow> (nat \<times> l2_change) list \<Rightarrow> (string \<rightharpoonup> l2_state) \<Rightarrow> push_message list" where
  "l2_turns lasts [] states = []"
| "l2_turns lasts ((waiting, l) # ls) states = (case l2_take lasts waiting l states of (out, _, states') \<Rightarrow> out @ l2_turns lasts ls states')"

definition some_change :: "int \<Rightarrow> string \<Rightarrow> string \<Rightarrow> l2_change" where
  "some_change q p z = \<lparr>lc_Seq = q, lc_ProductId = ''P'', lc_Side = SideBuy, lc_Price = p, lc_Size = z\<rparr>"

text \<open>A snapshot that a client asks for by subscribing again, while changes are held back, is followed by these older
  changes: the client is left with the size 3 at a price where the snapshot said 5, and has seen every
  later change.\<close>

lemma stale_after_snapshot:
  fixes v :: l2_snapshot
  defines "v \<equiv> \<lparr>l2_ProductId = ''P'', l2_Seq = 2, l2_Asks = [], l2_Bids = [(''100'', ''5'', 1)]\<rparr>"
  shows "client_view ''P'' (l2_turns [''P'' \<mapsto> v] [(1, some_change 1 ''100'' ''3''), (0, ask_snapshot ''P''), (0, some_change 3 ''90'' ''1'')]
      [''P'' \<mapsto> \<lparr>ls_resendSnapshot = False, ls_changes = [], ls_lastSeq = 0\<rparr>]) (SideBuy, ''100'') = Some ''3''"
    and "see_row (change_row (some_change 3 ''90'' ''1'')) (snapshot_table (l2_Bids v) (l2_Asks v)) (SideBuy, ''100'') = Some ''5''"
  by (simp_all add: v_def some_change_def l2_take_def stateOf_def ask_snapshot_def Let_def client_view_def see_row_def change_row_def
      snapshot_table_def side_rows_def)

text \<open>A change that is taken while changes of another product wait is held back, and stays so when none of these is
  followed by one of its own product.\<close>

lemma held_back:
  "l2_turns Map.empty [(1, some_change 1 ''100'' ''3''), (0, (some_change 1 ''7'' ''7'')\<lparr>lc_ProductId := ''Q''\<rparr>)]
     [''P'' \<mapsto> \<lparr>ls_resendSnapshot = False, ls_changes = [], ls_lastSeq = 0\<rparr>, ''Q'' \<mapsto> \<lparr>ls_resendSnapshot = False, ls_changes = [], ls_lastSeq = 0\<rparr>] =
   [UpdateMessage ''Q'' [(SideBuy, ''7'', ''7'')]]"
  by (simp add: some_change_def l2_take_def stateOf_def Let_def change_row_def)

end
