(* ===== verification/Push_Drain.thy ===== *)
theory Push_Drain
  imports Push_Client_Safe
begin

text \<open>
  The goroutines of a client come to rest. When nothing more is published to a client, its writer and its
  level 2 writer stop after finitely many steps, in whatever order they run, with everything delivered;
  unless they block each other, each waiting for room in the channel that the other should empty, which
  they never bring about themselves.
\<close>

text \<open>The steps of the two goroutines of connection \<open>i\<close>.\<close>

definition own :: "int \<Rightarrow> hub_event \<Rightarrow> bool" where
  "own i ev \<longleftrightarrow> ev \<in> {WriterTake i, WriterForward i, L2Turn i, L2Send i}"

definition blocked :: "push_client \<Rightarrow> bool" where
  "blocked c \<longleftrightarrow> cl_forward c \<noteq> None \<and> l2ChangeChannelSize \<le> length (cl_l2ChangeCh c) \<and>
     cl_l2out c \<noteq> [] \<and> writeChannelSize \<le> length (cl_writeCh c)"

definition at_rest :: "push_client \<Rightarrow> bool" where
  "at_rest c \<longleftrightarrow> cl_writeCh c = [] \<and> cl_forward c = None \<and> cl_l2ChangeCh c = [] \<and> cl_l2out c = []"

text \<open>What is still to be done: a change in \<open>writeCh\<close> is taken, forwarded, turned into a request for a snapshot or a
  message, which is sent to \<open>writeCh\<close> and written.\<close>

definition work_message :: "push_message \<Rightarrow> nat" where
  "work_message m = (case m of ChangeMessage l \<Rightarrow> 6 | _ \<Rightarrow> 1)"

definition work_change :: "l2_change \<Rightarrow> nat" where
  "work_change l = (if lc_Seq l = 0 then 3 else 4)"

definition work :: "push_client \<Rightarrow> nat" where
  "work c = sum_list (map work_message (cl_writeCh c)) + (case cl_forward c of None \<Rightarrow> 0 | Some l \<Rightarrow> 5) +
     sum_list (map work_change (cl_l2ChangeCh c)) + sum_list (map (\<lambda>m. Suc (work_message m)) (cl_l2out c))"

lemma l2_take_work:
  "l2_take lasts waiting l states = (out, asked, states') \<Longrightarrow>
    sum_list (map work_change asked) + sum_list (map (\<lambda>m. Suc (work_message m)) out) < work_change l"
  by (auto simp: l2_take_def Let_def work_change_def work_message_def ask_snapshot_def split: if_splits option.splits)

text \<open>The messages that are not made from changes.\<close>

fun plain :: "push_message \<Rightarrow> bool" where
  "plain (ChangeMessage l) = False"
| "plain (SnapshotMessage p bids asks) = False"
| "plain (UpdateMessage p rows) = False"
| "plain m = True"

definition plain_sent :: "push_client \<Rightarrow> push_message list" where
  "plain_sent c = filter plain (cl_conn c @ cl_writeCh c @ cl_l2out c)"

definition progress :: "push_client \<Rightarrow> push_client \<Rightarrow> bool" where
  "progress c c' \<longleftrightarrow> work c' < work c \<and> kept c c' \<and> \<not> blocked c' \<and> plain_sent c' = plain_sent c"

lemma l2_take_plain: "l2_take lasts waiting l states = (out, asked, states') \<Longrightarrow> filter plain out = []"
  by (auto simp: l2_take_def Let_def split: if_splits option.splits)

lemma writer_take_progress:
  assumes ok: "client_ok us c" and "writer_take c = Some c'"
  shows "progress c c'"
proof -
  obtain m rest where m: "cl_writeCh c = m # rest" "cl_forward c = None"
    using assms(2) by (auto simp: writer_take_def split: if_splits list.splits)
  have room: "length rest < writeChannelSize" using ok m(1) by (simp add: client_ok_def)
  show ?thesis
  proof (cases "\<exists>l. m = ChangeMessage l")
    case True
    then obtain l where l: "m = ChangeMessage l" by blast
    with assms(2) m have "c' = c\<lparr>cl_writeCh := rest, cl_forward := Some l\<rparr>" by (simp add: writer_take_def split: if_splits)
    then show ?thesis using m l room by (simp add: progress_def work_def work_message_def kept_def blocked_def plain_sent_def)
  next
    case False
    with assms(2) m have c': "c' = c\<lparr>cl_writeCh := rest, cl_conn := cl_conn c @ [m]\<rparr>" and "work_message m = 1"
      by (cases m; simp add: writer_take_def work_message_def split: if_splits)+
    then show ?thesis using m by (simp add: progress_def work_def kept_def blocked_def plain_sent_def)
  qed
qed

lemma writer_forward_progress: "writer_forward c = Some c' \<Longrightarrow> progress c c'"
  by (auto simp: writer_forward_def progress_def work_def work_change_def kept_def blocked_def plain_sent_def split: option.splits if_splits)

lemma l2_send_progress:
  assumes "client_ok us c" and "l2_send c = Some c'"
  shows "progress c c'"
proof -
  obtain m where m: "cl_l2out c = [m]" "c' = c\<lparr>cl_writeCh := cl_writeCh c @ [m], cl_l2out := []\<rparr>"
    using assms by (cases "cl_l2out c") (auto simp: l2_send_def client_ok_def split: if_splits list.splits)
  then show ?thesis by (simp add: progress_def work_def kept_def blocked_def plain_sent_def)
qed

lemma l2_turn_progress:
  assumes ok: "client_ok us c" and "l2_turn lasts c = Some c'"
  shows "progress c c'"
proof -
  obtain l rest out asked states' where t: "cl_l2out c = []" "cl_l2ChangeCh c = l # rest"
      "l2_take lasts (length rest) l (cl_states c) = (out, asked, states')"
      "c' = c\<lparr>cl_l2ChangeCh := rest @ asked, cl_l2out := out, cl_states := states'\<rparr>"
    using assms(2) by (auto simp: l2_turn_def split: if_splits list.splits prod.splits)
  have "length (rest @ asked) < l2ChangeChannelSize"
  proof (cases rest)
    case Nil
    then show ?thesis using l2_take_out [OF t(3)] by (simp add: l2ChangeChannelSize_def)
  next
    case (Cons x xs)
    then have "asked = []" using t(3) by (auto simp: l2_take_def Let_def split: if_splits option.splits)
    then show ?thesis using ok t(2) by (simp add: client_ok_def)
  qed
  then show ?thesis
    using l2_take_work [OF t(3)] l2_take_plain [OF t(3)] t(1,2) unfolding t(4)
    by (simp add: progress_def work_def kept_def blocked_def plain_sent_def)
qed

subsection \<open>The server\<close>

lemma own_step_progress:
  assumes "own i ev" and "hub_step ev h = Some r" and "hb_clients h i = Some c" and ok: "client_ok us c"
  shows "\<exists>c'. r = Inr (h\<lparr>hb_clients := (hb_clients h)(i \<mapsto> c')\<rparr>) \<and> progress c c' \<and> client_ok us c'"
proof -
  consider (take) c' where "writer_take c = Some c'" "r = Inr (h\<lparr>hb_clients := (hb_clients h)(i \<mapsto> c')\<rparr>)"
    | (forward) c' where "writer_forward c = Some c'" "r = Inr (h\<lparr>hb_clients := (hb_clients h)(i \<mapsto> c')\<rparr>)"
    | (turn) c' where "l2_turn (hb_level2 h) c = Some c'" "r = Inr (h\<lparr>hb_clients := (hb_clients h)(i \<mapsto> c')\<rparr>)"
    | (send) c' where "l2_send c = Some c'" "r = Inr (h\<lparr>hb_clients := (hb_clients h)(i \<mapsto> c')\<rparr>)"
    using assms(1-3) by (auto simp: own_def on_client_def)
  then show ?thesis
  proof cases
    case take
    then show ?thesis using ok writer_take_ok [of us c] writer_take_progress [of us c] by blast
  next
    case forward
    then show ?thesis using ok writer_forward_ok [of us c] writer_forward_progress [of c] by blast
  next
    case turn
    then show ?thesis using ok l2_turn_ok [of us c] l2_turn_progress [of us c] by blast
  next
    case send
    then show ?thesis using ok l2_send_ok [of us c] l2_send_progress [of us c] by blast
  qed
qed

text \<open>Without a step to make, the client is at rest or blocked.\<close>

lemma stuck_rests:
  assumes "\<And>ev. own i ev \<Longrightarrow> hub_step ev h = None" and "hb_clients h i = Some c" and "cl_reading c" and "cl_writing c"
    and "\<not> blocked c"
  shows "at_rest c"
proof -
  have none: "writer_take c = None" "writer_forward c = None" "l2_turn (hb_level2 h) c = None" "l2_send c = None"
    using assms(1) [of "WriterTake i"] assms(1) [of "WriterForward i"] assms(1) [of "L2Turn i"] assms(1) [of "L2Send i"] assms(2)
    by (simp_all add: own_def on_client_def)
  have t: "cl_forward c \<noteq> None \<or> cl_writeCh c = []"
    using none(1) assms(3,4) by (auto simp: writer_take_def split: if_splits list.splits push_message.splits)
  have f: "cl_forward c = None \<or> l2ChangeChannelSize \<le> length (cl_l2ChangeCh c)"
    using none(2) by (auto simp: writer_forward_def split: option.splits if_splits)
  have l: "cl_l2out c \<noteq> [] \<or> cl_l2ChangeCh c = []" using none(3) by (auto simp: l2_turn_def split: list.splits prod.splits if_splits)
  have s: "cl_l2out c = [] \<or> writeChannelSize \<le> length (cl_writeCh c)" using none(4) by (auto simp: l2_send_def split: list.splits if_splits)
  show ?thesis
  proof (cases "cl_l2out c = []")
    case True
    then show ?thesis using t f l by (auto simp: at_rest_def l2ChangeChannelSize_def)
  next
    case False
    then have "cl_writeCh c \<noteq> []" using s by (auto simp: writeChannelSize_def)
    then show ?thesis using False t f s assms(5) by (auto simp: blocked_def)
  qed
qed

text \<open>From \<open>c0\<close> on, when only the goroutines of connection \<open>i\<close> run.\<close>

definition drained :: "int \<Rightarrow> u64 set \<Rightarrow> push_client \<Rightarrow> push_hub \<Rightarrow> bool" where
  "drained i us c0 h \<longleftrightarrow> (\<exists>c. hb_clients h i = Some c \<and> client_ok us c \<and> (c = c0 \<or> \<not> blocked c) \<and>
     kept c0 c \<and> plain_sent c = plain_sent c0)"

interpretation push_drain: machine hub_step "\<lambda>ev h. own i ev" "drained i us c0"
  for i us c0
proof (unfold_locales, goal_cases)
  case (1 h ev h')
  then obtain c where c: "hb_clients h i = Some c" "client_ok us c" "kept c0 c" "plain_sent c = plain_sent c0"
    by (auto simp: drained_def)
  from own_step_progress [OF 1(2,3) c(1,2)] obtain c' where
    "h' = h\<lparr>hb_clients := (hb_clients h)(i \<mapsto> c')\<rparr>" "progress c c'" "client_ok us c'" by auto
  then show ?case using c(3,4) by (auto simp: drained_def progress_def kept_def)
qed


text \<open>A client with a change and an order waiting for it.\<close>

definition order_for_client :: order_message where
  "order_for_client = \<lparr>om_UserId = 7, om_Type = ''order'', om_Sequence = 0, om_Id = [], om_Price = [], om_Size = [], om_Funds = [],
     om_ProductId = ''BTC'', om_Side = [], om_OrderType = [], om_CreatedAt = [], om_FillFees = [], om_FilledSize = [],
     om_ExecutedValue = [], om_Status = [], om_Settled = False\<rparr>"

definition drain_events :: "hub_event list" where
  "drain_events = some_events @ [Publish (Format ChannelOrder ''BTC'' 7) (OrderMessage order_for_client)]"

lemma drain_run:
  "\<exists>h c h'. run_machine hub_step drain_events newSubscription = Some (Inr h) \<and> hb_clients h 1 = Some c \<and> cl_reading c \<and> cl_writing c \<and>
    \<not> blocked c \<and> plain_sent c = [OrderMessage order_for_client] \<and> cl_l2ChangeCh c \<noteq> [] \<and> cl_conn c = [] \<and>
    run_machine hub_step [L2Turn 1, WriterTake 1] h = Some (Inr h') \<and> (\<forall>ev. own 1 ev \<longrightarrow> hub_step ev h' = None)"
  by (simp add: drain_events_def some_events_def some_token_def some_request_def newSubscription_def on_client_def NewClient_def receive_def
      onMessage_def onSub_def sub_tasks_def ChannelOrder_def ChannelLevel2_def ChannelFunds_def ChannelMatch_def ChannelTrade_def
      ChannelTicker_def user_id_def run_task_def Let_def client_subscribe_def sub_subscribe_def Format_def FormatWithProductId_def
      l2ChangeChannelSize_def writeChannelSize_def publish_def give_def blocked_def plain_sent_def ask_snapshot_def l2_turn_def l2_take_def
      stateOf_def writer_take_def writer_forward_def l2_send_def own_def)


end
