(* ===== verification/Rest.thy ===== *)
theory Rest
  imports Services Utils
begin

text \<open>
  The HTTP interface (package \<open>rest\<close>): what it shows of the rows (\<open>vo.go\<close>), the handlers of all routes
  (\<open>*_controller.go\<close>), the check of tokens (\<open>auth.go\<close>) and the routes (\<open>server.go\<close>). \<open>gin\<close> is a package: a
  handler is given the parts of the request that it asks for (a body that is an error or was read, the
  values of the query), and answers with a status, headers, a cookie and a body. A handler that panics is
  answered for by \<open>gin.Recovery\<close>; \<open>Fatal\<close> stops the process. The clock is read once for a request.
\<close>

subsection \<open>Packages\<close>

text \<open>Besides decimals and tokens: why a string is no UUID or no decimal, and how times are printed. The
  columns \<open>created_at\<close> are not in the tables of the model; they are given by the id of the row.\<close>

record ('d, 'salt) rest_env =
  re_dec :: "'d decimal_pkg"
  re_auth :: "'salt auth_pkg"
  re_secret :: string
  uuid_error :: "string \<Rightarrow> string option"
  decimal_error :: "string \<Rightarrow> string"
  time_string :: "int \<Rightarrow> string"
  order_created :: "u64 \<Rightarrow> int"
  user_created :: "u64 \<Rightarrow> int"

subsection \<open>What is shown\<close>

record account_vo =
  av_Id :: string
  av_Currency :: string
  av_CurrencyIcon :: string
  av_Available :: string
  av_Hold :: string

record place_order_request =
  po_ClientOid :: string
  po_ProductId :: string
  po_Size :: string
  po_Funds :: string
  po_Price :: string
  po_Side :: string
  po_Type :: string
  po_TimeInForce :: string

record order_vo =
  ov_Id :: string
  ov_Price :: string
  ov_Size :: string
  ov_Funds :: string
  ov_ProductId :: string
  ov_Side :: string
  ov_Type :: string
  ov_CreatedAt :: string
  ov_FillFees :: string
  ov_FilledSize :: string
  ov_ExecutedValue :: string
  ov_Status :: string
  ov_Settled :: bool

record product_vo =
  pv_Id :: string
  pv_BaseCurrency :: string
  pv_QuoteCurrency :: string
  pv_BaseMinSize :: string
  pv_BaseMaxSize :: string
  pv_QuoteIncrement :: string
  pv_BaseScale :: int
  pv_QuoteScale :: int

record trade_vo =
  tv_Time :: string
  tv_Id :: string
  tv_TradeSeq :: string
  tv_Price :: string
  tv_Size :: string
  tv_Side :: string

record sign_up_request =
  su_Email :: string
  su_Password :: string

record change_password_request =
  cp_OldPassword :: string
  cp_NewPassword :: string

record user_vo =
  uv_Id :: string
  uv_Email :: string
  uv_Name :: string
  uv_ProfilePhoto :: string
  uv_IsBand :: bool
  uv_CreatedAt :: string

record network_vo =
  nv_Status :: string
  nv_Hash :: string
  nv_Amount :: string
  nv_FeeAmount :: string
  nv_FeeCurrency :: string
  nv_Confirmations :: int
  nv_ResourceUrl :: string

record transaction_vo =
  xv_Id :: string
  xv_Currency :: string
  xv_Amount :: string
  xv_Type :: string
  xv_Status :: string
  xv_Price :: string
  xv_NativeCurrency :: string
  xv_NativeAmount :: string
  xv_Description :: string
  xv_CreatedAt :: string
  xv_UpdatedAt :: string
  xv_FromAddress :: string
  xv_ToAddress :: string
  xv_Network :: network_vo

definition newTransactionVo :: "('d, 'salt) rest_env \<Rightarrow> int \<Rightarrow> transaction_vo" where
  "newTransactionVo E now = \<lparr>xv_Id = ''1'', xv_Currency = ''BTC'', xv_Amount = ''0.1'', xv_Type = ''send'', xv_Status = ''pending'',
     xv_Price = ''8000'', xv_NativeCurrency = ''USD'', xv_NativeAmount = ''8000'', xv_Description = ''withdraw btc'',
     xv_CreatedAt = time_string E now, xv_UpdatedAt = time_string E now,
     xv_FromAddress = ''0x3A3E32423AE323242'', xv_ToAddress = ''0x4B3E32423AE323242'',
     xv_Network = \<lparr>nv_Status = ''confirmed'', nv_Hash = ''0x23423AA3232'', nv_Amount = ''0.1'', nv_FeeAmount = ''0.1'',
       nv_FeeCurrency = ''BTC'', nv_Confirmations = 0, nv_ResourceUrl = []\<rparr>\<rparr>"

definition newTradeVo :: "('d, 'salt) rest_env \<Rightarrow> 'd trade \<Rightarrow> trade_vo" where
  "newTradeVo E trade = \<lparr>tv_Time = time_string E (trd_Time trade), tv_Id = U64ToA (trd_Id trade), tv_TradeSeq = I64ToA (trd_TradeSeq trade),
     tv_Price = dec_string (re_dec E) (trd_Price trade), tv_Size = dec_string (re_dec E) (trd_Size trade), tv_Side = trd_Side trade\<rparr>"

definition newProductVo :: "('d, 'salt) rest_env \<Rightarrow> 'd product \<Rightarrow> product_vo" where
  "newProductVo E product = \<lparr>pv_Id = prd_Id product, pv_BaseCurrency = prd_BaseCurrency product, pv_QuoteCurrency = prd_QuoteCurrency product,
     pv_BaseMinSize = dec_string (re_dec E) (prd_BaseMinSize product), pv_BaseMaxSize = dec_string (re_dec E) (prd_BaseMaxSize product),
     pv_QuoteIncrement = dec_string (re_dec E) (prd_QuoteIncrement product),
     pv_BaseScale = prd_BaseScale product, pv_QuoteScale = prd_QuoteScale product\<rparr>"

definition newOrderVo :: "('d, 'salt) rest_env \<Rightarrow> 'd order \<Rightarrow> order_vo" where
  "newOrderVo E order = \<lparr>ov_Id = U64ToA (ord_Id order), ov_Price = dec_string (re_dec E) (ord_Price order),
     ov_Size = dec_string (re_dec E) (ord_Size order), ov_Funds = dec_string (re_dec E) (ord_ExecutedValue order),
     ov_ProductId = ord_ProductId order, ov_Side = ord_Side order, ov_Type = ord_Type order,
     ov_CreatedAt = time_string E (order_created E (ord_Id order)), ov_FillFees = dec_string (re_dec E) (ord_FillFees order),
     ov_FilledSize = dec_string (re_dec E) (ord_FilledSize order), ov_ExecutedValue = dec_string (re_dec E) (ord_ExecutedValue order),
     ov_Status = ord_Status order, ov_Settled = ord_Settled order\<rparr>"

definition newAccountVo :: "('d, 'salt) rest_env \<Rightarrow> 'd account \<Rightarrow> account_vo" where
  "newAccountVo E account = \<lparr>av_Id = U64ToA (acc_Id account), av_Currency = acc_Currency account,
     av_CurrencyIcon = ''https://oooooo.oss-cn-hangzhou.aliyuncs.com/coin/'' @ map to_lower (acc_Currency account) @ ''.png'',
     av_Available = dec_string (re_dec E) (acc_Available account), av_Hold = dec_string (re_dec E) (acc_Hold account)\<rparr>"

subsection \<open>Handlers\<close>

datatype 'd rest_body = NoBody | MessageBody string | TokenBody string | ConfigsBody "string \<rightharpoonup> string" | OrderBody order_vo
  | OrdersBody "order_vo list" | AccountsBody "account_vo list" | ProductsBody "product_vo list" | TradesBody "trade_vo list"
  | CandlesBody "(int \<times> 'd \<times> 'd \<times> 'd \<times> 'd \<times> 'd) list" | UserBody user_vo | AddressBody string
  | TransactionsBody "transaction_vo list" | TransactionBody transaction_vo

record 'd response =
  rs_Status :: nat
  rs_Headers :: "(string \<times> string) list"
  rs_Cookie :: "(string \<times> int) option"
  rs_Body :: "'d rest_body"

text \<open>A handler also writes orders to the topic of the matching engine.\<close>

type_synonym 'd handler = "'d db \<Rightarrow> (fault + 'd response \<times> 'd order list) \<times> 'd db"

definition reply :: "nat \<Rightarrow> 'd rest_body \<Rightarrow> 'd handler" where
  "reply status body s = (Inr (\<lparr>rs_Status = status, rs_Headers = [], rs_Cookie = None, rs_Body = body\<rparr>, []), s)"

definition with_headers :: "(string \<times> string) list \<Rightarrow> 'd handler \<Rightarrow> 'd handler" where
  "with_headers hs k s = (case k s of (Inl f, s') \<Rightarrow> (Inl f, s') | (Inr (r, os), s') \<Rightarrow> (Inr (r\<lparr>rs_Headers := hs\<rparr>, os), s'))"

definition with_cookie :: "string \<Rightarrow> int \<Rightarrow> 'd handler \<Rightarrow> 'd handler" where
  "with_cookie v age k s = (case k s of (Inl f, s') \<Rightarrow> (Inl f, s') | (Inr (r, os), s') \<Rightarrow> (Inr (r\<lparr>rs_Cookie := Some (v, age)\<rparr>, os), s'))"

definition with_orders :: "'d order list \<Rightarrow> 'd handler \<Rightarrow> 'd handler" where
  "with_orders new k s = (case k s of (Inl f, s') \<Rightarrow> (Inl f, s') | (Inr (r, os), s') \<Rightarrow> (Inr (r, new @ os), s'))"

text \<open>Calling a service: an error is answered with the status and its message.\<close>

definition attempt :: "('d, 'a) dbop \<Rightarrow> nat \<Rightarrow> ('a \<Rightarrow> 'd handler) \<Rightarrow> 'd handler" where
  "attempt m status k s = (case m s of
       (Inl (Err e), s') \<Rightarrow> reply status (MessageBody e) s'
     | (Inl (Crash (Panic e)), s') \<Rightarrow> reply 500 NoBody s'
     | (Inl (Crash (Fatal e)), s') \<Rightarrow> (Inl (Fatal e), s')
     | (Inr x, s') \<Rightarrow> k x s')"

definition bind_body :: "string + 'a \<Rightarrow> ('a \<Rightarrow> 'd handler) \<Rightarrow> 'd handler" where
  "bind_body b k = (case b of Inl e \<Rightarrow> reply 400 (MessageBody e) | Inr x \<Rightarrow> k x)"

text \<open>The first value of a name in the query.\<close>

type_synonym query_args = "string \<Rightarrow> string list"

definition Query :: "query_args \<Rightarrow> string \<Rightarrow> string" where
  "Query q k = (case q k of [] \<Rightarrow> [] | v # _ \<Rightarrow> v)"

subsection \<open>Orders\<close>

text \<open>\<open>W\<close>: whether the order is written to Kafka; an error is only logged.\<close>

definition submitOrder :: "('d order \<Rightarrow> bool) \<Rightarrow> 'd order \<Rightarrow> 'd order list" where
  "submitOrder W order = (if W order then [order] else [])"

definition or_default :: "string \<Rightarrow> string \<Rightarrow> string" where
  "or_default s d = (if s = [] then d else s)"

definition parse_decimal :: "('d, 'salt) rest_env \<Rightarrow> string \<Rightarrow> string \<Rightarrow> ('d \<Rightarrow> 'd handler) \<Rightarrow> 'd handler" where
  "parse_decimal E what v k = (case dec_of_string (re_dec E) v of
       None \<Rightarrow> reply 400 (MessageBody (''invalid '' @ what @ '': '' @ decimal_error E v)) | Some d \<Rightarrow> k d)"

definition rest_PlaceOrder :: "('d::linordered_idom, 'salt) rest_env \<Rightarrow> faults \<Rightarrow> ('d order \<Rightarrow> bool) \<Rightarrow> u64 \<Rightarrow> user \<Rightarrow>
    string + place_order_request \<Rightarrow> 'd handler" where
  "rest_PlaceOrder E F W newId user body = bind_body body (\<lambda>req.
     let sd = or_default (po_Side req) SideBuy;
         orderType = or_default (po_Type req) OrderTypeLimit;
         timeInForce = or_default (po_TimeInForce req) GoodTillCanceled
     in case (if po_ClientOid req = [] then None else uuid_error E (po_ClientOid req)) of
       Some e \<Rightarrow> reply 400 (MessageBody (''invalid client_oid: '' @ e))
     | None \<Rightarrow>
       parse_decimal E ''size'' (po_Size req) (\<lambda>sz.
       parse_decimal E ''price'' (po_Price req) (\<lambda>price.
       parse_decimal E ''funds'' (po_Funds req) (\<lambda>funds.
       attempt (PlaceOrder F (re_dec E) newId (usr_Id user) (usr_UserLevel user) (po_ClientOid req) (po_ProductId req)
           orderType timeInForce sd sz price funds) 500 (\<lambda>order.
         with_orders (submitOrder W order) (reply 200 (OrderBody (newOrderVo E order))))))))"

definition cancelling :: "'d order \<Rightarrow> 'd order" where
  "cancelling order = order\<lparr>ord_Status := OrderStatusCancelling\<rparr>"

text \<open>What follows when the order was looked up.\<close>

definition cancel_found :: "('d order \<Rightarrow> bool) \<Rightarrow> user \<Rightarrow> 'd order option \<Rightarrow> 'd handler" where
  "cancel_found W user found = (case found of
       None \<Rightarrow> reply 404 (MessageBody ''order not found'')
     | Some order \<Rightarrow>
         if ord_UserId order \<noteq> usr_Id user then reply 404 (MessageBody ''order not found'')
         else if ord_Status order \<noteq> OrderStatusNew \<and> ord_Status order \<noteq> OrderStatusOpen \<and> ord_Status order \<noteq> OrderStatusPartial
         then reply 400 (MessageBody ''order cannot be cancelled'')
         else with_orders (submitOrder W (cancelling order)) (reply 200 NoBody))"

definition rest_CancelOrder :: "faults \<Rightarrow> ('d order \<Rightarrow> bool) \<Rightarrow> user \<Rightarrow> string \<Rightarrow> 'd handler" where
  "rest_CancelOrder F W user rawOrderId =
     (if take 7 rawOrderId = ''client:''
      then attempt (service_GetOrderByClientOid F (usr_Id user) (takeWhile (\<lambda>c. c \<noteq> CHR '':'') (drop 7 rawOrderId))) 500 (cancel_found W user)
      else case AToUint64 rawOrderId of
        None \<Rightarrow> reply 400 (MessageBody ''invalid order id'')
      | Some orderId \<Rightarrow> attempt (service_GetOrderById F orderId) 500 (cancel_found W user))"

definition parse_side :: "string \<Rightarrow> (side option \<Rightarrow> 'd handler) \<Rightarrow> 'd handler" where
  "parse_side rawSide k = (if rawSide = [] then k None
     else case NewSideFromString rawSide of Inl e \<Rightarrow> reply 400 (MessageBody e) | Inr sd \<Rightarrow> k (Some sd))"

definition rest_CancelOrders :: "faults \<Rightarrow> ('d order \<Rightarrow> bool) \<Rightarrow> user \<Rightarrow> query_args \<Rightarrow> 'd handler" where
  "rest_CancelOrders F W user q = parse_side (Query q ''side'') (\<lambda>sd.
     attempt (service_GetOrdersByUserId F (usr_Id user) [OrderStatusOpen, OrderStatusNew] sd (Query q ''productId'') 0 0 10000) 500 (\<lambda>orders.
       with_orders (concat (map (\<lambda>order. submitOrder W (cancelling order)) orders)) (reply 200 NoBody)))"

fun parse_statuses :: "string list \<Rightarrow> string + order_status list" where
  "parse_statuses [] = Inr []"
| "parse_statuses (v # vs) = (case NewOrderStatusFromString v of Inl e \<Rightarrow> Inl e
     | Inr st \<Rightarrow> (case parse_statuses vs of Inl e \<Rightarrow> Inl e | Inr sts \<Rightarrow> Inr (st # sts)))"

definition page_size :: "int \<Rightarrow> string \<Rightarrow> int" where
  "page_size most v = (let n = parse_int64 v in if n \<le> 0 \<or> most < n then most else n)"

definition rest_GetOrders :: "('d, 'salt) rest_env \<Rightarrow> faults \<Rightarrow> user \<Rightarrow> query_args \<Rightarrow> 'd handler" where
  "rest_GetOrders E F user q = parse_side (Query q ''side'') (\<lambda>sd. bind_body (parse_statuses (q ''status'')) (\<lambda>statuses.
     attempt (service_GetOrdersByUserId F (usr_Id user) statuses sd (Query q ''productId'') (parse_int64 (Query q ''before''))
         (parse_int64 (Query q ''after'')) (page_size 100 (Query q ''limit''))) 500 (\<lambda>orders.
       let newBefore = (if orders = [] then 0 else ord_Id (hd orders)); newAfter = (if orders = [] then 0 else ord_Id (last orders)) in
       with_headers [(''gbe-before'', U64ToA newBefore), (''gbe-after'', U64ToA newAfter)]
         (reply 200 (OrdersBody (map (newOrderVo E) orders))))))"

subsection \<open>Products\<close>

definition rest_GetProducts :: "('d, 'salt) rest_env \<Rightarrow> faults \<Rightarrow> 'd handler" where
  "rest_GetProducts E F = attempt (service_GetProducts F) 500 (\<lambda>products. reply 200 (ProductsBody (map (newProductVo E) products)))"

text \<open>An error is ignored.\<close>

definition rest_GetProductTrades :: "('d, 'salt) rest_env \<Rightarrow> faults \<Rightarrow> string \<Rightarrow> 'd handler" where
  "rest_GetProductTrades E F productId s = (case service_GetTradesByProductId F productId 50 s of
       (Inl e, s') \<Rightarrow> reply 200 (TradesBody []) s'
     | (Inr trades, s') \<Rightarrow> reply 200 (TradesBody (map (newTradeVo E) trades)) s')"

definition validGranularities :: "int set" where
  "validGranularities = {1, 3, 5, 15, 30, 60, 120, 240, 360, 720, 1440}"

text \<open>The loop that fills gaps with flat candles, from \<open>tickTime\<close> up to now. Granularities that get here are positive;
  for others it would not end.\<close>

definition flat_tick :: "int \<Rightarrow> int \<Rightarrow> 'd::zero tick \<Rightarrow> 'd tick" where
  "flat_tick granularity tickTime lastTick = \<lparr>tck_ProductId = [], tck_Granularity = granularity, tck_Time = tickTime,
     tck_Open = tck_Close lastTick, tck_High = tck_Close lastTick, tck_Low = tck_Close lastTick, tck_Close = tck_Close lastTick,
     tck_Volume = 0, tck_QuoteVolume = 0, tck_LogOffset = 0, tck_LogSeq = 0\<rparr>"

function amend_ticks :: "int \<Rightarrow> int \<Rightarrow> (int \<rightharpoonup> 'd::zero tick) \<Rightarrow> 'd tick \<Rightarrow> int \<Rightarrow> 'd tick list" where
  "amend_ticks granularity now ticksMap lastTick tickTime =
     (if now < tickTime \<or> granularity \<le> 0 then []
      else case ticksMap tickTime of
        Some tick \<Rightarrow> tick # amend_ticks granularity now ticksMap tick (tickTime + granularity)
      | None \<Rightarrow> flat_tick granularity tickTime lastTick # amend_ticks granularity now ticksMap lastTick (tickTime + granularity))"
  by pat_completeness auto

termination by (relation "measure (\<lambda>(granularity, now, m, l, t). nat (now + 1 - t))") auto

declare amend_ticks.simps [simp del]

definition candle_row :: "'d tick \<Rightarrow> int \<times> 'd \<times> 'd \<times> 'd \<times> 'd \<times> 'd" where
  "candle_row t = (tck_Time t, tck_Low t, tck_High t, tck_Open t, tck_Close t, tck_Volume t)"

definition candle_rows :: "int \<Rightarrow> int \<Rightarrow> int \<Rightarrow> 'd::zero tick list \<Rightarrow> (int \<times> 'd \<times> 'd \<times> 'd \<times> 'd \<times> 'd) list" where
  "candle_rows granularity now lmt ticks = (if ticks = [] then []
     else let ticksMap = fold (\<lambda>t m. m(tck_Time t \<mapsto> t)) ticks Map.empty;
              reversed = rev (amend_ticks granularity now ticksMap (last ticks) (tck_Time (last ticks)))
       in map candle_row (if lmt < int (length reversed) then take (nat lmt) reversed else reversed))"

definition rest_GetProductCandles :: "faults \<Rightarrow> int \<Rightarrow> string \<Rightarrow> query_args \<Rightarrow> 'd::zero handler" where
  "rest_GetProductCandles F now productId q =
     (let granularity = parse_int64 (Query q ''granularity''); lmt = page_size 1000 (Query q ''limit'') in
      if granularity \<notin> validGranularities
      then reply 400 (MessageBody ''invalid granularity, must be one of: 1,3,5,15,30,60,120,240,360,720,1440'')
      else attempt (service_GetTicksByProductId F productId (granularity div 60) (parse_int64 (Query q ''before''))
          (parse_int64 (Query q ''after'')) lmt) 500 (\<lambda>ticks.
        let rows = candle_rows granularity now lmt ticks;
            newBefore = (if rows = [] then 0 else fst (hd rows)); newAfter = (if rows = [] then 0 else fst (last rows)) in
        with_headers [(''gbe-before'', I64ToA newBefore), (''gbe-after'', I64ToA newAfter)] (reply 200 (CandlesBody rows))))"

subsection \<open>Accounts, users, configuration, wallets\<close>

fun accounts_of :: "('d, 'salt) rest_env \<Rightarrow> faults \<Rightarrow> u64 \<Rightarrow> string list \<Rightarrow> ('d, account_vo list) dbop" where
  "accounts_of E F userId [] = returnS []"
| "accounts_of E F userId (currency # cs) = bindS (service_GetAccount F userId currency) (\<lambda>account.
     bindS (accounts_of E F userId cs) (\<lambda>vos.
       returnS (case account of None \<Rightarrow> vos | Some a \<Rightarrow> newAccountVo E a # vos)))"

definition rest_GetAccounts :: "('d, 'salt) rest_env \<Rightarrow> faults \<Rightarrow> user \<Rightarrow> query_args \<Rightarrow> 'd handler" where
  "rest_GetAccounts E F user q =
     (if q ''currency'' \<noteq> [] then attempt (accounts_of E F (usr_Id user) (q ''currency'')) 500 (\<lambda>vos. reply 200 (AccountsBody vos))
      else attempt (service_GetAccountsByUserId F (usr_Id user)) 500 (\<lambda>accounts. reply 200 (AccountsBody (map (newAccountVo E) accounts))))"

definition rest_SignUp :: "('d, 'salt) rest_env \<Rightarrow> faults \<Rightarrow> 'salt \<Rightarrow> string + sign_up_request \<Rightarrow> 'd handler" where
  "rest_SignUp E F salt body = bind_body body (\<lambda>req.
     attempt (CreateUser F (re_auth E) salt (su_Email req) (su_Password req)) 400 (\<lambda>_. reply 200 NoBody))"

definition rest_GetToken :: "('d, 'salt) rest_env \<Rightarrow> faults \<Rightarrow> int \<Rightarrow> string + sign_up_request \<Rightarrow> 'd handler" where
  "rest_GetToken E F now body = bind_body body (\<lambda>req.
     attempt (RefreshAccessToken F (re_auth E) (re_secret E) now (su_Email req) (su_Password req)) 400 (\<lambda>token. reply 200 (TokenBody token)))"

definition rest_SignIn :: "('d, 'salt) rest_env \<Rightarrow> faults \<Rightarrow> int \<Rightarrow> string + sign_up_request \<Rightarrow> 'd handler" where
  "rest_SignIn E F now body = bind_body body (\<lambda>req.
     attempt (RefreshAccessToken F (re_auth E) (re_secret E) now (su_Email req) (su_Password req)) 400 (\<lambda>token.
       with_cookie token (7 * 24 * 60 * 60) (reply 200 (TokenBody token))))"

definition rest_ChangePassword :: "('d, 'salt) rest_env \<Rightarrow> faults \<Rightarrow> 'salt \<Rightarrow> user \<Rightarrow> string + change_password_request \<Rightarrow> 'd handler" where
  "rest_ChangePassword E F salt user body = bind_body body (\<lambda>req.
     attempt (GetUserByPassword F (re_auth E) (usr_Email user) (cp_OldPassword req)) 400 (\<lambda>_.
     attempt (ChangePassword F (re_auth E) salt (usr_Email user) (cp_NewPassword req)) 500 (\<lambda>_. reply 200 NoBody)))"

definition rest_SignOut :: "'d handler" where
  "rest_SignOut = with_cookie [] (- 1) (reply 200 NoBody)"

definition rest_GetUsersSelf :: "('d, 'salt) rest_env \<Rightarrow> user \<Rightarrow> 'd handler" where
  "rest_GetUsersSelf E user = reply 200 (UserBody \<lparr>uv_Id = usr_Email user, uv_Email = usr_Email user, uv_Name = usr_Email user,
     uv_ProfilePhoto = ''https://cdn.onlinewebfonts.com/svg/img_139247.png'', uv_IsBand = False,
     uv_CreatedAt = time_string E (user_created E (usr_Id user))\<rparr>)"

definition rest_GetConfigs :: "faults \<Rightarrow> 'd handler" where
  "rest_GetConfigs F = attempt (service_GetConfigs F) 500 (\<lambda>configs.
     reply 200 (ConfigsBody (fold (\<lambda>c m. m(cfg_Key c \<mapsto> cfg_Value c)) configs Map.empty)))"

definition rest_GetWalletAddress :: "'d handler" where
  "rest_GetWalletAddress = reply 200 (AddressBody ''Coming Soon'')"

definition rest_GetWalletTransactions :: "('d, 'salt) rest_env \<Rightarrow> int \<Rightarrow> string \<Rightarrow> 'd handler" where
  "rest_GetWalletTransactions E now currency =
     reply 200 (TransactionsBody (if currency = ''BTC'' then [newTransactionVo E now] else []))"

definition rest_Withdrawal :: "'d handler" where
  "rest_Withdrawal = reply 200 (TransactionBody \<lparr>xv_Id = ''1'', xv_Currency = ''BTC'', xv_Amount = ''0.1'', xv_Type = [], xv_Status = [],
     xv_Price = [], xv_NativeCurrency = [], xv_NativeAmount = [], xv_Description = [], xv_CreatedAt = [], xv_UpdatedAt = [],
     xv_FromAddress = [], xv_ToAddress = [], xv_Network = \<lparr>nv_Status = [], nv_Hash = [], nv_Amount = [], nv_FeeAmount = [],
       nv_FeeCurrency = [], nv_Confirmations = 0, nv_ResourceUrl = []\<rparr>\<rparr>)"

subsection \<open>Routes\<close>

text \<open>The check of the token, before the handlers of the private routes.\<close>

definition rest_checkToken :: "('d, 'salt) rest_env \<Rightarrow> faults \<Rightarrow> int \<Rightarrow> string option \<Rightarrow> (user \<Rightarrow> 'd handler) \<Rightarrow> 'd handler" where
  "rest_checkToken E F now cookie k =
     (case cookie of None \<Rightarrow> reply 403 (MessageBody ''token not found'')
      | Some token \<Rightarrow>
          if token = [] then reply 403 (MessageBody ''token not found'')
          else attempt (CheckToken F (re_auth E) (re_secret E) now token) 500 (\<lambda>found.
            case found of None \<Rightarrow> reply 403 (MessageBody ''bad token'') | Some user \<Rightarrow> k user))"

datatype public_route = GetConfigsRoute | SignUpRoute "string + sign_up_request" | SignInRoute "string + sign_up_request"
  | GetTokenRoute "string + sign_up_request" | GetProductsRoute | GetProductTradesRoute string | GetProductOrderBookRoute string
  | GetProductCandlesRoute string query_args

datatype private_route = GetOrdersRoute query_args | PlaceOrderRoute "string + place_order_request" | CancelOrderRoute string
  | CancelOrdersRoute query_args | GetAccountsRoute query_args | GetUsersSelfRoute | ChangePasswordRoute "string + change_password_request"
  | SignOutRoute | GetWalletAddressRoute string | GetWalletTransactionsRoute string | WithdrawalRoute string

datatype route = Public public_route | Private private_route

fun serve_public :: "('d::linordered_idom, 'salt) rest_env \<Rightarrow> faults \<Rightarrow> 'salt \<Rightarrow> int \<Rightarrow> public_route \<Rightarrow> 'd handler" where
  "serve_public E F salt now GetConfigsRoute = rest_GetConfigs F"
| "serve_public E F salt now (SignUpRoute body) = rest_SignUp E F salt body"
| "serve_public E F salt now (SignInRoute body) = rest_SignIn E F now body"
| "serve_public E F salt now (GetTokenRoute body) = rest_GetToken E F now body"
| "serve_public E F salt now GetProductsRoute = rest_GetProducts E F"
| "serve_public E F salt now (GetProductTradesRoute p) = rest_GetProductTrades E F p"
| "serve_public E F salt now (GetProductOrderBookRoute p) = reply 200 NoBody"
| "serve_public E F salt now (GetProductCandlesRoute p q) = rest_GetProductCandles F now p q"

fun serve_private :: "('d::linordered_idom, 'salt) rest_env \<Rightarrow> faults \<Rightarrow> ('d order \<Rightarrow> bool) \<Rightarrow> u64 \<Rightarrow> 'salt \<Rightarrow> int \<Rightarrow> private_route \<Rightarrow> user \<Rightarrow>
    'd handler" where
  "serve_private E F W newId salt now (GetOrdersRoute q) user = rest_GetOrders E F user q"
| "serve_private E F W newId salt now (PlaceOrderRoute body) user = rest_PlaceOrder E F W newId user body"
| "serve_private E F W newId salt now (CancelOrderRoute i) user = rest_CancelOrder F W user i"
| "serve_private E F W newId salt now (CancelOrdersRoute q) user = rest_CancelOrders F W user q"
| "serve_private E F W newId salt now (GetAccountsRoute q) user = rest_GetAccounts E F user q"
| "serve_private E F W newId salt now GetUsersSelfRoute user = rest_GetUsersSelf E user"
| "serve_private E F W newId salt now (ChangePasswordRoute body) user = rest_ChangePassword E F salt user body"
| "serve_private E F W newId salt now SignOutRoute user = rest_SignOut"
| "serve_private E F W newId salt now (GetWalletAddressRoute c) user = rest_GetWalletAddress"
| "serve_private E F W newId salt now (GetWalletTransactionsRoute c) user = rest_GetWalletTransactions E now c"
| "serve_private E F W newId salt now (WithdrawalRoute c) user = rest_Withdrawal"

definition serve :: "('d::linordered_idom, 'salt) rest_env \<Rightarrow> faults \<Rightarrow> ('d order \<Rightarrow> bool) \<Rightarrow> u64 \<Rightarrow> 'salt \<Rightarrow> int \<Rightarrow> string option \<Rightarrow> route \<Rightarrow>
    'd handler" where
  "serve E F W newId salt now cookie r = (case r of
       Public p \<Rightarrow> serve_public E F salt now p
     | Private p \<Rightarrow> rest_checkToken E F now cookie (serve_private E F W newId salt now p))"

end
