(* ===== verification/Rest_Properties.thy ===== *)
theory Rest_Properties
  imports Rest Service_Properties
begin

text \<open>
  What the HTTP interface may do: most routes only read; orders reach the topic of the matching engine
  only for the user whose token came with the request, and are new orders that were stored or stored
  orders to be cancelled; and only placing an order can stop the process.
\<close>

subsection \<open>Requests that only read\<close>

named_theorems quiet_intros

definition reads :: "('d, 'a) dbop \<Rightarrow> bool" where
  "reads m \<longleftrightarrow> (\<forall>s r s'. m s = (r, s') \<longrightarrow> same_tables s s' \<and> (\<forall>e. r \<noteq> Inl (Crash (Fatal e))))"

definition quiet :: "'d handler \<Rightarrow> bool" where
  "quiet h \<longleftrightarrow> (\<forall>s r s'. h s = (r, s') \<longrightarrow> same_tables s s' \<and> (\<exists>resp. r = Inr (resp, [])))"

lemma reads_query [quiet_intros]: "reads (query F g)"
  by (auto simp: reads_def query_def stmt_def Let_def split: option.splits)

lemma reads_return [quiet_intros]: "reads (returnS x)"
  by (simp add: reads_def returnS_def)

lemma reads_fail [quiet_intros]: "(\<And>m. e \<noteq> Crash (Fatal m)) \<Longrightarrow> reads (failS e)"
  by (auto simp: reads_def failS_def)

lemma reads_bind [quiet_intros]:
  assumes m: "reads m" and k: "\<And>x. reads (k x)"
  shows "reads (bindS m k)"
  unfolding reads_def
proof (intro allI impI)
  fix s r s' assume run: "bindS m k s = (r, s')"
  obtain y s1 where y: "m s = (y, s1)" by (cases "m s")
  have s1: "same_tables s s1" "\<And>e. y \<noteq> Inl (Crash (Fatal e))" using m y unfolding reads_def by blast+
  show "same_tables s s' \<and> (\<forall>e. r \<noteq> Inl (Crash (Fatal e)))"
  proof (cases y)
    case (Inl e)
    then show ?thesis using run y s1 by (auto simp: bindS_def)
  next
    case (Inr x)
    then have "k x s1 = (r, s')" using run y by (simp add: bindS_def)
    then show ?thesis using k [of x] s1(1) same_tables_trans unfolding reads_def by blast
  qed
qed

lemma reads_found [quiet_intros]: "reads a \<Longrightarrow> (\<And>x. reads (f x)) \<Longrightarrow> reads (case r of None \<Rightarrow> a | Some x \<Rightarrow> f x)"
  by (cases r) auto

lemma reads_if [quiet_intros]: "reads a \<Longrightarrow> reads b \<Longrightarrow> reads (if c then a else b)"
  by simp

lemma quiet_reply [quiet_intros]: "quiet (reply status body)"
  by (simp add: quiet_def reply_def)

lemma quiet_headers [quiet_intros]: "quiet h \<Longrightarrow> quiet (with_headers hs h)"
  by (fastforce simp: quiet_def with_headers_def split: prod.splits sum.splits)

lemma quiet_cookie [quiet_intros]: "quiet h \<Longrightarrow> quiet (with_cookie v age h)"
  by (fastforce simp: quiet_def with_cookie_def split: prod.splits sum.splits)

lemma attempt_reads:
  assumes "reads m" and "attempt m status k s = (r, s')"
  obtains (failed) resp where "same_tables s s'" and "r = Inr (resp, [])" and "rs_Status resp \<in> {status, 500}"
    | (passed) x s1 where "m s = (Inr x, s1)" and "same_tables s s1" and "k x s1 = (r, s')"
proof -
  obtain y s1 where y: "m s = (y, s1)" by (cases "m s")
  have s1: "same_tables s s1" "\<And>e. y \<noteq> Inl (Crash (Fatal e))" using assms(1) y unfolding reads_def by blast+
  show thesis
  proof (cases y)
    case (Inl e)
    then show thesis using assms(2) y s1 failed
      by (cases e) (auto simp: attempt_def reply_def split: fault.splits)
  next
    case (Inr x)
    then show thesis using assms(2) y s1 passed by (simp add: attempt_def)
  qed
qed

lemma quiet_attempt [quiet_intros]:
  assumes "reads m" and "\<And>x. quiet (k x)"
  shows "quiet (attempt m status k)"
  unfolding quiet_def
proof (intro allI impI)
  fix s r s' assume "attempt m status k s = (r, s')"
  then show "same_tables s s' \<and> (\<exists>resp. r = Inr (resp, []))"
  proof (cases rule: attempt_reads [OF assms(1), consumes 1, case_names failed passed])
    case (passed x s1)
    then have "same_tables s1 s'" "\<exists>resp. r = Inr (resp, [])" using assms(2) [of x] unfolding quiet_def by blast+
    then show ?thesis using same_tables_trans [OF passed(2)] by blast
  qed blast
qed

lemma quiet_cases [quiet_intros]:
  "(\<And>x. quiet (k x)) \<Longrightarrow> quiet (bind_body body k)"
  "(\<And>x. quiet (j x)) \<Longrightarrow> quiet (parse_side v j)"
  "quiet a \<Longrightarrow> quiet b \<Longrightarrow> quiet (if c then a else b)"
  by (auto simp: bind_body_def parse_side_def split: sum.splits intro: quiet_reply)

lemma quiet_Let [quiet_intros]: "quiet (f x) \<Longrightarrow> quiet (let y = x in f y)"
  by simp

text \<open>The reading services.\<close>

lemmas reading_services = service_GetOrderByClientOid_def GetOrderByClientOid_def service_GetOrderById_def GetOrderById_def
  service_GetOrdersByUserId_def GetOrdersByUserId_def service_GetProducts_def GetProducts_def service_GetAccount_def GetAccount_def
  service_GetAccountsByUserId_def GetAccountsByUserId_def service_GetConfigs_def GetConfigs_def service_GetTicksByProductId_def
  GetTicksByProductId_def service_GetUserByEmail_def GetUserByEmail_def service_GetUserById_def GetUserById_def
  service_GetTradesByProductId_def GetTradesByProductId_def

lemma reads_CheckToken [quiet_intros]: "reads (CheckToken F A secret now token)"
  by (auto simp: CheckToken_def reading_services split: sum.splits option.splits claim.splits intro!: quiet_intros)

lemma reads_RefreshAccessToken [quiet_intros]: "reads (RefreshAccessToken F A secret now email password)"
  by (auto simp: RefreshAccessToken_def reading_services split: sum.splits intro!: quiet_intros)

lemma reads_GetUserByPassword [quiet_intros]: "reads (GetUserByPassword F A email password)"
  by (auto simp: GetUserByPassword_def reading_services intro!: quiet_intros)

lemma reads_accounts_of [quiet_intros]: "reads (accounts_of E F userId cs)"
  by (induction cs) (auto simp: reading_services intro!: quiet_intros)

lemma quiet_trades: "quiet (rest_GetProductTrades E F p)"
  by (auto simp: quiet_def rest_GetProductTrades_def reading_services reply_def split: prod.splits sum.splits dest: query_same)

definition writes :: "route \<Rightarrow> bool" where
  "writes r \<longleftrightarrow> (case r of Public (SignUpRoute b) \<Rightarrow> True | Private (PlaceOrderRoute b) \<Rightarrow> True
     | Private (ChangePasswordRoute b) \<Rightarrow> True | _ \<Rightarrow> False)"

definition cancels :: "route \<Rightarrow> bool" where
  "cancels r \<longleftrightarrow> (case r of Private (CancelOrderRoute i) \<Rightarrow> True | Private (CancelOrdersRoute q) \<Rightarrow> True | _ \<Rightarrow> False)"

lemma quiet_public: "\<not> writes (Public p) \<Longrightarrow> quiet (serve_public E F salt now p)"
  by (cases p) (auto simp: writes_def rest_GetConfigs_def rest_SignIn_def rest_GetToken_def rest_GetProducts_def quiet_trades
      rest_GetProductCandles_def reading_services Let_def intro!: quiet_intros)

lemma quiet_private:
  "\<not> writes (Private p) \<Longrightarrow> \<not> cancels (Private p) \<Longrightarrow> quiet (serve_private E F W newId salt now p user)"
  by (cases p) (auto simp: writes_def cancels_def rest_GetOrders_def rest_GetAccounts_def rest_GetUsersSelf_def rest_SignOut_def
      rest_GetWalletAddress_def rest_GetWalletTransactions_def rest_Withdrawal_def reading_services Let_def intro!: quiet_intros)

subsection \<open>Requests that submit orders\<close>

definition stored :: "'d db \<Rightarrow> 'd order \<Rightarrow> bool" where
  "stored s order \<longleftrightarrow> (\<exists>i. order \<in> set (db_orders s i))"

definition open_status :: "order_status \<Rightarrow> bool" where
  "open_status st \<longleftrightarrow> st \<in> {OrderStatusNew, OrderStatusOpen, OrderStatusPartial}"

definition asks_to_cancel :: "user \<Rightarrow> 'd db \<Rightarrow> 'd order \<Rightarrow> bool" where
  "asks_to_cancel user s o1 \<longleftrightarrow> (\<exists>order. stored s order \<and> ord_UserId order = usr_Id user \<and> open_status (ord_Status order) \<and>
     o1 = cancelling order)"

lemma cancel_found_ok:
  assumes "cancel_found W user found s = (r, s')" and "\<And>order. found = Some order \<Longrightarrow> stored s order"
  shows "s' = s \<and> (\<exists>resp os. r = Inr (resp, os) \<and> (\<forall>o1\<in>set os. rs_Status resp = 200 \<and> asks_to_cancel user s o1))"
  using assms
  by (auto simp: cancel_found_def reply_def with_orders_def submitOrder_def asks_to_cancel_def open_status_def
      split: option.splits if_splits)

lemma asks_same: "same_tables s s1 \<Longrightarrow> asks_to_cancel user s1 o1 \<Longrightarrow> asks_to_cancel user s o1"
  by (auto simp: asks_to_cancel_def stored_def same_tables_simps)

text \<open>A handler that only asks to cancel orders of the user.\<close>

definition cancels_own :: "user \<Rightarrow> 'd handler \<Rightarrow> bool" where
  "cancels_own user h \<longleftrightarrow> (\<forall>s r s'. h s = (r, s') \<longrightarrow> same_tables s s' \<and>
     (\<exists>resp os. r = Inr (resp, os) \<and> (\<forall>o1\<in>set os. rs_Status resp = 200 \<and> asks_to_cancel user s o1)))"

lemma quiet_cancels: "quiet h \<Longrightarrow> cancels_own user h"
  by (fastforce simp: quiet_def cancels_own_def)

lemma cancels_attempt:
  assumes "reads m" and k: "\<And>s x s1 r s'. m s = (Inr x, s1) \<Longrightarrow> same_tables s s1 \<Longrightarrow> k x s1 = (r, s') \<Longrightarrow>
    same_tables s1 s' \<and> (\<exists>resp os. r = Inr (resp, os) \<and> (\<forall>o1\<in>set os. rs_Status resp = 200 \<and> asks_to_cancel user s1 o1))"
  shows "cancels_own user (attempt m status k)"
  unfolding cancels_own_def
proof (intro allI impI)
  fix s r s' assume "attempt m status k s = (r, s')"
  then show "same_tables s s' \<and> (\<exists>resp os. r = Inr (resp, os) \<and> (\<forall>o1\<in>set os. rs_Status resp = 200 \<and> asks_to_cancel user s o1))"
  proof (cases rule: attempt_reads [OF assms(1), consumes 1, case_names failed passed])
    case (passed x s1)
    from k [OF this] show ?thesis using asks_same [OF passed(2)] same_tables_trans [OF passed(2)] by blast
  qed auto
qed

lemma found_stored: "query F (\<lambda>s. find P (db_orders s i)) s = (Inr (Some order), s1) \<Longrightarrow> stored s1 order"
proof -
  assume q: "query F (\<lambda>s. find P (db_orders s i)) s = (Inr (Some order), s1)"
  have f: "find P (db_orders s i) = Some order" and t: "same_tables s s1" using query_Inr [OF q] by simp_all
  have "order \<in> set (db_orders s i)" using f by (auto simp: find_Some_iff)
  then show "stored s1 order" using same_tables_simps(3) [OF t] by (auto simp: stored_def)
qed

lemma cancels_CancelOrder: "cancels_own user (rest_CancelOrder F W user i)"
proof -
  have "cancels_own user (attempt (query F (\<lambda>s. find P (db_orders s t))) 500 (cancel_found W user))" for P t
  proof (rule cancels_attempt [OF reads_query])
    fix s x s1 r s' assume q: "query F (\<lambda>s. find P (db_orders s t)) s = (Inr x, s1)" and r: "cancel_found W user x s1 = (r, s')"
    have "stored s1 order" if "x = Some order" for order using found_stored q that by blast
    from cancel_found_ok [OF r this]
    show "same_tables s1 s' \<and> (\<exists>resp os. r = Inr (resp, os) \<and> (\<forall>o1\<in>set os. rs_Status resp = 200 \<and> asks_to_cancel user s1 o1))"
      by auto
  qed
  then show ?thesis
    by (auto simp: rest_CancelOrder_def reading_services intro: quiet_cancels quiet_reply split: option.splits)
qed

lemma cancels_CancelOrders:
  fixes W :: "'d order \<Rightarrow> bool"
  shows "cancels_own user (rest_CancelOrders F W user q)"
proof -
  define m :: "side option \<Rightarrow> ('d, 'd order list) dbop" where "m sd = service_GetOrdersByUserId F (usr_Id user) [OrderStatusOpen, OrderStatusNew] sd (Query q ''productId'') 0 0 10000" for sd
  have "cancels_own user (attempt (m sd) 500 (\<lambda>orders.
       with_orders (concat (map (\<lambda>order. submitOrder W (cancelling order)) orders)) (reply 200 NoBody)))" for sd
  proof (rule cancels_attempt)
    show "reads (m sd)" by (simp add: m_def reading_services reads_query)
    fix s :: "'d db" and x s1 r s' assume g: "m sd s = (Inr x, s1)"
      and r: "with_orders (concat (map (\<lambda>order. submitOrder W (cancelling order)) x)) (reply 200 NoBody) s1 = (r, s')"
    have "stored s1 order \<and> ord_UserId order = usr_Id user \<and> open_status (ord_Status order)" if "order \<in> set x" for order
    proof -
      note x = query_Inr [OF g [unfolded m_def reading_services]]
      have "order \<in> set (db_orders s (GetTableIndexByUserId (usr_Id user))) \<and> ord_UserId order = usr_Id user \<and>
          ord_Status order \<in> {OrderStatusOpen, OrderStatusNew}"
        using that conjunct1 [OF x] by (auto simp: limit_def dest: in_set_takeD)
      then show ?thesis using same_tables_simps(3) [OF conjunct2 [OF x]] by (auto simp: stored_def open_status_def)
    qed
    then have own: "asks_to_cancel user s1 (cancelling order)" if "order \<in> set x" for order
      using that unfolding asks_to_cancel_def by blast
    show "same_tables s1 s' \<and> (\<exists>resp os. r = Inr (resp, os) \<and> (\<forall>o1\<in>set os. rs_Status resp = 200 \<and> asks_to_cancel user s1 o1))"
      using r own by (auto simp: with_orders_def reply_def submitOrder_def split: if_splits)
  qed
  then show ?thesis
    by (auto simp: rest_CancelOrders_def parse_side_def m_def intro: quiet_cancels quiet_reply split: sum.splits)
qed

lemma cancels_private: "cancels (Private p) \<Longrightarrow> cancels_own user (serve_private E F W newId salt now p user)"
  by (cases p) (simp_all add: cancels_def cancels_CancelOrder cancels_CancelOrders)

subsection \<open>Requests that write\<close>

text \<open>All or nothing: a status other than 200 comes with no change and no order.\<close>

definition clean :: "'d handler \<Rightarrow> bool" where
  "clean h \<longleftrightarrow> (\<forall>s r s'. h s = (r, s') \<longrightarrow> (\<forall>f. r = Inl f \<longrightarrow> same_tables s s') \<and>
     (\<forall>resp os. r = Inr (resp, os) \<longrightarrow> rs_Status resp \<noteq> 200 \<longrightarrow> same_tables s s' \<and> os = []))"

definition undone :: "('d, 'a) dbop \<Rightarrow> bool" where
  "undone m \<longleftrightarrow> (\<forall>s e s'. m s = (Inl e, s') \<longrightarrow> same_tables s s')"

lemma quiet_clean: "quiet h \<Longrightarrow> clean h"
  by (fastforce simp: quiet_def clean_def)

lemma cancels_clean: "cancels_own user h \<Longrightarrow> clean h"
  unfolding cancels_own_def clean_def by (metis Inl_Inr_False Inr_inject last_in_set prod.inject)

lemma clean_attempt:
  assumes "undone m" and "\<And>x s s1 r s'. m s = (Inr x, s1) \<Longrightarrow> k x s1 = (r, s') \<Longrightarrow> \<exists>resp os. r = Inr (resp, os) \<and> rs_Status resp = 200"
  shows "clean (attempt m status k)"
  unfolding clean_def
proof (intro allI impI)
  fix s r s' assume run: "attempt m status k s = (r, s')"
  obtain y s1 where y: "m s = (y, s1)" by (cases "m s")
  show "(\<forall>f. r = Inl f \<longrightarrow> same_tables s s') \<and> (\<forall>resp os. r = Inr (resp, os) \<longrightarrow> rs_Status resp \<noteq> 200 \<longrightarrow> same_tables s s' \<and> os = [])"
  proof (cases y)
    case (Inl e)
    then have "same_tables s s1" using assms(1) y by (auto simp: undone_def)
    then show ?thesis using run y Inl by (cases e) (auto simp: attempt_def reply_def split: fault.splits)
  next
    case (Inr x)
    then have "k x s1 = (r, s')" using run y by (simp add: attempt_def)
    then show ?thesis using assms(2) y Inr by fastforce
  qed
qed

lemma reads_undone: "reads m \<Longrightarrow> undone m"
  unfolding reads_def undone_def by blast

lemma undone_bind:
  assumes "reads m" and "\<And>x. undone (k x)"
  shows "undone (bindS m k)"
  unfolding undone_def
proof (intro allI impI)
  fix s e s' assume run: "bindS m k s = (Inl e, s')"
  obtain y s1 where y: "m s = (y, s1)" by (cases "m s")
  have s1: "same_tables s s1" using assms(1) y unfolding reads_def by blast
  show "same_tables s s'"
  proof (cases y)
    case (Inr x)
    then have "k x s1 = (Inl e, s')" using run y by (simp add: bindS_def)
    then show ?thesis using assms(2) [of x] same_tables_trans [OF s1] unfolding undone_def by blast
  qed (use run y s1 in \<open>auto simp: bindS_def\<close>)
qed

lemma undone_stmt: "undone (stmt F g)"
  by (auto simp: undone_def stmt_def Let_def split: option.splits prod.splits sum.splits)

lemma undone_last: "undone m \<Longrightarrow> undone (bindS m (\<lambda>x. returnS (f x)))"
  by (auto simp: undone_def bindS_def returnS_def split: prod.splits sum.splits)

lemma reads_lift: "reads (liftS (hashPassword A salt p))"
  by (auto simp: reads_def liftS_def hashPassword_def failS_def returnS_def split: sum.splits option.splits)

lemma undone_CreateUser: "undone (CreateUser F A salt email p)"
  unfolding CreateUser_def reading_services Let_def AddUser_def
  by (auto split: option.splits intro!: undone_bind reads_query reads_lift undone_last undone_stmt reads_undone [OF reads_fail])

lemma undone_ChangePassword: "undone (ChangePassword F A salt email p)"
  unfolding ChangePassword_def reading_services UpdateUser_def exec_def
  by (auto split: option.splits intro!: undone_bind reads_query reads_lift undone_stmt reads_undone [OF reads_fail])

lemma clean_attempt_reads:
  assumes "reads m" and k: "\<And>x. clean (k x)"
  shows "clean (attempt m status k)"
  unfolding clean_def
proof (intro allI impI)
  fix s r s' assume "attempt m status k s = (r, s')"
  then show "(\<forall>f. r = Inl f \<longrightarrow> same_tables s s') \<and> (\<forall>resp os. r = Inr (resp, os) \<longrightarrow> rs_Status resp \<noteq> 200 \<longrightarrow> same_tables s s' \<and> os = [])"
  proof (cases rule: attempt_reads [OF assms(1), consumes 1, case_names failed passed])
    case (passed x s1)
    then show ?thesis using k [of x] same_tables_trans [OF passed(2)] unfolding clean_def by blast
  qed auto
qed

lemma clean_bind_body: "(\<And>x. clean (k x)) \<Longrightarrow> clean (bind_body b k)"
  by (auto simp: bind_body_def split: sum.splits intro: quiet_clean quiet_reply)

lemma clean_SignUp: "clean (rest_SignUp E F salt body)"
  unfolding rest_SignUp_def by (intro clean_bind_body clean_attempt undone_CreateUser) (auto simp: reply_def)

lemma clean_ChangePassword: "clean (rest_ChangePassword E F salt user body)"
  unfolding rest_ChangePassword_def
  by (intro clean_bind_body clean_attempt_reads reads_GetUserByPassword clean_attempt undone_ChangePassword) (auto simp: reply_def)

text \<open>Placing an order.\<close>

lemma undone_PlaceOrder: "undone (PlaceOrder F D newId uid lv oid pid ty tif sd (sz :: 'd::linordered_idom) price funds)"
  unfolding undone_def using PlaceOrder_Inl by blast

lemma clean_PlaceOrder: "clean (rest_PlaceOrder E F W newId user body)"
proof -
  have "clean (attempt (PlaceOrder F (re_dec E) newId uid lv oid pid ty tif sd sz price funds) 500
      (\<lambda>order. with_orders (submitOrder W order) (reply 200 (OrderBody (newOrderVo E order)))))" for uid lv oid pid ty tif sd sz price funds
    by (intro clean_attempt undone_PlaceOrder) (auto simp: with_orders_def reply_def)
  then show ?thesis unfolding rest_PlaceOrder_def parse_decimal_def Let_def
    by (intro clean_bind_body) (auto split: option.splits intro: quiet_clean quiet_reply)
qed

lemma PlaceOrder_submits:
  assumes "rest_PlaceOrder E F W newId user body s = (Inr (resp, os), s')" and "o1 \<in> set os"
    and "books_wf s" and "orders_wf (s :: 'd::linordered_idom db)" and "room s 1"
  shows "ord_UserId o1 = usr_Id user \<and> (\<exists>product. order_placed s s' product o1)"
proof -
  obtain oid pid ty tif sd sz price funds order where
    "PlaceOrder F (re_dec E) newId (usr_Id user) (usr_UserLevel user) oid pid ty tif sd sz price funds s = (Inr order, s')" "o1 = order"
    using assms(1,2)
    by (auto simp: rest_PlaceOrder_def bind_body_def parse_decimal_def attempt_def reply_def with_orders_def submitOrder_def Let_def
        split: sum.splits option.splits prod.splits failure.splits fault.splits if_splits)
  then show ?thesis using PlaceOrder_Inr [OF _ assms(3-5)] by metis
qed

subsection \<open>What a request does\<close>

lemma placed_before: "same_tables s s1 \<Longrightarrow> order_placed s1 s' product o1 \<Longrightarrow> order_placed s s' product o1"
  by (rule order_placed_cong) simp_all

lemma wf_same:
  "same_tables s s1 \<Longrightarrow> books_wf s \<Longrightarrow> orders_wf s \<Longrightarrow> room s n \<Longrightarrow> books_wf s1 \<and> orders_wf s1 \<and> room s1 n"
  by (simp add: same_tables_balances orders_wf_def room_def same_tables_simps)

lemma private_clean: "clean (serve_private E F W newId salt now p user)"
proof (cases "writes (Private p)")
  case True
  then show ?thesis by (cases p) (auto simp: writes_def clean_PlaceOrder clean_ChangePassword)
next
  case False
  show ?thesis
  proof (cases "cancels (Private p)")
    case True
    then show ?thesis by (rule cancels_clean [OF cancels_private])
  next
    case no: False
    show ?thesis by (rule quiet_clean [OF quiet_private [OF False no]])
  qed
qed

lemma public_clean: "clean (serve_public E F salt now p)"
proof (cases "writes (Public p)")
  case True
  then show ?thesis by (cases p) (auto simp: writes_def clean_SignUp)
next
  case False
  then show ?thesis by (rule quiet_clean [OF quiet_public])
qed

text \<open>The handler of a private route, for the user of the token.\<close>

definition may_submit :: "user \<Rightarrow> 'd::linordered_idom db \<Rightarrow> 'd db \<Rightarrow> 'd order \<Rightarrow> bool" where
  "may_submit user s s' o1 \<longleftrightarrow> ord_UserId o1 = usr_Id user \<and> ((\<exists>product. order_placed s s' product o1) \<or> asks_to_cancel user s o1)"

lemma private_submits:
  assumes run: "serve_private E F W newId salt now p user s = (Inr (resp, os), s')" and "o1 \<in> set os"
    and "books_wf s" and "orders_wf (s :: 'd::linordered_idom db)" and "room s 1"
  shows "may_submit user s s' o1"
proof (cases "writes (Private p)")
  case True
  show ?thesis
  proof (cases p)
    case (PlaceOrderRoute body)
    then have "rest_PlaceOrder E F W newId user body s = (Inr (resp, os), s')" using run by simp
    from PlaceOrder_submits [OF this assms(2-5)] show ?thesis unfolding may_submit_def by blast
  next
    case (ChangePasswordRoute body)
    then have "os = []" using run
      by (auto simp: rest_ChangePassword_def bind_body_def attempt_def reply_def split: sum.splits prod.splits failure.splits fault.splits)
    then show ?thesis using assms(2) by simp
  qed (use True in \<open>auto simp: writes_def\<close>)
next
  case False
  show ?thesis
  proof (cases "cancels (Private p)")
    case True
    have "cancels_own user (serve_private E F W newId salt now p user)" by (rule cancels_private [OF True])
    then have "asks_to_cancel user s o1" using run assms(2) unfolding cancels_own_def by blast
    then show ?thesis by (auto simp: may_submit_def asks_to_cancel_def cancelling_def)
  next
    case no: False
    have "quiet (serve_private E F W newId salt now p user)" by (rule quiet_private [OF False no])
    then have "os = []" using run unfolding quiet_def by blast
    then show ?thesis using assms(2) by simp
  qed
qed

text \<open>Only placing an order may stop the process.\<close>

definition mild :: "('d, 'a) dbop \<Rightarrow> bool" where
  "mild m \<longleftrightarrow> (\<forall>s e. fst (m s) \<noteq> Inl (Crash (Fatal e)))"

definition answers :: "'d handler \<Rightarrow> bool" where
  "answers h \<longleftrightarrow> (\<forall>s f. fst (h s) \<noteq> Inl f)"

lemma mild_stmt: "mild (stmt F g)"
  by (auto simp: mild_def stmt_def Let_def split: option.splits prod.splits sum.splits)

lemma mild_reads: "reads m \<Longrightarrow> mild m"
  unfolding reads_def mild_def by (metis prod.collapse)

lemma mild_bind: "mild m \<Longrightarrow> (\<And>x. mild (k x)) \<Longrightarrow> mild (bindS m k)"
  by (auto simp: mild_def bindS_def split: prod.splits sum.splits) (metis fst_conv)+

lemma mild_CreateUser: "mild (CreateUser F A salt email p)"
  unfolding CreateUser_def reading_services Let_def AddUser_def
  by (auto split: option.splits intro!: mild_bind mild_stmt mild_reads [OF reads_query] mild_reads [OF reads_lift]
      mild_reads [OF reads_return] mild_reads [OF reads_fail])

lemma mild_ChangePassword: "mild (ChangePassword F A salt email p)"
  unfolding ChangePassword_def reading_services UpdateUser_def exec_def
  by (auto split: option.splits intro!: mild_bind mild_stmt mild_reads [OF reads_query] mild_reads [OF reads_lift]
      mild_reads [OF reads_fail])

lemma answers_attempt: "mild m \<Longrightarrow> (\<And>x. answers (k x)) \<Longrightarrow> answers (attempt m status k)"
  by (auto simp: mild_def answers_def attempt_def reply_def split: prod.splits sum.splits failure.splits fault.splits) (metis fst_conv)+

lemma answers_bind_body: "(\<And>x. answers (k x)) \<Longrightarrow> answers (bind_body b k)"
  by (auto simp: bind_body_def answers_def reply_def split: sum.splits)

lemma answers_reply: "answers (reply status body)"
  by (simp add: answers_def reply_def)

lemma answers_quiet: "quiet h \<Longrightarrow> answers h"
  unfolding quiet_def answers_def by (metis Inl_Inr_False prod.collapse)

lemma answers_cancels: "cancels_own user h \<Longrightarrow> answers h"
  unfolding cancels_own_def answers_def by (metis Inl_Inr_False prod.collapse)

lemma public_answers: "answers (serve_public E F salt now p)"
proof (cases "writes (Public p)")
  case True
  then show ?thesis
    by (cases p) (auto simp: writes_def rest_SignUp_def intro!: answers_bind_body answers_attempt mild_CreateUser answers_reply)
next
  case False
  then show ?thesis by (rule answers_quiet [OF quiet_public])
qed

lemma private_answers:
  assumes "\<nexists>body. p = PlaceOrderRoute body"
  shows "answers (serve_private E F W newId salt now p user)"
proof (cases "writes (Private p)")
  case True
  then show ?thesis using assms
    by (cases p) (auto simp: writes_def rest_ChangePassword_def
        intro!: answers_bind_body answers_attempt mild_ChangePassword mild_reads [OF reads_GetUserByPassword] answers_reply)
next
  case False
  show ?thesis
  proof (cases "cancels (Private p)")
    case True
    then show ?thesis by (rule answers_cancels [OF cancels_private])
  next
    case no: False
    show ?thesis by (rule answers_quiet [OF quiet_private [OF False no]])
  qed
qed

lemma quietD: "quiet h \<Longrightarrow> h s = (r, s') \<Longrightarrow> same_tables s s' \<and> (\<exists>resp. r = Inr (resp, []))"
  unfolding quiet_def by blast

lemma cleanD:
  assumes "clean h" and "h s = (r, s')"
  shows "r = Inl f \<Longrightarrow> same_tables s s'" and "r = Inr (resp, os) \<Longrightarrow> rs_Status resp \<noteq> 200 \<Longrightarrow> same_tables s s' \<and> os = []"
  using assms unfolding clean_def by blast+

lemma answersD: "answers h \<Longrightarrow> h s = (r, s') \<Longrightarrow> r \<noteq> Inl f"
  unfolding answers_def by (metis fst_conv)

lemma public_request:
  assumes h: "serve_public E F salt now p s = (res, s')"
  shows "\<not> writes (Public p) \<Longrightarrow> same_tables s s'" and "res \<noteq> Inl f"
    and "res = Inr (resp, os) \<Longrightarrow> os = []"
    and "res = Inr (resp, os) \<Longrightarrow> rs_Status resp \<noteq> 200 \<Longrightarrow> same_tables s s'"
proof -
  show "same_tables s s'" if "\<not> writes (Public p)" using quietD [OF quiet_public [OF that] h] by blast
  show "res \<noteq> Inl f" by (rule answersD [OF public_answers h])
  show "same_tables s s'" if "res = Inr (resp, os)" "rs_Status resp \<noteq> 200" using cleanD(2) [OF public_clean h that] by blast
  show "os = []" if r: "res = Inr (resp, os)"
  proof (cases "writes (Public p)")
    case True
    then obtain body where "p = SignUpRoute body" by (cases p) (auto simp: writes_def)
    then show ?thesis using h r
      by (auto simp: rest_SignUp_def bind_body_def attempt_def reply_def split: sum.splits prod.splits failure.splits fault.splits)
  next
    case False
    then show ?thesis using quietD [OF quiet_public h] r by blast
  qed
qed

lemma private_request:
  fixes E :: "('d::linordered_idom, 'salt) rest_env"
  assumes h: "serve_private E F W newId salt now p user s = (res, s')"
  shows "\<not> writes (Private p) \<Longrightarrow> same_tables s s'" and "res = Inl f \<Longrightarrow> (\<exists>body. p = PlaceOrderRoute body) \<and> same_tables s s'"
    and "res = Inr (resp, os) \<Longrightarrow> rs_Status resp \<noteq> 200 \<Longrightarrow> same_tables s s' \<and> os = []"
proof -
  show "same_tables s s'" if no: "\<not> writes (Private p)"
  proof (cases "cancels (Private p)")
    case True
    have "cancels_own user (serve_private E F W newId salt now p user)" by (rule cancels_private [OF True])
    then show ?thesis using h unfolding cancels_own_def by blast
  next
    case False
    show ?thesis using quietD [OF quiet_private [OF no False] h] by blast
  qed
  show "(\<exists>body. p = PlaceOrderRoute body) \<and> same_tables s s'" if "res = Inl f"
    using answersD [OF private_answers h] cleanD(1) [OF private_clean h that] that by blast
  show "same_tables s s' \<and> os = []" if "res = Inr (resp, os)" "rs_Status resp \<noteq> 200" by (rule cleanD(2) [OF private_clean h that])
qed

text \<open>C29. Whatever is asked of the HTTP interface: a request other than signing up, changing a password and placing an
  order changes no table; only placing an order can stop the process; an answer with a status other than
  200 comes with no change and no order for the engine. And every order that is written for the engine
  belongs to the user whose token came with the request, and is either the order that was just placed,
  its cost held, or an order of this user that was stored as new, open or partly filled, with the status
  to be cancelled.\<close>

theorem rest_requests:
  fixes E :: "('d::linordered_idom, 'salt) rest_env"
  assumes run: "serve E F W newId salt now cookie r s = (res, s')" and wf: "books_wf s" "orders_wf s" "room s 1"
  shows "(\<not> writes r \<longrightarrow> same_tables s s') \<and>
    (\<forall>f. res = Inl f \<longrightarrow> (\<exists>body. r = Private (PlaceOrderRoute body)) \<and> same_tables s s') \<and>
    (\<forall>resp os. res = Inr (resp, os) \<longrightarrow> (rs_Status resp \<noteq> 200 \<longrightarrow> same_tables s s' \<and> os = []) \<and>
      (\<forall>o1\<in>set os. \<exists>user token. cookie = Some token \<and>
        fst (CheckToken F (re_auth E) (re_secret E) now token s) = Inr (Some user) \<and> may_submit user s s' o1))"
proof (cases r)
  case (Public p)
  then have "serve_public E F salt now p s = (res, s')" using run by (simp add: serve_def)
  from public_request [OF this] show ?thesis unfolding Public by (auto simp: image_iff)
next
  case (Private p)
  then have h: "rest_checkToken E F now cookie (serve_private E F W newId salt now p) s = (res, s')" using run by (simp add: serve_def)
  consider (refused) resp where "same_tables s s'" "res = Inr (resp, [])"
    | (user) token user s1 where "cookie = Some token" "CheckToken F (re_auth E) (re_secret E) now token s = (Inr (Some user), s1)"
        "same_tables s s1" "serve_private E F W newId salt now p user s1 = (res, s')"
  proof (cases "cookie = None \<or> cookie = Some []")
    case True
    then show thesis using h refused by (auto simp: rest_checkToken_def reply_def)
  next
    case False
    then obtain token where token: "cookie = Some token" "token \<noteq> []" by auto
    then have a: "attempt (CheckToken F (re_auth E) (re_secret E) now token) 500 (\<lambda>found.
        case found of None \<Rightarrow> reply 403 (MessageBody ''bad token'') | Some user \<Rightarrow> serve_private E F W newId salt now p user) s = (res, s')"
      using h by (simp add: rest_checkToken_def)
    show thesis
    proof (cases rule: attempt_reads [OF reads_CheckToken a, case_names failed passed])
      case (failed resp)
      then show ?thesis using refused by blast
    next
      case (passed x s1)
      then show ?thesis using refused user [OF token(1)] by (cases x) (auto simp: reply_def)
    qed
  qed
  then show ?thesis
  proof cases
    case refused
    then show ?thesis by auto
  next
    case (user token user s1)
    note t = same_tables_trans [OF user(3)] and q = private_request [OF user(4)] and w = wf_same [OF user(3) wf]
    have "may_submit user s s' o1" if "res = Inr (resp, os)" "o1 \<in> set os" for resp os o1
    proof -
      have "may_submit user s1 s' o1" by (rule private_submits [OF user(4) [unfolded that(1)] that(2)]) (use w in auto)
      then show ?thesis using placed_before [OF user(3)] asks_same [OF user(3)] unfolding may_submit_def by blast
    qed
    then have own: "\<exists>user token. cookie = Some token \<and>
        fst (CheckToken F (re_auth E) (re_secret E) now token s) = Inr (Some user) \<and> may_submit user s s' o1"
      if "res = Inr (resp, os)" "o1 \<in> set os" for resp os o1
      using user(1,2) that by (intro exI [of _ user] exI [of _ token]) simp
    show ?thesis
      unfolding Private
    proof (intro conjI allI impI ballI)
      show "same_tables s s'" if "\<not> writes (Private p)" using t [OF q(1) [OF that]] .
      show "\<exists>body. Private p = Private (PlaceOrderRoute body)" if "res = Inl f" for f using q(2) [OF that] by simp
      show "same_tables s s'" if "res = Inl f" for f using t [OF conjunct2 [OF q(2) [OF that]]] .
      show "same_tables s s'" if "res = Inr (resp, os)" "rs_Status resp \<noteq> 200" for resp os using t [OF conjunct1 [OF q(3) [OF that]]] .
      show "os = []" if "res = Inr (resp, os)" "rs_Status resp \<noteq> 200" for resp os using conjunct2 [OF q(3) [OF that]] .
    qed (rule own)
  qed
qed

text \<open>A user with a token buys 2 at 100; another request cancels the order 5.\<close>

definition some_rest_env :: "(rat, unit) rest_env" where
  "some_rest_env = \<lparr>re_dec = rat_decimal\<lparr>dec_of_string := (\<lambda>v. Some (of_nat (read_digits v)))\<rparr>, re_auth = plain_auth, re_secret = ''key'',
     uuid_error = (\<lambda>_. None), decimal_error = (\<lambda>_. []), time_string = (\<lambda>_. []), order_created = (\<lambda>_. 0), user_created = (\<lambda>_. 0)\<rparr>"

definition rest_db :: "rat db" where
  "rest_db = sample_db\<lparr>db_users := [\<lparr>usr_Id = 128, usr_UserId = [], usr_Email = ''a@b.c'', usr_PasswordHash = [], usr_UserLevel = ''v1''\<rparr>]\<rparr>"

definition serve_some :: "route \<Rightarrow> (fault + rat response \<times> rat order list) \<times> rat db" where
  "serve_some r = serve some_rest_env (\<lambda>_. None) (\<lambda>_. True) 6 () 0 (Some (replicate 128 CHR ''x'')) r rest_db"

definition place_request :: place_order_request where
  "place_request = \<lparr>po_ClientOid = [], po_ProductId = ''BTC-USDT'', po_Size = ''2'', po_Funds = ''0'', po_Price = ''100'',
     po_Side = [], po_Type = [], po_TimeInForce = []\<rparr>"

lemma serve_some_runs:
  "map ord_Id (snd (projr (fst (serve_some (Private (PlaceOrderRoute (Inr place_request))))))) = [6]"
  "map ord_Id (snd (projr (fst (serve_some (Private (CancelOrderRoute ''client:'')))))) = [5]"
  "\<not> isl (fst (serve_some (Private (PlaceOrderRoute (Inr place_request)))))" "\<not> isl (fst (serve_some (Private (CancelOrderRoute ''client:''))))"
  by code_simp+

lemma rest_db_wf: "books_wf rest_db" "orders_wf rest_db" "room rest_db 1"
  using sample_db_wf(1,2,5) by (simp_all add: books_wf_def orders_wf_def room_def rest_db_def)

theorem rest_requests_witness:
  "\<exists>resp o1 s' resp2 o2 s2 user. serve_some (Private (PlaceOrderRoute (Inr place_request))) = (Inr (resp, [o1]), s') \<and>
     serve_some (Private (CancelOrderRoute ''client:'')) = (Inr (resp2, [o2]), s2) \<and> same_tables rest_db s2 \<and>
     may_submit user rest_db s' o1 \<and> may_submit user rest_db s2 o2 \<and> rs_Status resp = 200 \<and> rs_Status resp2 = 200"
proof -
  obtain resp os s' where a: "serve_some (Private (PlaceOrderRoute (Inr place_request))) = (Inr (resp, os), s')"
    using serve_some_runs(3) by (cases "serve_some (Private (PlaceOrderRoute (Inr place_request)))"; cases "fst (serve_some (Private (PlaceOrderRoute (Inr place_request))))") auto
  obtain resp2 os2 s2 where b: "serve_some (Private (CancelOrderRoute ''client:'')) = (Inr (resp2, os2), s2)"
    using serve_some_runs(4) by (cases "serve_some (Private (CancelOrderRoute ''client:''))"; cases "fst (serve_some (Private (CancelOrderRoute ''client:'')))") auto
  obtain o1 where o1: "os = [o1]" using serve_some_runs(1) a by auto
  obtain o2 where o2: "os2 = [o2]" using serve_some_runs(2) b by auto
  note A = rest_requests [OF a [unfolded serve_some_def] rest_db_wf] and B = rest_requests [OF b [unfolded serve_some_def] rest_db_wf]
  obtain user where u: "fst (CheckToken (\<lambda>_. None) (re_auth some_rest_env) (re_secret some_rest_env) 0 (replicate 128 CHR ''x'') rest_db) = Inr (Some user)"
    "may_submit user rest_db s' o1" using A o1 by auto
  have "may_submit user rest_db s2 o2" using B o2 u(1) by auto
  moreover have "same_tables rest_db s2" using B by (auto simp: writes_def)
  moreover have "rs_Status resp = 200" "rs_Status resp2 = 200" using A B o1 o2 by auto
  ultimately show ?thesis using a b u(2) o1 o2 by blast
qed

end
