(* ===== verification/Rest_Candles.thy ===== *)
theory Rest_Candles
  imports Rest Tick_Maker
begin

text \<open>
  The candles that \<open>GetProductCandles\<close> answers with: without gaps, newest first, up to now.
\<close>

definition times_right :: "(int \<rightharpoonup> 'd tick) \<Rightarrow> bool" where
  "times_right m \<longleftrightarrow> (\<forall>x t. m x = Some t \<longrightarrow> tck_Time t = x)"

text \<open>The candle at a time, after the candle before it.\<close>

definition candle_at :: "int \<Rightarrow> (int \<rightharpoonup> 'd::zero tick) \<Rightarrow> 'd tick \<Rightarrow> int \<Rightarrow> 'd tick" where
  "candle_at g m before t = (case m t of None \<Rightarrow> flat_tick g t before | Some x \<Rightarrow> x)"

text \<open>The loop makes the candles of all times from \<open>t\<close> to now, each from the one before.\<close>

lemma amend_unfold:
  "0 < g \<Longrightarrow> amend_ticks g now m l t = (if now < t then []
     else candle_at g m l t # amend_ticks g now m (case m t of None \<Rightarrow> l | Some x \<Rightarrow> x) (t + g))"
  by (subst amend_ticks.simps) (auto simp: candle_at_def split: option.splits)

lemma flat_cong: "tck_Close a = tck_Close b \<Longrightarrow> candle_at g m a t = candle_at g m b t"
  by (simp add: candle_at_def flat_tick_def split: option.splits)

lemma amend_spec:
  fixes m :: "int \<rightharpoonup> 'd::zero tick"
  assumes "0 < g"
  shows "(\<forall>i<length (amend_ticks g now m l t). t + int i * g \<le> now \<and>
       amend_ticks g now m l t ! i = candle_at g m (if i = 0 then l else amend_ticks g now m l t ! (i - 1)) (t + int i * g)) \<and>
    now < t + int (length (amend_ticks g now m l t)) * g"
proof (induction "nat (now + 1 - t)" arbitrary: l t rule: less_induct)
  case less
  show ?case
  proof (cases "now < t")
    case True
    then show ?thesis using assms by (subst (1 2 3 4) amend_unfold) simp_all
  next
    case False
    define l' where "l' = (case m t of None \<Rightarrow> l | Some x \<Rightarrow> x)"
    define ys where "ys = amend_ticks g now m l' (t + g)"
    have xs: "amend_ticks g now m l t = candle_at g m l t # ys" using assms False by (subst amend_unfold) (simp_all add: ys_def l'_def)
    have "nat (now + 1 - (t + g)) < nat (now + 1 - t)" using assms False by simp
    from less [OF this, of l', folded ys_def] have
      IH: "\<And>i. i < length ys \<Longrightarrow> t + g + int i * g \<le> now"
        "\<And>i. i < length ys \<Longrightarrow> ys ! i = candle_at g m (if i = 0 then l' else ys ! (i - 1)) (t + g + int i * g)"
        "now < t + g + int (length ys) * g" by auto
    have close: "tck_Close (candle_at g m l t) = tck_Close l'" by (simp add: candle_at_def l'_def flat_tick_def split: option.splits)
    have "t + int i * g \<le> now \<and> (candle_at g m l t # ys) ! i = candle_at g m (if i = 0 then l else (candle_at g m l t # ys) ! (i - 1)) (t + int i * g)"
      if i: "i < Suc (length ys)" for i
    proof (cases i)
      case 0
      then show ?thesis using False by simp
    next
      case (Suc k)
      then have k: "k < length ys" using i by simp
      have T: "t + g + int k * g = t + int i * g" by (simp add: Suc algebra_simps)
      have "ys ! k = candle_at g m (if k = 0 then candle_at g m l t else ys ! (k - 1)) (t + int i * g)"
        using IH(2) [OF k] flat_cong [OF close] unfolding T by (cases "k = 0") simp_all
      moreover have "(candle_at g m l t # ys) ! (i - 1) = (if k = 0 then candle_at g m l t else ys ! (k - 1))" by (cases k) (simp_all add: Suc)
      moreover have "(candle_at g m l t # ys) ! i = ys ! k" "i \<noteq> 0" by (simp_all add: Suc)
      ultimately show ?thesis using IH(1) [OF k] unfolding T by simp
    qed
    moreover have "now < t + int (Suc (length ys)) * g" using IH(3) by (simp add: algebra_simps)
    ultimately show ?thesis unfolding xs by simp
  qed
qed

lemma candle_at_time: "times_right m \<Longrightarrow> tck_Time (candle_at g m l t) = t"
  by (auto simp: candle_at_def times_right_def flat_tick_def split: option.splits)

text \<open>The map of the ticks.\<close>

lemma ticks_map: "fold (\<lambda>t m. m(tck_Time t \<mapsto> t)) ticks m0 = (\<lambda>x. case find (\<lambda>t. tck_Time t = x) (rev ticks) of None \<Rightarrow> m0 x | Some t \<Rightarrow> Some t)"
proof (induction ticks rule: rev_induct)
  case (snoc t ts)
  then show ?case by (auto simp: fun_eq_iff)
qed simp

lemma ticks_map_right: "times_right (fold (\<lambda>t m. m(tck_Time t \<mapsto> t)) ticks Map.empty)"
  by (auto simp: times_right_def ticks_map find_Some_iff split: option.splits)

lemma only_whole_hours: "g \<in> validGranularities \<Longrightarrow> g div 60 \<in> set minutes \<longleftrightarrow> g = 60"
  by (auto simp: validGranularities_def minutes_def)

text \<open>C30. The candles of the answer have no gaps: from one row to the next older one is exactly the granularity, the
  first row is that of the current period, and each row is the stored tick of its time or, where there is
  none, a flat candle without volume at the price at which the row before it closed. The times of the rows
  count from the oldest tick that the store gave.\<close>

theorem candles_without_gaps:
  fixes ticks :: "'d::zero tick list"
  assumes "0 < g" and "0 < lmt" and "ticks \<noteq> []" and "tck_Time (last ticks) \<le> now" and "rows = candle_rows g now lmt ticks"
  shows "rows \<noteq> [] \<and> int (length rows) \<le> lmt \<and> fst (hd rows) \<le> now \<and> now < fst (hd rows) + g \<and>
    (\<forall>i. Suc i < length rows \<longrightarrow> fst (rows ! i) = fst (rows ! Suc i) + g) \<and>
    (\<forall>i<length rows. (\<exists>t\<in>set ticks. rows ! i = candle_row t) \<or>
      (\<forall>t\<in>set ticks. tck_Time t \<noteq> fst (rows ! i)) \<and>
      (\<exists>c. rows ! i = (fst (rows ! i), c, c, c, c, 0) \<and> (Suc i < length rows \<longrightarrow> (\<exists>x l h o' v. rows ! Suc i = (x, l, h, o', c, v)))))"
proof -
  define m where "m = fold (\<lambda>t m. m(tck_Time t \<mapsto> t)) ticks Map.empty"
  define t0 where "t0 = tck_Time (last ticks)"
  define xs where "xs = amend_ticks g now m (last ticks) t0"
  define n where "n = length xs"
  define k where "k = (if lmt < int n then nat lmt else n)"
  have spec: "\<And>i. i < n \<Longrightarrow> t0 + int i * g \<le> now"
    "\<And>i. i < n \<Longrightarrow> xs ! i = candle_at g m (if i = 0 then last ticks else xs ! (i - 1)) (t0 + int i * g)"
    "now < t0 + int n * g"
    using amend_spec [OF assms(1), where now = now and m = m and l = "last ticks" and t = t0] by (auto simp: xs_def n_def)
  have right: "times_right m" unfolding m_def by (rule ticks_map_right)
  have time: "tck_Time (xs ! i) = t0 + int i * g" if "i < n" for i
    using spec(2) [OF that] candle_at_time [OF right] by simp
  have "0 < n" using spec(3) assms(4) by (cases n) (auto simp: t0_def)
  then have k: "0 < k" "k \<le> n" "int k \<le> lmt" using assms(2) by (auto simp: k_def)
  have rows: "rows = map candle_row (take k (rev xs))"
    unfolding assms(5) candle_rows_def k_def n_def xs_def t0_def m_def using assms(3) by (simp add: Let_def)
  then have len: "length rows = k" using k(2) by (simp add: n_def)
  have row: "rows ! i = candle_row (xs ! (n - 1 - i))" if "i < k" for i
    using that k(2) by (simp add: rows rev_nth n_def)
  have fst_row: "fst (rows ! i) = t0 + int (n - 1 - i) * g" if "i < k" for i
    using row [OF that] time [of "n - 1 - i"] \<open>0 < n\<close> by (simp add: candle_row_def)
  have "rows \<noteq> []" using len k(1) by auto
  then have "fst (hd rows) = t0 + int (n - 1) * g" using fst_row [OF k(1)] by (simp add: hd_conv_nth)
  moreover have "t0 + int (n - 1) * g + g = t0 + int n * g" using \<open>0 < n\<close> by (simp add: algebra_simps of_nat_diff)
  ultimately have hd: "fst (hd rows) \<le> now" "now < fst (hd rows) + g" using spec(1) [of "n - 1"] spec(3) \<open>0 < n\<close> by simp_all
  have step: "fst (rows ! i) = fst (rows ! Suc i) + g" if "Suc i < length rows" for i
  proof -
    have "n - 1 - i = Suc (n - 1 - Suc i)" using that len k(2) by simp
    then show ?thesis using fst_row [of i] fst_row [of "Suc i"] that len by (simp add: algebra_simps)
  qed
  have each: "(\<exists>t\<in>set ticks. rows ! i = candle_row t) \<or> (\<forall>t\<in>set ticks. tck_Time t \<noteq> fst (rows ! i)) \<and>
      (\<exists>c. rows ! i = (fst (rows ! i), c, c, c, c, 0) \<and> (Suc i < length rows \<longrightarrow> (\<exists>x l h o' v. rows ! Suc i = (x, l, h, o', c, v))))"
    if i: "i < length rows" for i
  proof -
    define j where "j = n - 1 - i"
    define T where "T = t0 + int j * g"
    define b where "b = (if j = 0 then last ticks else xs ! (j - 1))"
    have r: "rows ! i = candle_row (candle_at g m b T)" and T: "fst (rows ! i) = T"
      using row [of i] spec(2) [of j] fst_row [of i] i len \<open>0 < n\<close> by (simp_all add: j_def T_def b_def)
    show ?thesis
    proof (cases "m T")
      case (Some t)
      then have "t \<in> set ticks" by (auto simp: m_def ticks_map find_Some_iff in_set_conv_nth split: option.splits) (metis length_rev nth_mem set_rev in_set_conv_nth)
      then show ?thesis using r Some by (auto simp: candle_at_def)
    next
      case None
      then have none: "\<forall>t\<in>set ticks. tck_Time t \<noteq> T" by (auto simp: m_def ticks_map find_None_iff split: option.splits)
      have "rows ! i = (T, tck_Close b, tck_Close b, tck_Close b, tck_Close b, 0)"
        using r None by (simp add: candle_at_def flat_tick_def candle_row_def)
      moreover have "rows ! Suc i = candle_row b" if "Suc i < length rows"
      proof -
        have "j \<noteq> 0" "n - 1 - Suc i = j - 1" using that len k(2) by (simp_all add: j_def)
        then show ?thesis using row [of "Suc i"] that len by (simp add: b_def)
      qed
      ultimately show ?thesis using none T by (auto simp: candle_row_def)
    qed
  qed
  show ?thesis using \<open>rows \<noteq> []\<close> len k(3) hd step each by blast
qed

text \<open>Trades in two of four minutes.\<close>

definition some_tick :: "int \<Rightarrow> rat \<Rightarrow> rat tick" where
  "some_tick t p = \<lparr>tck_ProductId = ''P'', tck_Granularity = 1, tck_Time = t, tck_Open = p, tck_High = p, tck_Low = p, tck_Close = p,
     tck_Volume = 1, tck_QuoteVolume = p, tck_LogOffset = 0, tck_LogSeq = 0\<rparr>"

theorem candles_without_gaps_witness:
  "candle_rows 60 250 100 [some_tick 180 12, some_tick 60 10] =
     [(240, 12, 12, 12, 12, 0), (180, 12, 12, 12, 12, 1), (120, 10, 10, 10, 10, 0), (60, 10, 10, 10, 10, 1)] \<and>
   fst (candle_rows 60 250 100 [some_tick 180 12, some_tick 60 10] ! 1) =
     fst (candle_rows 60 250 100 [some_tick 180 12, some_tick 60 10] ! 2) + 60"
proof -
  have rows: "candle_rows 60 250 100 [some_tick 180 12, some_tick 60 10] =
     [(240, 12, 12, 12, 12, 0), (180, 12, 12, 12, 12, 1), (120, 10, 10, 10, 10, 0), (60, 10, 10, 10, 10, 1)]"
    by (simp add: candle_rows_def some_tick_def amend_ticks.simps flat_tick_def candle_row_def Let_def)
  have "tck_Time (last [some_tick 180 12, some_tick 60 10]) \<le> 250" by (simp add: some_tick_def)
  from candles_without_gaps [OF _ _ _ this refl, of 60 100] rows
  have "Suc 1 < 4 \<longrightarrow> fst (candle_rows 60 250 100 [some_tick 180 12, some_tick 60 10] ! 1) =
     fst (candle_rows 60 250 100 [some_tick 180 12, some_tick 60 10] ! Suc 1) + 60" by simp
  then show ?thesis using rows by simp
qed

end
