(* ===== verification/Binlog.thy ===== *)
theory Binlog
  imports Utils
begin

text \<open>
  The binary log stream (\<open>models/binlog_stream.go\<close>): every row that MySQL inserts or updates is turned back
  into a struct and sent to Redis, to be settled by the workers or shown to its owner by the push server.
  Go's reflection is written out: a struct is the list of its fields with the names of their types, and
  \<open>parseRow\<close> goes through the fields and looks for the column of the same name. \<open>canal\<close>, which reads
  MySQL's log, is a package: an event has the names of the columns and the rows, whose cells have Go types.
  Errors of Redis are only logged.
\<close>

subsection \<open>Cells and fields\<close>

datatype go_int = GoInt | GoUint | GoInt64 | GoUint64 | GoInt32 | GoUint32 | GoInt16 | GoUint16 | GoInt8 | GoUint8

text \<open>The dynamic type and value of an \<open>interface{}\<close>.\<close>

datatype cell = NilCell | IntCell go_int int | StringCell string | TimeCell int | OtherCell string

text \<open>Converting an integer of any type to 64 bits keeps it or wraps it around.\<close>

definition IntegerInterfaceToInt64 :: "cell \<Rightarrow> int res" where
  "IntegerInterfaceToInt64 c = (case c of IntCell k v \<Rightarrow> Inr (sint (word_of_int v :: u64)) | _ \<Rightarrow> Inl (Panic ''IntegerInterfaceToInt64''))"

definition IntegerInterfaceToUint64 :: "cell \<Rightarrow> u64 res" where
  "IntegerInterfaceToUint64 c = (case c of IntCell k v \<Rightarrow> Inr (word_of_int v) | _ \<Rightarrow> Inl (Panic ''IntegerInterfaceToUint64''))"

datatype 'd field_value = IntField int | UintField u64 | StringField string | BoolField bool | TimeField int | DecimalField 'd

text \<open>A struct: names of fields and of their types.\<close>

type_synonym struct_type = "(string \<times> string) list"

text \<open>\<open>time.Time{}\<close>: the first of January of the year 1.\<close>

definition zero_time :: int where
  "zero_time = - 62135596800 * 10 ^ 9"

definition int_types :: "(string \<times> nat) list" where
  "int_types = [(''int64'', 64), (''int32'', 32), (''int16'', 16), (''int8'', 8), (''int'', 64)]"

definition uint_types :: "(string \<times> nat) list" where
  "uint_types = [(''uint64'', 64), (''uint32'', 32), (''uint16'', 16), (''uint8'', 8), (''uint'', 64)]"

definition zero_value :: "string \<Rightarrow> 'd::zero field_value" where
  "zero_value ty =
     (if ty \<in> fst ` set int_types then IntField 0
      else if ty \<in> fst ` set uint_types then UintField 0
      else if ty = ''bool'' then BoolField False
      else if ty = ''Time'' then TimeField zero_time
      else if ty = ''Decimal'' then DecimalField 0
      else StringField [])"

definition string_cell :: "cell \<Rightarrow> string res" where
  "string_cell c = (case c of StringCell s \<Rightarrow> Inr s | _ \<Rightarrow> Inl (Panic ''interface conversion''))"

text \<open>Setting a field from a cell. The types that are not listed are strings with a name of their own.\<close>

definition set_field :: "'d::zero decimal_pkg \<Rightarrow> string \<Rightarrow> cell \<Rightarrow> 'd field_value \<Rightarrow> 'd field_value res" where
  "set_field D ty c old =
     (if c = NilCell then Inr old
      else case map_of int_types ty of
        Some w \<Rightarrow> bindR (IntegerInterfaceToInt64 c) (\<lambda>i. Inr (IntField (signed_take_bit (w - 1) i)))
      | None \<Rightarrow> (case map_of uint_types ty of
        Some w \<Rightarrow> bindR (IntegerInterfaceToUint64 c) (\<lambda>u. Inr (UintField (take_bit w u)))
      | None \<Rightarrow>
        if ty = ''bool'' then bindR (IntegerInterfaceToInt64 c) (\<lambda>i. Inr (BoolField (i \<noteq> 0)))
        else if ty = ''Time'' then (case c of TimeCell t \<Rightarrow> Inr (TimeField t) | _ \<Rightarrow> Inl (Panic ''interface conversion''))
        else if ty = ''Decimal'' then bindR (string_cell c) (\<lambda>s.
          Inr (DecimalField (case dec_of_string D s of None \<Rightarrow> 0 | Some d \<Rightarrow> d)))
        else bindR (string_cell c) (\<lambda>s. Inr (StringField s))))"

definition getColumnIndexByName :: "string list \<Rightarrow> string \<Rightarrow> int" where
  "getColumnIndexByName columns name = (case find (\<lambda>i. columns ! i = name) [0..<length columns] of None \<Rightarrow> - 1 | Some i \<Rightarrow> int i)"

text \<open>One turn of the loop over the fields; the destination is a new struct.\<close>

definition parse_field :: "'d::zero decimal_pkg \<Rightarrow> string list \<Rightarrow> cell list \<Rightarrow> string \<times> string \<Rightarrow> 'd field_value res" where
  "parse_field D columns row f =
     (let colIdx = getColumnIndexByName columns (SnakeCase (fst f)) in
      if colIdx < 0 \<or> int (length row) \<le> colIdx then Inr (zero_value (snd f))
      else set_field D (snd f) (row ! nat colIdx) (zero_value (snd f)))"

fun parseRow :: "'d::zero decimal_pkg \<Rightarrow> string list \<Rightarrow> cell list \<Rightarrow> struct_type \<Rightarrow> 'd field_value list res" where
  "parseRow D columns row [] = Inr []"
| "parseRow D columns row (f # fs) = bindR (parse_field D columns row f) (\<lambda>v. bindR (parseRow D columns row fs) (\<lambda>vs. Inr (v # vs)))"

subsection \<open>The structs\<close>

definition OrderFields :: struct_type where
  "OrderFields = [(''Id'', ''uint64''), (''CreatedAt'', ''Time''), (''UpdatedAt'', ''Time''), (''ProductId'', ''string''),
     (''UserId'', ''uint64''), (''ClientOid'', ''string''), (''Size'', ''Decimal''), (''Funds'', ''Decimal''),
     (''FilledSize'', ''Decimal''), (''ExecutedValue'', ''Decimal''), (''Price'', ''Decimal''), (''FillFees'', ''Decimal''),
     (''Type'', ''OrderType''), (''Side'', ''Side''), (''TimeInForce'', ''TimeInForceType''), (''TakerFeeRatio'', ''Decimal''),
     (''MakerFeeRatio'', ''Decimal''), (''Status'', ''OrderStatus''), (''Settled'', ''bool'')]"

definition AccountFields :: struct_type where
  "AccountFields = [(''Id'', ''uint64''), (''CreatedAt'', ''Time''), (''UpdatedAt'', ''Time''), (''UserId'', ''uint64''),
     (''Currency'', ''string''), (''Hold'', ''Decimal''), (''Available'', ''Decimal'')]"

definition TradeFields :: struct_type where
  "TradeFields = [(''Id'', ''uint64''), (''CreatedAt'', ''Time''), (''UpdatedAt'', ''Time''), (''ProductId'', ''string''),
     (''TradeSeq'', ''int64''), (''TakerOrderId'', ''uint64''), (''TakerUserId'', ''uint64''), (''MakerOrderId'', ''uint64''),
     (''MakerUserId'', ''uint64''), (''Price'', ''Decimal''), (''Size'', ''Decimal''), (''Side'', ''Side''), (''Time'', ''Time''),
     (''LogOffset'', ''int64''), (''LogSeq'', ''int64'')]"

definition FillFields :: struct_type where
  "FillFields = [(''Id'', ''uint64''), (''CreatedAt'', ''Time''), (''UpdatedAt'', ''Time''), (''TradeSeq'', ''int64''),
     (''OrderId'', ''uint64''), (''MessageSeq'', ''int64''), (''ProductId'', ''string''), (''Size'', ''Decimal''),
     (''Price'', ''Decimal''), (''Funds'', ''Decimal''), (''Fee'', ''Decimal''), (''Liquidity'', ''string''), (''Settled'', ''bool''),
     (''Side'', ''Side''), (''Done'', ''bool''), (''DoneReason'', ''DoneReason''), (''LogOffset'', ''int64''), (''LogSeq'', ''int64'')]"

definition BillFields :: struct_type where
  "BillFields = [(''Id'', ''uint64''), (''CreatedAt'', ''Time''), (''UpdatedAt'', ''Time''), (''UserId'', ''uint64''),
     (''Currency'', ''string''), (''Available'', ''Decimal''), (''Hold'', ''Decimal''), (''Type'', ''BillType''),
     (''Settled'', ''bool''), (''Notes'', ''string'')]"

text \<open>A struct read as a row of the model, with the two times that rows of the model do not have.\<close>

datatype 'r stored = Stored (st_Row: 'r) (st_CreatedAt: int) (st_UpdatedAt: int)

fun int_of_field :: "'d field_value \<Rightarrow> int" where "int_of_field (IntField i) = i" | "int_of_field _ = 0"
fun uint_of_field :: "'d field_value \<Rightarrow> u64" where "uint_of_field (UintField u) = u" | "uint_of_field _ = 0"
fun string_of_field :: "'d field_value \<Rightarrow> string" where "string_of_field (StringField s) = s" | "string_of_field _ = []"
fun bool_of_field :: "'d field_value \<Rightarrow> bool" where "bool_of_field (BoolField b) = b" | "bool_of_field _ = False"
fun time_of_field :: "'d field_value \<Rightarrow> int" where "time_of_field (TimeField t) = t" | "time_of_field _ = zero_time"
fun decimal_of_field :: "'d::zero field_value \<Rightarrow> 'd" where "decimal_of_field (DecimalField d) = d" | "decimal_of_field _ = 0"

definition stored_with :: "'d field_value list \<Rightarrow> 'r \<Rightarrow> 'r stored" where
  "stored_with vs r = Stored r (time_of_field (vs ! 1)) (time_of_field (vs ! 2))"

definition order_of :: "'d::zero field_value list \<Rightarrow> 'd order stored" where
  "order_of vs = stored_with vs \<lparr>ord_Id = uint_of_field (vs ! 0), ord_ProductId = string_of_field (vs ! 3),
     ord_UserId = uint_of_field (vs ! 4), ord_ClientOid = string_of_field (vs ! 5), ord_Size = decimal_of_field (vs ! 6),
     ord_Funds = decimal_of_field (vs ! 7), ord_FilledSize = decimal_of_field (vs ! 8), ord_ExecutedValue = decimal_of_field (vs ! 9),
     ord_Price = decimal_of_field (vs ! 10), ord_FillFees = decimal_of_field (vs ! 11), ord_Type = string_of_field (vs ! 12),
     ord_Side = string_of_field (vs ! 13), ord_TimeInForce = string_of_field (vs ! 14), ord_TakerFeeRatio = decimal_of_field (vs ! 15),
     ord_MakerFeeRatio = decimal_of_field (vs ! 16), ord_Status = string_of_field (vs ! 17), ord_Settled = bool_of_field (vs ! 18)\<rparr>"

definition account_of :: "'d::zero field_value list \<Rightarrow> 'd account stored" where
  "account_of vs = stored_with vs \<lparr>acc_Id = uint_of_field (vs ! 0), acc_UserId = uint_of_field (vs ! 3),
     acc_Currency = string_of_field (vs ! 4), acc_Hold = decimal_of_field (vs ! 5), acc_Available = decimal_of_field (vs ! 6)\<rparr>"

definition trade_of :: "'d::zero field_value list \<Rightarrow> 'd trade stored" where
  "trade_of vs = stored_with vs \<lparr>trd_Id = uint_of_field (vs ! 0), trd_ProductId = string_of_field (vs ! 3), trd_TradeSeq = int_of_field (vs ! 4),
     trd_TakerOrderId = uint_of_field (vs ! 5), trd_TakerUserId = uint_of_field (vs ! 6), trd_MakerOrderId = uint_of_field (vs ! 7),
     trd_MakerUserId = uint_of_field (vs ! 8), trd_Price = decimal_of_field (vs ! 9), trd_Size = decimal_of_field (vs ! 10),
     trd_Side = string_of_field (vs ! 11), trd_Time = time_of_field (vs ! 12), trd_LogOffset = int_of_field (vs ! 13), trd_LogSeq = int_of_field (vs ! 14)\<rparr>"

definition fill_of :: "'d::zero field_value list \<Rightarrow> 'd fill stored" where
  "fill_of vs = stored_with vs \<lparr>fil_Id = uint_of_field (vs ! 0), fil_TradeSeq = int_of_field (vs ! 3), fil_OrderId = uint_of_field (vs ! 4),
     fil_MessageSeq = int_of_field (vs ! 5), fil_ProductId = string_of_field (vs ! 6), fil_Size = decimal_of_field (vs ! 7),
     fil_Price = decimal_of_field (vs ! 8), fil_Funds = decimal_of_field (vs ! 9), fil_Fee = decimal_of_field (vs ! 10),
     fil_Liquidity = string_of_field (vs ! 11), fil_Settled = bool_of_field (vs ! 12), fil_Side = string_of_field (vs ! 13),
     fil_Done = bool_of_field (vs ! 14), fil_DoneReason = string_of_field (vs ! 15), fil_LogOffset = int_of_field (vs ! 16), fil_LogSeq = int_of_field (vs ! 17)\<rparr>"

definition bill_of :: "'d::zero field_value list \<Rightarrow> 'd bill stored" where
  "bill_of vs = stored_with vs \<lparr>bil_Id = uint_of_field (vs ! 0), bil_UserId = uint_of_field (vs ! 3), bil_Currency = string_of_field (vs ! 4),
     bil_Available = decimal_of_field (vs ! 5), bil_Hold = decimal_of_field (vs ! 6), bil_Type = string_of_field (vs ! 7),
     bil_Settled = bool_of_field (vs ! 8), bil_Notes = string_of_field (vs ! 9)\<rparr>"

subsection \<open>Events\<close>

record rows_event =
  re_Table :: string
  re_Columns :: "string list"
  re_Action :: string
  re_Rows :: "cell list list"

text \<open>What is sent to Redis, and under which name: \<open>RedisPublish\<close> to those who listen now, \<open>RedisPush\<close> to a
  queue. The payload is the JSON of the struct.\<close>

datatype 'd payload = OrderJson "'d order stored" | AccountJson "'d account stored" | TradeJson "'d trade stored"
  | FillJson "'d fill stored" | BillJson "'d bill stored"

datatype 'd redis_call = RedisPublish string "'d payload" | RedisPush string "'d payload"

definition TopicOrder :: string where "TopicOrder = ''g_order''"
definition TopicAccount :: string where "TopicAccount = ''g_account''"
definition TopicTrade :: string where "TopicTrade = ''g_trade''"
definition TopicFill :: string where "TopicFill = ''g_fill''"
definition TopicBill :: string where "TopicBill = ''g_bill''"

definition parse_event :: "'d::zero decimal_pkg \<Rightarrow> rows_event \<Rightarrow> nat \<Rightarrow> struct_type \<Rightarrow> ('d field_value list \<Rightarrow> 'd redis_call) \<Rightarrow>
    'd redis_call list res" where
  "parse_event D e n struct k =
     (if n < length (re_Rows e) then bindR (parseRow D (re_Columns e) (re_Rows e ! n) struct) (\<lambda>vs. Inr [k vs])
      else Inl index_out_of_range)"

definition OnRow :: "'d::zero decimal_pkg \<Rightarrow> rows_event \<Rightarrow> 'd redis_call list res" where
  "OnRow D e =
     (let n = (if re_Action e = ''update'' then 1 else 0) in
      if take 7 (re_Table e) = ''g_order'' then
        (if re_Action e = ''delete'' then Inr []
         else parse_event D e n OrderFields (\<lambda>vs. RedisPublish TopicOrder (OrderJson (order_of vs))))
      else if re_Table e = ''g_account'' then
        parse_event D e n AccountFields (\<lambda>vs. RedisPublish TopicAccount (AccountJson (account_of vs)))
      else if re_Table e = ''g_trade'' then
        (if re_Action e = ''delete'' then Inr []
         else parse_event D e n TradeFields (\<lambda>vs. RedisPublish TopicTrade (TradeJson (trade_of vs))))
      else if re_Table e = ''g_fill'' then
        (if re_Action e = ''delete'' \<or> re_Action e = ''update'' then Inr []
         else parse_event D e 0 FillFields (\<lambda>vs. RedisPush TopicFill (FillJson (fill_of vs))))
      else if re_Table e = ''g_bill'' then
        (if re_Action e = ''delete'' \<or> re_Action e = ''update'' then Inr []
         else parse_event D e 0 BillFields (\<lambda>vs. RedisPush TopicBill (BillJson (bill_of vs))))
      else Inr [])"

end
