(* ===== verification/Binlog_Rows.thy ===== *)
theory Binlog_Rows
  imports Binlog
begin

text \<open>
  Reading a row back: the tables of \<open>ddl.sql\<close> and \<open>ddl_order.sql\<close> have a column for every field of the
  structs, under the name that \<open>SnakeCase\<close> computes, so what is sent to Redis is the row that was stored.
\<close>

subsection \<open>The columns of the tables\<close>

definition order_columns :: "string list" where
  "order_columns = [''id'', ''created_at'', ''updated_at'', ''product_id'', ''user_id'', ''size'', ''funds'', ''filled_size'',
     ''executed_value'', ''price'', ''fill_fees'', ''type'', ''side'', ''time_in_force'', ''taker_fee_ratio'', ''maker_fee_ratio'',
     ''status'', ''settled'', ''client_oid'']"

definition account_columns :: "string list" where
  "account_columns = [''id'', ''created_at'', ''updated_at'', ''user_id'', ''currency'', ''hold'', ''available'']"

definition trade_columns :: "string list" where
  "trade_columns = [''id'', ''created_at'', ''updated_at'', ''product_id'', ''trade_seq'', ''taker_order_id'', ''taker_user_id'',
     ''maker_order_id'', ''maker_user_id'', ''price'', ''size'', ''side'', ''time'', ''log_offset'', ''log_seq'']"

definition fill_columns :: "string list" where
  "fill_columns = [''id'', ''created_at'', ''updated_at'', ''trade_seq'', ''order_id'', ''product_id'', ''size'', ''price'', ''funds'',
     ''fee'', ''liquidity'', ''settled'', ''side'', ''done'', ''done_reason'', ''message_seq'', ''log_offset'', ''log_seq'']"

definition bill_columns :: "string list" where
  "bill_columns = [''id'', ''created_at'', ''updated_at'', ''user_id'', ''currency'', ''available'', ''hold'', ''type'', ''settled'', ''notes'']"

subsection \<open>What a row holds\<close>

text \<open>The cell of a value, as \<open>canal\<close> gives it: \<open>bigint\<close> columns are signed 64-bit integers, also those of
  \<open>uint64\<close> fields, \<open>tinyint\<close> columns are 8-bit, and decimals are strings, printed by \<open>fmt\<close>.\<close>

fun cell_of :: "('d \<Rightarrow> string) \<Rightarrow> 'd field_value \<Rightarrow> cell" where
  "cell_of fmt (IntField i) = IntCell GoInt64 i"
| "cell_of fmt (UintField u) = IntCell GoInt64 (sint u)"
| "cell_of fmt (StringField s) = StringCell s"
| "cell_of fmt (BoolField b) = IntCell GoInt8 (if b then 1 else 0)"
| "cell_of fmt (TimeField t) = TimeCell t"
| "cell_of fmt (DecimalField d) = StringCell (fmt d)"

text \<open>A value of a field type that its column can hold and that reads back.\<close>

fun storable :: "'d decimal_pkg \<Rightarrow> ('d \<Rightarrow> string) \<Rightarrow> string \<Rightarrow> 'd field_value \<Rightarrow> bool" where
  "storable D fmt ty (IntField i) \<longleftrightarrow> ty = ''int64'' \<and> - (2 ^ 63) \<le> i \<and> i < 2 ^ 63"
| "storable D fmt ty (UintField u) \<longleftrightarrow> ty = ''uint64''"
| "storable D fmt ty (StringField s) \<longleftrightarrow> ty \<notin> {''int64'', ''uint64'', ''bool'', ''Time'', ''Decimal''} \<and>
     map_of int_types ty = None \<and> map_of uint_types ty = None"
| "storable D fmt ty (BoolField b) \<longleftrightarrow> ty = ''bool''"
| "storable D fmt ty (TimeField t) \<longleftrightarrow> ty = ''Time''"
| "storable D fmt ty (DecimalField d) \<longleftrightarrow> ty = ''Decimal'' \<and> dec_of_string D (fmt d) = Some d"

lemma sint_back:
  assumes "- (2 ^ 63) \<le> i" and "i < 2 ^ 63"
  shows "sint (word_of_int i :: u64) = i"
  by (subst sint_sbintrunc') (use assms in \<open>simp add: signed_take_bit_int_eq_self\<close>)

lemma set_field_back: "storable D fmt ty v \<Longrightarrow> set_field D ty (cell_of fmt v) old = Inr v"
proof (cases v)
  case (IntField i)
  assume "storable D fmt ty v"
  then show ?thesis using IntField
    by (simp add: set_field_def int_types_def IntegerInterfaceToInt64_def sint_back signed_take_bit_int_eq_self)
qed (simp_all add: set_field_def int_types_def uint_types_def IntegerInterfaceToInt64_def IntegerInterfaceToUint64_def
    string_cell_def take_bit_word_eq_self split: if_splits)

text \<open>The row of a table that holds the values of a struct: at the column of each field its value, wherever
  the column is.\<close>

definition holds_row :: "'d decimal_pkg \<Rightarrow> ('d \<Rightarrow> string) \<Rightarrow> string list \<Rightarrow> cell list \<Rightarrow> struct_type \<Rightarrow> 'd field_value list \<Rightarrow> bool" where
  "holds_row D fmt columns row fs vs \<longleftrightarrow> length row = length columns \<and>
     list_all2 (\<lambda>f v. storable D fmt (snd f) v \<and>
       (\<forall>i<length columns. columns ! i = SnakeCase (fst f) \<longrightarrow> row ! i = cell_of fmt v)) fs vs"

lemma column_found:
  assumes "name \<in> set columns"
  obtains i where "getColumnIndexByName columns name = int i" and "i < length columns" and "columns ! i = name"
proof -
  obtain j where j: "j < length columns" "columns ! j = name" using assms by (auto simp: in_set_conv_nth)
  then obtain i where i: "find (\<lambda>i. columns ! i = name) [0..<length columns] = Some i"
    by (cases "find (\<lambda>i. columns ! i = name) [0..<length columns]") (auto simp: find_None_iff)
  then have "i < length columns" "columns ! i = name" by (auto simp: find_Some_iff)
  then show thesis using that i by (simp add: getColumnIndexByName_def)
qed

lemma parseRow_back:
  assumes "holds_row D fmt columns row fs vs" and "\<forall>f\<in>set fs. SnakeCase (fst f) \<in> set columns"
  shows "parseRow D columns row fs = Inr vs"
proof -
  have len: "length row = length columns" using assms(1) by (simp add: holds_row_def)
  have field: "parse_field D columns row f = Inr v"
    if v: "storable D fmt (snd f) v" "\<forall>i<length columns. columns ! i = SnakeCase (fst f) \<longrightarrow> row ! i = cell_of fmt v"
      and f: "SnakeCase (fst f) \<in> set columns" for f v
  proof -
    obtain i where i: "getColumnIndexByName columns (SnakeCase (fst f)) = int i" "i < length columns" "columns ! i = SnakeCase (fst f)"
      by (rule column_found [OF f])
    then show ?thesis using v len set_field_back [OF v(1)] by (simp add: parse_field_def)
  qed
  have "list_all2 (\<lambda>f v. storable D fmt (snd f) v \<and>
      (\<forall>i<length columns. columns ! i = SnakeCase (fst f) \<longrightarrow> row ! i = cell_of fmt v)) fs vs"
    using assms(1) by (simp add: holds_row_def)
  then show ?thesis using assms(2) field by (induction rule: list_all2_induct) auto
qed

text \<open>The names.\<close>

lemma snake_names:
  "list_all (\<lambda>f. SnakeCase (fst f) \<in> set order_columns) OrderFields"
  "list_all (\<lambda>f. SnakeCase (fst f) \<in> set account_columns) AccountFields"
  "list_all (\<lambda>f. SnakeCase (fst f) \<in> set trade_columns) TradeFields"
  "list_all (\<lambda>f. SnakeCase (fst f) \<in> set fill_columns) FillFields"
  "list_all (\<lambda>f. SnakeCase (fst f) \<in> set bill_columns) BillFields"
  by code_simp+

subsection \<open>Rows of the model as structs\<close>

fun order_values :: "'d order stored \<Rightarrow> 'd field_value list" where
  "order_values (Stored r c u) = [UintField (ord_Id r), TimeField c, TimeField u, StringField (ord_ProductId r), UintField (ord_UserId r),
     StringField (ord_ClientOid r), DecimalField (ord_Size r), DecimalField (ord_Funds r), DecimalField (ord_FilledSize r),
     DecimalField (ord_ExecutedValue r), DecimalField (ord_Price r), DecimalField (ord_FillFees r), StringField (ord_Type r),
     StringField (ord_Side r), StringField (ord_TimeInForce r), DecimalField (ord_TakerFeeRatio r), DecimalField (ord_MakerFeeRatio r),
     StringField (ord_Status r), BoolField (ord_Settled r)]"

fun account_values :: "'d account stored \<Rightarrow> 'd field_value list" where
  "account_values (Stored r c u) = [UintField (acc_Id r), TimeField c, TimeField u, UintField (acc_UserId r), StringField (acc_Currency r),
     DecimalField (acc_Hold r), DecimalField (acc_Available r)]"

fun trade_values :: "'d trade stored \<Rightarrow> 'd field_value list" where
  "trade_values (Stored r c u) = [UintField (trd_Id r), TimeField c, TimeField u, StringField (trd_ProductId r), IntField (trd_TradeSeq r),
     UintField (trd_TakerOrderId r), UintField (trd_TakerUserId r), UintField (trd_MakerOrderId r), UintField (trd_MakerUserId r),
     DecimalField (trd_Price r), DecimalField (trd_Size r), StringField (trd_Side r), TimeField (trd_Time r),
     IntField (trd_LogOffset r), IntField (trd_LogSeq r)]"

fun fill_values :: "'d fill stored \<Rightarrow> 'd field_value list" where
  "fill_values (Stored r c u) = [UintField (fil_Id r), TimeField c, TimeField u, IntField (fil_TradeSeq r), UintField (fil_OrderId r),
     IntField (fil_MessageSeq r), StringField (fil_ProductId r), DecimalField (fil_Size r), DecimalField (fil_Price r),
     DecimalField (fil_Funds r), DecimalField (fil_Fee r), StringField (fil_Liquidity r), BoolField (fil_Settled r), StringField (fil_Side r),
     BoolField (fil_Done r), StringField (fil_DoneReason r), IntField (fil_LogOffset r), IntField (fil_LogSeq r)]"

fun bill_values :: "'d bill stored \<Rightarrow> 'd field_value list" where
  "bill_values (Stored r c u) = [UintField (bil_Id r), TimeField c, TimeField u, UintField (bil_UserId r), StringField (bil_Currency r),
     DecimalField (bil_Available r), DecimalField (bil_Hold r), StringField (bil_Type r), BoolField (bil_Settled r), StringField (bil_Notes r)]"

lemma values_back:
  fixes so :: "'d::zero order stored" and sa :: "'d account stored" and st :: "'d trade stored" and sf :: "'d fill stored" and sb :: "'d bill stored"
  shows "order_of (order_values so) = so" and "account_of (account_values sa) = sa" and "trade_of (trade_values st) = st"
    and "fill_of (fill_values sf) = sf" and "bill_of (bill_values sb) = sb"
  subgoal by (cases so) (simp add: order_of_def stored_with_def)
  subgoal by (cases sa) (simp add: account_of_def stored_with_def)
  subgoal by (cases st) (simp add: trade_of_def stored_with_def)
  subgoal by (cases sf) (simp add: fill_of_def stored_with_def)
  subgoal by (cases sb) (simp add: bill_of_def stored_with_def)
  done

text \<open>The table, the fields, the values and the call of what is sent, and the actions that it is sent for.\<close>

fun payload_table :: "'d payload \<Rightarrow> string \<Rightarrow> bool" where
  "payload_table (OrderJson s) t \<longleftrightarrow> (\<exists>k<TableOrderSplitCount. t = ''g_order_'' @ nat_string k)"
| "payload_table (AccountJson s) t \<longleftrightarrow> t = ''g_account''"
| "payload_table (TradeJson s) t \<longleftrightarrow> t = ''g_trade''"
| "payload_table (FillJson s) t \<longleftrightarrow> t = ''g_fill''"
| "payload_table (BillJson s) t \<longleftrightarrow> t = ''g_bill''"

fun payload_columns :: "'d payload \<Rightarrow> string list" where
  "payload_columns (OrderJson s) = order_columns"
| "payload_columns (AccountJson s) = account_columns"
| "payload_columns (TradeJson s) = trade_columns"
| "payload_columns (FillJson s) = fill_columns"
| "payload_columns (BillJson s) = bill_columns"

fun payload_fields :: "'d payload \<Rightarrow> struct_type" where
  "payload_fields (OrderJson s) = OrderFields"
| "payload_fields (AccountJson s) = AccountFields"
| "payload_fields (TradeJson s) = TradeFields"
| "payload_fields (FillJson s) = FillFields"
| "payload_fields (BillJson s) = BillFields"

fun payload_values :: "'d payload \<Rightarrow> 'd field_value list" where
  "payload_values (OrderJson s) = order_values s"
| "payload_values (AccountJson s) = account_values s"
| "payload_values (TradeJson s) = trade_values s"
| "payload_values (FillJson s) = fill_values s"
| "payload_values (BillJson s) = bill_values s"

fun payload_call :: "'d payload \<Rightarrow> 'd redis_call" where
  "payload_call (OrderJson s) = RedisPublish TopicOrder (OrderJson s)"
| "payload_call (AccountJson s) = RedisPublish TopicAccount (AccountJson s)"
| "payload_call (TradeJson s) = RedisPublish TopicTrade (TradeJson s)"
| "payload_call (FillJson s) = RedisPush TopicFill (FillJson s)"
| "payload_call (BillJson s) = RedisPush TopicBill (BillJson s)"

fun announced :: "'d payload \<Rightarrow> string \<Rightarrow> bool" where
  "announced (OrderJson s) action \<longleftrightarrow> action \<noteq> ''delete''"
| "announced (AccountJson s) action \<longleftrightarrow> True"
| "announced (TradeJson s) action \<longleftrightarrow> action \<noteq> ''delete''"
| "announced (FillJson s) action \<longleftrightarrow> action = ''insert''"
| "announced (BillJson s) action \<longleftrightarrow> action = ''insert''"

text \<open>An event brings the row \<open>p\<close>: the new one of an update, the first one otherwise. There may be more columns,
  in another order.\<close>

definition brings :: "'d decimal_pkg \<Rightarrow> ('d \<Rightarrow> string) \<Rightarrow> rows_event \<Rightarrow> 'd payload \<Rightarrow> bool" where
  "brings D fmt e p \<longleftrightarrow> payload_table p (re_Table e) \<and> set (payload_columns p) \<subseteq> set (re_Columns e) \<and>
     re_Action e \<in> {''insert'', ''update'', ''delete''} \<and>
     (let n = (if re_Action e = ''update'' then 1 else 0) in n < length (re_Rows e) \<and>
       holds_row D fmt (re_Columns e) (re_Rows e ! n) (payload_fields p) (payload_values p))"

lemma payload_names: "f \<in> set (payload_fields p) \<Longrightarrow> SnakeCase (fst f) \<in> set (payload_columns p)"
  using snake_names by (cases p) (auto simp: list_all_iff)

lemma parse_event_back:
  assumes "brings D fmt e p" and "n = (if re_Action e = ''update'' then 1 else 0)"
  shows "parse_event D e n (payload_fields p) k = Inr [k (payload_values p)]"
proof -
  have "parseRow D (re_Columns e) (re_Rows e ! n) (payload_fields p) = Inr (payload_values p)"
    using assms payload_names by (intro parseRow_back [where fmt = fmt]) (auto simp: brings_def Let_def)
  then show ?thesis using assms by (simp add: parse_event_def brings_def Let_def)
qed

lemma OnRow_back:
  assumes "brings D fmt e p"
  shows "OnRow D e = Inr (if announced p (re_Action e) then [payload_call p] else [])"
proof -
  define n where "n = (if re_Action e = ''update'' then 1 else 0 :: nat)"
  note parsed = parse_event_back [OF assms n_def]
  have table: "payload_table p (re_Table e)" and act: "re_Action e \<in> {''insert'', ''update'', ''delete''}"
    using assms by (simp_all add: brings_def)
  have zero: "parse_event D e 0 (payload_fields p) k = Inr [k (payload_values p)]" if "re_Action e \<noteq> ''update''" for k
    using parsed that by (simp add: n_def)
  show ?thesis
    unfolding OnRow_def Let_def n_def [symmetric]
    using table act parsed zero
    by (cases p) (auto simp: values_back)
qed

lemma OnRow_announced:
  assumes "brings D fmt e p" and "re_Action e \<in> {''insert'', ''update''}" and "\<And>s. p \<noteq> FillJson s" "\<And>s. p \<noteq> BillJson s"
  shows "OnRow D e = Inr [payload_call p]"
  using OnRow_back [OF assms(1)] assms(2-4) by (cases p) auto


text \<open>An event has the rows of one statement. Of several rows that are inserted at once only the first is sent.\<close>

lemma only_one_row:
  assumes "re_Action e = ''insert''" and "re_Rows e = row # others"
  shows "OnRow D e = OnRow D (e\<lparr>re_Rows := [row]\<rparr>)"
  using assms by (simp add: OnRow_def Let_def parse_event_def)

text \<open>A trade of 2 at 100; decimals are natural numbers here.\<close>

definition number_decimal :: "rat decimal_pkg" where
  "number_decimal = rat_decimal\<lparr>dec_of_string := (\<lambda>v. Some (of_nat (read_digits v)))\<rparr>"

definition some_trade_row :: "rat trade stored" where
  "some_trade_row = Stored \<lparr>trd_Id = 1, trd_ProductId = ''BTC-USDT'', trd_TradeSeq = 3, trd_TakerOrderId = 4, trd_TakerUserId = 5,
     trd_MakerOrderId = 6, trd_MakerUserId = 7, trd_Price = 100, trd_Size = 2, trd_Side = SideBuy, trd_Time = 9, trd_LogOffset = 10, trd_LogSeq = 11\<rparr> 20 21"

definition some_trade_event :: rows_event where
  "some_trade_event = \<lparr>re_Table = ''g_trade'', re_Columns = trade_columns, re_Action = ''insert'',
     re_Rows = [[IntCell GoInt64 1, TimeCell 20, TimeCell 21, StringCell ''BTC-USDT'', IntCell GoInt64 3, IntCell GoInt64 4, IntCell GoInt64 5,
       IntCell GoInt64 6, IntCell GoInt64 7, StringCell ''100'', StringCell ''2'', StringCell ''buy'', TimeCell 9, IntCell GoInt64 10, IntCell GoInt64 11]]\<rparr>"

definition print_number :: "rat \<Rightarrow> string" where
  "print_number d = (if d = 2 then ''2'' else ''100'')"

lemma some_trade_brought: "brings number_decimal print_number some_trade_event (TradeJson some_trade_row)"
  by code_simp


end
