(* ===== verification/Redis_Stream.thy ===== *)
theory Redis_Stream
  imports Binlog_Rows Push_Client_Safe
begin

text \<open>
  The stream from Redis (\<open>pushing/redis_stream.go\<close>): three goroutines listen to the orders, accounts and
  trades that the binary log stream publishes, and publish them on the private channels of their users. The
  Redis client is a package: whether subscribing works, what arrives, and when the connection ends are
  events. Redis keeps nothing for a subscriber that does not listen.
\<close>

subsection \<open>Messages\<close>

text \<open>\<open>tm\<close> prints times in the format of RFC 3339.\<close>

definition push_order :: "'d decimal_pkg \<Rightarrow> (int \<Rightarrow> string) \<Rightarrow> 'd order stored \<Rightarrow> (string \<times> push_message) list" where
  "push_order D tm s = (let order = st_Row s in
     [(Format ChannelOrder (ord_ProductId order) (ord_UserId order), OrderMessage
        \<lparr>om_UserId = ord_UserId order, om_Type = ''order'', om_Sequence = 0, om_Id = U64ToA (ord_Id order),
         om_Price = dec_string D (ord_Price order), om_Size = dec_string D (ord_Size order), om_Funds = ''0'',
         om_ProductId = ord_ProductId order, om_Side = ord_Side order, om_OrderType = ord_Type order,
         om_CreatedAt = tm (st_CreatedAt s), om_FillFees = dec_string D (ord_FillFees order),
         om_FilledSize = dec_string D (ord_FilledSize order), om_ExecutedValue = dec_string D (ord_ExecutedValue order),
         om_Status = ord_Status order, om_Settled = ord_Settled order\<rparr>)])"

definition push_account :: "'d decimal_pkg \<Rightarrow> 'd account stored \<Rightarrow> (string \<times> push_message) list" where
  "push_account D s = (let account = st_Row s in
     [(FormatWithUserId ChannelFunds (acc_UserId account), FundsMessage
        \<lparr>fm_Type = ''funds'', fm_Sequence = 0, fm_UserId = U64ToA (acc_UserId account), fm_Currency = acc_Currency account,
         fm_Available = dec_string D (acc_Available account), fm_Hold = dec_string D (acc_Hold account)\<rparr>)])"

definition newTradeMessage :: "'d decimal_pkg \<Rightarrow> (int \<Rightarrow> string) \<Rightarrow> 'd trade \<Rightarrow> trade_message" where
  "newTradeMessage D tm trade = \<lparr>tm_Type = ''trade'', tm_Time = tm (trd_Time trade), tm_ProductId = trd_ProductId trade,
     tm_Price = dec_string D (trd_Price trade), tm_Size = dec_string D (trd_Size trade),
     tm_MakerOrderId = U64ToA (trd_MakerOrderId trade), tm_TakerOrderId = U64ToA (trd_TakerOrderId trade), tm_Side = trd_Side trade\<rparr>"

text \<open>To the maker, then to the taker.\<close>

definition push_trade :: "'d decimal_pkg \<Rightarrow> (int \<Rightarrow> string) \<Rightarrow> 'd trade stored \<Rightarrow> (string \<times> push_message) list" where
  "push_trade D tm s = (let trade = st_Row s in
     [(Format ChannelTrade (trd_ProductId trade) (trd_MakerUserId trade), TradeMessage (newTradeMessage D tm trade)),
      (Format ChannelTrade (trd_ProductId trade) (trd_TakerUserId trade), TradeMessage (newTradeMessage D tm trade))])"

subsection \<open>The goroutines\<close>

text \<open>\<open>Arrives None\<close>: a payload that does not decode; the goroutine starts over, and subscribes again.\<close>

datatype 'a topic_event = Subscribe bool | Arrives "'a option" | Disconnected

fun topic_step :: "('a \<Rightarrow> (string \<times> push_message) list) \<Rightarrow> 'a topic_event \<Rightarrow> bool \<Rightarrow> (bool \<times> (string \<times> push_message) list) option" where
  "topic_step push (Subscribe ok) receiving = (if receiving then None else Some (ok, []))"
| "topic_step push (Arrives x) receiving = (if receiving then Some (case x of None \<Rightarrow> (False, []) | Some r \<Rightarrow> (True, push r)) else None)"
| "topic_step push Disconnected receiving = (if receiving then Some (False, []) else None)"

record redis_stream =
  rs_order :: bool
  rs_account :: bool
  rs_trade :: bool

definition newRedisStream :: redis_stream where
  "newRedisStream = \<lparr>rs_order = False, rs_account = False, rs_trade = False\<rparr>"

datatype 'd redis_event = OrderTopic "'d order stored topic_event" | AccountTopic "'d account stored topic_event"
  | TradeTopic "'d trade stored topic_event"

fun redis_step :: "'d decimal_pkg \<Rightarrow> (int \<Rightarrow> string) \<Rightarrow> 'd redis_event \<Rightarrow> redis_stream \<Rightarrow> (redis_stream \<times> (string \<times> push_message) list) option" where
  "redis_step D tm (OrderTopic ev) s = map_option (\<lambda>(b, ms). (s\<lparr>rs_order := b\<rparr>, ms)) (topic_step (push_order D tm) ev (rs_order s))"
| "redis_step D tm (AccountTopic ev) s = map_option (\<lambda>(b, ms). (s\<lparr>rs_account := b\<rparr>, ms)) (topic_step (push_account D) ev (rs_account s))"
| "redis_step D tm (TradeTopic ev) s = map_option (\<lambda>(b, ms). (s\<lparr>rs_trade := b\<rparr>, ms)) (topic_step (push_trade D tm) ev (rs_trade s))"

text \<open>The event that a call of Redis is for the goroutines that listen.\<close>

fun arrival :: "'d redis_call \<Rightarrow> 'd redis_event option" where
  "arrival (RedisPublish t (OrderJson s)) = (if t = TopicOrder then Some (OrderTopic (Arrives (Some s))) else None)"
| "arrival (RedisPublish t (AccountJson s)) = (if t = TopicAccount then Some (AccountTopic (Arrives (Some s))) else None)"
| "arrival (RedisPublish t (TradeJson s)) = (if t = TopicTrade then Some (TradeTopic (Arrives (Some s))) else None)"
| "arrival c = None"

definition publish_all :: "(string \<times> push_message) list \<Rightarrow> push_hub \<Rightarrow> push_hub" where
  "publish_all ms h = fold (\<lambda>(ch, m). publish ch m) ms h"

subsection \<open>To its owner, and to nobody else\<close>

fun owners :: "'d payload \<Rightarrow> u64 set" where
  "owners (OrderJson s) = {ord_UserId (st_Row s)}"
| "owners (AccountJson s) = {acc_UserId (st_Row s)}"
| "owners (TradeJson s) = {trd_MakerUserId (st_Row s), trd_TakerUserId (st_Row s)}"
| "owners p = {}"

text \<open>The message of a row: its ids read back, and what it says is in the row.\<close>

fun tells :: "'d decimal_pkg \<Rightarrow> 'd payload \<Rightarrow> push_message \<Rightarrow> bool" where
  "tells D (OrderJson s) (OrderMessage m) \<longleftrightarrow> AToUint64 (om_Id m) = Some (ord_Id (st_Row s)) \<and> om_ProductId m = ord_ProductId (st_Row s) \<and>
     om_Status m = ord_Status (st_Row s) \<and> om_FilledSize m = dec_string D (ord_FilledSize (st_Row s))"
| "tells D (AccountJson s) (FundsMessage m) \<longleftrightarrow> AToUint64 (fm_UserId m) = Some (acc_UserId (st_Row s)) \<and> fm_Currency m = acc_Currency (st_Row s) \<and>
     fm_Available m = dec_string D (acc_Available (st_Row s)) \<and> fm_Hold m = dec_string D (acc_Hold (st_Row s))"
| "tells D (TradeJson s) (TradeMessage m) \<longleftrightarrow> AToUint64 (tm_MakerOrderId m) = Some (trd_MakerOrderId (st_Row s)) \<and>
     AToUint64 (tm_TakerOrderId m) = Some (trd_TakerOrderId (st_Row s)) \<and> tm_Price m = dec_string D (trd_Price (st_Row s)) \<and>
     tm_Size m = dec_string D (trd_Size (st_Row s))"
| "tells D p m \<longleftrightarrow> False"

lemma publish_client:
  assumes "hb_clients h i = Some c"
  shows "hb_clients (publish ch m h) i = Some (if member (hb_subscribers h) ch i then give m c else c)"
  using assms by (auto simp: publish_def member_def split: option.splits)

lemma publish_subscribers [simp]: "hb_subscribers (publish ch m h) = hb_subscribers h"
  by (simp add: publish_def split: option.splits)

text \<open>What a client is given, in order, as long as its channel has room.\<close>

definition given :: "push_message list \<Rightarrow> push_client \<Rightarrow> push_client" where
  "given ms c = c\<lparr>cl_writeCh := cl_writeCh c @ ms\<rparr>"

lemma given_simps [simp]: "given [] c = c" "given ys (given xs c) = given (xs @ ys) c" "length (cl_writeCh (given xs c)) = length (cl_writeCh c) + length xs"
  by (simp_all add: given_def)

lemma give_given: "\<exists>xs. give m c = given xs c \<and> set xs \<subseteq> {m} \<and> length xs \<le> 1 \<and> (length (cl_writeCh c) < writeChannelSize \<longrightarrow> xs = [m])"
proof (cases "length (cl_writeCh c) < writeChannelSize")
  case True
  then show ?thesis by (intro exI [of _ "[m]"]) (simp add: give_def given_def)
next
  case False
  then show ?thesis by (intro exI [of _ "[]"]) (simp add: give_def given_def)
qed

text \<open>The messages of a list for client \<open>i\<close>.\<close>

definition messages_for :: "push_hub \<Rightarrow> int \<Rightarrow> (string \<times> push_message) list \<Rightarrow> push_message list" where
  "messages_for h i ms = map snd (filter (\<lambda>x. member (hb_subscribers h) (fst x) i) ms)"

lemma publish_all_client:
  "hb_clients h i = Some c \<Longrightarrow> \<exists>xs. hb_clients (publish_all ms h) i = Some (given xs c) \<and> set xs \<subseteq> set (messages_for h i ms) \<and>
    (length (cl_writeCh c) + length ms \<le> writeChannelSize \<longrightarrow> xs = messages_for h i ms)"
proof (induction ms arbitrary: h c)
  case Nil
  then show ?case by (intro exI [of _ "[]"]) (simp add: publish_all_def messages_for_def)
next
  case (Cons x ms)
  obtain ch m where x: "x = (ch, m)" by (cases x)
  define mem where "mem \<longleftrightarrow> member (hb_subscribers h) ch i"
  have rest: "messages_for (publish ch m h) i ms = messages_for h i ms" by (simp add: messages_for_def)
  have all: "messages_for h i (x # ms) = (if mem then [m] else []) @ messages_for h i ms" by (simp add: messages_for_def x mem_def)
  obtain new where new: "hb_clients (publish ch m h) i = Some (given new c)" "set new \<subseteq> (if mem then {m} else {})" "length new \<le> 1"
    "length (cl_writeCh c) < writeChannelSize \<Longrightarrow> new = (if mem then [m] else [])"
  proof (cases mem)
    case True
    then show thesis using that publish_client [OF Cons.prems, of ch m] give_given [of m c] by (auto simp: mem_def)
  next
    case False
    then show thesis using that [of "[]"] publish_client [OF Cons.prems, of ch m] by (simp add: mem_def)
  qed
  from Cons.IH [OF new(1)] obtain ys where ys: "hb_clients (publish_all ms (publish ch m h)) i = Some (given (new @ ys) c)"
    "set ys \<subseteq> set (messages_for h i ms)"
    "length (cl_writeCh c) + length new + length ms \<le> writeChannelSize \<longrightarrow> ys = messages_for h i ms"
    unfolding rest given_simps by blast
  have "hb_clients (publish_all (x # ms) h) i = Some (given (new @ ys) c)" using ys(1) by (simp add: publish_all_def x)
  moreover have "set (new @ ys) \<subseteq> set (messages_for h i (x # ms))" unfolding all using ys(2) new(2) by (cases mem) auto
  moreover have "new @ ys = messages_for h i (x # ms)" if "length (cl_writeCh c) + length (x # ms) \<le> writeChannelSize"
    unfolding all using that ys(3) new(3,4) by simp
  ultimately show ?case by blast
qed

lemma subscribed_user:
  assumes "reaches hub_step (hub_allowed U) newSubscription h" and "member (hb_subscribers h) ch i" and "private_of u ch"
  shows "u \<in> U i"
proof -
  note ok = reached_ok [OF assms(1)]
  obtain c where c: "hb_clients h i = Some c" using hub_ok_known [OF ok assms(2)] ..
  show ?thesis using hub_okD [OF ok c] assms(2,3) by (auto simp: agrees_def client_ok_def)
qed

lemma row_messages:
  assumes "owners p \<noteq> {}" and "rs_order s" "rs_account s" "rs_trade s"
  obtains ev ms where "arrival (payload_call p) = Some ev" and "redis_step D tm ev s = Some (s, ms)" and "length ms \<le> 2"
    and "\<forall>u\<in>owners p. \<exists>x\<in>set ms. private_of u (fst x)"
    and "\<forall>x\<in>set ms. tells D p (snd x) \<and> (\<exists>u\<in>owners p. private_of u (fst x))"
proof (cases p)
  case (OrderJson r)
  then show ?thesis using that [of "OrderTopic (Arrives (Some r))" "push_order D tm r"] assms
    by (simp add: push_order_def Let_def private_Format AToUint64_U64ToA)
next
  case (AccountJson r)
  then show ?thesis using that [of "AccountTopic (Arrives (Some r))" "push_account D r"] assms
    by (simp add: push_account_def Let_def private_funds AToUint64_U64ToA)
next
  case (TradeJson r)
  then show ?thesis using that [of "TradeTopic (Arrives (Some r))" "push_trade D tm r"] assms
    by (simp add: push_trade_def newTradeMessage_def Let_def private_Format AToUint64_U64ToA)
qed (use assms(1) in simp_all)


text \<open>The maker of a trade, user 7, has subscribed to its trades.\<close>

definition maker_request :: push_request where
  "maker_request = \<lparr>rq_Type = ''subscribe'', rq_ProductIds = [''BTC-USDT''], rq_CurrencyIds = [], rq_Channels = [ChannelTrade], rq_Token = []\<rparr>"

definition maker_events :: "hub_event list" where
  "maker_events = [Connect 1, Receive 1 some_token maker_request, Task 1]"

lemma maker_subscribed:
  obtains h c where "reaches hub_step (hub_allowed (\<lambda>_. {7})) newSubscription h" and "hb_clients h 1 = Some c"
    and "cl_writeCh c = []" and "member (hb_subscribers h) (Format ChannelTrade ''BTC-USDT'' 7) 1"
proof -
  obtain h c where run: "run_machine hub_step maker_events newSubscription = Some (Inr h)" and
    c: "hb_clients h 1 = Some c" "cl_writeCh c = []" "member (hb_subscribers h) (Format ChannelTrade ''BTC-USDT'' 7) 1"
    by (simp add: maker_events_def some_token_def maker_request_def newSubscription_def on_client_def NewClient_def receive_def
        onMessage_def onSub_def sub_tasks_def ChannelOrder_def ChannelLevel2_def ChannelFunds_def ChannelMatch_def ChannelTrade_def
        ChannelTicker_def user_id_def run_task_def Let_def client_subscribe_def sub_subscribe_def Format_def FormatWithProductId_def
        member_def)
  have "allowed_run hub_step (hub_allowed (\<lambda>_. {7})) maker_events newSubscription"
    by (rule allowed_runI) (auto simp: maker_events_def hub_allowed_def some_token_def user_id_def)
  then show thesis by (rule that [OF run_machine_reaches [OF run] c])
qed


end
