(* ===== verification/Push_Feeds.thy ===== *)
theory Push_Feeds
  imports Tick_Maker Services Push_Client
begin

text \<open>
  The matches and the tickers of a product (\<open>pushing/match_stream.go\<close>, \<open>pushing/ticker_stream.go\<close>). Both read
  the matching log from its end. A ticker message is made from the candles in the database at most once in a
  second; in between the last one is changed in place. The code passes pointers to it, to the table of last
  tickers and to the channels of the clients, so the messages are kept in a heap here and what is published
  is an address. The clock is read once for a match.
\<close>

subsection \<open>Matches\<close>

definition newMatchMessage :: "'d decimal_pkg \<Rightarrow> 'd match_log \<Rightarrow> match_message" where
  "newMatchMessage D l = \<lparr>mm_Type = ''match'', mm_TradeSeq = ml_TradeSeq l, mm_Sequence = bs_Sequence l, mm_Time = Unix (bs_Time l),
     mm_ProductId = bs_ProductId l, mm_Price = dec_string D (ml_Price l), mm_Size = dec_string D (ml_Size l),
     mm_MakerOrderId = U64ToA (ml_MakerOrderId l), mm_TakerOrderId = U64ToA (ml_TakerOrderId l), mm_Side = ml_Side l\<rparr>"

fun match_stream :: "'d decimal_pkg \<Rightarrow> 'd log \<Rightarrow> (string \<times> push_message) list" where
  "match_stream D (OpenLog l) = []"
| "match_stream D (DoneLog l) = []"
| "match_stream D (MatchLog l) = [(FormatWithProductId ChannelMatch (bs_ProductId l), MatchMessage (newMatchMessage D l))]"

subsection \<open>Statistics of candles\<close>

definition merge_tick :: "'d::linordered_idom tick \<Rightarrow> 'd tick \<Rightarrow> 'd tick" where
  "merge_tick t tick = t\<lparr>tck_Open := tck_Open tick, tck_Close := tck_Close tick, tck_Low := min (tck_Low t) (tck_Low tick),
     tck_High := max (tck_High t) (tck_High tick), tck_Volume := tck_Volume t + tck_Volume tick,
     tck_QuoteVolume := tck_QuoteVolume t + tck_QuoteVolume tick\<rparr>"

text \<open>From the last tick of the list to the first.\<close>

definition mergeTicks :: "'d::linordered_idom tick list \<Rightarrow> 'd tick option" where
  "mergeTicks ticks = fold (\<lambda>tick t. case t of None \<Rightarrow> Some tick | Some t \<Rightarrow> Some (merge_tick t tick)) (rev ticks) None"

definition mergeIntervalTicks :: "int \<Rightarrow> 'd::linordered_idom tick list \<Rightarrow> int \<Rightarrow> 'd tick option" where
  "mergeIntervalTicks now ticks interval = fold (\<lambda>tick t. if tck_Time tick < now - interval then t
     else case t of None \<Rightarrow> Some tick | Some t \<Rightarrow> Some (merge_tick t tick)) (rev ticks) None"

definition empty_tick :: "'d::zero tick" where
  "empty_tick = \<lparr>tck_ProductId = [], tck_Granularity = 0, tck_Time = 0, tck_Open = 0, tck_High = 0, tck_Low = 0, tck_Close = 0,
     tck_Volume = 0, tck_QuoteVolume = 0, tck_LogOffset = 0, tck_LogSeq = 0\<rparr>"

definition or_empty :: "'d::zero tick option \<Rightarrow> 'd tick" where
  "or_empty t = (case t of None \<Rightarrow> empty_tick | Some t \<Rightarrow> t)"

subsection \<open>Ticker messages\<close>

definition first_price :: "(string \<times> string \<times> int) list \<Rightarrow> string" where
  "first_price rows = (case rows of [] \<Rightarrow> [] | (p, _, _) # _ \<Rightarrow> p)"

definition getBestBidAsk :: "(string \<rightharpoonup> l2_snapshot) \<Rightarrow> string \<Rightarrow> string \<times> string" where
  "getBestBidAsk lasts productId = (case lasts productId of None \<Rightarrow> ([], [])
     | Some snapshot \<Rightarrow> (first_price (l2_Bids snapshot), first_price (l2_Asks snapshot)))"

definition newTickerMessage :: "'d::linordered_idom decimal_pkg \<Rightarrow> faults \<Rightarrow> int \<Rightarrow> (string \<rightharpoonup> l2_snapshot) \<Rightarrow> string \<Rightarrow> 'd match_log \<Rightarrow>
    ('d, ticker_message) dbop" where
  "newTickerMessage D F now lasts productId l =
     bindS (service_GetTicksByProductId F productId (1 * 60) 0 0 24) (\<lambda>ticks24h.
       let tick24h = or_empty (mergeIntervalTicks now ticks24h (24 * 3600)) in
     bindS (service_GetTicksByProductId F productId (24 * 60) 0 0 30) (\<lambda>ticks30d.
       let tick30d = or_empty (mergeIntervalTicks now ticks30d (30 * 86400));
           (bestBid, bestAsk) = getBestBidAsk lasts productId in
     returnS \<lparr>tk_Type = ''ticker'', tk_TradeSeq = ml_TradeSeq l, tk_Sequence = bs_Sequence l, tk_Time = Unix (bs_Time l),
       tk_ProductId = bs_ProductId l, tk_Price = dec_string D (ml_Price l), tk_Side = ml_Side l, tk_LastSize = dec_string D (ml_Size l),
       tk_BestBid = bestBid, tk_BestAsk = bestAsk, tk_Volume24h = dec_string D (tck_Volume tick24h),
       tk_Volume30d = dec_string D (tck_Volume tick30d), tk_QuoteVolume24h = dec_string D (tck_QuoteVolume tick24h),
       tk_QuoteVolume30d = dec_string D (tck_QuoteVolume tick30d), tk_Low24h = dec_string D (tck_Low tick24h),
       tk_High24h = dec_string D (tck_High tick24h), tk_Open24h = dec_string D (tck_Open tick24h), tk_Close24h = dec_string D (tck_Close tick24h)\<rparr>))"

text \<open>A ticker without a match; nothing calls this.\<close>

definition getLastTickerOnSubscribed :: "'d::linordered_idom decimal_pkg \<Rightarrow> faults \<Rightarrow> int \<Rightarrow> (string \<rightharpoonup> l2_snapshot) \<Rightarrow> string \<Rightarrow> ('d, ticker_message) dbop" where
  "getLastTickerOnSubscribed D F now lasts productId =
     bindS (service_GetTicksByProductId F productId (1 * 60) 0 0 24) (\<lambda>ticks24h.
       let tick24h = or_empty (mergeIntervalTicks now ticks24h (24 * 3600)) in
     bindS (service_GetTicksByProductId F productId (24 * 60) 0 0 30) (\<lambda>ticks30d.
       let tick30d = or_empty (mergeIntervalTicks now ticks30d (30 * 86400));
           (bestBid, bestAsk) = getBestBidAsk lasts productId in
     returnS \<lparr>tk_Type = ''ticker'', tk_TradeSeq = 0, tk_Sequence = 0, tk_Time = now,
       tk_ProductId = productId, tk_Price = dec_string D (tck_Close tick24h), tk_Side = [], tk_LastSize = [],
       tk_BestBid = bestBid, tk_BestAsk = bestAsk, tk_Volume24h = dec_string D (tck_Volume tick24h),
       tk_Volume30d = dec_string D (tck_Volume tick30d), tk_QuoteVolume24h = dec_string D (tck_QuoteVolume tick24h),
       tk_QuoteVolume30d = dec_string D (tck_QuoteVolume tick30d), tk_Low24h = dec_string D (tck_Low tick24h),
       tk_High24h = dec_string D (tck_High tick24h), tk_Open24h = dec_string D (tck_Open tick24h), tk_Close24h = dec_string D (tck_Close tick24h)\<rparr>))"

subsection \<open>The ticker stream\<close>

definition intervalSec :: int where "intervalSec = 1"

text \<open>\<open>ts_sleeping\<close>: the goroutines that will publish candles, with the time at which they wake up.\<close>

record ticker_stream =
  ts_productId :: string
  ts_lastTickerTime :: int
  ts_lastCandlesTime :: int
  ts_sleeping :: "(int \<times> string) list"

datatype feed = TickerRef nat | Candles candles_message

text \<open>The ticker messages by address, \<open>lastTickers\<close>, and what was published.\<close>

record ticker_world =
  tw_heap :: "ticker_message list"
  tw_last :: "string \<rightharpoonup> nat"
  tw_published :: "(string \<times> feed) list"

definition newTickerStream :: "string \<Rightarrow> int \<Rightarrow> ticker_stream" where
  "newTickerStream productId now = \<lparr>ts_productId = productId, ts_lastTickerTime = now - intervalSec, ts_lastCandlesTime = 0, ts_sleeping = []\<rparr>"

definition publish_ticker :: "string \<Rightarrow> nat \<Rightarrow> ticker_world \<Rightarrow> ticker_world" where
  "publish_ticker p a w = w\<lparr>tw_last := (tw_last w)(p \<mapsto> a),
     tw_published := tw_published w @ [(FormatWithProductId ChannelTicker p, TickerRef a)]\<rparr>"

text \<open>What is written over the last ticker.\<close>

definition update_ticker :: "'d decimal_pkg \<Rightarrow> (string \<rightharpoonup> l2_snapshot) \<Rightarrow> 'd match_log \<Rightarrow> ticker_message \<Rightarrow> ticker_message" where
  "update_ticker D lasts l t = t\<lparr>tk_TradeSeq := ml_TradeSeq l, tk_Sequence := bs_Sequence l, tk_Time := Unix (bs_Time l),
     tk_ProductId := bs_ProductId l, tk_Price := dec_string D (ml_Price l), tk_Side := ml_Side l, tk_LastSize := dec_string D (ml_Size l),
     tk_BestBid := fst (getBestBidAsk lasts (bs_ProductId l)), tk_BestAsk := snd (getBestBidAsk lasts (bs_ProductId l))\<rparr>"

text \<open>The first half of \<open>OnMatchLog\<close>; \<open>None\<close>: it returned, because of an error or because there is no ticker yet.\<close>

definition show_ticker :: "'d::linordered_idom decimal_pkg \<Rightarrow> faults \<Rightarrow> int \<Rightarrow> (string \<rightharpoonup> l2_snapshot) \<Rightarrow> 'd match_log \<Rightarrow>
    ticker_stream \<Rightarrow> ticker_world \<Rightarrow> 'd db \<Rightarrow> (ticker_stream \<times> ticker_world) option \<times> 'd db" where
  "show_ticker D F now lasts l s w db =
     (if intervalSec < now - ts_lastTickerTime s then
        (case newTickerMessage D F now lasts (ts_productId s) l db of
           (Inl e, db') \<Rightarrow> (None, db')
         | (Inr t, db') \<Rightarrow> (Some (s\<lparr>ts_lastTickerTime := now\<rparr>,
             publish_ticker (bs_ProductId l) (length (tw_heap w)) (w\<lparr>tw_heap := tw_heap w @ [t]\<rparr>)), db'))
      else (case tw_last w (bs_ProductId l) of
           None \<Rightarrow> (None, db)
         | Some a \<Rightarrow> (Some (s, publish_ticker (bs_ProductId l) a
             (w\<lparr>tw_heap := (tw_heap w)[a := update_ticker D lasts l (tw_heap w ! a)]\<rparr>)), db)))"

definition delay_candles :: "int \<Rightarrow> string \<Rightarrow> ticker_stream \<Rightarrow> ticker_stream" where
  "delay_candles now productId s = (if intervalSec < now - ts_lastCandlesTime s
     then s\<lparr>ts_sleeping := ts_sleeping s @ [(now + 1, productId)], ts_lastCandlesTime := now\<rparr> else s)"

definition TickerStream_OnMatchLog :: "'d::linordered_idom decimal_pkg \<Rightarrow> faults \<Rightarrow> int \<Rightarrow> (string \<rightharpoonup> l2_snapshot) \<Rightarrow> 'd match_log \<Rightarrow>
    ticker_stream \<Rightarrow> ticker_world \<Rightarrow> 'd db \<Rightarrow> (ticker_stream \<times> ticker_world) \<times> 'd db" where
  "TickerStream_OnMatchLog D F now lasts l s w db = (case show_ticker D F now lasts l s w db of
       (None, db') \<Rightarrow> ((s, w), db')
     | (Some (s', w'), db') \<Rightarrow> ((delay_candles now (bs_ProductId l) s', w'), db'))"

definition newCandlesMessage :: "'d decimal_pkg \<Rightarrow> int \<Rightarrow> string \<Rightarrow> 'd tick \<Rightarrow> candles_message" where
  "newCandlesMessage D granularity productId t = \<lparr>cm_Type = ''candles_'' @ I64ToA granularity @ ''m'', cm_ProductId = productId,
     cm_Time = tck_Time t, cm_Open = dec_string D (tck_Open t), cm_Close = dec_string D (tck_Close t), cm_Low = dec_string D (tck_Low t),
     cm_High = dec_string D (tck_High t), cm_Volume = dec_string D (tck_Volume t)\<rparr>"

text \<open>A goroutine wakes up.\<close>

definition wake :: "'d decimal_pkg \<Rightarrow> faults \<Rightarrow> int \<Rightarrow> nat \<Rightarrow> ticker_stream \<Rightarrow> ticker_world \<Rightarrow> 'd db \<Rightarrow>
    ((ticker_stream \<times> ticker_world) \<times> 'd db) option" where
  "wake D F now k s w db = (if length (ts_sleeping s) \<le> k \<or> now < fst (ts_sleeping s ! k) then None
     else let productId = snd (ts_sleeping s ! k);
              s' = s\<lparr>ts_sleeping := take k (ts_sleeping s) @ drop (Suc k) (ts_sleeping s)\<rparr>
       in case service_GetLastTicksAllByProductId F productId db of
         (Inl e, db') \<Rightarrow> Some ((s', w), db')
       | (Inr ticks, db') \<Rightarrow> Some ((s', w\<lparr>tw_published := tw_published w @ map (\<lambda>t.
             (CandlesFormatWithGranularityProductId (tck_Granularity t) productId,
              Candles (newCandlesMessage D (tck_Granularity t) productId t))) ticks\<rparr>), db'))"

end
