(* ===== verification/Push_Ticker.thy ===== *)
theory Push_Ticker
  imports Push_Feeds "HOL-Library.Multiset"
begin

text \<open>
  What tickers say: the match they were last written for, and the candles of the last day and month.
\<close>

subsection \<open>Merging candles\<close>

definition merge_into :: "'d::linordered_idom tick \<Rightarrow> 'd tick option \<Rightarrow> 'd tick option" where
  "merge_into tick t = (case t of None \<Rightarrow> Some tick | Some t \<Rightarrow> Some (merge_tick t tick))"

lemma merge_into_simps [simp]: "merge_into x None = Some x" "merge_into x (Some t) = Some (merge_tick t x)"
  by (simp_all add: merge_into_def)

lemma merge_into_abs: "(\<lambda>tick t. case t of None \<Rightarrow> Some tick | Some t \<Rightarrow> Some (merge_tick t tick)) = merge_into"
  by (simp add: fun_eq_iff merge_into_def)

lemma mergeTicks_fold: "mergeTicks ticks = fold merge_into (rev ticks) None"
  by (simp add: mergeTicks_def merge_into_abs)

lemma mergeIntervalTicks_recent:
  fixes ticks :: "'d::linordered_idom tick list"
  shows "mergeIntervalTicks now ticks interval = mergeTicks (filter (\<lambda>t. now - interval \<le> tck_Time t) ticks)"
proof -
  have "(\<lambda>(tick :: 'd tick) t. if tck_Time tick < now - interval then t
       else case t of None \<Rightarrow> Some tick | Some t \<Rightarrow> Some (merge_tick t tick)) =
      (\<lambda>tick. if now - interval \<le> tck_Time tick then merge_into tick else id)"
    by (auto simp: fun_eq_iff merge_into_def)
  then show ?thesis by (simp add: mergeIntervalTicks_def mergeTicks_fold fold_filter rev_filter)
qed

text \<open>What a tick says of a list of ticks.\<close>

definition summary :: "'d::linordered_idom tick list \<Rightarrow> 'd tick \<Rightarrow> bool" where
  "summary ts t \<longleftrightarrow> (if ts = [] then t = empty_tick
     else tck_Volume t = sum_list (map tck_Volume ts) \<and> tck_QuoteVolume t = sum_list (map tck_QuoteVolume ts) \<and>
       tck_Low t = Min (tck_Low ` set ts) \<and> tck_High t = Max (tck_High ` set ts) \<and>
       (\<exists>x\<in>set ts. (\<forall>y\<in>set ts. tck_Time y \<le> tck_Time x) \<and> tck_Open t = tck_Open x \<and> tck_Close t = tck_Close x))"

lemma merge_fold:
  "ts \<noteq> [] \<Longrightarrow> \<exists>t. fold merge_into ts None = Some t \<and> tck_Volume t = sum_list (map tck_Volume ts) \<and>
     tck_QuoteVolume t = sum_list (map tck_QuoteVolume ts) \<and> tck_Low t = Min (tck_Low ` set ts) \<and>
     tck_High t = Max (tck_High ` set ts) \<and> tck_Open t = tck_Open (last ts) \<and> tck_Close t = tck_Close (last ts)"
proof (induction ts rule: rev_induct)
  case (snoc x ts)
  show ?case
  proof (cases "ts = []")
    case True
    then show ?thesis by simp
  next
    case False
    then obtain t where "fold merge_into ts None = Some t \<and> tck_Volume t = sum_list (map tck_Volume ts) \<and>
        tck_QuoteVolume t = sum_list (map tck_QuoteVolume ts) \<and> tck_Low t = Min (tck_Low ` set ts) \<and> tck_High t = Max (tck_High ` set ts)"
      using snoc.IH by blast
    then show ?thesis using False by (simp add: merge_tick_def min.commute max.commute)
  qed
qed simp

lemma same_summary:
  fixes ts :: "'d::linordered_idom tick list"
  assumes "mset ts = mset ts'" and "summary ts t"
  shows "summary ts' t"
proof -
  have "sum_list (map f ts) = sum_list (map f ts')" for f :: "'d tick \<Rightarrow> 'd"
    by (metis assms(1) mset_map sum_mset_sum_list)
  moreover have "set ts = set ts'" "ts = [] \<longleftrightarrow> ts' = []" using assms(1) by (metis set_mset_mset, metis mset_zero_iff)
  ultimately show ?thesis using assms(2) unfolding summary_def by (auto split: if_splits)
qed

subsection \<open>The newest candles\<close>

lemma recent_of_newest:
  fixes k :: "'a \<Rightarrow> int"
  assumes sorted: "sorted_wrt (\<lambda>a b. k b \<le> k a) xs" and few: "length (filter (\<lambda>t. c \<le> k t) xs) \<le> n"
  shows "filter (\<lambda>t. c \<le> k t) (take n xs) = filter (\<lambda>t. c \<le> k t) xs"
proof -
  let ?P = "\<lambda>t. c \<le> k t"
  have split: "filter ?P xs = filter ?P (take n xs) @ filter ?P (drop n xs)"
    by (metis append_take_drop_id filter_append)
  have "filter ?P (drop n xs) = []"
  proof (rule ccontr)
    assume "filter ?P (drop n xs) \<noteq> []"
    then obtain y where y: "y \<in> set (drop n xs)" "c \<le> k y" by (auto simp: filter_empty_conv)
    have "sorted_wrt (\<lambda>a b. k b \<le> k a) (take n xs @ drop n xs)" using sorted by simp
    then have "\<forall>x\<in>set (take n xs). k y \<le> k x" using y(1) unfolding sorted_wrt_append by blast
    then have "\<forall>x\<in>set (take n xs). ?P x" using y(2) by (meson order_trans)
    then have all: "filter ?P (take n xs) = take n xs" by (simp add: filter_id_conv)
    have "n < length xs" using y(1) by (cases "n < length xs") auto
    then show False using few split all \<open>filter ?P (drop n xs) \<noteq> []\<close> by (cases "filter ?P (drop n xs)") simp_all
  qed
  then show ?thesis using split by simp
qed

definition candles_since :: "string \<Rightarrow> int \<Rightarrow> int \<Rightarrow> 'd db \<Rightarrow> 'd tick list" where
  "candles_since productId granularity since db =
     filter (\<lambda>t. tck_ProductId t = productId \<and> tck_Granularity t = granularity \<and> since \<le> tck_Time t) (db_ticks db)"

lemma merged_summary:
  fixes db :: "'d::linordered_idom db"
  assumes q: "service_GetTicksByProductId F p g 0 0 n db = (Inr ticks, db')" and n: "0 < n"
    and few: "int (length (candles_since p g (now - interval) db)) \<le> n"
  shows "summary (candles_since p g (now - interval) db) (or_empty (mergeIntervalTicks now ticks interval))"
proof -
  define rows where "rows = filter (\<lambda>t. tck_ProductId t = p \<and> tck_Granularity t = g) (db_ticks db)"
  define xs where "xs = rev (sort_key tck_Time rows)"
  let ?P = "\<lambda>t. now - interval \<le> tck_Time t"
  have ticks: "ticks = take (nat n) xs"
    using q n by (auto simp: service_GetTicksByProductId_def GetTicksByProductId_def query_def stmt_def Let_def limit_def xs_def rows_def
        split: option.splits)
  have sorted: "sorted_wrt (\<lambda>a b. tck_Time b \<le> tck_Time a) xs"
    using sorted_sort_key [of tck_Time rows] by (simp add: xs_def sorted_wrt_rev sorted_wrt_map)
  have ms: "mset (filter ?P xs) = mset (candles_since p g (now - interval) db)"
    by (simp add: xs_def rows_def candles_since_def filter_filter_mset conj_commute conj_left_commute conj_assoc)
  have "length (filter ?P xs) \<le> nat n" using few mset_eq_length [OF ms] by simp
  from recent_of_newest [OF sorted this] have merged: "mergeIntervalTicks now ticks interval = fold merge_into (rev (filter ?P xs)) None"
    by (simp add: mergeIntervalTicks_recent ticks mergeTicks_fold)
  have "summary (filter ?P xs) (or_empty (mergeIntervalTicks now ticks interval))"
  proof (cases "filter ?P xs = []")
    case True
    then show ?thesis unfolding merged by (simp add: summary_def or_empty_def)
  next
    case False
    then have ne: "rev (filter ?P xs) \<noteq> []" by simp
    have "sorted_wrt (\<lambda>a b. tck_Time b \<le> tck_Time a) (filter ?P xs)" using sorted by (rule sorted_wrt_filter)
    then have "hd (filter ?P xs) \<in> set (filter ?P xs) \<and> (\<forall>y\<in>set (filter ?P xs). tck_Time y \<le> tck_Time (hd (filter ?P xs)))"
      using False by (cases "filter ?P xs") auto
    moreover have "last (rev (filter ?P xs)) = hd (filter ?P xs)" using False by (simp add: last_rev)
    ultimately show ?thesis using merge_fold [OF ne] False unfolding merged summary_def or_empty_def
      by (auto simp: rev_map [symmetric] simp del: filter_False)
  qed
  then show ?thesis by (rule same_summary [OF ms])
qed

subsection \<open>The ticker of a product\<close>

text \<open>A ticker written for a match; with the candles of a day and of a month; and the same candles as another.\<close>

definition of_match :: "'d decimal_pkg \<Rightarrow> 'd match_log \<Rightarrow> ticker_message \<Rightarrow> bool" where
  "of_match D l t \<longleftrightarrow> tk_Sequence t = bs_Sequence l \<and> tk_TradeSeq t = ml_TradeSeq l \<and> tk_ProductId t = bs_ProductId l \<and>
     tk_Price t = dec_string D (ml_Price l) \<and> tk_LastSize t = dec_string D (ml_Size l) \<and> tk_Side t = ml_Side l \<and> tk_Time t = Unix (bs_Time l)"

definition of_candles :: "'d decimal_pkg \<Rightarrow> 'd tick \<Rightarrow> 'd tick \<Rightarrow> ticker_message \<Rightarrow> bool" where
  "of_candles D day month t \<longleftrightarrow> tk_Volume24h t = dec_string D (tck_Volume day) \<and> tk_QuoteVolume24h t = dec_string D (tck_QuoteVolume day) \<and>
     tk_Low24h t = dec_string D (tck_Low day) \<and> tk_High24h t = dec_string D (tck_High day) \<and>
     tk_Open24h t = dec_string D (tck_Open day) \<and> tk_Close24h t = dec_string D (tck_Close day) \<and>
     tk_Volume30d t = dec_string D (tck_Volume month) \<and> tk_QuoteVolume30d t = dec_string D (tck_QuoteVolume month)"

lemma of_candles_update: "of_candles D day month (update_ticker D' lasts l t) \<longleftrightarrow> of_candles D day month t"
  by (simp add: of_candles_def update_ticker_def)

lemma ticks_query:
  assumes "service_GetTicksByProductId F p g b a n db = (r, db')"
  shows "same_tables db db'" and "r = Inl e \<Longrightarrow> \<exists>k m. F k = Some m"
  using assms by (auto simp: service_GetTicksByProductId_def GetTicksByProductId_def query_def stmt_def Let_def same_tables_def
      split: option.splits)

lemma candles_since_same: "same_tables db db' \<Longrightarrow> candles_since p g since db' = candles_since p g since db"
  by (auto simp: same_tables_def candles_since_def)

lemma newTickerMessage_cases:
  fixes db :: "'d::linordered_idom db"
  assumes run: "newTickerMessage D F now lasts p l db = (r, db')"
    and few: "length (candles_since p 60 (now - 24 * 3600) db) \<le> 24" "length (candles_since p 1440 (now - 30 * 86400) db) \<le> 30"
  obtains (failed) e k m where "r = Inl e" and "same_tables db db'" and "F k = Some m"
    | (made) t day month where "r = Inr t" and "same_tables db db'" and "of_match D l t" and "of_candles D day month t"
      and "summary (candles_since p 60 (now - 24 * 3600) db) day" and "summary (candles_since p 1440 (now - 30 * 86400) db) month"
proof -
  obtain r1 db1 where 1: "service_GetTicksByProductId F p 60 0 0 24 db = (r1, db1)" by (cases "service_GetTicksByProductId F p 60 0 0 24 db")
  note s1 = ticks_query [OF 1]
  show thesis
  proof (cases r1)
    case (Inl e)
    then have "r = Inl e" "db' = db1" using run 1 by (simp_all add: newTickerMessage_def bindS_def)
    then show thesis using failed s1 Inl by blast
  next
    case (Inr hours)
    obtain r2 db2 where 2: "service_GetTicksByProductId F p 1440 0 0 30 db1 = (r2, db2)" by (cases "service_GetTicksByProductId F p 1440 0 0 30 db1")
    note s2 = ticks_query [OF 2] and same = same_tables_trans [OF s1(1) ticks_query(1) [OF 2]]
    show thesis
    proof (cases r2)
      case (Inl e)
      then have "r = Inl e" "db' = db2" using run 1 2 Inr by (simp_all add: newTickerMessage_def bindS_def Let_def)
      then show thesis using failed s2(2) same Inl by blast
    next
      case (Inr days)
      let ?day = "or_empty (mergeIntervalTicks now hours (24 * 3600))" and ?month = "or_empty (mergeIntervalTicks now days (30 * 86400))"
      have "summary (candles_since p 60 (now - 24 * 3600) db) ?day"
        by (rule merged_summary [OF 1 [unfolded \<open>r1 = Inr hours\<close>]]) (use few(1) in simp_all)
      moreover have "summary (candles_since p 1440 (now - 30 * 86400) db) ?month"
        using merged_summary [OF 2 [unfolded Inr], of now "30 * 86400"] few(2) by (simp add: candles_since_same [OF s1(1)])
      moreover obtain t where t: "r = Inr t" "db' = db2" "of_match D l t" "of_candles D ?day ?month t"
        using run 1 2 \<open>r1 = Inr hours\<close> Inr
        by (auto simp: newTickerMessage_def bindS_def Let_def returnS_def of_match_def of_candles_def split: prod.splits)
      ultimately show thesis using made same by blast
    qed
  qed
qed

text \<open>C32. What handling a match does to the ticker, when the table has no more hourly candles of the last day than 24
  and daily ones of the last month than 30. Only an error of the database, or no ticker in the first second,
  makes it leave everything as it is. Otherwise the ticker of the product is at one address, which is
  published, and says this match; no ticker at another address changes. When the last one was made more than
  a second ago it is a new one: its volumes are the sums over the candles of the day and the month, its low
  and high the extremes over the day, its close (and its open) those of the latest candle of the day.
  Otherwise it is the last one, with the candles it had.\<close>

theorem ticker_follows_matches:
  fixes db :: "'d::linordered_idom db"
  assumes few: "length (candles_since (ts_productId s) 60 (now - 24 * 3600) db) \<le> 24"
      "length (candles_since (ts_productId s) 1440 (now - 30 * 86400) db) \<le> 30"
    and valid: "\<forall>a. tw_last w (bs_ProductId l) = Some a \<longrightarrow> a < length (tw_heap w)"
    and run: "TickerStream_OnMatchLog D F now lasts l s w db = ((s', w'), db')"
  shows "same_tables db db' \<and>
    (let due = (intervalSec < now - ts_lastTickerTime s) in
      s' = s \<and> w' = w \<and> (if due then \<exists>k m. F k = Some m else tw_last w (bs_ProductId l) = None) \<or>
      (\<exists>a. tw_last w' = (tw_last w)(bs_ProductId l \<mapsto> a) \<and> a < length (tw_heap w') \<and> of_match D l (tw_heap w' ! a) \<and>
        tw_published w' = tw_published w @ [(FormatWithProductId ChannelTicker (bs_ProductId l), TickerRef a)] \<and>
        (\<forall>b<length (tw_heap w). b \<noteq> a \<longrightarrow> tw_heap w' ! b = tw_heap w ! b) \<and>
        (if due then a = length (tw_heap w) \<and> ts_lastTickerTime s' = now \<and> (\<exists>day month. of_candles D day month (tw_heap w' ! a) \<and>
             summary (candles_since (ts_productId s) 60 (now - 24 * 3600) db) day \<and>
             summary (candles_since (ts_productId s) 1440 (now - 30 * 86400) db) month)
         else tw_last w (bs_ProductId l) = Some a \<and> ts_lastTickerTime s' = ts_lastTickerTime s \<and>
           (\<forall>day month. of_candles D day month (tw_heap w' ! a) \<longleftrightarrow> of_candles D day month (tw_heap w ! a)))))"
proof (cases "intervalSec < now - ts_lastTickerTime s")
  case due: True
  obtain r db1 where m: "newTickerMessage D F now lasts (ts_productId s) l db = (r, db1)"
    by (cases "newTickerMessage D F now lasts (ts_productId s) l db")
  from m few show ?thesis
  proof (cases rule: newTickerMessage_cases)
    case (failed e k m')
    then show ?thesis using run m due by (auto simp: TickerStream_OnMatchLog_def show_ticker_def Let_def)
  next
    case (made t day month)
    have time: "ts_lastTickerTime (delay_candles now p s1) = ts_lastTickerTime s1" for p s1 by (simp add: delay_candles_def)
    have res: "w' = publish_ticker (bs_ProductId l) (length (tw_heap w)) (w\<lparr>tw_heap := tw_heap w @ [t]\<rparr>)"
      "ts_lastTickerTime s' = now" "db' = db1"
      using run m due made(1) time by (auto simp: TickerStream_OnMatchLog_def show_ticker_def)
    show ?thesis
      unfolding Let_def res(3) using made(2-6) res(1,2) due
      by (intro conjI disjI2 exI [of _ "length (tw_heap w)"]) (auto simp: publish_ticker_def nth_append)
  qed
next
  case False
  show ?thesis
  proof (cases "tw_last w (bs_ProductId l)")
    case None
    then show ?thesis using run False by (auto simp: TickerStream_OnMatchLog_def show_ticker_def Let_def)
  next
    case (Some a)
    then have a: "a < length (tw_heap w)" using valid by blast
    have time: "ts_lastTickerTime (delay_candles now p s1) = ts_lastTickerTime s1" for p s1 by (simp add: delay_candles_def)
    have res: "w' = publish_ticker (bs_ProductId l) a (w\<lparr>tw_heap := (tw_heap w)[a := update_ticker D lasts l (tw_heap w ! a)]\<rparr>)"
      "ts_lastTickerTime s' = ts_lastTickerTime s" "db' = db"
      using run False Some time by (auto simp: TickerStream_OnMatchLog_def show_ticker_def)
    have "of_match D l (update_ticker D lasts l t)" for t by (simp add: of_match_def update_ticker_def)
    then show ?thesis
      unfolding Let_def res(3) using Some res(1,2) False a of_candles_update [of D _ _ D lasts l]
      by (intro conjI disjI2 exI [of _ a]) (auto simp: publish_ticker_def)
  qed
qed

text \<open>Two hours with trades, of sizes 2 and 3, and a match at the end of the day.\<close>

definition ticker_db :: "rat db" where
  "ticker_db = \<lparr>db_accounts = [], db_bills = [], db_orders = (\<lambda>_. []), db_fills = [], db_trades = [],
     db_ticks = [\<lparr>tck_ProductId = ''P'', tck_Granularity = 60, tck_Time = 90000, tck_Open = 10, tck_High = 12, tck_Low = 9, tck_Close = 11,
         tck_Volume = 2, tck_QuoteVolume = 20, tck_LogOffset = 0, tck_LogSeq = 1\<rparr>,
       \<lparr>tck_ProductId = ''P'', tck_Granularity = 60, tck_Time = 93600, tck_Open = 11, tck_High = 11, tck_Low = 8, tck_Close = 9,
         tck_Volume = 3, tck_QuoteVolume = 30, tck_LogOffset = 0, tck_LogSeq = 2\<rparr>],
     db_products = [], db_users = [], db_fee_rates = [], db_configs = [], db_stmt = 0\<rparr>"

definition ticker_decimal :: "rat decimal_pkg" where
  "ticker_decimal = rat_decimal\<lparr>dec_string := (\<lambda>x. nat_string (nat \<lfloor>x\<rfloor>))\<rparr>"

definition ticker_start :: ticker_world where
  "ticker_start = \<lparr>tw_heap = [], tw_last = Map.empty, tw_published = []\<rparr>"

theorem ticker_follows_matches_witness:
  "\<exists>s' w' db'. TickerStream_OnMatchLog ticker_decimal (\<lambda>_. None) 100000 Map.empty (some_match 7 (99999 * 10 ^ 9) 1 9)
       (newTickerStream ''P'' 500) ticker_start ticker_db = ((s', w'), db') \<and>
     tw_published w' = [(''ticker:P'', TickerRef 0)] \<and> tk_Sequence (tw_heap w' ! 0) = 7 \<and>
     tk_Volume24h (tw_heap w' ! 0) = nat_string 5 \<and> tk_Low24h (tw_heap w' ! 0) = nat_string 8"
proof -
  define l where "l = some_match 7 (99999 * 10 ^ 9) 1 9"
  define s where "s = newTickerStream ''P'' 500"
  obtain s' w' db' where run: "TickerStream_OnMatchLog ticker_decimal (\<lambda>_. None) 100000 Map.empty l s ticker_start ticker_db = ((s', w'), db')"
    by (metis prod.exhaust)
  define hours where "hours = candles_since (ts_productId s) 60 (100000 - 24 * 3600) ticker_db"
  have hours: "hours = db_ticks ticker_db" "candles_since (ts_productId s) 1440 (100000 - 30 * 86400) ticker_db = []"
    by (simp_all add: hours_def candles_since_def s_def newTickerStream_def ticker_db_def)
  have few: "length (candles_since (ts_productId s) 60 (100000 - 24 * 3600) ticker_db) \<le> 24"
    "length (candles_since (ts_productId s) 1440 (100000 - 30 * 86400) ticker_db) \<le> 30"
    using hours(1) unfolding hours(2) hours_def [symmetric] by (simp_all add: ticker_db_def)
  have valid: "\<forall>a. tw_last ticker_start (bs_ProductId l) = Some a \<longrightarrow> a < length (tw_heap ticker_start)" by (simp add: ticker_start_def)
  have due: "intervalSec < 100000 - ts_lastTickerTime s" by (simp add: s_def newTickerStream_def intervalSec_def)
  from ticker_follows_matches [OF few valid run] due obtain day where
    w: "tw_published w' = [(FormatWithProductId ChannelTicker (bs_ProductId l), TickerRef 0)]" "of_match ticker_decimal l (tw_heap w' ! 0)"
    and day: "\<exists>month. of_candles ticker_decimal day month (tw_heap w' ! 0)" "summary hours day"
    by (auto simp: Let_def hours_def ticker_start_def)
  have "tck_Volume day = 5" "tck_Low day = 8" using day(2) unfolding hours(1) by (simp_all add: summary_def ticker_db_def)
  then have "tk_Volume24h (tw_heap w' ! 0) = nat_string 5" "tk_Low24h (tw_heap w' ! 0) = nat_string 8"
    using day(1) by (auto simp: of_candles_def ticker_decimal_def)
  moreover have "tk_Sequence (tw_heap w' ! 0) = 7" using w(2) by (simp add: of_match_def l_def some_match_def)
  moreover have "tw_published w' = [(''ticker:P'', TickerRef 0)]"
    using w(1) by (simp add: l_def some_match_def FormatWithProductId_def ChannelTicker_def)
  ultimately show ?thesis using run unfolding l_def s_def by blast
qed

text \<open>Two matches within a second: two messages were published, but both are the same ticker, so a client whose
  writer comes late is told the second match twice and the first one never.\<close>

lemma published_ticker_changes:
  fixes db :: "'d::linordered_idom db"
  assumes "tw_last w (bs_ProductId l) = Some a" and "a < length (tw_heap w)" and "now - ts_lastTickerTime s \<le> intervalSec"
    and "(ch, TickerRef a) \<in> set (tw_published w)" and "TickerStream_OnMatchLog D F now lasts l s w db = ((s', w'), db')"
  shows "(ch, TickerRef a) \<in> set (tw_published w') \<and> tk_Sequence (tw_heap w' ! a) = bs_Sequence l"
  using assms by (auto simp: TickerStream_OnMatchLog_def show_ticker_def publish_ticker_def update_ticker_def)

text \<open>The candles are published on channels that clients can subscribe to.\<close>

lemma candles_channels:
  assumes "g \<in> set minutes"
  shows "CandlesFormatWithGranularityProductId g p \<in> (\<lambda>ch. FormatWithProductId ch p) ` set ChannelCandles"
proof -
  have "list_all (\<lambda>g. ''candles_'' @ I64ToA g @ ''m'' \<in> set ChannelCandles) minutes" by code_simp
  then have "''candles_'' @ I64ToA g @ ''m'' \<in> set ChannelCandles" using assms by (simp add: list_all_iff)
  then show ?thesis by (force simp: CandlesFormatWithGranularityProductId_def FormatWithProductId_def)
qed

end
