(* ===== verification/Bootstrap.thy ===== *)
theory Bootstrap
  imports Services
begin

text \<open>
  How the processes start (\<open>matching/bootstrap.go\<close>, \<open>worker/bootstrap.go\<close>, \<open>pushing/bootstrap.go\<close>): each looks
  for products every five seconds and starts, once for every product, the goroutines that serve it.
\<close>

datatype started = EngineOf string | TickMakerOf string | FillMakerOf string | TradeMakerOf string
  | TickerStreamOf string | MatchStreamOf string | OrderBookStreamOf string

definition engine_starts :: "string \<Rightarrow> started list" where
  "engine_starts p = [EngineOf p]"

definition maker_starts :: "string \<Rightarrow> started list" where
  "maker_starts p = [TickMakerOf p, FillMakerOf p, TradeMakerOf p]"

definition push_starts :: "string \<Rightarrow> started list" where
  "push_starts p = [TickerStreamOf p, MatchStreamOf p, OrderBookStreamOf p]"

text \<open>The loop over the products, with the set \<open>productsSupported\<close>.\<close>

fun start_products :: "(string \<Rightarrow> started list) \<Rightarrow> 'd product list \<Rightarrow> string set \<Rightarrow> started list \<times> string set" where
  "start_products starts [] supported = ([], supported)"
| "start_products starts (p # ps) supported =
     (if prd_Id p \<in> supported then start_products starts ps supported
      else case start_products starts ps (insert (prd_Id p) supported) of (xs, supported') \<Rightarrow> (starts (prd_Id p) @ xs, supported'))"

text \<open>One turn of the endless loop; an error of the database stops the process.\<close>

definition poll_products :: "faults \<Rightarrow> (string \<Rightarrow> started list) \<Rightarrow> string set \<Rightarrow> 'd db \<Rightarrow> (failure + started list \<times> string set) \<times> 'd db" where
  "poll_products F starts supported db = (case service_GetProducts F db of
       (Inl (Err e), db') \<Rightarrow> (Inl (Crash (Panic e)), db')
     | (Inl (Crash f), db') \<Rightarrow> (Inl (Crash f), db')
     | (Inr products, db') \<Rightarrow> (Inr (start_products starts products supported), db'))"

text \<open>Any number of turns.\<close>

fun polls :: "(string \<Rightarrow> started list) \<Rightarrow> 'd product list list \<Rightarrow> string set \<Rightarrow> started list \<times> string set" where
  "polls starts [] supported = ([], supported)"
| "polls starts (ps # rest) supported = (case start_products starts ps supported of (xs, supported1) \<Rightarrow>
     (case polls starts rest supported1 of (ys, supported') \<Rightarrow> (xs @ ys, supported')))"

text \<open>Whatever products the turns find, everything is started at most once, and for every product found.\<close>

definition separate :: "(string \<Rightarrow> started list) \<Rightarrow> bool" where
  "separate starts \<longleftrightarrow> (\<forall>p. distinct (starts p)) \<and> (\<forall>p q. p \<noteq> q \<longrightarrow> set (starts p) \<inter> set (starts q) = {})"

lemma separate_starts: "separate engine_starts" "separate maker_starts" "separate push_starts"
  by (simp_all add: separate_def engine_starts_def maker_starts_def push_starts_def)

definition starts_new :: "(string \<Rightarrow> started list) \<Rightarrow> string set \<Rightarrow> started list \<times> string set \<Rightarrow> bool" where
  "starts_new starts supported r \<longleftrightarrow> supported \<subseteq> snd r \<and> distinct (fst r) \<and> set (fst r) = (\<Union>p\<in>snd r - supported. set (starts p))"

lemma starts_new_append:
  assumes sep: "separate starts" and a: "starts_new starts s0 (xs, s1)" and b: "starts_new starts s1 (ys, s2)"
  shows "starts_new starts s0 (xs @ ys, s2)"
proof -
  have sub: "s0 \<subseteq> s1" "s1 \<subseteq> s2" and dist: "distinct xs" "distinct ys"
    and sets: "set xs = (\<Union>p\<in>s1 - s0. set (starts p))" "set ys = (\<Union>p\<in>s2 - s1. set (starts p))"
    using a b by (simp_all add: starts_new_def)
  have "x \<notin> set ys" if "x \<in> set xs" for x
  proof
    assume "x \<in> set ys"
    with that obtain p q where pq: "p \<in> s1" "x \<in> set (starts p)" "q \<notin> s1" "x \<in> set (starts q)" unfolding sets by blast
    then have "p \<noteq> q" by blast
    then show False using sep pq(2,4) unfolding separate_def by blast
  qed
  then have "distinct (xs @ ys)" using dist by auto
  moreover have "s2 - s0 = (s1 - s0) \<union> (s2 - s1)" using sub by blast
  then have "set (xs @ ys) = (\<Union>p\<in>s2 - s0. set (starts p))" by (simp add: sets UN_Un)
  ultimately show ?thesis using sub by (simp add: starts_new_def)
qed

lemma start_products_new: "separate starts \<Longrightarrow> starts_new starts supported (start_products starts ps supported) \<and>
    snd (start_products starts ps supported) = supported \<union> prd_Id ` set ps"
proof (induction starts ps supported rule: start_products.induct)
  case (2 starts p ps supported)
  show ?case
  proof (cases "prd_Id p \<in> supported")
    case True
    then show ?thesis using 2 by auto
  next
    case False
    obtain xs s' where r: "start_products starts ps (insert (prd_Id p) supported) = (xs, s')" by fastforce
    have "starts_new starts (insert (prd_Id p) supported) (xs, s')" "s' = insert (prd_Id p) supported \<union> prd_Id ` set ps"
      using 2(2) [OF False 2(3)] r by auto
    moreover have "starts_new starts supported (starts (prd_Id p), insert (prd_Id p) supported)"
      using 2(3) False by (auto simp: starts_new_def separate_def)
    ultimately show ?thesis using starts_new_append [OF 2(3)] False r by auto
  qed
qed (simp add: starts_new_def)

lemma polls_start_once:
  assumes "separate starts"
  shows "distinct (fst (polls starts turns {})) \<and> set (fst (polls starts turns {})) = (\<Union>ps\<in>set turns. \<Union>p\<in>set ps. set (starts (prd_Id p)))"
proof -
  have "starts_new starts supported (polls starts turns supported) \<and>
      snd (polls starts turns supported) = supported \<union> (\<Union>ps\<in>set turns. prd_Id ` set ps)" for supported
  proof (induction turns arbitrary: supported)
    case (Cons ps rest)
    obtain xs s1 where x: "start_products starts ps supported = (xs, s1)" by fastforce
    obtain ys s2 where y: "polls starts rest s1 = (ys, s2)" by fastforce
    have "starts_new starts supported (xs, s1)" "s1 = supported \<union> prd_Id ` set ps"
      using start_products_new [OF assms, of supported ps] x by auto
    moreover have "starts_new starts s1 (ys, s2)" "s2 = s1 \<union> (\<Union>ps\<in>set rest. prd_Id ` set ps)" using Cons [of s1] y by auto
    ultimately show ?case using starts_new_append [OF assms] x y by auto
  qed (simp add: starts_new_def)
  from this [of "{}"] show ?thesis by (auto simp: starts_new_def)
qed

end
