(* ===== verification/Spec2Isabelle.thy ===== *)
theory Spec2Isabelle
  imports Applier Service_Properties Engine_Properties Maker_Properties Tick_Maker
    Bill_Executor Fill_Executor Services Push_View Push_Drain Rest_Properties Rest_Candles
    Redis_Stream Push_Ticker Bootstrap
begin

text \<open>
  CheetahExchange is a spot exchange in Go. Three processes share a MySQL database, Kafka topics and Redis:
  \<^item> \<open>cmd/spot-rest\<close> answers HTTP requests. Placing an order stores it, holds its cost and writes it to the
    order topic of its product; cancelling writes the order with the status \<open>cancelling\<close>.
  \<^item> \<open>cmd/spot-core\<close> runs one matching engine for each product, which reads the order topic, matches against its
    book and writes matching logs (open, match, done) to the log topic; makers, which read the log topic and
    store fills, trades and candles; and executors, which settle fills into bills and bills into accounts.
  \<^item> \<open>cmd/spot-pushing\<close> follows the log topic and the changes of the database (the binary log, passed on through
    Redis) and shows order books, matches, tickers, candles, orders, trades and funds to websocket clients.

  The development models these processes as they are written, except for the packages they call and the
  glue in between (below), and proves what makes them correct. The claims have the ids C1 to C40; each stands
  in the theory of the part it is about, with a witness. The other theorems of a part are its lemmas, and
  counterexamples that show where the code does not do what it means to.


  \<^bold>\<open>Conventions.\<close> A struct is a record, its fields prefixed by a short name of the type; a Go string is a
  string, \<open>uint64\<close> is \<open>64 word\<close>, other integers are \<open>int\<close>. Decimals are a linearly ordered ring and ordered maps,
  bcrypt, jwt and the LRU cache are records of operations with the laws their documentation states (theory
  Packages and the theories that use them); the witnesses instantiate them. An error or a panic is a left
  value of a sum (\<open>res\<close>, \<open>dbop\<close>). Goroutines are a state record with a step function over events, where an event
  is one goroutine going from one channel operation to the next; an event that would block is not enabled,
  and stopping and starting the process again is an event (Machines, locales \<open>machine\<close> and \<open>scheduled_machine\<close>).


  \<^bold>\<open>Foundations.\<close>
  \<^item> Prelude (failures, sequences, words), Packages (decimals, ordered maps), Models (\<open>models/models.go\<close>,
    \<open>models/const.go\<close>), Utils (\<open>utils/utils.go\<close>), Machines.


  \<^bold>\<open>Matching\<close> (\<open>matching/\<close>).
  \<^item> Window: \<open>window.go\<close>, the bitmap of order ids seen. It refines a set of ids above a moving bound; the locale
    \<open>dedup\<close> is what the book relies on.
  \<^item> Depth, OrderBook: \<open>order_book.go\<close>, \<open>log.go\<close>. A side is a map and a queue that must agree (\<open>depth_inv\<close>, locale
    \<open>book_side\<close>).
  \<^item> Matching_Spec, Book_Invariant, Book_Correct, Book_Equiv, Match_Facts, Book_Properties, Sample_Book: matching as a function on lists
    in price-time priority, the proof that the code computes it without panic and keeps the book uncrossed,
    and what follows: conservation, priority, best execution, duplicates, snapshots.
  \<^item> Applier, Engine, Engine_Recovery, Engine_Properties, Log_Reader: \<open>engine.go\<close>, \<open>kafka_log_reader.go\<close>. Time in force, the four
    goroutines with crash and restart; the log is exactly that of a run without a crash, and it is drained.
    This is for runs in which a snapshot is approved when its logs are stored and the windows it shares are
    those of its book; two counterexamples show what the code loses otherwise.


  \<^bold>\<open>Database and services\<close> (\<open>models/store.go\<close>, \<open>models/mysql/\<close>, \<open>service/\<close>).
  \<^item> Store: one operation for each statement, over tables as lists, any of which may fail; \<open>with_tx\<close> rolls back.
  \<^item> Accounts, Orders, Settlement, Services, Service_Properties: holds, bills, placing and settling orders, users and tokens. No step
    makes or loses money, and every failing transaction changes nothing.


  \<^bold>\<open>Workers\<close> (\<open>worker/\<close>).
  \<^item> Makers, Fill_Maker, Trade_Maker, Tick_Maker, Maker_Properties: log reader, channel and flusher (locales \<open>log_maker\<close>, \<open>live_log_maker\<close>); fills
    and trades are stored once and in order, and the candles are those of the matches.
  \<^item> Worker_Pool, Bill_Executor, Fill_Executor: workers, inspector and listener (locale \<open>worker_pool\<close>).


  \<^bold>\<open>Push server\<close> (\<open>pushing/\<close>, \<open>models/binlog_stream.go\<close>).
  \<^item> Push_Book, Push_Follow, Push_Correct, Push_Properties: \<open>order_book.go\<close>. The book follows the engine's through its logs.
  \<^item> Push_Stream, Push_Stream_Correct: \<open>order_book_stream.go\<close>, with restarts from stored snapshots.
  \<^item> Push_Messages, Push_Client, Push_Client_Safe, Push_Drain, Push_View: \<open>message.go\<close>, \<open>client.go\<close>, \<open>subscription.go\<close>. Who is subscribed to what,
    that the writers stop with everything delivered, and that the table a client builds is the engine's book
    (locale \<open>level2_feed\<close>, interpreted by the stream).
  \<^item> Push_Feeds, Push_Ticker: \<open>match_stream.go\<close>, \<open>ticker_stream.go\<close>, with the heap of ticker messages that are shared.
  \<^item> Binlog, Binlog_Rows, Redis_Stream: \<open>binlog_stream.go\<close>, \<open>redis_stream.go\<close>. Rows of the tables of \<open>ddl.sql\<close> and \<open>ddl_order.sql\<close> come
    through reflection unchanged and reach their owners and nobody else.


  \<^bold>\<open>HTTP\<close> (\<open>rest/\<close>) and start.
  \<^item> Rest, Rest_Properties, Rest_Candles: every route. What a request may change, whose orders it may send to the engine, and the
    candles it is answered with.
  \<^item> Bootstrap: \<open>matching/bootstrap.go\<close>, \<open>worker/bootstrap.go\<close>, \<open>pushing/bootstrap.go\<close>: each product is served once.


  \<^bold>\<open>Bounds and termination.\<close> There is no fuel: loops over lists are structural, and the loops of the window, of
  the batches of ticks and of the candle rows have a measure. The endless loops of goroutines are step
  functions; that they get somewhere is proved as a schedule that ends (engine, makers, bill executor) or for
  every schedule (the writers of a client). Channels have the capacities of the code.


  \<^bold>\<open>Not modelled.\<close>
  \<^item> Packages: MySQL (statements run one after the other, so isolation levels and locks are not visible, and
    rounding to \<open>decimal(32,16)\<close> when a value is stored is not either), Kafka and Redis clients, JSON, gin, websockets, bcrypt,
    jwt, snowflake ids, canal. Whether a call of theirs works, or a message decodes, is a parameter or an event.
  \<^item> \<open>conf/config.go\<close>, the \<open>main\<close> functions, \<open>initDb\<close>, the constructors of clients, \<open>pushing/server.go\<close>: nothing is decided there.
    \<open>matching/kafka_log_store.go\<close>, \<open>kafka_order_reader.go\<close>, \<open>redis_snapshot_store.go\<close> and the store of snapshots in \<open>pushing/order_book.go\<close> only
    marshal and call.
  \<^item> An error of \<open>SetOffset\<close> or of reading a snapshot at the start, which panics. Pings and deadlines of websocket
    connections. Conversions to floating point, helpers of the bitmap, and \<open>ReceivedLog\<close>, which nothing uses.
  \<^item> Time passes only where the code looks at the clock, which is a parameter; a handler of the HTTP interface
    and of the ticker stream reads it once.
  \<^item> Publishing to the subscribers of a channel, and the check for room before it, are one step.
\<close>

end
